(* ===== verification/Prelude.thy ===== *)
theory Prelude
  imports Main "HOL-Library.List_Lexorder" "HOL-Library.Char_ord"
begin

text \<open>
  Shared foundation of the development.

  \<^item> \<open>res\<close>: Rust's \<open>Result\<close> with a third value for a panic (a failed \<open>expect\<close>, an absent
    index, an overflow or underflow of an unchecked operation). Operations on \<open>&mut self\<close>
    return the result together with the new state.
  \<^item> Unsigned integers are natural numbers with the bound of their width; the checked and
    saturating operations of the standard library carry that bound as an argument.
  \<^item> \<open>bmap\<close>: \<open>BTreeMap\<close>, a finite map whose entries are iterated in ascending key order.
    Strings are byte sequences compared bytewise, as Rust's \<open>str\<close> is.
  \<^item> Generic lemmas: sums over a map, injectivity of the decimal spelling, splitting a name at
    its separator, invariants of transition systems.
\<close>

named_theorems bmap_simps "unconditional equations of the ordered map"
named_theorems op_defs "definitions of the modelled operations"

subsection \<open>Results\<close>

datatype ('e, 'a) res = Ok 'a | Err 'e | Panic

fun and_then :: "('e, 'a) res \<Rightarrow> ('a \<Rightarrow> ('e, 'b) res) \<Rightarrow> ('e, 'b) res" where
  "and_then (Ok x) f = f x"
| "and_then (Err e) f = Err e"
| "and_then Panic f = Panic"

definition ok_or :: "'e \<Rightarrow> 'a option \<Rightarrow> ('e, 'a) res" where
  "ok_or e x = (case x of None \<Rightarrow> Err e | Some v \<Rightarrow> Ok v)"

definition expect :: "'a option \<Rightarrow> ('e, 'a) res" where
  "expect x = (case x of None \<Rightarrow> Panic | Some v \<Rightarrow> Ok v)"

fun is_ok :: "('e, 'a) res \<Rightarrow> bool" where
  "is_ok (Ok x) = True"
| "is_ok _ = False"

text \<open>A \<open>for\<close> loop whose body may return early with an error.\<close>

fun each :: "('a \<Rightarrow> ('e, unit) res) \<Rightarrow> 'a list \<Rightarrow> ('e, unit) res" where
  "each f [] = Ok ()"
| "each f (x # xs) = and_then (f x) (\<lambda>_. each f xs)"

text \<open>Mapping a fallible function over a list, and turning a caught panic into an error.\<close>

fun traverse :: "('a \<Rightarrow> ('e, 'b) res) \<Rightarrow> 'a list \<Rightarrow> ('e, 'b list) res" where
  "traverse f [] = Ok []"
| "traverse f (x # xs) = and_then (f x) (\<lambda>y. and_then (traverse f xs) (\<lambda>ys. Ok (y # ys)))"

fun catch_unwind :: "'e \<Rightarrow> ('e, 'a) res \<Rightarrow> ('e, 'a) res" where
  "catch_unwind message Panic = Err message"
| "catch_unwind message r = r"

lemma ok_or_simps [simp]: "ok_or e None = Err e" "ok_or e (Some v) = Ok v"
  by (simp_all add: ok_or_def)

lemma expect_simps [simp]: "expect None = Panic" "expect (Some v) = Ok v"
  by (simp_all add: expect_def)

lemma ok_or_eq_Ok [simp]: "ok_or e x = Ok v \<longleftrightarrow> x = Some v"
  by (cases x) simp_all

lemma ok_or_not_Panic [simp]: "ok_or e x \<noteq> Panic"
  by (cases x) simp_all

lemma and_then_eq_Ok: "and_then r f = Ok y \<longleftrightarrow> (\<exists>x. r = Ok x \<and> f x = Ok y)"
  by (cases r) simp_all

lemma and_then_eq_Panic: "and_then r f = Panic \<longleftrightarrow> r = Panic \<or> (\<exists>x. r = Ok x \<and> f x = Panic)"
  by (cases r) simp_all

lemma and_then_eq_Err: "and_then r f = Err e \<longleftrightarrow> r = Err e \<or> (\<exists>x. r = Ok x \<and> f x = Err e)"
  by (cases r) simp_all

lemma is_ok_iff: "is_ok r \<longleftrightarrow> (\<exists>x. r = Ok x)"
  by (cases r) simp_all

lemma catch_unwind_not_Panic [simp]: "catch_unwind message r \<noteq> Panic"
  by (cases r) simp_all

lemma traverse_Ok:
  "(\<And>x. x \<in> set xs \<Longrightarrow> f x = Ok (g x)) \<Longrightarrow> traverse f xs = Ok (map g xs)"
  by (induction xs) simp_all

lemma each_eq_Ok [simp]: "each f xs = Ok u \<longleftrightarrow> (\<forall>x \<in> set xs. f x = Ok ())"
  by (induction xs) (auto simp: and_then_eq_Ok)

lemma each_Err: "each f xs = Err e \<Longrightarrow> \<exists>x \<in> set xs. f x = Err e"
  by (induction xs) (auto simp: and_then_eq_Err)

lemma each_Panic: "each f xs = Panic \<Longrightarrow> \<exists>x \<in> set xs. f x = Panic"
  by (induction xs) (auto simp: and_then_eq_Panic)

lemma not_Some_pair [simp]: "(\<forall>a b. x \<noteq> Some (a, b)) \<longleftrightarrow> x = None"
  by (cases x) auto

subsection \<open>Machine integers\<close>

definition u32_max :: nat where "u32_max = 4294967295"
definition u64_max :: nat where "u64_max = 18446744073709551615"
definition u128_max :: nat where "u128_max = 340282366920938463463374607431768211455"

lemmas uint_bounds = u32_max_def u64_max_def u128_max_def

definition checked_add :: "nat \<Rightarrow> nat \<Rightarrow> nat \<Rightarrow> nat option" where
  "checked_add bound a b = (if a + b \<le> bound then Some (a + b) else None)"

definition checked_mul :: "nat \<Rightarrow> nat \<Rightarrow> nat \<Rightarrow> nat option" where
  "checked_mul bound a b = (if a * b \<le> bound then Some (a * b) else None)"

definition checked_sub :: "nat \<Rightarrow> nat \<Rightarrow> nat option" where
  "checked_sub a b = (if b \<le> a then Some (a - b) else None)"

text \<open>Saturating subtraction of unsigned integers is subtraction of natural numbers.\<close>

definition saturating_sub :: "nat \<Rightarrow> nat \<Rightarrow> nat" where
  "saturating_sub a b = a - b"

lemma checked_add_eq_Some [simp]:
  "checked_add bound a b = Some c \<longleftrightarrow> a + b \<le> bound \<and> c = a + b"
  by (auto simp: checked_add_def)

lemma checked_add_eq_None [simp]: "checked_add bound a b = None \<longleftrightarrow> bound < a + b"
  by (auto simp: checked_add_def)

lemma checked_mul_eq_Some [simp]:
  "checked_mul bound a b = Some c \<longleftrightarrow> a * b \<le> bound \<and> c = a * b"
  by (auto simp: checked_mul_def)

lemma checked_mul_eq_None [simp]: "checked_mul bound a b = None \<longleftrightarrow> bound < a * b"
  by (auto simp: checked_mul_def)

lemma checked_sub_eq_Some [simp]: "checked_sub a b = Some c \<longleftrightarrow> b \<le> a \<and> c = a - b"
  by (auto simp: checked_sub_def)

lemma checked_sub_eq_None [simp]: "checked_sub a b = None \<longleftrightarrow> a < b"
  by (auto simp: checked_sub_def)

lemma fold_max_ge: "(x::nat) \<le> fold max xs x"
proof (induction xs arbitrary: x)
  case (Cons y ys)
  then show ?case by (simp add: le_trans [OF max.cobounded2 Cons])
qed simp

subsection \<open>Sorted association lists\<close>

abbreviation ascending :: "('k::linorder \<times> 'v) list \<Rightarrow> bool" where
  "ascending xs \<equiv> sorted_wrt (<) (map fst xs)"

fun put :: "'k::linorder \<Rightarrow> 'v \<Rightarrow> ('k \<times> 'v) list \<Rightarrow> ('k \<times> 'v) list" where
  "put k v [] = [(k, v)]"
| "put k v ((k', v') # xs) =
     (if k < k' then (k, v) # (k', v') # xs
      else if k = k' then (k, v) # xs
      else (k', v') # put k v xs)"

definition drop_key :: "'k \<Rightarrow> ('k \<times> 'v) list \<Rightarrow> ('k \<times> 'v) list" where
  "drop_key k xs = filter (\<lambda>e. fst e \<noteq> k) xs"

lemma fst_set_put: "fst ` set (put k v xs) = insert k (fst ` set xs)"
  by (induction k v xs rule: put.induct) auto

lemma ascending_put: "ascending xs \<Longrightarrow> ascending (put k v xs)"
proof (induction k v xs rule: put.induct)
  case (2 k v k' v' xs)
  have "\<forall>x \<in> fst ` set (put k v xs). k' < x" if "k' < k"
    using "2.prems" that by (simp add: fst_set_put)
  then show ?case
    using 2 by (auto intro: less_trans)
qed simp

lemma map_of_put: "map_of (put k v xs) = (map_of xs)(k \<mapsto> v)"
  by (induction k v xs rule: put.induct) (auto simp: fun_eq_iff)

lemma ascending_drop_key: "ascending xs \<Longrightarrow> ascending (drop_key k xs)"
  by (induction xs) (auto simp: drop_key_def)

lemma map_of_drop_key: "map_of (drop_key k xs) = (map_of xs)(k := None)"
  by (induction xs) (auto simp: drop_key_def fun_eq_iff)

lemma ascending_distinct: "ascending xs \<Longrightarrow> distinct (map fst xs)"
  using strict_sorted_iff by blast

lemma entries_by_lookup:
  "distinct (map fst xs) \<Longrightarrow> map (\<lambda>k. (k, the (map_of xs k))) (map fst xs) = xs"
proof (rule nth_equalityI)
  fix i
  assume "distinct (map fst xs)" and i: "i < length (map (\<lambda>k. (k, the (map_of xs k))) (map fst xs))"
  then have "map_of xs (fst (xs ! i)) = Some (snd (xs ! i))"
    by (simp add: map_of_eq_Some_iff)
  with i show "map (\<lambda>k. (k, the (map_of xs k))) (map fst xs) ! i = xs ! i"
    by simp
qed simp

lemma ascending_unique:
  assumes "ascending xs" "ascending ys" "map_of xs = map_of ys"
  shows "xs = ys"
proof -
  have "set (map fst xs) = set (map fst ys)"
    using assms(3) by (metis dom_map_of_conv_image_fst list.set_map)
  then have keys: "map fst xs = map fst ys"
    using assms(1,2) by (metis strict_sorted_equal)
  show ?thesis
    using entries_by_lookup [OF ascending_distinct [OF assms(1)]]
      entries_by_lookup [OF ascending_distinct [OF assms(2)]] keys assms(3)
    by simp
qed

subsection \<open>Ordered maps\<close>

typedef (overloaded) ('k, 'v) bmap = "{xs :: ('k::linorder \<times> 'v) list. ascending xs}"
  morphisms bm_entries BMap
  by (rule exI [of _ "[]"]) simp

setup_lifting type_definition_bmap

lift_definition bm_empty :: "('k::linorder, 'v) bmap" is "[]"
  by simp

lift_definition bm_insert :: "'k::linorder \<Rightarrow> 'v \<Rightarrow> ('k, 'v) bmap \<Rightarrow> ('k, 'v) bmap" is put
  by (rule ascending_put)

lift_definition bm_remove :: "'k::linorder \<Rightarrow> ('k, 'v) bmap \<Rightarrow> ('k, 'v) bmap" is drop_key
  by (rule ascending_drop_key)

lift_definition bm_map :: "('k \<Rightarrow> 'v \<Rightarrow> 'w) \<Rightarrow> ('k::linorder, 'v) bmap \<Rightarrow> ('k, 'w) bmap"
  is "\<lambda>f. map (\<lambda>(k, v). (k, f k v))"
  by (simp add: case_prod_beta comp_def)

definition bm_get :: "('k::linorder, 'v) bmap \<Rightarrow> 'k \<Rightarrow> 'v option" where
  "bm_get m k = map_of (bm_entries m) k"

definition bm_contains :: "('k::linorder, 'v) bmap \<Rightarrow> 'k \<Rightarrow> bool" where
  "bm_contains m k = (bm_get m k \<noteq> None)"

definition bm_keys :: "('k::linorder, 'v) bmap \<Rightarrow> 'k list" where
  "bm_keys m = map fst (bm_entries m)"

definition bm_values :: "('k::linorder, 'v) bmap \<Rightarrow> 'v list" where
  "bm_values m = map snd (bm_entries m)"

definition bm_is_empty :: "('k::linorder, 'v) bmap \<Rightarrow> bool" where
  "bm_is_empty m = (bm_entries m = [])"

text \<open>\<open>collect\<close> and \<open>extend\<close>: later entries win.\<close>

definition bm_extend :: "('k::linorder, 'v) bmap \<Rightarrow> ('k \<times> 'v) list \<Rightarrow> ('k, 'v) bmap" where
  "bm_extend m xs = fold (\<lambda>(k, v). bm_insert k v) xs m"

abbreviation bm_of_list :: "('k::linorder \<times> 'v) list \<Rightarrow> ('k, 'v) bmap" where
  "bm_of_list xs \<equiv> bm_extend bm_empty xs"

lemma bm_entries_ascending: "ascending (bm_entries m)"
  using bm_entries by auto

lemma bm_keys_distinct: "distinct (bm_keys m)"
  unfolding bm_keys_def by (rule ascending_distinct [OF bm_entries_ascending])

lemma bm_keys_sorted: "sorted (bm_keys m)"
  using bm_entries_ascending [of m] unfolding bm_keys_def
  by (rule strict_sorted_imp_sorted)

lemmas bm_entries_simps [simp, bmap_simps] =
  bm_empty.rep_eq bm_insert.rep_eq bm_remove.rep_eq bm_map.rep_eq

lemma bm_get_empty [simp, bmap_simps]: "bm_get bm_empty k = None"
  by (simp add: bm_get_def)

lemma bm_get_insert [simp, bmap_simps]:
  "bm_get (bm_insert k v m) k' = (if k' = k then Some v else bm_get m k')"
  by (simp add: bm_get_def map_of_put)

lemma bm_get_remove [simp, bmap_simps]:
  "bm_get (bm_remove k m) k' = (if k' = k then None else bm_get m k')"
  by (simp add: bm_get_def map_of_drop_key)

lemma map_of_map_pair: "map_of (map (\<lambda>(k, v). (k, f k v)) xs) k = map_option (f k) (map_of xs k)"
  by (induction xs) auto

lemma bm_get_map [simp, bmap_simps]: "bm_get (bm_map f m) k = map_option (f k) (bm_get m k)"
  by (simp add: bm_get_def map_of_map_pair)

lemma dom_bm_empty [simp]: "dom (bm_get bm_empty) = {}"
  by auto

lemma dom_bm_insert [simp]: "dom (bm_get (bm_insert k v m)) = insert k (dom (bm_get m))"
  by (auto split: if_splits)

lemma dom_bm_remove [simp]: "dom (bm_get (bm_remove k m)) = dom (bm_get m) - {k}"
  by (auto split: if_splits)

lemma bm_contains_iff [simp]: "bm_contains m k \<longleftrightarrow> k \<in> dom (bm_get m)"
  by (auto simp: bm_contains_def)

lemma bm_eqI: "(\<And>k. bm_get m k = bm_get m' k) \<Longrightarrow> m = m'"
  unfolding bm_get_def
  by (metis ascending_unique bm_entries_ascending bm_entries_inject ext)

lemma bm_eq_entries: "m = m' \<longleftrightarrow> bm_entries m = bm_entries m'"
  by (simp add: bm_entries_inject)

text \<open>Equality of maps is decided on their entries, with keys compared by their order.\<close>

instantiation bmap :: (linorder, equal) equal
begin

definition equal_bmap :: "('a, 'b) bmap \<Rightarrow> ('a, 'b) bmap \<Rightarrow> bool" where
  "equal_bmap m m' = list_all2 (\<lambda>(k, v) (k', v'). k \<le> k' \<and> k' \<le> k \<and> v = v') (bm_entries m) (bm_entries m')"

instance
proof
  fix m m' :: "('a, 'b) bmap"
  have "(\<lambda>(k, v) (k', v'). k \<le> k' \<and> k' \<le> k \<and> v = v') = ((=) :: 'a \<times> 'b \<Rightarrow> _)"
    by (auto simp: fun_eq_iff)
  then show "equal_class.equal m m' \<longleftrightarrow> m = m'" by (simp add: equal_bmap_def list.rel_eq bm_entries_inject)
qed

end

lemma set_bm_keys: "set (bm_keys m) = dom (bm_get m)"
  unfolding bm_keys_def bm_get_def [abs_def] by (simp add: dom_map_of_conv_image_fst)

lemma bm_get_iff_entry: "bm_get m k = Some v \<longleftrightarrow> (k, v) \<in> set (bm_entries m)"
  unfolding bm_get_def
  by (rule map_of_eq_Some_iff) (rule ascending_distinct [OF bm_entries_ascending])

lemma set_bm_values: "set (bm_values m) = ran (bm_get m)"
  unfolding bm_values_def ran_def by (force simp: bm_get_iff_entry)

lemma finite_bm_dom [simp]: "finite (dom (bm_get m))"
  by (simp flip: set_bm_keys)

lemma bm_is_empty_iff: "bm_is_empty m \<longleftrightarrow> m = bm_empty"
  unfolding bm_is_empty_def by (metis bm_empty.rep_eq bm_entries_inject)

lemma map_of_rev: "distinct (map fst xs) \<Longrightarrow> map_of (rev xs) = map_of xs"
  by (subst map_of_inject_set) (simp_all flip: rev_map)

lemma bm_get_extend: "bm_get (bm_extend m xs) = bm_get m ++ map_of (rev xs)"
  unfolding bm_extend_def
  by (induction xs arbitrary: m) (auto simp: fun_eq_iff map_add_def split: option.splits)

subsection \<open>Sums over a map\<close>

definition bm_sum :: "('k \<Rightarrow> 'v \<Rightarrow> nat) \<Rightarrow> ('k::linorder, 'v) bmap \<Rightarrow> nat" where
  "bm_sum f m = (\<Sum>(k, v)\<leftarrow>bm_entries m. f k v)"

lemma bm_sum_empty [simp]: "bm_sum f bm_empty = 0"
  by (simp add: bm_sum_def)

lemma sum_put:
  "ascending xs \<Longrightarrow>
   (\<Sum>(k, v)\<leftarrow>put k0 v0 xs. f k v) + (case map_of xs k0 of None \<Rightarrow> 0 | Some w \<Rightarrow> f k0 w)
     = (\<Sum>(k, v)\<leftarrow>xs. f k v) + (f k0 v0 :: nat)"
proof (induction k0 v0 xs rule: put.induct)
  case (2 k v k' v' xs)
  have "map_of xs k = None" if "k \<le> k'"
    using "2.prems" that by (force simp: map_of_eq_None_iff)
  then show ?case
    using 2 by (auto split: option.splits)
qed simp

lemma sum_drop_key:
  "ascending xs \<Longrightarrow>
   (\<Sum>(k, v)\<leftarrow>drop_key k0 xs. f k v) + (case map_of xs k0 of None \<Rightarrow> 0 | Some w \<Rightarrow> f k0 w)
     = ((\<Sum>(k, v)\<leftarrow>xs. f k v) :: nat)"
proof (induction xs)
  case (Cons e xs)
  have "drop_key k0 xs = xs" if "k0 = fst e"
    using Cons.prems that by (fastforce simp: drop_key_def intro: filter_True)
  moreover have "map_of xs k0 = None" if "k0 = fst e"
    using Cons.prems that by (force simp: map_of_eq_None_iff)
  ultimately show ?case
    using Cons by (cases e) (auto simp: drop_key_def split: option.splits)
qed (simp add: drop_key_def)

lemma bm_sum_insert:
  "bm_sum f (bm_insert k v m) + (case bm_get m k of None \<Rightarrow> 0 | Some w \<Rightarrow> f k w) = bm_sum f m + f k v"
  using sum_put [OF bm_entries_ascending [of m], where f = f and ?k0.0 = k and ?v0.0 = v] by (simp add: bm_sum_def bm_get_def)

lemma bm_sum_remove:
  "bm_sum f (bm_remove k m) + (case bm_get m k of None \<Rightarrow> 0 | Some w \<Rightarrow> f k w) = bm_sum f m"
  using sum_drop_key [OF bm_entries_ascending [of m], where f = f and ?k0.0 = k] by (simp add: bm_sum_def bm_get_def)

lemma bm_sum_insert_fresh: "bm_get m k = None \<Longrightarrow> bm_sum f (bm_insert k v m) = bm_sum f m + f k v"
  using bm_sum_insert [of f k v m] by simp

lemma bm_sum_insert_upd:
  "bm_get m k = Some w \<Longrightarrow> bm_sum f (bm_insert k v m) + f k w = bm_sum f m + f k v"
  using bm_sum_insert [of f k v m] by simp

lemma bm_sum_remove_Some: "bm_get m k = Some w \<Longrightarrow> bm_sum f (bm_remove k m) + f k w = bm_sum f m"
  using bm_sum_remove [of f k m] by simp

lemma bm_sum_ge: "bm_get m k = Some w \<Longrightarrow> f k w \<le> bm_sum f m"
  using bm_sum_remove_Some [of m k w f] by simp

lemma bm_sum_cong:
  "(\<And>k v. bm_get m k = Some v \<Longrightarrow> f k v = g k v) \<Longrightarrow> bm_sum f m = bm_sum g m"
  unfolding bm_sum_def bm_get_iff_entry
  by (rule arg_cong [of _ _ sum_list], rule map_cong) auto

lemma bm_sum_mono:
  "(\<And>k v. bm_get m k = Some v \<Longrightarrow> f k v \<le> g k v) \<Longrightarrow> bm_sum f m \<le> bm_sum g m"
  unfolding bm_sum_def bm_get_iff_entry by (rule sum_list_mono) auto

lemma bm_sum_map: "bm_sum f (bm_map g m) = bm_sum (\<lambda>k v. f k (g k v)) m"
  by (simp add: bm_sum_def case_prod_unfold comp_def)

lemma bm_sum_add: "bm_sum (\<lambda>k v. f k v + g k v) m = bm_sum f m + bm_sum g m"
  by (simp add: bm_sum_def case_prod_unfold sum_list_addf)

lemma bm_sum_0: "(\<And>k v. bm_get m k = Some v \<Longrightarrow> f k v = 0) \<Longrightarrow> bm_sum f m = 0"
  using bm_sum_cong [of m f "\<lambda>_ _. 0"] by (simp add: bm_sum_def case_prod_beta)

lemma sum_entries_dom:
  "distinct (map fst xs) \<Longrightarrow> (\<Sum>(k, v)\<leftarrow>xs. f k v) = (\<Sum>k\<in>dom (map_of xs). f k (the (map_of xs k)) :: nat)"
proof (induction xs)
  case (Cons x xs)
  obtain k v where x: "x = (k, v)" by (cases x)
  have k: "k \<notin> dom (map_of xs)" using Cons.prems by (simp add: x dom_map_of_conv_image_fst)
  have "(\<Sum>j\<in>dom (map_of xs). f j (the (map_of (x # xs) j))) = (\<Sum>j\<in>dom (map_of xs). f j (the (map_of xs j)))"
    by (rule sum.cong) (use k in \<open>auto simp: x\<close>)
  moreover have "dom (map_of (x # xs)) = insert k (dom (map_of xs))" by (auto simp: x)
  ultimately have "(\<Sum>j\<in>dom (map_of (x # xs)). f j (the (map_of (x # xs) j)))
      = f k v + (\<Sum>j\<in>dom (map_of xs). f j (the (map_of xs j)))"
    using k by (simp only: sum.insert [OF finite_dom_map_of k]) (simp add: x)
  then show ?case using Cons.IH Cons.prems unfolding x by (simp del: map_of.simps)
qed simp

lemma bm_sum_dom: "bm_sum f m = (\<Sum>k\<in>dom (bm_get m). f k (the (bm_get m k)))"
  unfolding bm_sum_def bm_get_def [abs_def]
  by (rule sum_entries_dom) (rule ascending_distinct [OF bm_entries_ascending])

lemma bm_sum_reindex:
  assumes "\<And>k v. bm_get m k = Some v \<Longrightarrow> \<exists>w. bm_get r k = Some w \<and> g k w = f k v"
    and "\<And>k w. bm_get r k = Some w \<Longrightarrow> bm_get m k = None \<Longrightarrow> g k w = 0"
  shows "bm_sum f m = bm_sum g r"
  unfolding bm_sum_dom
  by (rule sum.mono_neutral_cong_left) (use assms in \<open>fastforce+\<close>)

subsection \<open>Decimal spelling\<close>

definition digit :: "nat \<Rightarrow> char" where
  "digit n = char_of (48 + n)"

lemma digit_simps:
  "digit 0 = CHR ''0''" "digit 1 = CHR ''1''" "digit (Suc 0) = CHR ''1''" "digit 2 = CHR ''2''"
  "digit 3 = CHR ''3''" "digit 4 = CHR ''4''" "digit 5 = CHR ''5''" "digit 6 = CHR ''6''"
  "digit 7 = CHR ''7''" "digit 8 = CHR ''8''" "digit 9 = CHR ''9''"
  by code_simp+

fun show_nat :: "nat \<Rightarrow> string" where
  "show_nat n = (if n < 10 then [digit n] else show_nat (n div 10) @ [digit (n mod 10)])"

declare show_nat.simps [simp del]

definition read_nat :: "string \<Rightarrow> nat" where
  "read_nat s = foldl (\<lambda>a c. 10 * a + (of_char c - 48)) 0 s"

lemma of_char_digit: "n < 10 \<Longrightarrow> (of_char (digit n) :: nat) = 48 + n"
  by (simp add: digit_def)

lemma read_show_nat: "read_nat (show_nat n) = n"
proof (induction n rule: show_nat.induct)
  case (1 n)
  then show ?case
    by (cases "n < 10") (simp_all add: show_nat.simps [of n] read_nat_def of_char_digit)
qed

lemma show_nat_inject [simp]: "show_nat m = show_nat n \<longleftrightarrow> m = n"
  by (metis read_show_nat)

subsection \<open>Names and paths\<close>

fun split_on :: "char \<Rightarrow> string \<Rightarrow> string list" where
  "split_on c [] = [[]]"
| "split_on c (x # xs) =
     (if x = c then [] # split_on c xs
      else (case split_on c xs of [] \<Rightarrow> [[x]] | y # ys \<Rightarrow> (x # y) # ys))"

fun split_once :: "char \<Rightarrow> string \<Rightarrow> (string \<times> string) option" where
  "split_once c [] = None"
| "split_once c (x # xs) = (if x = c then Some ([], xs) else map_option (apfst (Cons x)) (split_once c xs))"

definition rsplit_once :: "char \<Rightarrow> string \<Rightarrow> (string \<times> string) option" where
  "rsplit_once c s = map_option (\<lambda>(a, b). (rev b, rev a)) (split_once c (rev s))"

definition strip_prefix :: "string \<Rightarrow> string \<Rightarrow> string option" where
  "strip_prefix p s = (if take (length p) s = p then Some (drop (length p) s) else None)"

definition starts_with :: "string \<Rightarrow> char \<Rightarrow> bool" where
  "starts_with s c = (case s of [] \<Rightarrow> False | x # _ \<Rightarrow> x = c)"

lemma strip_prefix_iff: "strip_prefix p s = Some t \<longleftrightarrow> s = p @ t"
  by (auto simp: strip_prefix_def) (metis append_take_drop_id)

lemma split_on_ne: "split_on c s \<noteq> []"
  by (induction c s rule: split_on.induct) (auto split: list.splits)

lemma split_on_append: "split_on c (s @ c # t) = split_on c s @ split_on c t"
  by (induction c s rule: split_on.induct) (auto split: list.splits simp: split_on_ne)

lemma split_on_absent: "c \<notin> set s \<Longrightarrow> split_on c s = [s]"
  by (induction c s rule: split_on.induct) auto

subsection \<open>Transition systems\<close>

text \<open>Reachability, and the rule that an invariant of the steps holds of every reachable state.\<close>

inductive reach :: "('s \<Rightarrow> bool) \<Rightarrow> ('s \<Rightarrow> 's \<Rightarrow> bool) \<Rightarrow> 's \<Rightarrow> bool"
  for init :: "'s \<Rightarrow> bool" and step :: "'s \<Rightarrow> 's \<Rightarrow> bool" where
  reach_init: "init s \<Longrightarrow> reach init step s"
| reach_step: "reach init step s \<Longrightarrow> step s t \<Longrightarrow> reach init step t"

locale invariant =
  fixes init :: "'s \<Rightarrow> bool"
    and step :: "'s \<Rightarrow> 's \<Rightarrow> bool"
    and inv :: "'s \<Rightarrow> bool"
  assumes inv_init: "init s \<Longrightarrow> inv s"
    and inv_step: "inv s \<Longrightarrow> step s t \<Longrightarrow> inv t"
begin

lemma reach_inv: "reach init step s \<Longrightarrow> inv s"
  by (induction rule: reach.induct) (auto intro: inv_init inv_step)

lemma steps_inv: "inv s \<Longrightarrow> step\<^sup>*\<^sup>* s t \<Longrightarrow> inv t"
  by (rotate_tac 1, induction rule: rtranclp_induct) (auto intro: inv_step)

end

subsection \<open>The ordered-map contract\<close>

text \<open>
  What every component relies on of its maps: lookup after an insert or a removal, and entries
  enumerated once each in ascending key order. The account sums of the ledgers follow from it.
\<close>

locale ordered_map =
  fixes empty :: "'m"
    and insert_kv :: "'k::linorder \<Rightarrow> 'v \<Rightarrow> 'm \<Rightarrow> 'm"
    and remove_key :: "'k \<Rightarrow> 'm \<Rightarrow> 'm"
    and get :: "'m \<Rightarrow> 'k \<Rightarrow> 'v option"
    and entries :: "'m \<Rightarrow> ('k \<times> 'v) list"
  assumes get_empty: "get empty k = None"
    and get_insert: "get (insert_kv k v m) k' = (if k' = k then Some v else get m k')"
    and get_remove: "get (remove_key k m) k' = (if k' = k then None else get m k')"
    and get_entries: "get m k = map_of (entries m) k"
    and entries_ascending: "ascending (entries m)"
begin

lemma entries_insert: "entries (insert_kv k v m) = put k v (entries m)"
  by (rule ascending_unique)
    (auto simp: entries_ascending ascending_put map_of_put fun_eq_iff simp flip: get_entries
      simp: get_insert)

lemma entries_empty: "entries empty = []"
  using get_empty get_entries by (metis list.set_intros(1) map_of_eq_None_iff
      empty_iff list.exhaust fst_conv image_eqI surj_pair)

end

interpretation btree: ordered_map bm_empty bm_insert bm_remove bm_get bm_entries
  by unfold_locales (simp_all add: bm_get_def map_of_put map_of_drop_key bm_entries_ascending)

end
