(* ===== verification/Fencing.thy ===== *)
theory Fencing
  imports Prelude
begin

text \<open>
  Attempt identities, fencing and charges of \<^verbatim>\<open>crates/review-attempt/src/fencing.rs\<close>, with the
  hex spelling of \<^verbatim>\<open>crates/review-core/src/hex.rs\<close>.

  SHA-256 is the \<open>sha2\<close> crate: it is the parameter \<open>sha\<close> of every definition that hashes, a map
  from bytes to the digest's bytes. What the ledger relies on is that the truncated identities of
  the attempts it dispatches differ; that is the hypothesis \<open>inj_on\<close> of the theorems, over the
  (finitely many) node and epoch pairs a run dispatches. The preimage itself is proved injective.
\<close>

subsection \<open>Identities\<close>

definition hex_digit :: "nat \<Rightarrow> char" where
  "hex_digit n = (if n < 10 then char_of (48 + n) else char_of (87 + n))"

definition hex_byte :: "char \<Rightarrow> string" where
  "hex_byte b = [hex_digit (of_char b div 16), hex_digit (of_char b mod 16)]"

definition hex_encode :: "string \<Rightarrow> string" where
  "hex_encode bytes = foldl (\<lambda>encoded b. encoded @ hex_byte b) [] bytes"

fun be_bytes :: "nat \<Rightarrow> nat \<Rightarrow> string" where
  "be_bytes 0 n = []"
| "be_bytes (Suc k) n = be_bytes k (n div 256) @ [char_of (n mod 256)]"

definition to_be_bytes :: "nat \<Rightarrow> string" where
  "to_be_bytes n = be_bytes 8 n"

definition scoped_preimage :: "string \<Rightarrow> string \<Rightarrow> nat \<Rightarrow> string" where
  "scoped_preimage round_event_id node epoch =
     concat (map (\<lambda>part. to_be_bytes (length part) @ part) [round_event_id, node, to_be_bytes epoch])"

definition attempt_id_scoped :: "(string \<Rightarrow> string) \<Rightarrow> string \<Rightarrow> string \<Rightarrow> nat \<Rightarrow> string" where
  "attempt_id_scoped sha round_event_id node epoch =
     take 26 (hex_encode (sha (scoped_preimage round_event_id node epoch)))"

subsection \<open>Data\<close>

datatype AttemptState = Running | SelectedState | Fenced | QuarantinedState

record Attempt =
  att_id :: string
  att_node :: string
  att_epoch :: nat
  att_state :: AttemptState
  att_charged :: nat

record ExactReceipt =
  rcpt_attempt :: string
  rcpt_cost :: nat

datatype Selection = Selected | Quarantined

record AttemptLedger =
  al_attempts :: "(string, Attempt) bmap"
  al_charged_total :: nat
  al_current :: "(string, nat) bmap"
  al_namespace :: string

datatype AttemptError = ChargeTotalOverflow

subsection \<open>Operations\<close>

definition attempt_ledger_scoped :: "string \<Rightarrow> (string, nat) bmap \<Rightarrow> AttemptLedger" where
  "attempt_ledger_scoped namespace prior_attempt_counts =
     \<lparr>al_attempts = bm_empty, al_charged_total = 0,
      al_current = bm_of_list (List.map_filter
        (\<lambda>(node, count). map_option (\<lambda>epoch. (node, epoch)) (checked_sub count 1))
        (bm_entries prior_attempt_counts)),
      al_namespace = namespace\<rparr>"

definition ledger_id :: "(string \<Rightarrow> string) \<Rightarrow> AttemptLedger \<Rightarrow> string \<Rightarrow> nat \<Rightarrow> string" where
  "ledger_id sha l node epoch = attempt_id_scoped sha (al_namespace l) node epoch"

definition fence :: "(string \<Rightarrow> string) \<Rightarrow> AttemptLedger \<Rightarrow> string \<Rightarrow> AttemptLedger" where
  "fence sha l node =
     (case bm_get (al_current l) node of
        None \<Rightarrow> l
      | Some epoch \<Rightarrow>
          (let aid = ledger_id sha l node epoch in
           case bm_get (al_attempts l) aid of
             None \<Rightarrow> l
           | Some a \<Rightarrow>
               if att_state a = Running
               then l\<lparr>al_attempts := bm_insert aid (a\<lparr>att_state := Fenced\<rparr>) (al_attempts l)\<rparr>
               else l))"

definition dispatch ::
  "(string \<Rightarrow> string) \<Rightarrow> AttemptLedger \<Rightarrow> string \<Rightarrow> (AttemptError, string) res \<times> AttemptLedger"
where
  "dispatch sha l node =
     (case (case bm_get (al_current l) node of
              None \<Rightarrow> Ok 0
            | Some e \<Rightarrow> expect (checked_add u64_max e 1)) of
        Ok epoch \<Rightarrow>
          (let l1 = (if 0 < epoch then fence sha l node else l);
               aid = ledger_id sha l1 node epoch in
           (Ok aid, l1\<lparr>al_current := bm_insert node epoch (al_current l1),
              al_attempts := bm_insert aid
                \<lparr>att_id = aid, att_node = node, att_epoch = epoch, att_state = Running,
                 att_charged = 0\<rparr> (al_attempts l1)\<rparr>))
      | Err e \<Rightarrow> (Err e, l)
      | Panic \<Rightarrow> (Panic, l))"

definition set_charge ::
  "AttemptLedger \<Rightarrow> string \<Rightarrow> nat \<Rightarrow> (AttemptError, unit) res \<times> AttemptLedger"
where
  "set_charge l aid amount =
     (case bm_get (al_attempts l) aid of
        None \<Rightarrow> (Ok (), l)
      | Some existing \<Rightarrow>
          (case Option.bind (checked_sub (al_charged_total l) (att_charged existing))
                  (\<lambda>rest. checked_add u128_max rest amount) of
             None \<Rightarrow> (Err ChargeTotalOverflow, l)
           | Some tot \<Rightarrow>
               (Ok (), l\<lparr>al_attempts := bm_insert aid (existing\<lparr>att_charged := amount\<rparr>) (al_attempts l),
                  al_charged_total := tot\<rparr>)))"

definition attempt_charge_exact ::
  "AttemptLedger \<Rightarrow> string \<Rightarrow> nat \<Rightarrow> (AttemptError, unit) res \<times> AttemptLedger"
where
  "attempt_charge_exact l aid amount =
     (case bm_get (al_attempts l) aid of
        None \<Rightarrow> (Ok (), l)
      | Some existing \<Rightarrow> set_charge l aid (max amount (att_charged existing)))"

definition select_receipt :: "AttemptLedger \<Rightarrow> string \<Rightarrow> Selection \<times> AttemptLedger" where
  "select_receipt l aid =
     (case bm_get (al_attempts l) aid of
        None \<Rightarrow> (Quarantined, l)
      | Some a \<Rightarrow>
          if bm_get (al_current l) (att_node a) = Some (att_epoch a) \<and> att_state a \<noteq> Fenced
          then (Selected, l\<lparr>al_attempts := bm_insert aid (a\<lparr>att_state := SelectedState\<rparr>) (al_attempts l)\<rparr>)
          else (Quarantined,
            l\<lparr>al_attempts := bm_insert aid (a\<lparr>att_state := QuarantinedState\<rparr>) (al_attempts l)\<rparr>))"

definition admit_exact ::
  "AttemptLedger \<Rightarrow> ExactReceipt \<Rightarrow> (AttemptError, Selection) res \<times> AttemptLedger"
where
  "admit_exact l receipt =
     (case attempt_charge_exact l (rcpt_attempt receipt) (rcpt_cost receipt) of
        (Ok _, l') \<Rightarrow> (let (sel, l'') = select_receipt l' (rcpt_attempt receipt) in (Ok sel, l''))
      | (Err e, l') \<Rightarrow> (Err e, l')
      | (Panic, l') \<Rightarrow> (Panic, l'))"

definition attempt :: "AttemptLedger \<Rightarrow> string \<Rightarrow> Attempt option" where
  "attempt l aid = bm_get (al_attempts l) aid"

subsection \<open>Identities are determined by their parts\<close>

lemma length_be_bytes [simp]: "length (be_bytes k n) = k"
  by (induction k n rule: be_bytes.induct) simp_all

lemma length_to_be_bytes [simp]: "length (to_be_bytes n) = 8"
  by (simp add: to_be_bytes_def)

lemma to_be_bytes_Suc: "to_be_bytes n = be_bytes 7 (n div 256) @ [char_of (n mod 256)]"
  using be_bytes.simps(2) [of 7 n] by (simp add: to_be_bytes_def)

definition from_be_bytes :: "string \<Rightarrow> nat" where
  "from_be_bytes bs = foldl (\<lambda>acc b. 256 * acc + of_char b) 0 bs"

lemma from_be_bytes: "from_be_bytes (be_bytes k n) = n mod 256 ^ k"
  by (induction k n rule: be_bytes.induct) (simp_all add: from_be_bytes_def mod_mult2_eq)

lemma to_be_bytes_inject:
  assumes "m \<le> u64_max" "n \<le> u64_max"
  shows "to_be_bytes m = to_be_bytes n \<longleftrightarrow> m = n"
proof -
  have "from_be_bytes (to_be_bytes k) = k" if "k \<le> u64_max" for k
    using that by (simp add: to_be_bytes_def from_be_bytes u64_max_def)
  then show ?thesis
    using assms by metis
qed

lemma length_hex_encode [simp]: "length (hex_encode bs) = 2 * length bs"
  by (induction bs rule: rev_induct) (simp_all add: hex_encode_def hex_byte_def)

lemma hex_digit_inject: "m < 16 \<Longrightarrow> n < 16 \<Longrightarrow> hex_digit m = hex_digit n \<longleftrightarrow> m = n"
  by (auto simp: hex_digit_def split: if_splits dest!: arg_cong [of _ _ "of_char :: char \<Rightarrow> nat"])

lemma hex_byte_inject [simp]: "hex_byte a = hex_byte b \<longleftrightarrow> a = b"
proof
  assume eq: "hex_byte a = hex_byte b"
  have "(of_char a :: nat) < 256" "(of_char b :: nat) < 256" by simp_all
  then have "(of_char a :: nat) div 16 < 16" "(of_char b :: nat) div 16 < 16"
    by (simp_all add: less_mult_imp_div_less)
  with eq have "(of_char a :: nat) div 16 = of_char b div 16" "(of_char a :: nat) mod 16 = of_char b mod 16"
    by (simp_all add: hex_byte_def hex_digit_inject)
  then have "(of_char a :: nat) = of_char b"
    by (metis mult_div_mod_eq)
  then show "a = b" by simp
qed simp

lemma hex_encode_Cons: "hex_encode (b # bs) = hex_byte b @ hex_encode bs"
proof -
  have "foldl (\<lambda>e b. e @ hex_byte b) acc bs = acc @ foldl (\<lambda>e b. e @ hex_byte b) [] bs" for acc
    by (induction bs rule: rev_induct) simp_all
  from this [of "hex_byte b"] show ?thesis by (simp add: hex_encode_def)
qed

lemma hex_encode_Nil [simp]: "hex_encode [] = []"
  by (simp add: hex_encode_def)

lemma length_hex_byte [simp]: "length (hex_byte b) = 2"
  by (simp add: hex_byte_def)

lemma hex_byte_ne [simp]: "hex_byte b \<noteq> []"
  by (simp add: hex_byte_def)

lemma hex_encode_inject: "hex_encode xs = hex_encode ys \<longleftrightarrow> xs = ys"
proof (induction xs arbitrary: ys)
  case Nil
  then show ?case by (cases ys) (simp_all add: hex_encode_Cons)
next
  case (Cons x xs)
  then show ?case by (cases ys) (simp_all add: hex_encode_Cons)
qed

lemma scoped_preimage_inject:
  assumes "length ns \<le> u64_max" "length ns' \<le> u64_max" "length node \<le> u64_max" "length node' \<le> u64_max"
    "epoch \<le> u64_max" "epoch' \<le> u64_max"
    and eq: "scoped_preimage ns node epoch = scoped_preimage ns' node' epoch'"
  shows "ns = ns' \<and> node = node' \<and> epoch = epoch'"
proof -
  have 1: "to_be_bytes (length ns) = to_be_bytes (length ns')"
    "ns @ to_be_bytes (length node) @ node @ to_be_bytes 8 @ to_be_bytes epoch
      = ns' @ to_be_bytes (length node') @ node' @ to_be_bytes 8 @ to_be_bytes epoch'"
    using eq by (simp_all add: scoped_preimage_def)
  then have ns: "ns = ns'"
    "to_be_bytes (length node) @ node @ to_be_bytes 8 @ to_be_bytes epoch
      = to_be_bytes (length node') @ node' @ to_be_bytes 8 @ to_be_bytes epoch'"
    using assms(1,2) by (simp_all add: to_be_bytes_inject)
  then have 2: "to_be_bytes (length node) = to_be_bytes (length node')"
    "node @ to_be_bytes 8 @ to_be_bytes epoch = node' @ to_be_bytes 8 @ to_be_bytes epoch'"
    by simp_all
  then have "node = node'" "to_be_bytes epoch = to_be_bytes epoch'"
    using assms(3,4) by (simp_all add: to_be_bytes_inject)
  with ns(1) assms(5,6) show ?thesis
    by (simp add: to_be_bytes_inject)
qed

subsection \<open>The attempt-ledger invariant\<close>

definition next_epoch :: "AttemptLedger \<Rightarrow> string \<Rightarrow> nat" where
  "next_epoch l node = (case bm_get (al_current l) node of None \<Rightarrow> 0 | Some e \<Rightarrow> e + 1)"

text \<open>An attempt is filed under its identity, never ahead of its node's epoch, and no longer
  running once it is behind it.\<close>

definition attempt_wf :: "(string \<Rightarrow> string) \<Rightarrow> AttemptLedger \<Rightarrow> string \<Rightarrow> Attempt \<Rightarrow> bool" where
  "attempt_wf sha l aid a \<longleftrightarrow>
     aid = ledger_id sha l (att_node a) (att_epoch a) \<and> att_id a = aid \<and>
     (\<exists>c. bm_get (al_current l) (att_node a) = Some c \<and> att_epoch a \<le> c \<and>
        (att_epoch a < c \<longrightarrow> att_state a \<noteq> Running))"

definition attempts_inv :: "(string \<Rightarrow> string) \<Rightarrow> AttemptLedger \<Rightarrow> bool" where
  "attempts_inv sha l \<longleftrightarrow>
     (\<forall>aid a. bm_get (al_attempts l) aid = Some a \<longrightarrow> attempt_wf sha l aid a) \<and>
     al_charged_total l = bm_sum (\<lambda>_. att_charged) (al_attempts l) \<and>
     al_charged_total l \<le> u128_max"

lemma attempts_invD:
  assumes "attempts_inv sha l"
  shows "bm_get (al_attempts l) aid = Some a \<Longrightarrow> attempt_wf sha l aid a"
    and "al_charged_total l = bm_sum (\<lambda>_. att_charged) (al_attempts l)"
    and "al_charged_total l \<le> u128_max"
  using assms by (auto simp: attempts_inv_def)

text \<open>Replacing one attempt's state or charge, the only updates besides \<open>dispatch\<close>.\<close>

definition put_attempt :: "AttemptLedger \<Rightarrow> string \<Rightarrow> Attempt \<Rightarrow> AttemptLedger" where
  "put_attempt l aid a = l\<lparr>al_attempts := bm_insert aid a (al_attempts l)\<rparr>"

lemma put_attempt_simps [simp]:
  "al_current (put_attempt l aid a) = al_current l"
  "al_charged_total (put_attempt l aid a) = al_charged_total l"
  "al_namespace (put_attempt l aid a) = al_namespace l"
  "al_attempts (put_attempt l aid a) = bm_insert aid a (al_attempts l)"
  by (simp_all add: put_attempt_def)

lemma restate_inv:
  assumes inv: "attempts_inv sha l" and a: "bm_get (al_attempts l) aid = Some a" and "st \<noteq> Running"
  shows "attempts_inv sha (put_attempt l aid (a\<lparr>att_state := st\<rparr>))"
  unfolding attempts_inv_def
  using attempts_invD [OF inv] a assms(3) bm_sum_insert_upd [OF a, of "\<lambda>_. att_charged" "a\<lparr>att_state := st\<rparr>"]
  by (auto simp: attempt_wf_def ledger_id_def split: if_splits)

lemma fence_cases:
  obtains (same) "fence sha l node = l"
    "\<And>c a. bm_get (al_current l) node = Some c \<Longrightarrow>
       bm_get (al_attempts l) (ledger_id sha l node c) = Some a \<Longrightarrow> att_state a \<noteq> Running"
  | (fenced) c a where "bm_get (al_current l) node = Some c"
      "bm_get (al_attempts l) (ledger_id sha l node c) = Some a" "att_state a = Running"
      "fence sha l node = put_attempt l (ledger_id sha l node c) (a\<lparr>att_state := Fenced\<rparr>)"
  unfolding fence_def put_attempt_def Let_def
  by (cases "bm_get (al_current l) node";
      cases "bm_get (al_attempts l) (ledger_id sha l node (the (bm_get (al_current l) node)))")
    (auto split: if_splits)

lemma fence_simps [simp]:
  "al_current (fence sha l node) = al_current l"
  "al_charged_total (fence sha l node) = al_charged_total l"
  "al_namespace (fence sha l node) = al_namespace l"
  by (cases rule: fence_cases [of sha l node]; simp)+

lemma fence_inv: "attempts_inv sha l \<Longrightarrow> attempts_inv sha (fence sha l node)"
  by (cases rule: fence_cases [of sha l node]) (simp_all add: restate_inv)

lemma fenced_not_running:
  assumes "bm_get (al_current l) node = Some c"
    and "bm_get (al_attempts (fence sha l node)) (ledger_id sha l node c) = Some a"
  shows "att_state a \<noteq> Running"
  using assms by (cases rule: fence_cases [of sha l node]) auto

lemma set_charge_cases:
  assumes inv: "attempts_inv sha l"
  obtains (unknown) "bm_get (al_attempts l) aid = None" "set_charge l aid amount = (Ok (), l)"
  | (overflow) a where "bm_get (al_attempts l) aid = Some a"
      "u128_max < al_charged_total l - att_charged a + amount"
      "set_charge l aid amount = (Err ChargeTotalOverflow, l)"
  | (charged) a where "bm_get (al_attempts l) aid = Some a"
      "al_charged_total l - att_charged a + amount \<le> u128_max"
      "set_charge l aid amount = (Ok (), put_attempt
         (l\<lparr>al_charged_total := al_charged_total l - att_charged a + amount\<rparr>) aid (a\<lparr>att_charged := amount\<rparr>))"
proof (cases "bm_get (al_attempts l) aid")
  case None
  then show ?thesis by (intro unknown) (simp_all add: set_charge_def)
next
  case (Some a)
  have "att_charged a \<le> al_charged_total l"
    using bm_sum_ge [OF Some, of "\<lambda>_. att_charged"] attempts_invD(2) [OF inv] by simp
  then show ?thesis
    using Some overflow charged
    by (cases "al_charged_total l - att_charged a + amount \<le> u128_max")
      (auto simp: set_charge_def checked_sub_def checked_add_def put_attempt_def)
qed

lemma set_charge_inv:
  assumes inv: "attempts_inv sha l"
  shows "attempts_inv sha (snd (set_charge l aid amount))"
  using inv
proof (cases rule: set_charge_cases [of sha l aid amount])
  case (charged a)
  have "att_charged a \<le> al_charged_total l"
    using bm_sum_ge [OF charged(1), of "\<lambda>_. att_charged"] attempts_invD(2) [OF inv] by simp
  then show ?thesis
    unfolding charged(3) attempts_inv_def
    using attempts_invD [OF inv] charged(1,2)
      bm_sum_insert_upd [OF charged(1), of "\<lambda>_. att_charged" "a\<lparr>att_charged := amount\<rparr>"]
    by (auto simp: attempt_wf_def ledger_id_def split: if_splits)
qed (simp_all add: inv)

lemma select_receipt_eq:
  "select_receipt l aid =
     (case bm_get (al_attempts l) aid of
        None \<Rightarrow> (Quarantined, l)
      | Some a \<Rightarrow>
          if bm_get (al_current l) (att_node a) = Some (att_epoch a) \<and> att_state a \<noteq> Fenced
          then (Selected, put_attempt l aid (a\<lparr>att_state := SelectedState\<rparr>))
          else (Quarantined, put_attempt l aid (a\<lparr>att_state := QuarantinedState\<rparr>)))"
  by (simp add: select_receipt_def put_attempt_def split: option.splits)

lemma select_receipt_inv: "attempts_inv sha l \<Longrightarrow> attempts_inv sha (snd (select_receipt l aid))"
  by (auto simp: select_receipt_eq restate_inv split: option.splits)

lemma attempt_charge_inv: "attempts_inv sha l \<Longrightarrow> attempts_inv sha (snd (attempt_charge_exact l aid amount))"
  by (auto simp: attempt_charge_exact_def set_charge_inv split: option.splits)

lemma admit_inv:
  assumes "attempts_inv sha l"
  shows "attempts_inv sha (snd (admit_exact l receipt))"
  using attempt_charge_inv [OF assms, of "rcpt_attempt receipt" "rcpt_cost receipt"]
  by (auto simp: admit_exact_def split_beta select_receipt_inv split: res.splits prod.splits)

lemma dispatch_eq:
  "dispatch sha l node =
     (if next_epoch l node \<le> u64_max then
        (let l1 = (if 0 < next_epoch l node then fence sha l node else l);
             aid = ledger_id sha l node (next_epoch l node) in
         (Ok aid, (put_attempt l1 aid
            \<lparr>att_id = aid, att_node = node, att_epoch = next_epoch l node, att_state = Running,
             att_charged = 0\<rparr>)\<lparr>al_current := bm_insert node (next_epoch l node) (al_current l)\<rparr>))
      else (Panic, l))"
  by (auto simp: dispatch_def next_epoch_def checked_add_def put_attempt_def ledger_id_def Let_def
      uint_bounds split: option.splits)

lemma dispatch_inv:
  assumes inv: "attempts_inv sha l"
    and fresh: "bm_get (al_attempts l) (ledger_id sha l node (next_epoch l node)) = None"
  shows "attempts_inv sha (snd (dispatch sha l node))"
proof (cases "next_epoch l node \<le> u64_max")
  case True
  let ?l1 = "if 0 < next_epoch l node then fence sha l node else l"
  let ?e = "next_epoch l node"
  let ?aid = "ledger_id sha l node ?e"
  let ?new = "\<lparr>att_id = ?aid, att_node = node, att_epoch = ?e, att_state = Running, att_charged = 0\<rparr>"
  let ?l' = "snd (dispatch sha l node)"
  have l': "al_attempts ?l' = bm_insert ?aid ?new (al_attempts ?l1)" "al_current ?l' = bm_insert node ?e (al_current l)"
    "al_charged_total ?l' = al_charged_total l" "al_namespace ?l' = al_namespace l"
    using True by (simp_all add: dispatch_eq Let_def)
  have inv1: "attempts_inv sha ?l1" using inv fence_inv by simp
  have fresh1: "bm_get (al_attempts ?l1) ?aid = None"
    using fresh by (cases rule: fence_cases [of sha l node]) auto
  have "attempt_wf sha ?l' aid a" if "bm_get (al_attempts ?l') aid = Some a" for aid a
  proof (cases "aid = ?aid")
    case True
    then show ?thesis using that by (auto simp: l' attempt_wf_def ledger_id_def)
  next
    case False
    then have old: "bm_get (al_attempts ?l1) aid = Some a" using that by (simp add: l')
    then have wf: "attempt_wf sha ?l1 aid a" by (rule attempts_invD(1) [OF inv1])
    show ?thesis
    proof (cases "att_node a = node")
      case True
      then obtain c where c: "bm_get (al_current l) node = Some c" "att_epoch a \<le> c"
        "att_epoch a < c \<longrightarrow> att_state a \<noteq> Running"
        using wf by (auto simp: attempt_wf_def split: if_splits)
      then have "att_state a \<noteq> Running"
        using fenced_not_running [OF c(1)] old wf True
        by (cases "att_epoch a = c") (auto simp: next_epoch_def attempt_wf_def ledger_id_def)
      then show ?thesis
        using c wf True by (auto simp: attempt_wf_def l' ledger_id_def next_epoch_def split: if_splits)
    next
      case False
      then show ?thesis
        using wf by (auto simp: attempt_wf_def l' ledger_id_def split: if_splits)
    qed
  qed
  moreover have "al_charged_total ?l' = bm_sum (\<lambda>_. att_charged) (al_attempts ?l')"
    using attempts_invD(2) [OF inv1] bm_sum_insert_fresh [OF fresh1, of "\<lambda>_. att_charged" ?new]
    by (simp add: l' split: if_splits)
  ultimately show ?thesis
    using attempts_invD(3) [OF inv] by (simp add: attempts_inv_def l')
qed (simp add: dispatch_eq inv)

subsection \<open>Reachable attempt ledgers\<close>

text \<open>Any call; a dispatch whose truncated identity is already taken by another attempt is the hash
  collision the identities exclude.\<close>

inductive attempt_step :: "(string \<Rightarrow> string) \<Rightarrow> AttemptLedger \<Rightarrow> AttemptLedger \<Rightarrow> bool" for sha where
  step_dispatch: "bm_get (al_attempts l) (ledger_id sha l node (next_epoch l node)) = None \<Longrightarrow>
     attempt_step sha l (snd (dispatch sha l node))"
| step_fence: "attempt_step sha l (fence sha l node)"
| step_attempt_charge: "attempt_step sha l (snd (attempt_charge_exact l aid amount))"
| step_admit: "attempt_step sha l (snd (admit_exact l receipt))"

inductive_cases attempt_stepE: "attempt_step sha l l'"

definition attempt_init :: "AttemptLedger \<Rightarrow> bool" where
  "attempt_init l \<longleftrightarrow> (\<exists>namespace counts. l = attempt_ledger_scoped namespace counts)"

interpretation attempts: invariant attempt_init "attempt_step sha" "attempts_inv sha" for sha
proof unfold_locales
  fix l
  assume "attempt_init l"
  then show "attempts_inv sha l"
    by (auto simp: attempt_init_def attempt_ledger_scoped_def attempts_inv_def)
next
  fix l l'
  assume "attempts_inv sha l" "attempt_step sha l l'"
  then show "attempts_inv sha l'"
    by (auto elim!: attempt_stepE intro: dispatch_inv fence_inv attempt_charge_inv admit_inv)
qed

lemma collision_free_dispatch:
  assumes inv: "attempts_inv sha l" and inj: "inj_on (\<lambda>(n, e). attempt_id_scoped sha (al_namespace l) n e) D"
    and known: "\<forall>a \<in> ran (bm_get (al_attempts l)). (att_node a, att_epoch a) \<in> D"
    and new: "(node, next_epoch l node) \<in> D"
  shows "bm_get (al_attempts l) (ledger_id sha l node (next_epoch l node)) = None"
proof (rule ccontr)
  assume "\<not> ?thesis"
  then obtain a where a: "bm_get (al_attempts l) (ledger_id sha l node (next_epoch l node)) = Some a"
    by blast
  then have wf: "attempt_wf sha l (ledger_id sha l node (next_epoch l node)) a"
    by (rule attempts_invD(1) [OF inv])
  moreover have "(att_node a, att_epoch a) \<in> D"
    using known a by (auto simp: ran_def)
  ultimately have "(att_node a, att_epoch a) = (node, next_epoch l node)"
    using inj_onD [OF inj _ _ new] by (auto simp: attempt_wf_def ledger_id_def)
  with wf show False
    by (auto simp: attempt_wf_def next_epoch_def)
qed

text \<open>Epochs only grow, and an attempt behind its node's epoch stays behind.\<close>

definition superseded :: "AttemptLedger \<Rightarrow> string \<Rightarrow> bool" where
  "superseded l aid \<longleftrightarrow>
     (\<exists>a c. bm_get (al_attempts l) aid = Some a \<and> bm_get (al_current l) (att_node a) = Some c \<and>
        att_epoch a < c)"

lemma superseded_put:
  "superseded l aid \<Longrightarrow> bm_get (al_attempts l) aid' = Some a' \<Longrightarrow>
   att_node b = att_node a' \<Longrightarrow> att_epoch b = att_epoch a' \<Longrightarrow> superseded (put_attempt l aid' b) aid"
  by (auto simp: superseded_def)

lemma superseded_total [simp]: "superseded (l\<lparr>al_charged_total := t\<rparr>) aid = superseded l aid"
  by (simp add: superseded_def)

lemma superseded_fence: "superseded l aid \<Longrightarrow> superseded (fence sha l node) aid"
  by (cases rule: fence_cases [of sha l node]) (auto intro: superseded_put)

lemma superseded_select: "superseded l aid \<Longrightarrow> superseded (snd (select_receipt l aid')) aid"
  by (auto simp: select_receipt_eq intro: superseded_put split: option.splits)

lemma superseded_charge:
  assumes "attempts_inv sha l" "superseded l aid"
  shows "superseded (snd (attempt_charge_exact l aid' amount)) aid"
proof (cases "bm_get (al_attempts l) aid'")
  case (Some a)
  show ?thesis
    using assms(1)
    by (cases rule: set_charge_cases [of sha l aid' "max amount (att_charged a)"])
      (use assms(2) Some in \<open>auto simp: attempt_charge_exact_def intro!: superseded_put\<close>)
qed (simp add: attempt_charge_exact_def assms)

lemma superseded_admit:
  assumes "attempts_inv sha l" "superseded l aid"
  shows "superseded (snd (admit_exact l receipt)) aid"
  using superseded_charge [OF assms, of "rcpt_attempt receipt" "rcpt_cost receipt"]
  by (auto simp: admit_exact_def split_beta superseded_select split: res.splits prod.splits)

lemma superseded_dispatch:
  assumes inv: "attempts_inv sha l" and "superseded l aid"
    and fresh: "bm_get (al_attempts l) (ledger_id sha l node (next_epoch l node)) = None"
  shows "superseded (snd (dispatch sha l node)) aid"
proof -
  let ?l1 = "if 0 < next_epoch l node then fence sha l node else l"
  have "superseded ?l1 aid" using assms(2) superseded_fence by simp
  then obtain a c where a: "bm_get (al_attempts ?l1) aid = Some a"
    "bm_get (al_current l) (att_node a) = Some c" "att_epoch a < c"
    by (auto simp: superseded_def split: if_splits)
  have "bm_get (al_attempts ?l1) (ledger_id sha l node (next_epoch l node)) = None"
    using fresh by (cases rule: fence_cases [of sha l node]) auto
  with a have "aid \<noteq> ledger_id sha l node (next_epoch l node)" by auto
  with a assms(2) show ?thesis
    by (cases "next_epoch l node \<le> u64_max")
      (auto simp: superseded_def dispatch_eq Let_def next_epoch_def)
qed

text \<open>A dispatch under a fresh identity keeps every attempt already filed, its state apart.\<close>

lemma dispatch_keeps:
  assumes fresh: "bm_get (al_attempts l) (ledger_id sha l node (next_epoch l node)) = None"
    and a: "bm_get (al_attempts l) aid = Some a"
  obtains b where "bm_get (al_attempts (snd (dispatch sha l node))) aid = Some b"
    "att_node b = att_node a" "att_epoch b = att_epoch a" "att_charged b = att_charged a"
proof -
  have "aid \<noteq> ledger_id sha l node (next_epoch l node)" using fresh a by auto
  moreover have "\<exists>b. bm_get (al_attempts (fence sha l node)) aid = Some b \<and> att_node b = att_node a \<and>
      att_epoch b = att_epoch a \<and> att_charged b = att_charged a"
    using a by (cases rule: fence_cases [of sha l node]) auto
  ultimately show ?thesis
    using a that
    by (cases "next_epoch l node \<le> u64_max"; cases "0 < next_epoch l node") (auto simp: dispatch_eq Let_def)
qed

lemma superseded_step:
  "attempts_inv sha l \<Longrightarrow> attempt_step sha l l' \<Longrightarrow> superseded l aid \<Longrightarrow> superseded l' aid"
  by (auto elim!: attempt_stepE intro: superseded_dispatch superseded_fence superseded_charge superseded_admit)

lemma superseded_steps:
  assumes "(attempt_step sha)\<^sup>*\<^sup>* l l'" "attempts_inv sha l" "superseded l aid"
  shows "superseded l' aid"
  using assms(1)
proof (induction rule: rtranclp_induct)
  case (step y z)
  then show ?case using attempts.steps_inv [OF assms(2)] superseded_step by blast
qed (rule assms(3))

subsection \<open>Reopening a Round\<close>

definition dispatch_all :: "(string \<Rightarrow> string) \<Rightarrow> string list \<Rightarrow> AttemptLedger \<Rightarrow> AttemptLedger" where
  "dispatch_all sha nodes l = fold (\<lambda>n l. snd (dispatch sha l n)) nodes l"

lemma prior_epochs:
  "distinct (map fst xs) \<Longrightarrow>
   map_of (List.map_filter (\<lambda>(n, c). map_option (\<lambda>e. (n, e)) (checked_sub c 1)) xs) n
     = Option.bind (map_of xs n) (\<lambda>c. checked_sub c 1)"
  "fst ` set (List.map_filter (\<lambda>(n, c). map_option (\<lambda>e. (n, e)) (checked_sub c 1)) xs) \<subseteq> fst ` set xs"
  "distinct (map fst xs) \<Longrightarrow>
   distinct (map fst (List.map_filter (\<lambda>(n, c). map_option (\<lambda>e. (n, e)) (checked_sub c 1)) xs))"
proof (induction xs)
  case (Cons x xs)
  obtain n' c where x: "x = (n', c)" by (cases x)
  have none: "n' \<notin> fst ` set xs \<Longrightarrow> map_of xs n' = None"
    by (simp add: map_of_eq_None_iff)
  { case 1
    then show ?case
      using Cons.IH(1) none by (cases c) (auto simp: x map_filter_simps checked_sub_def)
  next
    case 2
    show ?case using Cons.IH(2) by (cases c) (auto simp: x map_filter_simps checked_sub_def)
  next
    case 3
    then show ?case
      using Cons.IH(2,3) by (cases c) (auto simp: x map_filter_simps checked_sub_def) }
qed (simp_all add: map_filter_simps)

lemma al_namespace_scoped: "al_namespace (attempt_ledger_scoped ns counts) = ns"
  by (simp add: attempt_ledger_scoped_def)

lemma next_epoch_scoped:
  "next_epoch (attempt_ledger_scoped ns counts) n = (case bm_get counts n of None \<Rightarrow> 0 | Some c \<Rightarrow> c)"
proof -
  have d: "distinct (map fst (bm_entries counts))"
    by (rule ascending_distinct [OF bm_entries_ascending])
  have "bm_get (al_current (attempt_ledger_scoped ns counts)) n
      = Option.bind (bm_get counts n) (\<lambda>c. checked_sub c 1)"
    using prior_epochs(1,3) [OF d]
    by (simp add: attempt_ledger_scoped_def bm_get_extend bm_get_def map_of_rev map_add_def
        fun_eq_iff split: option.splits)
  then show ?thesis
    by (auto simp: next_epoch_def checked_sub_def split: option.splits)
qed

lemma next_epoch_dispatch:
  "next_epoch l node \<le> u64_max \<Longrightarrow>
   next_epoch (snd (dispatch sha l node)) n = next_epoch l n + (if n = node then 1 else 0)"
  by (auto simp: dispatch_eq Let_def next_epoch_def)

lemma dispatch_namespace [simp]: "al_namespace (snd (dispatch sha l node)) = al_namespace l"
  by (simp add: dispatch_eq Let_def)

lemma next_epoch_dispatch_all:
  "(\<And>m. next_epoch l m + count_list nodes m \<le> u64_max) \<Longrightarrow>
   next_epoch (dispatch_all sha nodes l) n = next_epoch l n + count_list nodes n \<and>
   al_namespace (dispatch_all sha nodes l) = al_namespace l"
proof (induction nodes arbitrary: l)
  case (Cons m nodes)
  have m: "next_epoch l m \<le> u64_max" using Cons.prems [of m] by simp
  have "next_epoch (snd (dispatch sha l m)) k + count_list nodes k \<le> u64_max" for k
    using Cons.prems [of k] next_epoch_dispatch [OF m, of sha k] by (simp split: if_splits)
  from Cons.IH [OF this] show ?case
    by (simp add: dispatch_all_def next_epoch_dispatch [OF m])
qed (simp add: dispatch_all_def)

lemma take_hex_encode: "take (2 * k) (hex_encode bs) = hex_encode (take k bs)"
proof (induction k arbitrary: bs)
  case (Suc k)
  then show ?case by (cases bs) (simp_all add: hex_encode_Cons hex_byte_def)
qed simp

subsection \<open>Properties\<close>

text \<open>
  C30: a superseded attempt can never be selected. Once its node has been dispatched again, no
  sequence of later dispatches, fences, charges and receipts makes the ledger select a delivery of
  the earlier attempt.
\<close>

theorem superseded_never_selected:
  assumes "reach attempt_init (attempt_step sha) l" "attempt l aid = Some a"
    and "dispatch sha l (att_node a) = (Ok newer, l1)"
    and "attempt l (ledger_id sha l (att_node a) (next_epoch l (att_node a))) = None"
    and "(attempt_step sha)\<^sup>*\<^sup>* l1 l2" "admit_exact l2 \<lparr>rcpt_attempt = aid, rcpt_cost = cost\<rparr> = (Ok sel, l3)"
  shows "sel = Quarantined"
proof -
  note inv = attempts.reach_inv [OF assms(1)]
  have l1: "l1 = snd (dispatch sha l (att_node a))" using assms(3) by simp
  have fresh: "bm_get (al_attempts l) (ledger_id sha l (att_node a) (next_epoch l (att_node a))) = None"
    using assms(4) by (simp add: attempt_def)
  have inv1: "attempts_inv sha l1" unfolding l1 by (rule dispatch_inv [OF inv fresh])
  have wf: "attempt_wf sha l aid a"
    using assms(2) by (intro attempts_invD(1) [OF inv]) (simp add: attempt_def)
  obtain b where "bm_get (al_attempts l1) aid = Some b" "att_node b = att_node a" "att_epoch b = att_epoch a"
    using dispatch_keeps [OF fresh] assms(2) l1 by (metis attempt_def)
  then have "superseded l1 aid"
    using wf assms(3) by (fastforce simp: superseded_def attempt_wf_def dispatch_eq Let_def next_epoch_def
        split: if_splits)
  then have "superseded l2 aid" by (rule superseded_steps [OF assms(5) inv1])
  moreover have "attempts_inv sha l2" by (rule attempts.steps_inv [OF inv1 assms(5)])
  ultimately have "superseded (snd (attempt_charge_exact l2 aid cost)) aid" by (intro superseded_charge)
  then show ?thesis
    using assms(6)
    by (auto simp: admit_exact_def select_receipt_eq superseded_def split: res.splits prod.splits option.splits if_splits)
qed

text \<open>A concrete 32-byte digest to evaluate the ledger with: the last 32 bytes, padded.\<close>

definition sample_sha :: "string \<Rightarrow> string" where
  "sample_sha bytes = take 32 (rev bytes @ replicate 32 CHR 0x00)"

definition sample_attempts :: AttemptLedger where
  "sample_attempts = snd (dispatch sample_sha (attempt_ledger_scoped ''round'' bm_empty) ''deep'')"

definition sample_id :: "nat \<Rightarrow> string" where
  "sample_id epoch = attempt_id_scoped sample_sha ''round'' ''deep'' epoch"

lemma sample_id_neq: "sample_id 0 \<noteq> sample_id 1"
proof
  assume "sample_id 0 = sample_id 1"
  then have "take (2 * 13) (hex_encode (sample_sha (scoped_preimage ''round'' ''deep'' 0)))
      = take (2 * 13) (hex_encode (sample_sha (scoped_preimage ''round'' ''deep'' 1)))"
    by (simp add: sample_id_def attempt_id_scoped_def)
  then have "take 13 (sample_sha (scoped_preimage ''round'' ''deep'' 0))
      = take 13 (sample_sha (scoped_preimage ''round'' ''deep'' 1))"
    unfolding take_hex_encode hex_encode_inject .
  moreover have "hd (take 13 (sample_sha (scoped_preimage ''round'' ''deep'' e))) = char_of (e mod 256)" for e
    by (simp add: sample_sha_def scoped_preimage_def to_be_bytes_Suc)
  ultimately have "char_of (0 mod 256::nat) = (char_of (1 mod 256::nat) :: char)"
    by metis
  then show False
    by (simp add: char_of_eq_iff)
qed

lemma sample_next: "next_epoch (attempt_ledger_scoped ''round'' bm_empty) n = 0"
  by (simp add: next_epoch_scoped)

lemma sample_attempts_eq:
  "al_attempts sample_attempts = bm_insert (sample_id 0) \<lparr>att_id = sample_id 0, att_node = ''deep'',
     att_epoch = 0, att_state = Running, att_charged = 0\<rparr> bm_empty"
  "al_current sample_attempts = bm_insert ''deep'' 0 bm_empty"
  "al_namespace sample_attempts = ''round''" "al_charged_total sample_attempts = 0"
  by (simp_all add: sample_attempts_def dispatch_eq sample_next Let_def sample_id_def ledger_id_def)
    (simp_all add: attempt_ledger_scoped_def bm_extend_def map_filter_simps)

lemma sample_attempts_reach: "reach attempt_init (attempt_step sample_sha) sample_attempts"
  unfolding sample_attempts_def
  by (rule reach_step, rule reach_init, unfold attempt_init_def, blast,
      rule attempt_step.step_dispatch, simp add: attempt_ledger_scoped_def)

theorem superseded_never_selected_witness:
  "\<exists>l2 sel l3. dispatch sample_sha sample_attempts ''deep'' = (Ok (sample_id 1), l2) \<and>
     admit_exact l2 \<lparr>rcpt_attempt = sample_id 0, rcpt_cost = 5\<rparr> = (Ok sel, l3) \<and> sel = Quarantined"
proof -
  have 1: "attempt sample_attempts (sample_id 0) = Some \<lparr>att_id = sample_id 0, att_node = ''deep'',
      att_epoch = 0, att_state = Running, att_charged = 0\<rparr>"
    by (simp add: attempt_def sample_attempts_eq)
  have 2: "next_epoch sample_attempts ''deep'' = 1"
    by (simp add: next_epoch_def sample_attempts_eq)
  have new: "ledger_id sample_sha sample_attempts ''deep'' 1 = sample_id 1"
    by (simp add: ledger_id_def sample_attempts_eq sample_id_def)
  obtain l2 where 3: "dispatch sample_sha sample_attempts ''deep'' = (Ok (sample_id 1), l2)"
    using new by (simp add: dispatch_eq 2 Let_def u64_max_def)
  have "attempt sample_attempts (sample_id 1) = None"
    using sample_id_neq by (simp add: attempt_def sample_attempts_eq)
  moreover obtain sel l3 where 4: "admit_exact l2 \<lparr>rcpt_attempt = sample_id 0, rcpt_cost = 5\<rparr> = (Ok sel, l3)"
    using 3 sample_id_neq 2 new
    by (cases "select_receipt (snd (attempt_charge_exact l2 (sample_id 0) 5)) (sample_id 0)")
      (auto simp: dispatch_eq Let_def fence_def ledger_id_def sample_attempts_eq u64_max_def u128_max_def
        admit_exact_def attempt_charge_exact_def set_charge_def checked_sub_def checked_add_def
        sample_id_def put_attempt_def)
  ultimately show ?thesis
    using superseded_never_selected [OF sample_attempts_reach 1 _ _ rtranclp.rtrancl_refl 4] 2 3 new 4
    by auto
qed

text \<open>
  C34: one live attempt per node. In every ledger a run reaches, two attempts of one node that are
  both still running, or both still current and not fenced so that their receipts would be
  selected, are the same attempt; and the running total is exactly the sum of what every attempt
  was charged, superseded and quarantined attempts included.
\<close>

theorem one_live_attempt_per_node:
  assumes "reach attempt_init (attempt_step sha) l" "attempt l x = Some a" "attempt l y = Some b"
    and "att_node a = att_node b"
    and "att_state a = Running \<and> att_state b = Running \<or>
      (\<exists>lx ly. admit_exact l \<lparr>rcpt_attempt = x, rcpt_cost = 0\<rparr> = (Ok Selected, lx) \<and>
        admit_exact l \<lparr>rcpt_attempt = y, rcpt_cost = 0\<rparr> = (Ok Selected, ly))"
  shows "x = y \<and> al_charged_total l = bm_sum (\<lambda>_. att_charged) (al_attempts l)"
proof -
  note inv = attempts.reach_inv [OF assms(1)]
  have current: "bm_get (al_current l) (att_node c) = Some (att_epoch c)"
    if c: "attempt l z = Some c" and
      live: "att_state c = Running \<or> (\<exists>lz. admit_exact l \<lparr>rcpt_attempt = z, rcpt_cost = 0\<rparr> = (Ok Selected, lz))"
    for z c
  proof -
    have get: "bm_get (al_attempts l) z = Some c" using c by (simp add: attempt_def)
    from live show ?thesis
    proof
      assume "\<exists>lz. admit_exact l \<lparr>rcpt_attempt = z, rcpt_cost = 0\<rparr> = (Ok Selected, lz)"
      then obtain lz where sel: "admit_exact l \<lparr>rcpt_attempt = z, rcpt_cost = 0\<rparr> = (Ok Selected, lz)" ..
      show ?thesis
        using inv by (cases rule: set_charge_cases [of sha l z "att_charged c"])
          (use get sel in \<open>auto simp: admit_exact_def attempt_charge_exact_def select_receipt_eq split: if_splits\<close>)
    qed (use attempts_invD(1) [OF inv get] in \<open>auto simp: attempt_wf_def\<close>)
  qed
  have "att_epoch a = att_epoch b"
    using current [OF assms(2)] current [OF assms(3)] assms(4,5) by auto
  then have "x = y"
    using assms(2-4) attempts_invD(1) [OF inv] by (metis attempt_def attempt_wf_def)
  then show ?thesis using attempts_invD(2) [OF inv] by simp
qed

theorem one_live_attempt_per_node_witness:
  "attempt sample_attempts (sample_id 0) \<noteq> None \<and>
   al_charged_total sample_attempts = bm_sum (\<lambda>_. att_charged) (al_attempts sample_attempts)"
proof -
  have a: "attempt sample_attempts (sample_id 0) = Some \<lparr>att_id = sample_id 0, att_node = ''deep'',
      att_epoch = 0, att_state = Running, att_charged = 0\<rparr>"
    by (simp add: attempt_def sample_attempts_eq)
  show ?thesis
    using one_live_attempt_per_node [OF sample_attempts_reach a a] a by simp
qed

text \<open>
  C35: a fence holds for one delivery only. When the current attempt of a node is fenced and not
  dispatched again, the first receipt for it is quarantined, and a second receipt for the same
  attempt is selected: quarantining overwrites the \<open>Fenced\<close> mark, and the epoch is still current.
  The documentation of the quarantined state says such an attempt is never selected.
\<close>

theorem fenced_redelivery_selected:
  assumes "reach attempt_init (attempt_step sha) l" "attempt l aid = Some a" "att_state a = Running"
    and "al_charged_total l - att_charged a + max cost (att_charged a) \<le> u128_max"
  shows "\<exists>l1 l2. admit_exact (fence sha l (att_node a)) \<lparr>rcpt_attempt = aid, rcpt_cost = cost\<rparr> = (Ok Quarantined, l1) \<and>
    admit_exact l1 \<lparr>rcpt_attempt = aid, rcpt_cost = cost\<rparr> = (Ok Selected, l2)"
proof -
  note inv = attempts.reach_inv [OF assms(1)]
  have a: "bm_get (al_attempts l) aid = Some a" using assms(2) by (simp add: attempt_def)
  have wf: "aid = ledger_id sha l (att_node a) (att_epoch a)"
    "bm_get (al_current l) (att_node a) = Some (att_epoch a)"
    using attempts_invD(1) [OF inv a] assms(3) by (auto simp: attempt_wf_def)
  have fenced: "fence sha l (att_node a) = put_attempt l aid (a\<lparr>att_state := Fenced\<rparr>)"
    using wf a assms(3) by (simp add: fence_def put_attempt_def)
  have "att_charged a \<le> al_charged_total l"
    using bm_sum_ge [OF a, of "\<lambda>_. att_charged"] attempts_invD(2) [OF inv] by simp
  then show ?thesis
    unfolding fenced using wf(2) assms(4) attempts_invD(3) [OF inv]
    by (auto simp: admit_exact_def attempt_charge_exact_def set_charge_def checked_sub_def checked_add_def
        select_receipt_eq put_attempt_def max_def split: if_splits)
qed

theorem fenced_redelivery_selected_witness:
  "\<exists>l1 l2. admit_exact (fence sample_sha sample_attempts ''deep'') \<lparr>rcpt_attempt = sample_id 0, rcpt_cost = 5\<rparr>
       = (Ok Quarantined, l1) \<and>
     admit_exact l1 \<lparr>rcpt_attempt = sample_id 0, rcpt_cost = 5\<rparr> = (Ok Selected, l2)"
proof -
  have a: "attempt sample_attempts (sample_id 0) = Some \<lparr>att_id = sample_id 0, att_node = ''deep'',
      att_epoch = 0, att_state = Running, att_charged = 0\<rparr>"
    by (simp add: attempt_def sample_attempts_eq)
  show ?thesis
    using fenced_redelivery_selected [OF sample_attempts_reach a, of 5] by (simp add: sample_attempts_eq u128_max_def)
qed

text \<open>
  Reopening a Round continues its identities. Dispatch any sequence of nodes under a Round;
  a ledger reopened from the number of attempts each node was given issues, for every node, the
  same next epoch and the same next attempt identity as the ledger that ran on.
\<close>

theorem reopened_ledger_continues:
  assumes "\<And>n. count_list nodes n < u64_max"
    and "\<And>n. (case bm_get counts n of None \<Rightarrow> 0 | Some c \<Rightarrow> c) = count_list nodes n"
  shows "fst (dispatch sha (attempt_ledger_scoped ns counts) node)
      = fst (dispatch sha (dispatch_all sha nodes (attempt_ledger_scoped ns bm_empty)) node) \<and>
    fst (dispatch sha (attempt_ledger_scoped ns counts) node)
      = Ok (attempt_id_scoped sha ns node (count_list nodes node))"
proof -
  let ?ran = "dispatch_all sha nodes (attempt_ledger_scoped ns bm_empty)"
  have "next_epoch (attempt_ledger_scoped ns bm_empty) m + count_list nodes m \<le> u64_max" for m
    using assms(1) [of m] by (simp add: next_epoch_scoped)
  from next_epoch_dispatch_all [OF this]
  have ran: "next_epoch ?ran node = count_list nodes node" "al_namespace ?ran = ns"
    by (simp_all add: next_epoch_scoped al_namespace_scoped)
  have re: "next_epoch (attempt_ledger_scoped ns counts) node = count_list nodes node"
    using assms(2) [of node] by (simp add: next_epoch_scoped)
  show ?thesis
    using assms(1) [of node] by (simp add: dispatch_eq ran re Let_def ledger_id_def)
      (simp add: al_namespace_scoped)
qed

theorem reopened_ledger_continues_witness:
  "fst (dispatch sample_sha (attempt_ledger_scoped ''round'' (bm_insert ''deep'' 2 bm_empty)) ''deep'')
     = Ok (sample_id 2)"
proof -
  have "count_list [''deep'', ''deep''] n < u64_max"
    "(case bm_get (bm_insert ''deep'' 2 bm_empty) n of None \<Rightarrow> 0 | Some c \<Rightarrow> c) = count_list [''deep'', ''deep''] n" for n
    by (auto simp: u64_max_def)
  from reopened_ledger_continues [OF this, of sample_sha "''round''" "''deep''"]
  have "fst (dispatch sample_sha (attempt_ledger_scoped ''round'' (bm_insert ''deep'' 2 bm_empty)) ''deep'')
      = Ok (attempt_id_scoped sample_sha ''round'' ''deep'' (count_list [''deep'', ''deep''] ''deep''))" by blast
  then show ?thesis by (simp add: sample_id_def numeral_2_eq_2)
qed

text \<open>
  identities collide only when the hash does. Two attempts that differ in Round, node or
  epoch receive the same 26-digit identity only if SHA-256 maps two different preimages to digests
  that agree on their first 13 bytes: the length-prefixed preimage itself never confuses them.
\<close>

theorem identity_collision_is_hash_collision:
  assumes "length ns \<le> u64_max" "length ns' \<le> u64_max" "length node \<le> u64_max" "length node' \<le> u64_max"
    "epoch \<le> u64_max" "epoch' \<le> u64_max"
    and "(ns, node, epoch) \<noteq> (ns', node', epoch')"
    and "attempt_id_scoped sha ns node epoch = attempt_id_scoped sha ns' node' epoch'"
  shows "\<exists>x y. x \<noteq> y \<and> x = scoped_preimage ns node epoch \<and> y = scoped_preimage ns' node' epoch' \<and>
    take 13 (sha x) = take 13 (sha y)"
proof -
  have "scoped_preimage ns node epoch \<noteq> scoped_preimage ns' node' epoch'"
    using scoped_preimage_inject [OF assms(1-6)] assms(7) by auto
  moreover have "hex_encode (take 13 (sha (scoped_preimage ns node epoch)))
      = hex_encode (take 13 (sha (scoped_preimage ns' node' epoch')))"
    using assms(8) take_hex_encode [of 13] by (simp add: attempt_id_scoped_def)
  ultimately show ?thesis by (simp add: hex_encode_inject)
qed

theorem identity_collision_is_hash_collision_witness:
  "\<exists>x y :: string. x \<noteq> y \<and> take 13 ((\<lambda>_. replicate 32 CHR 0x00) x) = take 13 ((\<lambda>_. replicate 32 CHR 0x00) y)"
  using identity_collision_is_hash_collision
    [of "''r''" "''r''" "''a''" "''a''" 0 1 "\<lambda>_. replicate 32 CHR 0x00"]
  by (auto simp: u64_max_def attempt_id_scoped_def)

end
