(* ===== verification/Budget.thy ===== *)
theory Budget
  imports Prelude
begin

text \<open>
  The token ledger of \<^verbatim>\<open>crates/review-attempt/src/budget.rs\<close>: nested scopes with limits,
  reservations taken before a dispatch, and charges settled against them.

  Every operation on \<open>&mut self\<close> returns its result and the new ledger, so a refusal shows
  whether it changed anything. Unchecked \<open>+=\<close> and \<open>-=\<close> of the source, \<open>accounts[scope]\<close> and
  \<open>expect\<close> are \<open>Panic\<close> where they would fail; \<open>no_panic\<close> shows that no reachable ledger does.
\<close>

subsection \<open>Data\<close>

datatype BudgetScope = FanOut string | Run

text \<open>The derived order of the enum: every fan-out, by name, before the run.\<close>

instantiation BudgetScope :: linorder
begin

fun less_eq_BudgetScope :: "BudgetScope \<Rightarrow> BudgetScope \<Rightarrow> bool" where
  "less_eq_BudgetScope (FanOut a) (FanOut b) = (a \<le> b)"
| "less_eq_BudgetScope (FanOut a) Run = True"
| "less_eq_BudgetScope Run (FanOut b) = False"
| "less_eq_BudgetScope Run Run = True"

definition less_BudgetScope :: "BudgetScope \<Rightarrow> BudgetScope \<Rightarrow> bool" where
  "less_BudgetScope a b = (a \<le> b \<and> \<not> b \<le> a)"

instance
proof
  fix x y z :: BudgetScope
  show "x < y \<longleftrightarrow> x \<le> y \<and> \<not> y \<le> x" by (rule less_BudgetScope_def)
  show "x \<le> x" by (cases x) simp_all
  show "x \<le> y \<Longrightarrow> y \<le> z \<Longrightarrow> x \<le> z" by (cases x; cases y; cases z) simp_all
  show "x \<le> y \<Longrightarrow> y \<le> x \<Longrightarrow> x = y" by (cases x; cases y) simp_all
  show "x \<le> y \<or> y \<le> x" by (cases x; cases y) auto
qed

end

lemma less_BudgetScope_simps [simp]:
  "FanOut a < FanOut b \<longleftrightarrow> a < b" "FanOut a < Run" "\<not> Run < FanOut b" "\<not> Run < Run"
  by (auto simp: less_BudgetScope_def)

datatype BudgetRefusal = Tokens | ReservationIdentities | AccountingOverflow

record BudgetError =
  err_reason :: BudgetRefusal
  err_scope :: BudgetScope
  err_limit :: nat
  err_committed :: nat
  err_reserved :: nat
  err_requested :: nat

record Reservation =
  res_id :: string
  res_amount :: nat
  res_scopes :: "BudgetScope list"

record Account =
  acct_limit :: "nat option"
  acct_committed :: nat
  acct_reserved :: nat

definition default_account :: Account where
  "default_account = \<lparr>acct_limit = None, acct_committed = 0, acct_reserved = 0\<rparr>"

record Outstanding =
  out_reservation :: Reservation
  out_observed :: nat

record BudgetLedger =
  led_accounts :: "(BudgetScope, Account) bmap"
  led_outstanding :: "(string, Outstanding) bmap"
  led_next :: nat
  led_overflowed :: bool

definition default_ledger :: BudgetLedger where
  "default_ledger =
     \<lparr>led_accounts = bm_empty, led_outstanding = bm_empty, led_next = 0, led_overflowed = False\<rparr>"

datatype UsageError = NoOutstandingReservation | DiffersFromAuthority | ObservedTotalOverflow

subsection \<open>Operations\<close>

text \<open>\<open>self.accounts.entry(scope).or_default()\<close>, read and written back.\<close>

definition account_or_default :: "(BudgetScope, Account) bmap \<Rightarrow> BudgetScope \<Rightarrow> Account" where
  "account_or_default m s = (case bm_get m s of None \<Rightarrow> default_account | Some a \<Rightarrow> a)"

definition with_limit :: "BudgetLedger \<Rightarrow> BudgetScope \<Rightarrow> nat \<Rightarrow> BudgetLedger" where
  "with_limit l s lim =
     l\<lparr>led_accounts := bm_insert s ((account_or_default (led_accounts l) s)\<lparr>acct_limit := Some lim\<rparr>)
        (led_accounts l)\<rparr>"

definition with_exact_committed :: "BudgetLedger \<Rightarrow> BudgetScope \<Rightarrow> nat \<Rightarrow> BudgetLedger" where
  "with_exact_committed l s c =
     l\<lparr>led_accounts := bm_insert s ((account_or_default (led_accounts l) s)\<lparr>acct_committed := c\<rparr>)
        (led_accounts l)\<rparr>"

definition committed :: "BudgetLedger \<Rightarrow> BudgetScope \<Rightarrow> nat" where
  "committed l s = (case bm_get (led_accounts l) s of None \<Rightarrow> 0 | Some a \<Rightarrow> acct_committed a)"

definition reserved :: "BudgetLedger \<Rightarrow> BudgetScope \<Rightarrow> nat" where
  "reserved l s = (case bm_get (led_accounts l) s of None \<Rightarrow> 0 | Some a \<Rightarrow> acct_reserved a)"

definition remaining :: "BudgetLedger \<Rightarrow> BudgetScope \<Rightarrow> nat option" where
  "remaining l s =
     (case bm_get (led_accounts l) s of
        None \<Rightarrow> None
      | Some a \<Rightarrow>
          (case acct_limit a of
             None \<Rightarrow> None
           | Some lim \<Rightarrow>
               if led_overflowed l then Some 0
               else Some (case checked_add u128_max (acct_committed a) (acct_reserved a) of
                            None \<Rightarrow> 0
                          | Some used \<Rightarrow> saturating_sub lim used)))"

text \<open>The checking pass of \<open>reserve\<close>: the first scope, in scope order, that refuses.\<close>

fun refusing_scope ::
  "(BudgetScope, Account) bmap \<Rightarrow> nat \<Rightarrow> BudgetScope list \<Rightarrow> BudgetError option" where
  "refusing_scope m amount [] = None"
| "refusing_scope m amount (s # ss) =
     (let a = account_or_default m s in
      case Option.bind (checked_add u128_max (acct_committed a) (acct_reserved a))
             (\<lambda>used. checked_add u128_max used amount) of
        None \<Rightarrow>
          Some \<lparr>err_reason = AccountingOverflow, err_scope = s,
            err_limit = (case acct_limit a of None \<Rightarrow> u64_max | Some lim \<Rightarrow> lim),
            err_committed = acct_committed a, err_reserved = acct_reserved a,
            err_requested = amount\<rparr>
      | Some tot \<Rightarrow>
          (case acct_limit a of
             None \<Rightarrow> refusing_scope m amount ss
           | Some lim \<Rightarrow>
               if lim < tot
               then Some \<lparr>err_reason = Tokens, err_scope = s, err_limit = lim,
                      err_committed = acct_committed a, err_reserved = acct_reserved a,
                      err_requested = amount\<rparr>
               else refusing_scope m amount ss))"

text \<open>The second pass: \<open>reserved += amount\<close> in every scope, an overflow being a panic.\<close>

fun hold ::
  "nat \<Rightarrow> BudgetScope list \<Rightarrow> (BudgetScope, Account) bmap \<Rightarrow> ('e, (BudgetScope, Account) bmap) res"
where
  "hold amount [] m = Ok m"
| "hold amount (s # ss) m =
     (let a = account_or_default m s in
      and_then (expect (checked_add u128_max (acct_reserved a) amount))
        (\<lambda>r. hold amount ss (bm_insert s (a\<lparr>acct_reserved := r\<rparr>) m)))"

definition reservation_id :: "nat \<Rightarrow> string" where
  "reservation_id n = ''reservation:'' @ show_nat n"

definition reserve ::
  "BudgetLedger \<Rightarrow> BudgetScope list \<Rightarrow> nat \<Rightarrow> (BudgetError, Reservation) res \<times> BudgetLedger"
where
  "reserve l scopes amount =
     (if led_overflowed l then
        (Err \<lparr>err_reason = AccountingOverflow, err_scope = Run, err_limit = u64_max,
           err_committed = committed l Run, err_reserved = reserved l Run,
           err_requested = amount\<rparr>, l)
      else case checked_add u64_max (led_next l) 1 of
        None \<Rightarrow>
          (Err \<lparr>err_reason = ReservationIdentities, err_scope = Run, err_limit = u64_max,
             err_committed = led_next l, err_reserved = 0, err_requested = 1\<rparr>, l)
      | Some n \<Rightarrow>
          (let ss = sort (remdups scopes) in
           case refusing_scope (led_accounts l) amount ss of
             Some e \<Rightarrow> (Err e, l)
           | None \<Rightarrow>
               (case hold amount ss (led_accounts l) of
                  Ok m \<Rightarrow>
                    (let r = \<lparr>res_id = reservation_id n, res_amount = amount, res_scopes = ss\<rparr> in
                     (Ok r, l\<lparr>led_accounts := m, led_next := n,
                        led_outstanding := bm_insert (res_id r)
                          \<lparr>out_reservation = r, out_observed = 0\<rparr> (led_outstanding l)\<rparr>))
                | Err e \<Rightarrow> (Err e, l)
                | Panic \<Rightarrow> (Panic, l))))"

text \<open>The two passes of \<open>observe_charge_exact\<close>: does every commitment fit, and move the spend.\<close>

fun commitments_fit ::
  "(BudgetScope, Account) bmap \<Rightarrow> nat \<Rightarrow> BudgetScope list \<Rightarrow> ('e, bool) res" where
  "commitments_fit m delta [] = Ok True"
| "commitments_fit m delta (s # ss) =
     and_then (expect (bm_get m s))
       (\<lambda>a. case checked_add u128_max (acct_committed a) delta of
              None \<Rightarrow> Ok False
            | Some _ \<Rightarrow> commitments_fit m delta ss)"

fun move_spend ::
  "nat \<Rightarrow> nat \<Rightarrow> BudgetScope list \<Rightarrow> (BudgetScope, Account) bmap
    \<Rightarrow> ('e, (BudgetScope, Account) bmap) res"
where
  "move_spend delta consumed [] m = Ok m"
| "move_spend delta consumed (s # ss) m =
     and_then (expect (bm_get m s))
       (\<lambda>a. and_then (expect (checked_add u128_max (acct_committed a) delta))
         (\<lambda>c. and_then (expect (checked_sub (acct_reserved a) consumed))
           (\<lambda>r. move_spend delta consumed ss
              (bm_insert s (a\<lparr>acct_committed := c, acct_reserved := r\<rparr>) m))))"

definition observe_charge_exact ::
  "BudgetLedger \<Rightarrow> Reservation \<Rightarrow> nat \<Rightarrow> (UsageError, unit) res \<times> BudgetLedger"
where
  "observe_charge_exact l r actual =
     (case bm_get (led_outstanding l) (res_id r) of
        None \<Rightarrow> (Err NoOutstandingReservation, l)
      | Some held \<Rightarrow>
          if out_reservation held \<noteq> r then (Err DiffersFromAuthority, l)
          else
            (let delta = saturating_sub actual (out_observed held);
                 consumed = min delta (saturating_sub (res_amount r) (out_observed held)) in
             case commitments_fit (led_accounts l) delta (res_scopes r) of
               Ok True \<Rightarrow>
                 (case move_spend delta consumed (res_scopes r) (led_accounts l) of
                    Ok m \<Rightarrow>
                      (Ok (), l\<lparr>led_accounts := m,
                         led_outstanding := bm_insert (res_id r)
                           (held\<lparr>out_observed := max (out_observed held) actual\<rparr>)
                           (led_outstanding l)\<rparr>)
                  | Err e \<Rightarrow> (Err e, l)
                  | Panic \<Rightarrow> (Panic, l))
             | Ok False \<Rightarrow> (Err ObservedTotalOverflow, l\<lparr>led_overflowed := True\<rparr>)
             | Err e \<Rightarrow> (Err e, l)
             | Panic \<Rightarrow> (Panic, l)))"

definition observed_charge_exact :: "BudgetLedger \<Rightarrow> Reservation \<Rightarrow> nat" where
  "observed_charge_exact l r =
     (case bm_get (led_outstanding l) (res_id r) of None \<Rightarrow> 0 | Some held \<Rightarrow> out_observed held)"

text \<open>Give back what a removed reservation still held, in each of its scopes.\<close>

fun unhold ::
  "nat \<Rightarrow> BudgetScope list \<Rightarrow> (BudgetScope, Account) bmap \<Rightarrow> ('e, (BudgetScope, Account) bmap) res"
where
  "unhold rest [] m = Ok m"
| "unhold rest (s # ss) m =
     (let a = account_or_default m s in
      and_then (expect (checked_sub (acct_reserved a) rest))
        (\<lambda>r. unhold rest ss (bm_insert s (a\<lparr>acct_reserved := r\<rparr>) m)))"

definition drop_held ::
  "BudgetLedger \<Rightarrow> string \<Rightarrow> Outstanding \<Rightarrow> (UsageError, unit) res \<times> BudgetLedger" where
  "drop_held l rid held =
     (case unhold (saturating_sub (res_amount (out_reservation held)) (out_observed held))
             (res_scopes (out_reservation held)) (led_accounts l) of
        Ok m \<Rightarrow>
          (Ok (), l\<lparr>led_accounts := m,
             led_outstanding := bm_remove rid (led_outstanding l)\<rparr>)
      | Err e \<Rightarrow> (Err e, l)
      | Panic \<Rightarrow> (Panic, l))"

definition charge_exact ::
  "BudgetLedger \<Rightarrow> Reservation \<Rightarrow> nat \<Rightarrow> (UsageError, unit) res \<times> BudgetLedger"
where
  "charge_exact l r actual =
     (case bm_get (led_outstanding l) (res_id r) of
        None \<Rightarrow> (Ok (), l)
      | Some _ \<Rightarrow>
          (case observe_charge_exact l r actual of
             (Ok _, l') \<Rightarrow>
               (case bm_get (led_outstanding l') (res_id r) of
                  None \<Rightarrow> (Ok (), l')
                | Some held \<Rightarrow> drop_held l' (res_id r) held)
           | (e, l') \<Rightarrow> (e, l')))"

definition release :: "BudgetLedger \<Rightarrow> Reservation \<Rightarrow> (UsageError, unit) res \<times> BudgetLedger" where
  "release l r =
     (case bm_get (led_outstanding l) (res_id r) of
        None \<Rightarrow> (Ok (), l)
      | Some held \<Rightarrow> drop_held l (res_id r) held)"

subsection \<open>Passes over the scopes of a reservation\<close>

text \<open>
  Each loop of the source updates one account per scope. Over distinct scopes it is one
  simultaneous update, and its guard can be read off the ledger it started from.
\<close>

definition update_accounts ::
  "(Account \<Rightarrow> Account) \<Rightarrow> BudgetScope list \<Rightarrow> (BudgetScope, Account) bmap \<Rightarrow> (BudgetScope, Account) bmap"
where
  "update_accounts f ss m = fold (\<lambda>s m. bm_insert s (f (account_or_default m s)) m) ss m"

lemma account_or_default_insert [simp]:
  "account_or_default (bm_insert s a m) s' = (if s' = s then a else account_or_default m s')"
  by (simp add: account_or_default_def)

lemma account_or_default_get: "bm_get m s = Some a \<Longrightarrow> account_or_default m s = a"
  by (simp add: account_or_default_def)

lemma update_accounts_simps [simp]:
  "update_accounts f [] m = m"
  "update_accounts f (s # ss) m = update_accounts f ss (bm_insert s (f (account_or_default m s)) m)"
  by (simp_all add: update_accounts_def)

lemma get_update_accounts:
  "distinct ss \<Longrightarrow>
   bm_get (update_accounts f ss m) s
     = (if s \<in> set ss then Some (f (account_or_default m s)) else bm_get m s)"
  by (induction ss arbitrary: m) auto

lemma account_update_accounts:
  "distinct ss \<Longrightarrow>
   account_or_default (update_accounts f ss m) s
     = (if s \<in> set ss then f (account_or_default m s) else account_or_default m s)"
  by (simp add: account_or_default_def get_update_accounts)

lemma hold_ok:
  "distinct ss \<Longrightarrow> \<forall>s \<in> set ss. acct_reserved (account_or_default m s) + amount \<le> u128_max
   \<Longrightarrow> hold amount ss m = Ok (update_accounts (\<lambda>a. a\<lparr>acct_reserved := acct_reserved a + amount\<rparr>) ss m)"
  by (induction ss arbitrary: m) (auto simp: Let_def checked_add_def)

lemma hold_not_Err [simp]: "hold amount ss m \<noteq> Err e"
  by (induction ss arbitrary: m) (auto simp: Let_def checked_add_def)

lemma unhold_ok:
  "distinct ss \<Longrightarrow> \<forall>s \<in> set ss. rest \<le> acct_reserved (account_or_default m s)
   \<Longrightarrow> unhold rest ss m = Ok (update_accounts (\<lambda>a. a\<lparr>acct_reserved := acct_reserved a - rest\<rparr>) ss m)"
  by (induction ss arbitrary: m) (auto simp: Let_def checked_sub_def)

lemma move_spend_ok:
  "distinct ss \<Longrightarrow> set ss \<subseteq> dom (bm_get m) \<Longrightarrow>
   \<forall>s \<in> set ss. acct_committed (account_or_default m s) + delta \<le> u128_max \<Longrightarrow>
   \<forall>s \<in> set ss. consumed \<le> acct_reserved (account_or_default m s) \<Longrightarrow>
   move_spend delta consumed ss m
     = Ok (update_accounts (\<lambda>a. a\<lparr>acct_committed := acct_committed a + delta,
             acct_reserved := acct_reserved a - consumed\<rparr>) ss m)"
proof (induction ss arbitrary: m)
  case (Cons s ss)
  then obtain a where "bm_get m s = Some a" by auto
  then show ?case
    using Cons by (auto simp: checked_add_def checked_sub_def account_or_default_get subset_insert)
qed simp

lemma commitments_fit_iff:
  "set ss \<subseteq> dom (bm_get m) \<Longrightarrow>
   commitments_fit m delta ss
     = Ok (\<forall>s \<in> set ss. acct_committed (account_or_default m s) + delta \<le> u128_max)"
proof (induction ss)
  case (Cons s ss)
  then obtain a where "bm_get m s = Some a" by auto
  then show ?case
    using Cons by (auto simp: account_or_default_get checked_add_def)
qed simp

definition scope_admits :: "BudgetLedger \<Rightarrow> nat \<Rightarrow> BudgetScope \<Rightarrow> bool" where
  "scope_admits l amount s =
     (committed l s + reserved l s + amount \<le> u128_max \<and>
      (\<forall>lim. acct_limit (account_or_default (led_accounts l) s) = Some lim \<longrightarrow>
         committed l s + reserved l s + amount \<le> lim))"

lemma committed_account: "committed l s = acct_committed (account_or_default (led_accounts l) s)"
  by (simp add: committed_def account_or_default_def default_account_def split: option.splits)

lemma reserved_account: "reserved l s = acct_reserved (account_or_default (led_accounts l) s)"
  by (simp add: reserved_def account_or_default_def default_account_def split: option.splits)

lemmas account_views = committed_account reserved_account

lemma refusing_scope_None_iff:
  "refusing_scope (led_accounts l) amount ss = None \<longleftrightarrow> (\<forall>s \<in> set ss. scope_admits l amount s)"
  by (induction ss)
    (auto simp: Let_def scope_admits_def account_views checked_add_def
      split: option.splits bind_splits if_splits)

text \<open>A granted reservation, as one ledger transition.\<close>

definition granted :: "BudgetLedger \<Rightarrow> BudgetScope list \<Rightarrow> nat \<Rightarrow> Reservation" where
  "granted l scopes amount =
     \<lparr>res_id = reservation_id (led_next l + 1), res_amount = amount,
      res_scopes = sort (remdups scopes)\<rparr>"

definition after_reserve :: "BudgetLedger \<Rightarrow> BudgetScope list \<Rightarrow> nat \<Rightarrow> BudgetLedger" where
  "after_reserve l scopes amount =
     l\<lparr>led_accounts := update_accounts (\<lambda>a. a\<lparr>acct_reserved := acct_reserved a + amount\<rparr>)
          (sort (remdups scopes)) (led_accounts l),
        led_next := led_next l + 1,
        led_outstanding := bm_insert (reservation_id (led_next l + 1))
          \<lparr>out_reservation = granted l scopes amount, out_observed = 0\<rparr> (led_outstanding l)\<rparr>"

definition reserve_admitted :: "BudgetLedger \<Rightarrow> BudgetScope list \<Rightarrow> nat \<Rightarrow> bool" where
  "reserve_admitted l scopes amount =
     (\<not> led_overflowed l \<and> led_next l < u64_max \<and> (\<forall>s \<in> set scopes. scope_admits l amount s))"

lemma reserve_when_admitted:
  assumes "reserve_admitted l scopes amount"
  shows "reserve l scopes amount = (Ok (granted l scopes amount), after_reserve l scopes amount)"
proof -
  let ?ss = "sort (remdups scopes)"
  have fit: "\<forall>s \<in> set ?ss. scope_admits l amount s"
    using assms by (simp add: reserve_admitted_def)
  then have "refusing_scope (led_accounts l) amount ?ss = None"
    by (simp add: refusing_scope_None_iff)
  moreover have "(hold amount ?ss (led_accounts l) :: (BudgetError, _) res)
      = Ok (update_accounts (\<lambda>a. a\<lparr>acct_reserved := acct_reserved a + amount\<rparr>) ?ss (led_accounts l))"
    using fit by (intro hold_ok) (auto simp: scope_admits_def account_views)
  ultimately show ?thesis
    using assms by (simp add: reserve_admitted_def reserve_def Let_def checked_add_def granted_def
        after_reserve_def)
qed

lemma reserve_when_refused:
  "\<not> reserve_admitted l scopes amount \<Longrightarrow> \<exists>e. reserve l scopes amount = (Err e, l)"
  by (cases "refusing_scope (led_accounts l) amount (sort (remdups scopes))")
    (auto simp: reserve_admitted_def reserve_def Let_def checked_add_def refusing_scope_None_iff)

lemma reserve_Ok_iff:
  "reserve l scopes amount = (Ok r, l') \<longleftrightarrow>
   reserve_admitted l scopes amount \<and> r = granted l scopes amount \<and> l' = after_reserve l scopes amount"
  by (cases "reserve_admitted l scopes amount")
    (use reserve_when_admitted reserve_when_refused in fastforce)+

subsection \<open>The ledger invariant\<close>

text \<open>
  The \<open>reserved\<close> counter of every scope is exactly what the outstanding reservations over that
  scope still hold; each outstanding entry is filed under its own identity, which was issued
  before, and every scope it names has an account.
\<close>

definition open_in :: "BudgetScope \<Rightarrow> Outstanding \<Rightarrow> nat" where
  "open_in s held =
     (if s \<in> set (res_scopes (out_reservation held))
      then res_amount (out_reservation held) - out_observed held else 0)"

definition held_wf :: "BudgetLedger \<Rightarrow> string \<Rightarrow> Outstanding \<Rightarrow> bool" where
  "held_wf l rid held \<longleftrightarrow>
     res_id (out_reservation held) = rid \<and>
     (\<exists>n \<le> led_next l. rid = reservation_id n) \<and>
     distinct (res_scopes (out_reservation held)) \<and>
     set (res_scopes (out_reservation held)) \<subseteq> dom (bm_get (led_accounts l))"

definition ledger_inv :: "BudgetLedger \<Rightarrow> bool" where
  "ledger_inv l \<longleftrightarrow>
     (\<forall>s. reserved l s = bm_sum (\<lambda>_. open_in s) (led_outstanding l)) \<and>
     (\<forall>rid held. bm_get (led_outstanding l) rid = Some held \<longrightarrow> held_wf l rid held) \<and>
     (\<forall>s. committed l s \<le> u128_max \<and> reserved l s \<le> u128_max) \<and>
     led_next l \<le> u64_max"

lemma reservation_id_inject [simp]: "reservation_id m = reservation_id n \<longleftrightarrow> m = n"
  by (simp add: reservation_id_def)

lemma ledger_invD:
  assumes "ledger_inv l"
  shows "reserved l s = bm_sum (\<lambda>_. open_in s) (led_outstanding l)"
    and "bm_get (led_outstanding l) rid = Some held \<Longrightarrow> held_wf l rid held"
    and "committed l s \<le> u128_max" and "reserved l s \<le> u128_max" and "led_next l \<le> u64_max"
  using assms by (auto simp: ledger_inv_def)

lemma open_le_reserved:
  "ledger_inv l \<Longrightarrow> bm_get (led_outstanding l) rid = Some held \<Longrightarrow> open_in s held \<le> reserved l s"
  using bm_sum_ge [of "led_outstanding l" rid held "\<lambda>_. open_in s"] by (simp add: ledger_invD(1))

lemma fresh_reservation:
  assumes "ledger_inv l"
  shows "bm_get (led_outstanding l) (reservation_id (led_next l + 1)) = None"
proof (rule ccontr)
  assume "\<not> ?thesis"
  then obtain held where "held_wf l (reservation_id (led_next l + 1)) held"
    using ledger_invD(2) [OF assms] by blast
  then show False
    by (auto simp: held_wf_def)
qed

lemma ledger_inv_default: "ledger_inv default_ledger"
  by (simp add: ledger_inv_def default_ledger_def reserved_def committed_def)

text \<open>Accounts after each transition.\<close>

lemma after_reserve_views:
  "committed (after_reserve l scopes amount) s = committed l s"
  "reserved (after_reserve l scopes amount) s = reserved l s + (if s \<in> set scopes then amount else 0)"
  by (simp_all add: account_views after_reserve_def account_update_accounts)

lemma after_reserve_inv:
  assumes inv: "ledger_inv l" and adm: "reserve_admitted l scopes amount"
  shows "ledger_inv (after_reserve l scopes amount)"
proof -
  let ?l' = "after_reserve l scopes amount"
  have "reserved ?l' s = bm_sum (\<lambda>_. open_in s) (led_outstanding ?l')" for s
    using fresh_reservation [OF inv] ledger_invD(1) [OF inv, of s] unfolding after_reserve_views
    by (simp add: after_reserve_def bm_sum_insert_fresh open_in_def granted_def)
  moreover have "held_wf ?l' rid held" if "bm_get (led_outstanding ?l') rid = Some held" for rid held
  proof (cases "rid = reservation_id (led_next l + 1)")
    case True
    then show ?thesis
      using that by (auto simp: after_reserve_def held_wf_def granted_def get_update_accounts)
  next
    case False
    then have "held_wf l rid held"
      using that ledger_invD(2) [OF inv] by (simp add: after_reserve_def)
    then show ?thesis
      by (fastforce simp: after_reserve_def held_wf_def get_update_accounts intro: le_SucI)
  qed
  moreover have "committed ?l' s \<le> u128_max \<and> reserved ?l' s \<le> u128_max" for s
    using adm ledger_invD(3,4) [OF inv, of s]
    by (auto simp: after_reserve_views reserve_admitted_def scope_admits_def)
  moreover have "led_next ?l' \<le> u64_max"
    using adm by (simp add: after_reserve_def reserve_admitted_def)
  ultimately show ?thesis
    by (simp add: ledger_inv_def)
qed

lemma reserve_inv: "ledger_inv l \<Longrightarrow> ledger_inv (snd (reserve l scopes amount))"
  using reserve_when_admitted reserve_when_refused after_reserve_inv
  by (cases "reserve_admitted l scopes amount") fastforce+

text \<open>An observation of an outstanding reservation, as one transition.\<close>

definition observe_fits :: "BudgetLedger \<Rightarrow> Outstanding \<Rightarrow> nat \<Rightarrow> bool" where
  "observe_fits l held actual \<longleftrightarrow>
     (\<forall>s \<in> set (res_scopes (out_reservation held)).
        committed l s + (actual - out_observed held) \<le> u128_max)"

definition after_observe :: "BudgetLedger \<Rightarrow> Outstanding \<Rightarrow> nat \<Rightarrow> BudgetLedger" where
  "after_observe l held actual =
     (let r = out_reservation held; delta = actual - out_observed held;
          consumed = min delta (res_amount r - out_observed held) in
      l\<lparr>led_accounts := update_accounts (\<lambda>a. a\<lparr>acct_committed := acct_committed a + delta,
            acct_reserved := acct_reserved a - consumed\<rparr>) (res_scopes r) (led_accounts l),
         led_outstanding := bm_insert (res_id r)
            (held\<lparr>out_observed := max (out_observed held) actual\<rparr>) (led_outstanding l)\<rparr>)"

lemma consumed_le_reserved:
  assumes "ledger_inv l" "bm_get (led_outstanding l) rid = Some held"
    "s \<in> set (res_scopes (out_reservation held))"
  shows "res_amount (out_reservation held) - out_observed held \<le> reserved l s"
  using open_le_reserved [OF assms(1,2), of s] assms(3) by (simp add: open_in_def)

lemma observe_outstanding:
  assumes inv: "ledger_inv l"
    and held: "bm_get (led_outstanding l) (res_id r) = Some held" "out_reservation held = r"
  shows "observe_charge_exact l r actual
    = (if observe_fits l held actual then (Ok (), after_observe l held actual)
       else (Err ObservedTotalOverflow, l\<lparr>led_overflowed := True\<rparr>))"
proof -
  let ?delta = "actual - out_observed held"
  let ?consumed = "min ?delta (res_amount r - out_observed held)"
  have wf: "distinct (res_scopes r)" "set (res_scopes r) \<subseteq> dom (bm_get (led_accounts l))"
    using ledger_invD(2) [OF inv held(1)] held(2) by (auto simp: held_wf_def)
  have fit: "(commitments_fit (led_accounts l) ?delta (res_scopes r) :: (UsageError, bool) res)
      = Ok (observe_fits l held actual)"
    by (subst commitments_fit_iff [OF wf(2)]) (simp add: observe_fits_def committed_account held(2))
  have move: "(move_spend ?delta ?consumed (res_scopes r) (led_accounts l) :: (UsageError, _) res)
      = Ok (update_accounts (\<lambda>a. a\<lparr>acct_committed := acct_committed a + ?delta,
             acct_reserved := acct_reserved a - ?consumed\<rparr>) (res_scopes r) (led_accounts l))"
    if "observe_fits l held actual"
    using that consumed_le_reserved [OF inv held(1)] wf
    by (intro move_spend_ok) (auto simp: observe_fits_def account_views held(2) min_le_iff_disj)
  show ?thesis
    using held fit move
    by (cases "observe_fits l held actual")
      (simp_all add: observe_charge_exact_def saturating_sub_def Let_def after_observe_def)
qed

lemma observe_cases:
  assumes "ledger_inv l"
  obtains (unknown) "observe_charge_exact l r actual = (Err NoOutstandingReservation, l)"
      "bm_get (led_outstanding l) (res_id r) = None"
  | (forged) held where "bm_get (led_outstanding l) (res_id r) = Some held" "out_reservation held \<noteq> r"
      "observe_charge_exact l r actual = (Err DiffersFromAuthority, l)"
  | (overflow) held where "bm_get (led_outstanding l) (res_id r) = Some held" "out_reservation held = r"
      "\<not> observe_fits l held actual"
      "observe_charge_exact l r actual = (Err ObservedTotalOverflow, l\<lparr>led_overflowed := True\<rparr>)"
  | (charged) held where "bm_get (led_outstanding l) (res_id r) = Some held" "out_reservation held = r"
      "observe_fits l held actual"
      "observe_charge_exact l r actual = (Ok (), after_observe l held actual)"
proof (cases "bm_get (led_outstanding l) (res_id r)")
  case None
  then show ?thesis by (intro unknown) (simp_all add: observe_charge_exact_def)
next
  case (Some held)
  show ?thesis
  proof (cases "out_reservation held = r")
    case True
    then show ?thesis
      using observe_outstanding [OF assms Some True, of actual] Some overflow charged
      by (cases "observe_fits l held actual") auto
  next
    case False
    then show ?thesis using Some by (intro forged) (simp_all add: observe_charge_exact_def)
  qed
qed

lemma after_observe_views:
  assumes "ledger_inv l" "bm_get (led_outstanding l) rid = Some held"
  shows "committed (after_observe l held actual) s = committed l s +
      (if s \<in> set (res_scopes (out_reservation held)) then actual - out_observed held else 0)"
    and "reserved (after_observe l held actual) s = reserved l s -
      (if s \<in> set (res_scopes (out_reservation held))
       then min (actual - out_observed held) (res_amount (out_reservation held) - out_observed held)
       else 0)"
  using ledger_invD(2) [OF assms] unfolding held_wf_def
  by (simp_all add: account_views after_observe_def Let_def account_update_accounts)

lemma observe_arith:
  "T' + (a - ob) = T + (a - max ob n) \<Longrightarrow> a - ob \<le> T \<Longrightarrow> T - min (n - ob) (a - ob) = (T' :: nat)"
  by arith

lemma held_wf_mono:
  "held_wf l rid held \<Longrightarrow> led_next l \<le> led_next l' \<Longrightarrow>
   dom (bm_get (led_accounts l)) \<subseteq> dom (bm_get (led_accounts l')) \<Longrightarrow> held_wf l' rid held"
  unfolding held_wf_def by (meson le_trans subset_trans)

lemma after_observe_inv:
  assumes inv: "ledger_inv l" and held: "bm_get (led_outstanding l) rid = Some held"
    and fits: "observe_fits l held actual"
  shows "ledger_inv (after_observe l held actual)"
proof -
  let ?l' = "after_observe l held actual"
  let ?r = "out_reservation held"
  let ?held' = "held\<lparr>out_observed := max (out_observed held) actual\<rparr>"
  have wf: "held_wf l rid held" by (rule ledger_invD(2) [OF inv held])
  then have wf': "held_wf l rid ?held'" by (simp add: held_wf_def)
  have out: "led_outstanding ?l' = bm_insert rid ?held' (led_outstanding l)"
    using wf by (simp add: after_observe_def Let_def held_wf_def)
  have accts: "dom (bm_get (led_accounts l)) \<subseteq> dom (bm_get (led_accounts ?l'))"
    using wf by (auto simp: after_observe_def Let_def held_wf_def get_update_accounts)
  have next_eq: "led_next ?l' = led_next l" by (simp add: after_observe_def Let_def)
  have "reserved ?l' s = bm_sum (\<lambda>_. open_in s) (led_outstanding ?l')" for s
    using bm_sum_insert_upd [OF held, of "\<lambda>_. open_in s" ?held'] ledger_invD(1) [OF inv, of s]
      open_le_reserved [OF inv held, of s]
    unfolding after_observe_views(2) [OF inv held] out
    by (auto simp: open_in_def intro: observe_arith)
  moreover have "held_wf ?l' rid' held'" if "bm_get (led_outstanding ?l') rid' = Some held'" for rid' held'
    using that wf' ledger_invD(2) [OF inv, of rid'] accts
    by (auto simp: out next_eq split: if_splits intro: held_wf_mono)
  moreover have "committed ?l' s \<le> u128_max \<and> reserved ?l' s \<le> u128_max" for s
    using ledger_invD(3,4) [OF inv, of s] fits
    by (auto simp: after_observe_views [OF inv held] observe_fits_def)
  ultimately show ?thesis
    using ledger_invD(5) [OF inv] by (simp add: ledger_inv_def next_eq)
qed

lemma close_admission_views [simp]:
  "committed (l\<lparr>led_overflowed := b\<rparr>) s = committed l s"
  "reserved (l\<lparr>led_overflowed := b\<rparr>) s = reserved l s"
  by (simp_all add: committed_def reserved_def)

lemma close_admission_inv: "ledger_inv l \<Longrightarrow> ledger_inv (l\<lparr>led_overflowed := True\<rparr>)"
  by (auto simp: ledger_inv_def held_wf_def)

lemma observe_inv:
  assumes "ledger_inv l"
  shows "ledger_inv (snd (observe_charge_exact l r actual))" "fst (observe_charge_exact l r actual) \<noteq> Panic"
  using assms by (cases rule: observe_cases [of l r actual];
      simp add: assms close_admission_inv after_observe_inv [OF assms])+

text \<open>Dropping an outstanding reservation, as one transition.\<close>

definition after_drop :: "BudgetLedger \<Rightarrow> string \<Rightarrow> Outstanding \<Rightarrow> BudgetLedger" where
  "after_drop l rid held =
     l\<lparr>led_accounts := update_accounts
          (\<lambda>a. a\<lparr>acct_reserved := acct_reserved a - (res_amount (out_reservation held) - out_observed held)\<rparr>)
          (res_scopes (out_reservation held)) (led_accounts l),
        led_outstanding := bm_remove rid (led_outstanding l)\<rparr>"

lemma drop_held_ok:
  assumes inv: "ledger_inv l" and held: "bm_get (led_outstanding l) rid = Some held"
  shows "drop_held l rid held = (Ok (), after_drop l rid held)"
proof -
  have "distinct (res_scopes (out_reservation held))"
    using ledger_invD(2) [OF inv held] by (simp add: held_wf_def)
  then have "(unhold (res_amount (out_reservation held) - out_observed held)
      (res_scopes (out_reservation held)) (led_accounts l) :: (UsageError, _) res)
      = Ok (led_accounts (after_drop l rid held))"
    unfolding after_drop_def using consumed_le_reserved [OF inv held]
    by (subst unhold_ok) (simp_all add: account_views)
  then show ?thesis
    by (simp add: drop_held_def saturating_sub_def after_drop_def)
qed

lemma after_drop_views:
  assumes "ledger_inv l" "bm_get (led_outstanding l) rid = Some held"
  shows "committed (after_drop l rid held) s = committed l s"
    and "reserved (after_drop l rid held) s = reserved l s - open_in s held"
  using ledger_invD(2) [OF assms] unfolding held_wf_def
  by (simp_all add: account_views after_drop_def account_update_accounts open_in_def)

lemma after_drop_inv:
  assumes inv: "ledger_inv l" and held: "bm_get (led_outstanding l) rid = Some held"
  shows "ledger_inv (after_drop l rid held)"
proof -
  let ?l' = "after_drop l rid held"
  have out: "led_outstanding ?l' = bm_remove rid (led_outstanding l)" "led_next ?l' = led_next l"
    by (simp_all add: after_drop_def)
  have accts: "dom (bm_get (led_accounts l)) \<subseteq> dom (bm_get (led_accounts ?l'))"
    using ledger_invD(2) [OF inv held] by (auto simp: after_drop_def held_wf_def get_update_accounts)
  have "reserved ?l' s = bm_sum (\<lambda>_. open_in s) (led_outstanding ?l')" for s
    using bm_sum_remove_Some [OF held, of "\<lambda>_. open_in s"] ledger_invD(1) [OF inv, of s]
    unfolding after_drop_views(2) [OF inv held] out by simp
  moreover have "held_wf ?l' rid' held'" if "bm_get (led_outstanding ?l') rid' = Some held'" for rid' held'
    using that ledger_invD(2) [OF inv, of rid'] accts
    by (auto simp: out split: if_splits intro: held_wf_mono)
  moreover have "committed ?l' s \<le> u128_max \<and> reserved ?l' s \<le> u128_max" for s
    using ledger_invD(3,4) [OF inv, of s] by (auto simp: after_drop_views [OF inv held])
  ultimately show ?thesis
    using ledger_invD(5) [OF inv] by (simp add: ledger_inv_def out)
qed

lemma release_cases:
  assumes "ledger_inv l"
  obtains (absent) "release l r = (Ok (), l)" "bm_get (led_outstanding l) (res_id r) = None"
  | (held) held where "bm_get (led_outstanding l) (res_id r) = Some held"
      "release l r = (Ok (), after_drop l (res_id r) held)"
  using drop_held_ok [OF assms]
  by (cases "bm_get (led_outstanding l) (res_id r)") (auto simp: release_def)

text \<open>Settling: the observation of the final amount, then the release of what is left.\<close>

definition after_charge :: "BudgetLedger \<Rightarrow> Outstanding \<Rightarrow> nat \<Rightarrow> BudgetLedger" where
  "after_charge l held actual =
     after_drop (after_observe l held actual) (res_id (out_reservation held))
       (held\<lparr>out_observed := max (out_observed held) actual\<rparr>)"

lemma held_after_observe:
  "bm_get (led_outstanding (after_observe l held actual)) (res_id (out_reservation held))
     = Some (held\<lparr>out_observed := max (out_observed held) actual\<rparr>)"
  by (simp add: after_observe_def Let_def)

lemma charge_cases:
  assumes inv: "ledger_inv l"
  obtains (absent) "charge_exact l r actual = (Ok (), l)" "bm_get (led_outstanding l) (res_id r) = None"
  | (forged) held where "bm_get (led_outstanding l) (res_id r) = Some held" "out_reservation held \<noteq> r"
      "charge_exact l r actual = (Err DiffersFromAuthority, l)"
  | (overflow) held where "bm_get (led_outstanding l) (res_id r) = Some held" "out_reservation held = r"
      "\<not> observe_fits l held actual"
      "charge_exact l r actual = (Err ObservedTotalOverflow, l\<lparr>led_overflowed := True\<rparr>)"
  | (settled) held where "bm_get (led_outstanding l) (res_id r) = Some held" "out_reservation held = r"
      "observe_fits l held actual"
      "charge_exact l r actual = (Ok (), after_charge l held actual)"
  using inv
proof (cases rule: observe_cases [of l r actual])
  case unknown
  then show ?thesis by (intro absent) (simp_all add: charge_exact_def)
next
  case (forged held)
  then show ?thesis by (intro that(2)) (simp_all add: charge_exact_def)
next
  case (overflow held)
  then show ?thesis by (intro that(3)) (simp_all add: charge_exact_def)
next
  case (charged held)
  have "drop_held (after_observe l held actual) (res_id r)
      (held\<lparr>out_observed := max (out_observed held) actual\<rparr>) = (Ok (), after_charge l held actual)"
    using drop_held_ok [OF after_observe_inv [OF inv charged(1,3)] held_after_observe] charged(2)
    by (simp add: after_charge_def)
  then show ?thesis
    using charged held_after_observe [of l held actual] by (intro settled) (simp_all add: charge_exact_def)
qed

lemma after_charge_inv:
  "ledger_inv l \<Longrightarrow> bm_get (led_outstanding l) rid = Some held \<Longrightarrow> observe_fits l held actual \<Longrightarrow>
   ledger_inv (after_charge l held actual)"
  unfolding after_charge_def by (intro after_drop_inv after_observe_inv held_after_observe)

lemma release_inv:
  assumes "ledger_inv l"
  shows "ledger_inv (snd (release l r))" "fst (release l r) \<noteq> Panic"
  using assms by (cases rule: release_cases [of l r]; simp add: assms after_drop_inv [OF assms])+

lemma charge_inv:
  assumes "ledger_inv l"
  shows "ledger_inv (snd (charge_exact l r actual))" "fst (charge_exact l r actual) \<noteq> Panic"
  using assms by (cases rule: charge_cases [of l r actual];
      simp add: assms close_admission_inv after_charge_inv [OF assms])+

subsection \<open>Reachable ledgers\<close>

lemma with_limit_views [simp]:
  "committed (with_limit l s' lim) s = committed l s" "reserved (with_limit l s' lim) s = reserved l s"
  by (simp_all add: account_views with_limit_def)

lemma with_exact_committed_views [simp]:
  "committed (with_exact_committed l s' c) s = (if s = s' then c else committed l s)"
  "reserved (with_exact_committed l s' c) s = reserved l s"
  by (simp_all add: account_views with_exact_committed_def)

lemma held_wf_insert:
  "held_wf l rid held \<Longrightarrow> held_wf (l\<lparr>led_accounts := bm_insert s a (led_accounts l)\<rparr>) rid held"
  by (erule held_wf_mono) auto

lemma with_limit_inv: "ledger_inv l \<Longrightarrow> ledger_inv (with_limit l s lim)"
  unfolding ledger_inv_def with_limit_views
  by (auto simp: with_limit_def intro: held_wf_insert)

lemma with_exact_committed_inv:
  "ledger_inv l \<Longrightarrow> c \<le> u128_max \<Longrightarrow> ledger_inv (with_exact_committed l s c)"
  unfolding ledger_inv_def with_exact_committed_views
  by (auto simp: with_exact_committed_def intro: held_wf_insert)

text \<open>
  One call of any ledger operation with any arguments a caller can pass, a forged or stale
  reservation included.
\<close>

inductive ledger_step :: "BudgetLedger \<Rightarrow> BudgetLedger \<Rightarrow> bool" where
  step_limit: "ledger_step l (with_limit l s lim)"
| step_committed: "c \<le> u128_max \<Longrightarrow> ledger_step l (with_exact_committed l s c)"
| step_reserve: "ledger_step l (snd (reserve l scopes amount))"
| step_observe: "ledger_step l (snd (observe_charge_exact l r actual))"
| step_charge: "ledger_step l (snd (charge_exact l r actual))"
| step_release: "ledger_step l (snd (release l r))"

inductive_cases ledger_stepE: "ledger_step l l'"

interpretation ledger: invariant "\<lambda>l. l = default_ledger" ledger_step ledger_inv
proof unfold_locales
  fix l :: BudgetLedger
  assume "l = default_ledger"
  then show "ledger_inv l" by (simp add: ledger_inv_default)
next
  fix l l' :: BudgetLedger
  assume "ledger_inv l" and "ledger_step l l'"
  then show "ledger_inv l'"
    by (auto elim!: ledger_stepE
        intro: with_limit_inv with_exact_committed_inv reserve_inv observe_inv charge_inv release_inv)
qed

lemma reserve_not_Panic: "fst (reserve l scopes amount) \<noteq> Panic"
  using reserve_when_admitted [of l scopes amount] reserve_when_refused [of l scopes amount]
  by (cases "reserve_admitted l scopes amount") auto

abbreviation reachable_ledger :: "BudgetLedger \<Rightarrow> bool" where
  "reachable_ledger \<equiv> reach (\<lambda>l. l = default_ledger) ledger_step"

lemma overflowed_step:
  assumes "ledger_inv l" "ledger_step l l'" "led_overflowed l"
  shows "led_overflowed l'"
  using assms(2)
proof cases
  case (step_reserve scopes amount)
  then show ?thesis using assms(3) by (simp add: reserve_def)
next
  case (step_observe r actual)
  with assms(1,3) show ?thesis
    by (cases rule: observe_cases [of l r actual]) (simp_all add: after_observe_def Let_def)
next
  case (step_charge r actual)
  with assms(1,3) show ?thesis
    by (cases rule: charge_cases [of l r actual])
      (simp_all add: after_charge_def after_drop_def after_observe_def Let_def)
next
  case (step_release r)
  with assms(1,3) show ?thesis
    by (cases rule: release_cases [of l r]) (simp_all add: after_drop_def)
qed (simp_all add: assms(3) with_limit_def with_exact_committed_def)

lemma overflowed_steps:
  assumes "ledger_step\<^sup>*\<^sup>* l l'" "ledger_inv l" "led_overflowed l"
  shows "led_overflowed l'"
  using assms(1)
proof (induction rule: rtranclp_induct)
  case (step y z)
  then show ?case
    using ledger.steps_inv [OF assms(2)] overflowed_step by blast
qed (rule assms(3))

subsection \<open>Limits\<close>

text \<open>
  A dispatching client: it reserves, reports usage, settles and releases. \<open>excess\<close> is what an
  accepted report adds, in the scopes of its reservation only, beyond both the amount the
  reservation was granted and what was reported for it before.
\<close>

datatype LedgerOp =
    OpReserve "BudgetScope list" nat
  | OpObserve Reservation nat
  | OpCharge Reservation nat
  | OpRelease Reservation

fun ledger_op :: "LedgerOp \<Rightarrow> BudgetLedger \<Rightarrow> BudgetLedger" where
  "ledger_op (OpReserve scopes amount) l = snd (reserve l scopes amount)"
| "ledger_op (OpObserve r actual) l = snd (observe_charge_exact l r actual)"
| "ledger_op (OpCharge r actual) l = snd (charge_exact l r actual)"
| "ledger_op (OpRelease r) l = snd (release l r)"

definition report_excess :: "BudgetLedger \<Rightarrow> BudgetScope \<Rightarrow> Reservation \<Rightarrow> nat \<Rightarrow> nat" where
  "report_excess l s r actual =
     (if is_ok (fst (observe_charge_exact l r actual)) \<and> s \<in> set (res_scopes r)
      then actual - max (res_amount r) (observed_charge_exact l r) else 0)"

fun excess :: "BudgetLedger \<Rightarrow> BudgetScope \<Rightarrow> LedgerOp \<Rightarrow> nat" where
  "excess l s (OpObserve r actual) = report_excess l s r actual"
| "excess l s (OpCharge r actual) = report_excess l s r actual"
| "excess l s (OpReserve scopes amount) = 0"
| "excess l s (OpRelease r) = 0"

fun total_excess :: "BudgetLedger \<Rightarrow> BudgetScope \<Rightarrow> LedgerOp list \<Rightarrow> nat" where
  "total_excess l s [] = 0"
| "total_excess l s (op # ops) = excess l s op + total_excess (ledger_op op l) s ops"

lemma ledger_op_step: "ledger_step l (ledger_op op l)"
  by (cases op) (auto intro: ledger_step.intros)

lemma ledger_op_inv: "ledger_inv l \<Longrightarrow> ledger_inv (ledger_op op l)"
  by (rule ledger.inv_step [OF _ ledger_op_step])

definition scope_limit :: "BudgetLedger \<Rightarrow> BudgetScope \<Rightarrow> nat option" where
  "scope_limit l s = acct_limit (account_or_default (led_accounts l) s)"

definition scope_used :: "BudgetLedger \<Rightarrow> BudgetScope \<Rightarrow> nat" where
  "scope_used l s = committed l s + reserved l s"

lemma after_observe_used_exact:
  assumes "ledger_inv l" "bm_get (led_outstanding l) rid = Some held"
  shows "scope_used (after_observe l held actual) s = scope_used l s +
    (if s \<in> set (res_scopes (out_reservation held))
     then actual - max (res_amount (out_reservation held)) (out_observed held) else 0)"
  using consumed_le_reserved [OF assms, of s]
  by (auto simp: scope_used_def after_observe_views [OF assms] min_def max_def)

lemma after_observe_used:
  assumes "ledger_inv l" "bm_get (led_outstanding l) rid = Some held"
  shows "scope_used (after_observe l held actual) s \<le> scope_used l s + (actual - res_amount (out_reservation held))"
  using after_observe_used_exact [OF assms, of actual s] by auto

lemma after_drop_used:
  assumes "ledger_inv l" "bm_get (led_outstanding l) rid = Some held"
  shows "scope_used (after_drop l rid held) s \<le> scope_used l s"
  by (simp add: scope_used_def after_drop_views [OF assms])

lemma after_charge_used_exact:
  assumes "ledger_inv l" "bm_get (led_outstanding l) rid = Some held" "observe_fits l held actual"
  shows "scope_used (after_charge l held actual) s \<le> scope_used (after_observe l held actual) s"
  unfolding after_charge_def
  by (rule after_drop_used [OF after_observe_inv [OF assms] held_after_observe])

lemma after_charge_used:
  assumes "ledger_inv l" "bm_get (led_outstanding l) rid = Some held" "observe_fits l held actual"
  shows "scope_used (after_charge l held actual) s \<le> scope_used l s + (actual - res_amount (out_reservation held))"
  using after_charge_used_exact [OF assms, of s] after_observe_used [OF assms(1,2), of actual s] by linarith

lemma report_excess_outstanding:
  assumes "ledger_inv l" "bm_get (led_outstanding l) (res_id r) = Some held" "out_reservation held = r"
    "observe_fits l held actual"
  shows "scope_used (after_observe l held actual) s = scope_used l s + report_excess l s r actual"
  using observe_outstanding [OF assms(1-3)] after_observe_used_exact [OF assms(1,2), of actual s] assms(2-4)
  by (auto simp: report_excess_def observed_charge_exact_def)

lemma ledger_op_limit:
  assumes "ledger_inv l"
  shows "scope_limit (ledger_op op l) s = scope_limit l s"
proof (cases op)
  case (OpReserve scopes amount)
  then show ?thesis
    using reserve_when_admitted [of l scopes amount] reserve_when_refused [of l scopes amount]
    by (cases "reserve_admitted l scopes amount")
      (auto simp: scope_limit_def after_reserve_def account_update_accounts)
next
  case (OpObserve r actual)
  show ?thesis
    using assms unfolding OpObserve
    by (cases rule: observe_cases [of l r actual])
      (auto simp: scope_limit_def after_observe_def Let_def account_update_accounts
        dest!: ledger_invD(2) [OF assms] simp: held_wf_def)
next
  case (OpCharge r actual)
  show ?thesis
    using assms unfolding OpCharge
    by (cases rule: charge_cases [of l r actual])
      (auto simp: scope_limit_def after_charge_def after_drop_def after_observe_def Let_def
        account_update_accounts held_wf_def dest!: ledger_invD(2) [OF assms])
next
  case (OpRelease r)
  show ?thesis
    using assms unfolding OpRelease
    by (cases rule: release_cases [of l r])
      (auto simp: scope_limit_def after_drop_def account_update_accounts held_wf_def
        dest!: ledger_invD(2) [OF assms])
qed

lemma ledger_op_used:
  assumes inv: "ledger_inv l" and lim: "scope_limit l s = Some lim" and used: "scope_used l s \<le> lim + x"
  shows "scope_used (ledger_op op l) s \<le> lim + (x + excess l s op)"
proof (cases op)
  case (OpReserve scopes amount)
  show ?thesis
  proof (cases "reserve_admitted l scopes amount")
    case True
    then show ?thesis
      using used lim
      by (auto simp: OpReserve reserve_when_admitted scope_used_def after_reserve_views
          reserve_admitted_def scope_admits_def scope_limit_def)
  next
    case False
    then show ?thesis
      using used reserve_when_refused [OF False] by (auto simp: OpReserve)
  qed
next
  case (OpObserve r actual)
  show ?thesis
    using inv unfolding OpObserve
    by (cases rule: observe_cases [of l r actual])
      (use used report_excess_outstanding [OF inv, of r _ actual s] in \<open>force simp: scope_used_def\<close>)+
next
  case (OpCharge r actual)
  show ?thesis
    using inv unfolding OpCharge
    by (cases rule: charge_cases [of l r actual])
      (use used report_excess_outstanding [OF inv, of r _ actual s] after_charge_used_exact [OF inv, of "res_id r" _ actual s]
       in \<open>force simp: scope_used_def\<close>)+
next
  case (OpRelease r)
  show ?thesis
    using inv unfolding OpRelease
    by (cases rule: release_cases [of l r])
      (use used after_drop_used [OF inv, of "res_id r" _ s] in \<open>force simp: scope_used_def\<close>)+
qed

subsection \<open>Repeated observations\<close>

fun observe_all :: "BudgetLedger \<Rightarrow> Reservation \<Rightarrow> nat list \<Rightarrow> BudgetLedger" where
  "observe_all l r [] = l"
| "observe_all l r (a # as) = observe_all (snd (observe_charge_exact l r a)) r as"

lemma observe_fits_after:
  assumes "ledger_inv l" "bm_get (led_outstanding l) rid = Some held" "observe_fits l held a"
    "observe_fits l held b"
  shows "observe_fits (after_observe l held a) (held\<lparr>out_observed := max (out_observed held) a\<rparr>) b"
  unfolding observe_fits_def
proof (intro ballI)
  fix s
  assume "s \<in> set (res_scopes (out_reservation (held\<lparr>out_observed := max (out_observed held) a\<rparr>)))"
  then have "s \<in> set (res_scopes (out_reservation held))"
    "committed l s + (a - out_observed held) \<le> u128_max" "committed l s + (b - out_observed held) \<le> u128_max"
    using assms(3,4) by (auto simp: observe_fits_def)
  then show "committed (after_observe l held a) s +
      (b - out_observed (held\<lparr>out_observed := max (out_observed held) a\<rparr>)) \<le> u128_max"
    by (simp add: after_observe_views [OF assms(1,2)])
qed

lemma observe_all_floor:
  assumes "ledger_inv l" "bm_get (led_outstanding l) (res_id r) = Some held" "out_reservation held = r"
    "\<forall>a \<in> set as. observe_fits l held a"
  shows "\<exists>held'. bm_get (led_outstanding (observe_all l r as)) (res_id r) = Some held' \<and>
      out_reservation held' = r \<and> out_observed held' = fold max as (out_observed held) \<and>
      (\<forall>s. committed (observe_all l r as) s = committed l s +
         (if s \<in> set (res_scopes r) then fold max as (out_observed held) - out_observed held else 0))"
  using assms
proof (induction as arbitrary: l held)
  case (Cons a as)
  let ?l' = "after_observe l held a"
  let ?held' = "held\<lparr>out_observed := max (out_observed held) a\<rparr>"
  have step: "snd (observe_charge_exact l r a) = ?l'"
    using observe_outstanding [OF Cons.prems(1-3)] Cons.prems(4) by simp
  have grow: "max (out_observed held) a \<le> fold max as (max (out_observed held) a)"
    by (rule fold_max_ge)
  have fits: "\<forall>b \<in> set as. observe_fits ?l' ?held' b"
    using observe_fits_after [OF Cons.prems(1,2)] Cons.prems(4) by simp
  obtain held' where "bm_get (led_outstanding (observe_all ?l' r as)) (res_id r) = Some held'"
    "out_reservation held' = r" "out_observed held' = fold max as (max (out_observed held) a)"
    "\<forall>s. committed (observe_all ?l' r as) s = committed ?l' s +
       (if s \<in> set (res_scopes r) then fold max as (max (out_observed held) a) - max (out_observed held) a else 0)"
    using Cons.IH [OF _ _ _ fits] after_observe_inv [OF Cons.prems(1,2)] held_after_observe [of l held a]
      Cons.prems(3,4) by auto
  then show ?case
    using grow Cons.prems(3)
    by (intro exI [of _ held']) (auto simp: step after_observe_views [OF Cons.prems(1,2)] max.commute)
qed simp

subsection \<open>Properties\<close>

text \<open>Evaluation of the ledger on concrete inputs.\<close>

lemmas ledger_eval =
  default_ledger_def default_account_def account_or_default_def with_limit_def with_exact_committed_def
  committed_def reserved_def remaining_def reserve_def reservation_id_def show_nat.simps digit_simps
  observe_charge_exact_def charge_exact_def release_def drop_held_def saturating_sub_def
  checked_add_def checked_sub_def uint_bounds Let_def

definition sample_ledger :: BudgetLedger where
  "sample_ledger = with_limit (with_limit default_ledger Run 100) (FanOut ''deep'') 60"

definition sample_reservation :: Reservation where
  "sample_reservation = \<lparr>res_id = ''reservation:1'', res_amount = 40, res_scopes = [FanOut ''deep'', Run]\<rparr>"

definition sample_reserved :: BudgetLedger where
  "sample_reserved = snd (reserve sample_ledger [Run, FanOut ''deep''] 40)"

lemma sample_reachable: "reachable_ledger sample_ledger" "reachable_ledger sample_reserved"
  unfolding sample_reserved_def sample_ledger_def
  by (rule reach_init reach_step refl ledger_step.step_limit ledger_step.step_reserve)+

lemma sample_reserve:
  "reserve sample_ledger [Run, FanOut ''deep''] 40 = (Ok sample_reservation, sample_reserved)"
  by (simp add: sample_reserved_def sample_ledger_def sample_reservation_def ledger_eval)

lemma sample_held:
  "bm_get (led_outstanding sample_reserved) ''reservation:1''
     = Some \<lparr>out_reservation = sample_reservation, out_observed = 0\<rparr>"
  by (simp add: sample_reserved_def sample_ledger_def sample_reservation_def ledger_eval)

lemma sample_views:
  "committed sample_reserved Run = 0" "committed sample_reserved (FanOut ''deep'') = 0"
  "reserved sample_reserved Run = 40" "reserved sample_reserved (FanOut ''deep'') = 40"
  by (simp_all add: sample_reserved_def sample_ledger_def ledger_eval)

text \<open>
  C29: in every ledger a caller can reach, the reserved total of each scope is the sum of what the
  outstanding reservations over it still hold, all totals fit their machine width, and no operation
  panics, whatever reservation and amount it is called with.
\<close>

theorem ledger_totals_exact_and_no_panic:
  assumes "reachable_ledger l"
  shows "reserved l s = (\<Sum>held\<leftarrow>bm_values (led_outstanding l). open_in s held) \<and>
    committed l s \<le> u128_max \<and> reserved l s \<le> u128_max \<and>
    fst (reserve l scopes amount) \<noteq> Panic \<and> fst (observe_charge_exact l r actual) \<noteq> Panic \<and>
    fst (charge_exact l r actual) \<noteq> Panic \<and> fst (release l r) \<noteq> Panic"
proof -
  have inv: "ledger_inv l" by (rule ledger.reach_inv [OF assms])
  have "bm_sum (\<lambda>_. open_in s) (led_outstanding l) = (\<Sum>held\<leftarrow>bm_values (led_outstanding l). open_in s held)"
    by (simp add: bm_sum_def bm_values_def case_prod_unfold comp_def)
  then show ?thesis
    using ledger_invD(1,3,4) [OF inv, of s] reserve_not_Panic observe_inv(2) [OF inv] charge_inv(2) [OF inv]
      release_inv(2) [OF inv] by simp
qed

theorem ledger_totals_exact_and_no_panic_witness:
  "reserved sample_reserved Run = (\<Sum>held\<leftarrow>bm_values (led_outstanding sample_reserved). open_in Run held)
   \<and> reserved sample_reserved Run = 40"
  using ledger_totals_exact_and_no_panic [OF sample_reachable(2), of Run] sample_views by blast

text \<open>
  C28: a reservation is all or nothing. In a reachable ledger it is granted exactly when no overflow
  has closed admission, one of the 64-bit identities is left, and every scope it names has room for
  the whole amount: under its limit if it has one, and in 128 bits. A granted reservation has the
  amount and the scopes asked for and an identity no outstanding reservation carries; it is filed
  under that identity with nothing observed and every other entry is kept; each named scope, however
  often it is named, holds the amount once more, and nothing is committed. A refusal changes nothing.
\<close>

theorem reserve_all_or_nothing:
  assumes "reachable_ledger l" "reserve l scopes amount = (outcome, l')"
  shows "(is_ok outcome \<longleftrightarrow>
      \<not> led_overflowed l \<and> led_next l < u64_max \<and>
      (\<forall>s \<in> set scopes. committed l s + reserved l s + amount \<le> u128_max \<and>
         (\<forall>lim. scope_limit l s = Some lim \<longrightarrow> committed l s + reserved l s + amount \<le> lim))) \<and>
   (\<forall>r. outcome = Ok r \<longrightarrow>
      res_amount r = amount \<and> distinct (res_scopes r) \<and> set (res_scopes r) = set scopes \<and>
      bm_get (led_outstanding l) (res_id r) = None \<and>
      led_outstanding l' = bm_insert (res_id r) \<lparr>out_reservation = r, out_observed = 0\<rparr> (led_outstanding l) \<and>
      (\<forall>s. committed l' s = committed l s \<and>
         reserved l' s = reserved l s + (if s \<in> set scopes then amount else 0))) \<and>
   (\<not> is_ok outcome \<longrightarrow> l' = l)"
proof (cases "reserve_admitted l scopes amount")
  case True
  have out: "outcome = Ok (granted l scopes amount)" "l' = after_reserve l scopes amount"
    using assms(2) reserve_when_admitted [OF True] by simp_all
  have "bm_get (led_outstanding l) (res_id (granted l scopes amount)) = None"
    "led_outstanding (after_reserve l scopes amount) =
       bm_insert (res_id (granted l scopes amount)) \<lparr>out_reservation = granted l scopes amount, out_observed = 0\<rparr> (led_outstanding l)"
    using fresh_reservation [OF ledger.reach_inv [OF assms(1)]] by (simp_all add: granted_def after_reserve_def)
  moreover have "res_amount (granted l scopes amount) = amount" "distinct (res_scopes (granted l scopes amount))"
    "set (res_scopes (granted l scopes amount)) = set scopes"
    by (simp_all add: granted_def)
  ultimately show ?thesis
    using True unfolding out by (simp add: after_reserve_views reserve_admitted_def scope_admits_def scope_limit_def)
next
  case False
  then have "\<not> is_ok outcome" "l' = l" using reserve_when_refused [OF False] assms(2) by auto
  then show ?thesis using False by (auto simp: reserve_admitted_def scope_admits_def scope_limit_def)
qed

theorem reserve_all_or_nothing_witness:
  "\<exists>r. fst (reserve sample_ledger [Run, FanOut ''deep''] 40) = Ok r \<and> res_amount r = 40 \<and>
     set (res_scopes r) = {Run, FanOut ''deep''} \<and>
   reserved sample_reserved (FanOut ''deep'') = reserved sample_ledger (FanOut ''deep'') + 40 \<and>
   snd (reserve sample_reserved [FanOut ''deep''] 30) = sample_reserved"
proof -
  have refused: "\<not> is_ok (fst (reserve sample_reserved [FanOut ''deep''] 30))"
    by (simp add: sample_reserved_def sample_ledger_def ledger_eval)
  obtain outcome l' where again: "reserve sample_reserved [FanOut ''deep''] 30 = (outcome, l')" by force
  then show ?thesis
    using reserve_all_or_nothing [OF sample_reachable(1) sample_reserve]
      reserve_all_or_nothing [OF sample_reachable(2) again] refused sample_reserve
    by simp
qed

text \<open>
  C20: a limit can only be passed by usage reported beyond a reservation of that very scope. Take
  a ledger that satisfies the invariant of reachable ledgers and holds a scope within its limit,
  and any sequence of reservations, observations, settlements and releases (limits and commitments
  are not set again meanwhile). What the scope has committed and reserved stays within its limit
  plus the sum of the excesses: what each accepted report for a reservation over this scope adds
  beyond both the granted amount and the earlier reports for that reservation. Refused, repeated and
  foreign reports add nothing, so without an excess the limit is never passed.
\<close>

theorem limit_passed_only_by_reported_excess:
  assumes "ledger_inv l" "scope_limit l s = Some lim" "committed l s + reserved l s \<le> lim"
  shows "committed (fold ledger_op ops l) s + reserved (fold ledger_op ops l) s \<le> lim + total_excess l s ops"
proof -
  have "scope_used (fold ledger_op ops l) s \<le> lim + (x + total_excess l s ops)"
    if "ledger_inv l" "scope_limit l s = Some lim" "scope_used l s \<le> lim + x" for x
    using that
  proof (induction ops arbitrary: l x)
    case (Cons op ops)
    then have "scope_used (ledger_op op l) s \<le> lim + (x + excess l s op)"
      by (intro ledger_op_used)
    then show ?case
      using Cons ledger_op_inv ledger_op_limit by (force simp: add.assoc)
  qed simp
  from this [of 0] assms show ?thesis
    by (simp add: scope_used_def)
qed

theorem limit_passed_only_by_reported_excess_witness:
  "total_excess sample_reserved Run [OpObserve sample_reservation 25, OpCharge sample_reservation 45,
     OpCharge sample_reservation 99] = 5 \<and>
   committed (fold ledger_op [OpObserve sample_reservation 25, OpCharge sample_reservation 45,
     OpCharge sample_reservation 99] sample_reserved) Run
   + reserved (fold ledger_op [OpObserve sample_reservation 25, OpCharge sample_reservation 45,
     OpCharge sample_reservation 99] sample_reserved) Run \<le> 100 + 5"
proof -
  let ?ops = "[OpObserve sample_reservation 25, OpCharge sample_reservation 45, OpCharge sample_reservation 99]"
  have "total_excess sample_reserved Run ?ops = 5" "scope_limit sample_reserved Run = Some 100"
    by (simp_all add: report_excess_def observed_charge_exact_def sample_reservation_def sample_reserved_def
        sample_ledger_def scope_limit_def ledger_eval)
  then show ?thesis
    using limit_passed_only_by_reported_excess [of sample_reserved Run 100 ?ops]
      ledger.reach_inv [OF sample_reachable(2)] sample_views by simp
qed

text \<open>
  usage reports are cumulative floors. After any sequence of reports against one outstanding
  reservation, its recorded usage is the largest report, and every scope it names has committed
  exactly the growth of that maximum: repeated, reordered and older reports charge nothing twice.
\<close>

theorem observations_are_cumulative_floors:
  assumes "ledger_inv l" "bm_get (led_outstanding l) (res_id r) = Some held" "out_reservation held = r"
    and "\<forall>a \<in> set reports. \<forall>s \<in> set (res_scopes r). committed l s + (a - out_observed held) \<le> u128_max"
  shows "observed_charge_exact (observe_all l r reports) r = fold max reports (out_observed held) \<and>
    (\<forall>s. committed (observe_all l r reports) s = committed l s +
       (if s \<in> set (res_scopes r) then fold max reports (out_observed held) - out_observed held else 0))"
  using observe_all_floor [OF assms(1-3), of reports] assms(3,4)
  by (fastforce simp: observe_fits_def observed_charge_exact_def)

theorem observations_are_cumulative_floors_witness:
  "observed_charge_exact (observe_all sample_reserved sample_reservation [20, 20, 4]) sample_reservation = 20
   \<and> committed (observe_all sample_reserved sample_reservation [20, 20, 4]) Run = 20"
  using observations_are_cumulative_floors
    [of sample_reserved sample_reservation "\<lparr>out_reservation = sample_reservation, out_observed = 0\<rparr>" "[20, 20, 4]"]
    ledger.reach_inv [OF sample_reachable(2)] sample_held sample_views
  by (simp add: sample_reservation_def u128_max_def)

text \<open>
  C31: a report that cannot be represented is atomic and closes admission for good. When what a
  report adds to an outstanding reservation would push the commitment of one of its scopes past 128
  bits, the observation and the settlement are both refused as an overflow and leave every account
  and every reservation as it was. After any later operations every reservation is then refused
  for that reason, and every scope with a limit reports no remaining tokens.
\<close>

theorem overflow_closes_admission:
  assumes "ledger_inv l" "bm_get (led_outstanding l) (res_id r) = Some held" "out_reservation held = r"
    and "s \<in> set (res_scopes r)" "u128_max < committed l s + (actual - out_observed held)"
    and "observe_charge_exact l r actual = (outcome, l1)" "ledger_step\<^sup>*\<^sup>* l1 l2"
  shows "outcome = Err ObservedTotalOverflow \<and> charge_exact l r actual = (Err ObservedTotalOverflow, l1) \<and>
    led_accounts l1 = led_accounts l \<and> led_outstanding l1 = led_outstanding l \<and>
    (\<exists>e. reserve l2 scopes amount = (Err e, l2) \<and> err_reason e = AccountingOverflow) \<and>
    (\<forall>s'. remaining l2 s' = map_option (\<lambda>_. 0) (scope_limit l2 s'))"
proof -
  have "\<not> observe_fits l held actual" using assms(3-5) by (auto simp: observe_fits_def not_le)
  then have overflow: "observe_charge_exact l r actual = (Err ObservedTotalOverflow, l\<lparr>led_overflowed := True\<rparr>)"
    using observe_outstanding [OF assms(1-3)] by simp
  then have l1: "outcome = Err ObservedTotalOverflow" "l1 = l\<lparr>led_overflowed := True\<rparr>" using assms(6) by auto
  then have closed: "led_overflowed l2"
    using overflowed_steps [OF assms(7)] close_admission_inv [OF assms(1)] by simp
  have "charge_exact l r actual = (Err ObservedTotalOverflow, l1)"
    using overflow assms(2) l1(2) by (simp add: charge_exact_def)
  moreover have "remaining l2 s' = map_option (\<lambda>_. 0) (scope_limit l2 s')" for s'
    using closed by (auto simp: remaining_def scope_limit_def account_or_default_def default_account_def split: option.splits)
  ultimately show ?thesis
    using closed l1 by (simp add: reserve_def)
qed

definition full_ledger :: BudgetLedger where
  "full_ledger = snd (reserve
     (with_exact_committed (with_limit default_ledger (FanOut ''deep'') 60) Run u128_max) [Run] 0)"

theorem overflow_closes_admission_witness:
  "\<exists>l1 e. observe_charge_exact full_ledger \<lparr>res_id = ''reservation:1'', res_amount = 0, res_scopes = [Run]\<rparr> 11
      = (Err ObservedTotalOverflow, l1) \<and> reserve l1 [FanOut ''deep''] 1 = (Err e, l1) \<and>
     err_reason e = AccountingOverflow \<and> remaining l1 (FanOut ''deep'') = Some 0"
proof -
  have inv: "ledger_inv full_ledger"
    unfolding full_ledger_def
    by (intro reserve_inv with_exact_committed_inv with_limit_inv ledger_inv_default order_refl)
  let ?r = "\<lparr>res_id = ''reservation:1'', res_amount = 0, res_scopes = [Run]\<rparr>"
  let ?l1 = "full_ledger\<lparr>led_overflowed := True\<rparr>"
  have facts: "bm_get (led_outstanding full_ledger) ''reservation:1'' = Some \<lparr>out_reservation = ?r, out_observed = 0\<rparr>"
    "committed full_ledger Run = u128_max" "scope_limit ?l1 (FanOut ''deep'') = Some 60"
    "observe_charge_exact full_ledger ?r 11 = (Err ObservedTotalOverflow, ?l1)"
    by (simp_all add: full_ledger_def scope_limit_def ledger_eval)
  show ?thesis
    using overflow_closes_admission [OF inv, of ?r _ Run 11 "Err ObservedTotalOverflow" ?l1 ?l1 "[FanOut ''deep'']" 1] facts
    by auto
qed

text \<open>
  C33: settlement is exact and final. Settling an outstanding reservation commits, in every scope it
  names, what the final amount adds to the usage already observed, gives back exactly what the
  reservation still held, and ends it; settling it again with any amount changes nothing.
\<close>

theorem settlement_exact_and_final:
  assumes "ledger_inv l" "bm_get (led_outstanding l) (res_id r) = Some held"
    and "charge_exact l r actual = (Ok (), l')"
  shows "(\<forall>s. committed l' s = committed l s +
        (if s \<in> set (res_scopes r) then actual - out_observed held else 0) \<and>
      reserved l' s = reserved l s - (if s \<in> set (res_scopes r) then res_amount r - out_observed held else 0)) \<and>
    bm_get (led_outstanding l') (res_id r) = None \<and> charge_exact l' r again = (Ok (), l')"
  using assms(1)
proof (cases rule: charge_cases [of l r actual])
  case (settled held')
  then have eqs: "held' = held" "out_reservation held = r" "observe_fits l held actual"
      "l' = after_charge l held actual"
    using assms(2,3) by auto
  let ?held' = "held\<lparr>out_observed := max (out_observed held) actual\<rparr>"
  note inv' = after_observe_inv [OF assms(1,2) eqs(3)]
  have gone: "bm_get (led_outstanding l') (res_id r) = None"
    by (simp add: eqs after_charge_def after_drop_def)
  moreover have "reserved l' s = reserved l s -
      (if s \<in> set (res_scopes r) then res_amount r - out_observed held else 0)" for s
    using consumed_le_reserved [OF assms(1,2), of s]
    unfolding eqs(4) after_charge_def after_drop_views(2) [OF inv' held_after_observe]
      after_observe_views(2) [OF assms(1,2)]
    by (auto simp: open_in_def eqs(2))
  moreover have "committed l' s = committed l s +
      (if s \<in> set (res_scopes r) then actual - out_observed held else 0)" for s
    unfolding eqs(4) after_charge_def after_drop_views(1) [OF inv' held_after_observe]
      after_observe_views(1) [OF assms(1,2)] by (simp add: eqs(2))
  ultimately show ?thesis
    by (simp add: charge_exact_def)
qed (use assms in auto)

theorem settlement_exact_and_final_witness:
  "\<exists>l'. charge_exact sample_reserved sample_reservation 28 = (Ok (), l') \<and>
     committed l' Run = 28 \<and> reserved l' Run = 0 \<and> charge_exact l' sample_reservation 99 = (Ok (), l')"
proof -
  obtain l' where ok: "charge_exact sample_reserved sample_reservation 28 = (Ok (), l')"
    by (simp add: sample_reserved_def sample_ledger_def sample_reservation_def ledger_eval)
  show ?thesis
    using settlement_exact_and_final [OF ledger.reach_inv [OF sample_reachable(2)] _ ok,
        of "\<lparr>out_reservation = sample_reservation, out_observed = 0\<rparr>" 99] ok sample_held sample_views
    by (simp add: sample_reservation_def)
qed

text \<open>
  \<open>remaining\<close> is the admission test. For a limited scope, a reservation of a positive amount in
  it alone is granted exactly when the amount is at most what \<open>remaining\<close> reports, also once a
  settlement has pushed the scope past its limit or an overflow has closed admission.
\<close>

theorem remaining_decides_admission:
  assumes "scope_limit l s = Some lim" "lim \<le> u64_max" "led_next l < u64_max" "0 < amount"
  shows "\<exists>rest. remaining l s = Some rest \<and> rest \<le> lim \<and>
    (is_ok (fst (reserve l [s] amount)) \<longleftrightarrow> amount \<le> rest)"
proof -
  obtain a where a: "bm_get (led_accounts l) s = Some a" "acct_limit a = Some lim"
    using assms(1) by (auto simp: scope_limit_def account_or_default_def default_account_def
        split: option.splits)
  have "u64_max \<le> u128_max" by (simp add: uint_bounds)
  with a assms show ?thesis
    using reserve_when_admitted [of l "[s]" amount] reserve_when_refused [of l "[s]" amount]
    by (cases "reserve_admitted l [s] amount")
      (auto simp: reserve_admitted_def scope_admits_def account_views account_or_default_get
        remaining_def checked_add_def saturating_sub_def)
qed

theorem remaining_decides_admission_witness:
  "remaining sample_reserved (FanOut ''deep'') = Some 20 \<and>
   is_ok (fst (reserve sample_reserved [FanOut ''deep''] 20)) \<and>
   \<not> is_ok (fst (reserve sample_reserved [FanOut ''deep''] 21))"
proof -
  have "remaining sample_reserved (FanOut ''deep'') = Some 20"
    "scope_limit sample_reserved (FanOut ''deep'') = Some 60" "led_next sample_reserved < u64_max"
    by (simp_all add: sample_reserved_def sample_ledger_def scope_limit_def ledger_eval)
  then show ?thesis
    using remaining_decides_admission [of sample_reserved "FanOut ''deep''" 60 20]
      remaining_decides_admission [of sample_reserved "FanOut ''deep''" 60 21]
    by (simp add: u64_max_def)
qed

text \<open>
  C32: what a refusal names. A refused reservation leaves the ledger alone. While admission is open
  and an identity is left, the error names the first of the scopes asked for, in scope order, that
  has no room, with that scope's own commitment and reservation and the amount asked for: every named
  scope before it admits the amount. Its reason is the tokens, with that scope's limit, when the total
  fits 128 bits, and an accounting overflow otherwise. An earlier overflow, or the last identity
  spent, is reported of the run with the largest limit instead.
\<close>

theorem refusal_names_first_full_scope:
  assumes "reserve l scopes amount = (Err e, l')"
  shows "l' = l \<and>
    (if led_overflowed l then err_reason e = AccountingOverflow \<and> err_scope e = Run \<and> err_limit e = u64_max
     else if u64_max \<le> led_next l then err_reason e = ReservationIdentities \<and> err_scope e = Run \<and> err_limit e = u64_max
     else err_scope e \<in> set scopes \<and> \<not> scope_admits l amount (err_scope e) \<and>
       (\<forall>s \<in> set scopes. s < err_scope e \<longrightarrow> scope_admits l amount s) \<and>
       err_committed e = committed l (err_scope e) \<and> err_reserved e = reserved l (err_scope e) \<and> err_requested e = amount \<and>
       (if err_committed e + err_reserved e + amount \<le> u128_max
        then err_reason e = Tokens \<and> scope_limit l (err_scope e) = Some (err_limit e)
        else err_reason e = AccountingOverflow))"
proof -
  have first: "err_scope e \<in> set ss \<and> \<not> scope_admits l amount (err_scope e) \<and>
      (\<forall>s \<in> set ss. s < err_scope e \<longrightarrow> scope_admits l amount s) \<and>
      err_committed e = committed l (err_scope e) \<and> err_reserved e = reserved l (err_scope e) \<and> err_requested e = amount \<and>
      (if err_committed e + err_reserved e + amount \<le> u128_max
       then err_reason e = Tokens \<and> scope_limit l (err_scope e) = Some (err_limit e)
       else err_reason e = AccountingOverflow)"
    if "refusing_scope (led_accounts l) amount ss = Some e" "sorted ss" for ss
    using that
  proof (induction ss)
    case (Cons s ss)
    then show ?case
      by (auto simp: Let_def checked_add_def scope_limit_def account_views scope_admits_def
          split: option.splits if_splits bind_splits)
  qed simp
  show ?thesis
  proof (cases "led_overflowed l \<or> u64_max \<le> led_next l")
    case True
    then show ?thesis using assms by (auto simp: reserve_def checked_add_def)
  next
    case False
    then have "refusing_scope (led_accounts l) amount (sort (remdups scopes)) = Some e" "l' = l"
      using assms by (auto simp: reserve_def Let_def checked_add_def split: if_splits option.splits res.splits)
    with first [OF this(1)] False show ?thesis by simp
  qed
qed

theorem refusal_names_first_full_scope_witness:
  "\<exists>e. fst (reserve sample_reserved [Run, FanOut ''deep''] 61) = Err e \<and> err_scope e = FanOut ''deep'' \<and>
       err_limit e = 60 \<and> err_reserved e = 40 \<and> 60 < err_committed e + err_reserved e + 61"
proof -
  obtain e where e: "reserve sample_reserved [Run, FanOut ''deep''] 61 = (Err e, sample_reserved)"
    "err_reason e = Tokens" "err_scope e = FanOut ''deep''" "err_limit e = 60" "err_reserved e = 40"
    by (simp add: sample_reserved_def sample_ledger_def ledger_eval)
  show ?thesis
    using refusal_names_first_full_scope [OF e(1)] e
    by (auto simp: sample_reserved_def sample_ledger_def ledger_eval scope_admits_def split: if_splits)
qed

end
