(* ===== verification/CoreTypes.thy ===== *)
theory CoreTypes
  imports Prelude
begin

text \<open>
  The vocabulary of \<^verbatim>\<open>crates/review-core\<close> the other components share: names and their grammar, safe
  integers, Task limits with the protected verification reserve (\<^verbatim>\<open>task.rs\<close>), versioned
  artifact types and the cardinality and snapshot affinity of ports (\<^verbatim>\<open>event.rs\<close>).
\<close>

subsection \<open>Safe integers and names\<close>

definition SAFE_INTEGER_MAX :: nat where
  "SAFE_INTEGER_MAX = 9007199254740991"

definition safe_number :: "nat \<Rightarrow> bool" where
  "safe_number v = (v \<le> SAFE_INTEGER_MAX)"

definition is_ascii_digit :: "char \<Rightarrow> bool" where
  "is_ascii_digit b = (CHR ''0'' \<le> b \<and> b \<le> CHR ''9'')"

definition is_ascii_lowercase :: "char \<Rightarrow> bool" where
  "is_ascii_lowercase b = (CHR ''a'' \<le> b \<and> b \<le> CHR ''z'')"

definition is_ascii_uppercase :: "char \<Rightarrow> bool" where
  "is_ascii_uppercase b = (CHR ''A'' \<le> b \<and> b \<le> CHR ''Z'')"

definition is_ascii_alphanumeric :: "char \<Rightarrow> bool" where
  "is_ascii_alphanumeric b = (is_ascii_digit b \<or> is_ascii_lowercase b \<or> is_ascii_uppercase b)"

definition is_ascii_alphabetic :: "char \<Rightarrow> bool" where
  "is_ascii_alphabetic b = (is_ascii_lowercase b \<or> is_ascii_uppercase b)"

definition is_name :: "string \<Rightarrow> bool" where
  "is_name v = (v \<noteq> [] \<and> length v \<le> 128 \<and>
     list_all (\<lambda>(i, b). is_ascii_alphanumeric b \<or> (0 < i \<and> (b = CHR ''_'' \<or> b = CHR ''-'')))
       (List.enumerate 0 v))"

definition is_package_name :: "string \<Rightarrow> bool" where
  "is_package_name v = (v \<noteq> [] \<and> length v \<le> 256 \<and> list_all is_name (split_on CHR ''/'' v))"

text \<open>A dot-qualified address: every part is a name.\<close>

abbreviation dotted :: "string \<Rightarrow> bool" where
  "dotted v \<equiv> list_all is_name (split_on CHR ''.'' v)"

definition require :: "bool \<Rightarrow> 'e \<Rightarrow> ('e, unit) res" where
  "require condition message = (if condition then Ok () else Err message)"

lemma require_simps [simp]: "require True e = Ok ()" "require False e = Err e"
  by (simp_all add: require_def)

lemma require_Ok [simp]: "require c e = Ok u \<longleftrightarrow> c"
  by (simp add: require_def)

lemma is_name_alphabet:
  assumes "is_name v" "c \<in> set v"
  shows "is_ascii_alphanumeric c \<or> c = CHR ''_'' \<or> c = CHR ''-''"
proof -
  obtain i where "i < length v" "v ! i = c" using assms(2) by (auto simp: in_set_conv_nth)
  then have "(i, c) \<in> set (List.enumerate 0 v)" by (simp add: in_set_enumerate_eq)
  then show ?thesis using assms(1) by (auto simp: is_name_def list_all_iff)
qed

lemma is_name_ne: "is_name v \<Longrightarrow> v \<noteq> []"
  by (simp add: is_name_def)

lemma is_name_no_dot: "is_name v \<Longrightarrow> CHR ''.'' \<notin> set v"
  using is_name_alphabet [of v "CHR ''.''"]
  by (auto simp: is_ascii_alphanumeric_def is_ascii_digit_def is_ascii_lowercase_def
      is_ascii_uppercase_def less_eq_char_def)

lemma not_dotted_Nil [simp]: "\<not> dotted []"
  by (simp add: is_name_def)

subsection \<open>Task limits\<close>

record VerificationReserve =
  vr_tokens :: nat
  vr_attempts :: nat
  vr_wall_ms :: nat

record TaskLimits =
  tl_tokens :: nat
  tl_max_attempts :: nat
  tl_deadline_unix_ms :: nat
  tl_verification :: VerificationReserve

definition limits_valid :: "TaskLimits \<Rightarrow> bool" where
  "limits_valid l =
     (safe_number (tl_tokens l) \<and> 0 < tl_max_attempts l \<and> 0 < tl_deadline_unix_ms l \<and>
      safe_number (tl_deadline_unix_ms l) \<and> safe_number (vr_wall_ms (tl_verification l)) \<and>
      vr_tokens (tl_verification l) \<le> tl_tokens l \<and>
      vr_attempts (tl_verification l) \<le> tl_max_attempts l)"

subsection \<open>Ports and artifact types\<close>

datatype PortCardinality = One | Many

datatype SnapshotAffinity = SameSubject | Unbound | Any

definition is_artifact_type :: "string \<Rightarrow> bool" where
  "is_artifact_type v =
     (case split_once CHR ''/'' v of
        None \<Rightarrow> False
      | Some (namespace, versioned_name) \<Rightarrow>
          (case rsplit_once CHR ''@'' versioned_name of
             None \<Rightarrow> False
           | Some (name, version) \<Rightarrow>
               (let namespace_ok = list_all (\<lambda>(i, b). is_ascii_lowercase b \<or>
                        (0 < i \<and> (is_ascii_digit b \<or> b = CHR ''.''))) (List.enumerate 0 namespace);
                    name_ok = list_all (\<lambda>(i, b). is_ascii_alphabetic b \<or> (0 < i \<and> is_ascii_digit b))
                        (List.enumerate 0 name);
                    version_ok = list_all (\<lambda>(i, b). is_ascii_digit b \<and> (0 < i \<or> b \<noteq> CHR ''0''))
                        (List.enumerate 0 version)
                in namespace \<noteq> [] \<and> name \<noteq> [] \<and> version \<noteq> [] \<and> namespace_ok \<and> name_ok \<and> version_ok)))"

end
