(* ===== verification/TaskBudget.thy ===== *)
theory TaskBudget
  imports Budget CoreTypes
begin

text \<open>
  One Task's admission accounting: \<^verbatim>\<open>crates/review-attempt/src/task_budget.rs\<close> with its submodules
  \<^verbatim>\<open>scopes.rs\<close> and \<^verbatim>\<open>owned.rs\<close>. The budget keeps node accounts (prepared, begun and recovered Attempts),
  reservations over the token ledger of \<open>Budget\<close>, call limits, token scopes and owned children,
  and protects the capacity still owed to verification.

  Error messages are the constructors of \<open>TaskError\<close>, with what the source formats into them.
\<close>

subsection \<open>Data\<close>

record NodeAllowance =
  na_tokens_per_attempt :: nat
  na_wall_ms_per_attempt :: nat
  na_max_attempts :: nat
  na_verification_attempts :: nat

definition DEFAULT_RECOVERY_ATTEMPTS :: nat where "DEFAULT_RECOVERY_ATTEMPTS = 1"
definition MAX_RECOVERY_ATTEMPTS :: nat where "MAX_RECOVERY_ATTEMPTS = 8"

record NodeAccount =
  nd_allowance :: NodeAllowance
  nd_begun :: nat
  nd_prepared :: nat
  nd_recovered :: nat
  nd_recovery_allowance :: nat

definition new_node :: "NodeAllowance \<Rightarrow> NodeAccount" where
  "new_node allowance =
     \<lparr>nd_allowance = allowance, nd_begun = 0, nd_prepared = 0, nd_recovered = 0,
      nd_recovery_allowance = DEFAULT_RECOVERY_ATTEMPTS\<rparr>"

definition chargeable :: "NodeAccount \<Rightarrow> ('e, nat) res" where
  "chargeable a = expect (checked_sub (nd_begun a) (nd_recovered a))"

record NodeRecovery =
  rec_chargeable :: nat
  rec_abandoned :: nat
  rec_allowance :: nat

definition exhausted :: "NodeRecovery \<Rightarrow> bool" where
  "exhausted r = (rec_allowance r < rec_abandoned r)"

record TaskReservation =
  tr_id :: string
  tr_node :: string
  tr_tokens :: nat
  tr_deadline_unix_ms :: nat

record Held =
  h_public :: TaskReservation
  h_tokens :: Reservation
  h_begun :: bool
  h_settled :: "nat option"
  h_released :: bool
  h_recovered :: bool

text \<open>A \<open>BTreeSet\<close> is an ordered map to the unit value.\<close>

type_synonym 'k bset = "('k, unit) bmap"

record TaskTokenScope =
  ts_tokens :: nat
  ts_members :: "string bset"

record OwnedNodeAllowance =
  own_allowance :: NodeAllowance
  own_max_children :: nat

record TaskBudget =
  tb_limits :: TaskLimits
  tb_tokens :: BudgetLedger
  tb_nodes :: "(string, NodeAccount) bmap"
  tb_reservations :: "(string, Held) bmap"
  tb_last_time :: nat
  tb_breached :: bool
  tb_call_limits :: "(string, nat) bmap"
  tb_token_scopes :: "(string, TaskTokenScope) bmap"
  tb_captured_token_scopes :: "(string, TaskTokenScope) bmap"
  tb_retired_attempts :: nat
  tb_retired_recovered :: nat
  tb_deferred_verification :: bool
  tb_owned_templates :: "(string, OwnedNodeAllowance) bmap"
  tb_owned_children :: "(string, string list) bmap"

text \<open>Why \<open>begin\<close> refuses a reservation, with the numbers it names.\<close>

datatype BeginRefusal =
    ReleasedBeforeStart
  | AlreadySettled string
  | ClockMovedBackwards nat nat
  | DeadlinePassed nat nat
  | TokenBudgetBreached string string string string

datatype (plugins only: code size) TaskError =
    UnsafeLimits
  | ResourceTotalOverflow
  | InvalidAllowance string
  | VerifierTokenOverflow
  | VerifierWallOverflow
  | VerifierAttemptOverflow
  | CannotProtectVerifiers VerificationReserve VerificationReserve "string list" "(string \<times> nat \<times> nat \<times> nat) list"
  | DeferredTooLate
  | CannotRevise
  | CannotAdvance
  | PlanningSpentVerification
  | CallLimitsTooLate
  | InvalidCallLimit
  | CallCannotProtect string
  | AttemptCountOverflow
  | TokenTotalOverflow
  | WallTotalOverflow
  | UnknownNode string
  | BreachedOrBackwards
  | RecoveryExhausted string nat nat
  | AttemptLimit string
  | TaskAttemptLimitProtects
  | CallLimitProtects string
  | DeadlineProtects
  | TokenLimitProtects string string string
  | LedgerRefused BudgetError
  | UnknownReservation
  | NotDispatchable string BeginRefusal
  | StartedCannotRelease
  | SettlementNotStarted
  | ConflictingSettlement
  | SettlementRefund
  | UsageRefused UsageError
  | OnlySettledRecovered
  | RecoveredNodeGone
  | TooManyRecoveries string nat
  | UsageNotStarted
  | ObservedOverflow
  | ScopesTooLate
  | InvalidTokenScope string
  | ScopeDiffers string
  | ScopeCannotRetain string
  | ScopeVerifierOverflow
  | ScopeExhausted string
  | TemplatesTooLate
  | InvalidTemplate string
  | UnknownChildOwner
  | ChildSetChanged
  | ChildrenOutsideNamespace
  | ExperimentalChanged
  | ExperimentalOutsideNamespace
  | ExperimentalAttemptOverflow
  | ExperimentalTokenOverflow
  | ExperimentalWallOverflow
  | ExperimentalExceedsReserve

subsection \<open>Helpers\<close>

definition add :: "nat \<Rightarrow> nat \<Rightarrow> (TaskError, nat) res" where
  "add a b = ok_or ResourceTotalOverflow (checked_add u64_max a b)"

definition within :: "string \<Rightarrow> string \<Rightarrow> bool" where
  "within node scope = (case strip_prefix scope node of None \<Rightarrow> False | Some tail \<Rightarrow> starts_with tail CHR ''.'')"

definition is_qualified :: "string \<Rightarrow> bool" where
  "is_qualified name = (name \<noteq> [] \<and> dotted name)"

definition scope_contains :: "TaskTokenScope \<Rightarrow> string \<Rightarrow> bool" where
  "scope_contains scope node = list_ex (\<lambda>member. member = node \<or> within node member) (bm_keys (ts_members scope))"

text \<open>The decimal digits with a separator before every group of three.\<close>

fun group_from :: "nat \<Rightarrow> nat \<Rightarrow> string \<Rightarrow> string" where
  "group_from len index [] = []"
| "group_from len index (d # ds) =
     (if 0 < index \<and> (len - index) mod 3 = 0 then [CHR '','', d] else [d]) @ group_from len (index + 1) ds"

definition group :: "nat \<Rightarrow> string" where
  "group v = (let digits = show_nat v in group_from (length digits) 0 digits)"

text \<open>\<open>iter().map(f).sum::<u64>()\<close>: an addition that does not fit panics.\<close>

fun sum_u64 :: "('a \<Rightarrow> ('e, nat) res) \<Rightarrow> 'a list \<Rightarrow> nat \<Rightarrow> ('e, nat) res" where
  "sum_u64 f [] acc = Ok acc"
| "sum_u64 f (x # xs) acc =
     and_then (f x) (\<lambda>n. and_then (expect (checked_add u64_max acc n)) (sum_u64 f xs))"

text \<open>\<open>chargeable() + prepared\<close> widened to 64 bits.\<close>

definition used_u64 :: "NodeAccount \<Rightarrow> ('e, nat) res" where
  "used_u64 a = and_then (chargeable a) (\<lambda>c. Ok (c + nd_prepared a))"

definition chargeable_attempts :: "TaskBudget \<Rightarrow> ('e, nat) res" where
  "chargeable_attempts t =
     and_then (sum_u64 chargeable (bm_values (tb_nodes t)) 0)
       (\<lambda>n. expect (checked_add u64_max (tb_retired_attempts t) n))"

definition begun_attempts :: "TaskBudget \<Rightarrow> ('e, nat) res" where
  "begun_attempts t =
     and_then (expect (checked_add u64_max (tb_retired_attempts t) (tb_retired_recovered t)))
       (\<lambda>r. and_then (sum_u64 (\<lambda>a. Ok (nd_begun a)) (bm_values (tb_nodes t)) 0)
         (\<lambda>n. expect (checked_add u64_max r n)))"

definition retire :: "TaskBudget \<Rightarrow> ('e, TaskBudget) res" where
  "retire t =
     and_then (chargeable_attempts t)
       (\<lambda>c. and_then (sum_u64 (\<lambda>a. Ok (nd_recovered a)) (bm_values (tb_nodes t)) 0)
         (\<lambda>n. and_then (expect (checked_add u64_max (tb_retired_recovered t) n))
           (\<lambda>r. Ok (t\<lparr>tb_retired_attempts := c, tb_retired_recovered := r\<rparr>))))"

definition pending :: "Held \<Rightarrow> bool" where
  "pending held = (\<not> h_released held \<and> h_settled held = None)"

subsection \<open>Opening a budget\<close>

fun minimum_reserve ::
  "TaskLimits \<Rightarrow> (string \<times> NodeAllowance) list \<Rightarrow> VerificationReserve \<Rightarrow> (TaskError, VerificationReserve) res"
where
  "minimum_reserve limits [] m = Ok m"
| "minimum_reserve limits ((name, a) # rest) m =
     (if name = [] \<or> \<not> dotted name \<or> na_max_attempts a = 0 \<or>
         na_max_attempts a < na_verification_attempts a \<or> na_wall_ms_per_attempt a = 0 \<or>
         tl_tokens limits < na_tokens_per_attempt a
      then Err (InvalidAllowance name)
      else
        and_then (ok_or VerifierTokenOverflow (checked_mul u64_max (na_tokens_per_attempt a) (na_verification_attempts a)))
          (\<lambda>dt. and_then (add (vr_tokens m) dt)
          (\<lambda>tokens. and_then (ok_or VerifierWallOverflow (checked_mul u64_max (na_wall_ms_per_attempt a) (na_verification_attempts a)))
          (\<lambda>dw. and_then (add (vr_wall_ms m) dw)
          (\<lambda>wall. and_then (ok_or VerifierAttemptOverflow (checked_add u32_max (vr_attempts m) (na_verification_attempts a)))
          (\<lambda>attempts. minimum_reserve limits rest
             \<lparr>vr_tokens = tokens, vr_attempts = attempts, vr_wall_ms = wall\<rparr>))))))"

abbreviation no_reserve :: VerificationReserve where
  "no_reserve \<equiv> \<lparr>vr_tokens = 0, vr_attempts = 0, vr_wall_ms = 0\<rparr>"

definition exceeded :: "VerificationReserve \<Rightarrow> VerificationReserve \<Rightarrow> string list" where
  "exceeded m v =
     (if vr_tokens v < vr_tokens m then [''tokens''] else []) @
     (if vr_attempts v < vr_attempts m then [''attempts''] else []) @
     (if vr_wall_ms v < vr_wall_ms m then [''wall_ms''] else [])"

definition contributions :: "(string \<times> NodeAllowance) list \<Rightarrow> (string \<times> nat \<times> nat \<times> nat) list" where
  "contributions allowances =
     map (\<lambda>(name, a). (name, na_tokens_per_attempt a * na_verification_attempts a,
            na_verification_attempts a, na_wall_ms_per_attempt a * na_verification_attempts a))
       (filter (\<lambda>(_, a). 0 < na_verification_attempts a) allowances)"

definition task_budget_new ::
  "TaskLimits \<Rightarrow> (string, NodeAllowance) bmap \<Rightarrow> (TaskError, TaskBudget) res" where
  "task_budget_new limits allowances =
     and_then (require (limits_valid limits) UnsafeLimits)
       (\<lambda>_. and_then (minimum_reserve limits (bm_entries allowances) no_reserve)
         (\<lambda>m. if vr_tokens (tl_verification limits) < vr_tokens m \<or>
                 vr_attempts (tl_verification limits) < vr_attempts m \<or>
                 vr_wall_ms (tl_verification limits) < vr_wall_ms m
              then Err (CannotProtectVerifiers m (tl_verification limits) (exceeded m (tl_verification limits))
                     (contributions (bm_entries allowances)))
              else Ok \<lparr>tb_limits = limits,
                    tb_tokens = with_limit default_ledger Run (tl_tokens limits),
                    tb_nodes = bm_map (\<lambda>_. new_node) allowances,
                    tb_reservations = bm_empty, tb_last_time = 0, tb_breached = False,
                    tb_call_limits = bm_empty, tb_token_scopes = bm_empty,
                    tb_captured_token_scopes = bm_empty, tb_retired_attempts = 0,
                    tb_retired_recovered = 0, tb_deferred_verification = False,
                    tb_owned_templates = bm_empty, tb_owned_children = bm_empty\<rparr>))"

definition with_deferred_verification :: "TaskBudget \<Rightarrow> (TaskError, TaskBudget) res" where
  "with_deferred_verification t =
     (if \<not> bm_is_empty (tb_reservations t) \<or> tb_deferred_verification t \<or>
         list_ex (\<lambda>a. na_verification_attempts (nd_allowance a) \<noteq> 0) (bm_values (tb_nodes t))
      then Err DeferredTooLate
      else Ok (t\<lparr>tb_deferred_verification := True\<rparr>))"

definition remaining_limits :: "TaskBudget \<Rightarrow> ('e, TaskLimits) res" where
  "remaining_limits t =
     and_then (chargeable_attempts t)
       (\<lambda>c. Ok ((tb_limits t)\<lparr>tl_tokens := (case remaining (tb_tokens t) Run of None \<Rightarrow> 0 | Some r \<Rightarrow> r),
          tl_max_attempts := saturating_sub (tl_max_attempts (tb_limits t)) c\<rparr>))"

fun check_call_limits :: "(string \<times> NodeAccount) list \<Rightarrow> (string \<times> nat) list \<Rightarrow> (TaskError, unit) res" where
  "check_call_limits nodes [] = Ok ()"
| "check_call_limits nodes ((scope, lim) # rest) =
     (if lim = 0 \<or> \<not> dotted scope then Err InvalidCallLimit
      else and_then (sum_u64 (\<lambda>(_, a). Ok (na_verification_attempts (nd_allowance a)))
                       (filter (\<lambda>(node, _). within node scope) nodes) 0)
        (\<lambda>required. if lim < required then Err (CallCannotProtect scope)
                    else check_call_limits nodes rest))"

definition with_call_limits :: "TaskBudget \<Rightarrow> (string, nat) bmap \<Rightarrow> (TaskError, TaskBudget) res" where
  "with_call_limits t limits =
     (if \<not> bm_is_empty (tb_reservations t) then Err CallLimitsTooLate
      else and_then (check_call_limits (bm_entries (tb_nodes t)) (bm_entries limits))
        (\<lambda>_. Ok (t\<lparr>tb_call_limits := limits\<rparr>)))"

subsection \<open>Token scopes\<close>

fun scope_owed_from ::
  "TaskTokenScope \<Rightarrow> string option \<Rightarrow> (string \<times> NodeAccount) list \<Rightarrow> nat \<Rightarrow> (TaskError, nat) res"
where
  "scope_owed_from scope candidate [] required = Ok required"
| "scope_owed_from scope candidate ((node, a) # rest) required =
     (if \<not> scope_contains scope node then scope_owed_from scope candidate rest required
      else and_then (used_u64 a)
        (\<lambda>u. let used = u + (if candidate = Some node then 1 else 0);
                 owed = saturating_sub (na_verification_attempts (nd_allowance a)) used in
           and_then (ok_or ScopeVerifierOverflow (checked_mul u64_max (na_tokens_per_attempt (nd_allowance a)) owed))
             (\<lambda>d. and_then (add required d) (scope_owed_from scope candidate rest))))"

definition scope_verification_after ::
  "TaskBudget \<Rightarrow> TaskTokenScope \<Rightarrow> string option \<Rightarrow> (TaskError, nat) res" where
  "scope_verification_after t scope candidate = scope_owed_from scope candidate (bm_entries (tb_nodes t)) 0"

definition scope_malformed :: "TaskBudget \<Rightarrow> string \<Rightarrow> TaskTokenScope \<Rightarrow> bool" where
  "scope_malformed t name scope =
     (\<not> is_qualified name \<or> SAFE_INTEGER_MAX < ts_tokens scope \<or> bm_is_empty (ts_members scope) \<or>
      list_ex (\<lambda>member. \<not> is_qualified member \<or>
          \<not> list_ex (\<lambda>node. node = member \<or> within node member)
             (bm_keys (tb_nodes t) @ bm_keys (tb_owned_templates t)))
        (bm_keys (ts_members scope)))"

fun install_scopes_from ::
  "TaskBudget \<Rightarrow> (string \<times> TaskTokenScope) list \<Rightarrow> BudgetLedger \<Rightarrow> (TaskError, BudgetLedger) res"
where
  "install_scopes_from t [] tokens = Ok tokens"
| "install_scopes_from t ((name, scope) # rest) tokens =
     (if scope_malformed t name scope then Err (InvalidTokenScope name)
      else if (case bm_get (tb_captured_token_scopes t) name of None \<Rightarrow> False | Some old \<Rightarrow> old \<noteq> scope)
      then Err (ScopeDiffers name)
      else and_then (scope_verification_after t scope None)
        (\<lambda>required.
           if (case Option.bind (checked_add u128_max (committed tokens (FanOut name)) (reserved tokens (FanOut name)))
                      (\<lambda>used. checked_add u128_max used required) of
                 None \<Rightarrow> True | Some tot \<Rightarrow> ts_tokens scope < tot)
           then Err (ScopeCannotRetain name)
           else install_scopes_from t rest (with_limit tokens (FanOut name) (ts_tokens scope))))"

definition install_token_scopes :: "TaskBudget \<Rightarrow> (string, TaskTokenScope) bmap \<Rightarrow> (TaskError, TaskBudget) res" where
  "install_token_scopes t scopes =
     and_then (install_scopes_from t (bm_entries scopes) (tb_tokens t))
       (\<lambda>tokens. Ok (t\<lparr>tb_tokens := tokens,
          tb_captured_token_scopes := bm_extend (tb_captured_token_scopes t) (bm_entries scopes),
          tb_token_scopes := scopes\<rparr>))"

definition with_token_scopes :: "TaskBudget \<Rightarrow> (string, TaskTokenScope) bmap \<Rightarrow> (TaskError, TaskBudget) res" where
  "with_token_scopes t scopes =
     (if \<not> bm_is_empty (tb_reservations t) then Err ScopesTooLate else install_token_scopes t scopes)"

fun reservation_scopes_from ::
  "TaskBudget \<Rightarrow> string \<Rightarrow> (string \<times> TaskTokenScope) list \<Rightarrow> (TaskError, BudgetScope list) res"
where
  "reservation_scopes_from t node [] = Ok [Run]"
| "reservation_scopes_from t node ((name, scope) # rest) =
     (if \<not> scope_contains scope node then reservation_scopes_from t node rest
      else and_then (scope_verification_after t scope (Some node))
        (\<lambda>protected. and_then (expect (bm_get (tb_nodes t) node))
        (\<lambda>a. and_then (add (na_tokens_per_attempt (nd_allowance a)) protected)
        (\<lambda>need.
           if (case remaining (tb_tokens t) (FanOut name) of None \<Rightarrow> 0 | Some r \<Rightarrow> r) < need
           then Err (ScopeExhausted name)
           else and_then (reservation_scopes_from t node rest) (\<lambda>ss. Ok (FanOut name # ss))))))"

definition reservation_scopes :: "TaskBudget \<Rightarrow> string \<Rightarrow> (TaskError, BudgetScope list) res" where
  "reservation_scopes t node = reservation_scopes_from t node (bm_entries (tb_token_scopes t))"

definition scope_committed_tokens :: "TaskBudget \<Rightarrow> string \<Rightarrow> nat option" where
  "scope_committed_tokens t name =
     (if bm_contains (tb_captured_token_scopes t) name then Some (committed (tb_tokens t) (FanOut name)) else None)"

definition scope_reserved_tokens :: "TaskBudget \<Rightarrow> string \<Rightarrow> nat option" where
  "scope_reserved_tokens t name =
     (if bm_contains (tb_captured_token_scopes t) name then Some (reserved (tb_tokens t) (FanOut name)) else None)"

subsection \<open>Owned children\<close>

definition template_malformed ::
  "TaskBudget \<Rightarrow> (string, OwnedNodeAllowance) bmap \<Rightarrow> string \<Rightarrow> OwnedNodeAllowance \<Rightarrow> bool" where
  "template_malformed t templates parent template =
     (let a = own_allowance template in
      parent = [] \<or> \<not> dotted parent \<or> own_max_children template = 0 \<or> na_max_attempts a = 0 \<or>
      na_verification_attempts a \<noteq> 0 \<or> na_wall_ms_per_attempt a = 0 \<or>
      tl_tokens (tb_limits t) < na_tokens_per_attempt a \<or>
      list_ex (\<lambda>node. node = parent \<or> within node parent) (bm_keys (tb_nodes t)) \<or>
      list_ex (\<lambda>other. other \<noteq> parent \<and> within other parent) (bm_keys templates))"

definition with_owned_templates ::
  "TaskBudget \<Rightarrow> (string, OwnedNodeAllowance) bmap \<Rightarrow> (TaskError, TaskBudget) res" where
  "with_owned_templates t templates =
     (if \<not> bm_is_empty (tb_reservations t) \<or> \<not> bm_is_empty (tb_owned_templates t) then Err TemplatesTooLate
      else case find (\<lambda>(parent, template). template_malformed t templates parent template) (bm_entries templates) of
        Some (parent, _) \<Rightarrow> Err (InvalidTemplate parent)
      | None \<Rightarrow> Ok (t\<lparr>tb_owned_templates := templates\<rparr>))"

fun children_malformed :: "TaskBudget \<Rightarrow> string \<Rightarrow> string list \<Rightarrow> string list \<Rightarrow> bool" where
  "children_malformed t parent unique [] = False"
| "children_malformed t parent unique (child # rest) =
     (\<not> within child parent \<or>
      length (split_on CHR ''.'' child) \<noteq> length (split_on CHR ''.'' parent) + 1 \<or>
      \<not> dotted child \<or> child \<in> set unique \<or> bm_contains (tb_nodes t) child \<or>
      bm_contains (tb_owned_templates t) child \<or> children_malformed t parent (child # unique) rest)"

definition register_owned_children ::
  "TaskBudget \<Rightarrow> string \<Rightarrow> string list \<Rightarrow> (TaskError, unit) res \<times> TaskBudget" where
  "register_owned_children t parent children =
     (case bm_get (tb_owned_templates t) parent of
        None \<Rightarrow> (Err UnknownChildOwner, t)
      | Some template \<Rightarrow>
          (case bm_get (tb_owned_children t) parent of
             Some previous \<Rightarrow> (if previous = children then Ok () else Err ChildSetChanged, t)
           | None \<Rightarrow>
               if children = [] \<or> own_max_children template < length children \<or>
                  children_malformed t parent [] children
               then (Err ChildrenOutsideNamespace, t)
               else (Ok (), t\<lparr>tb_nodes := bm_extend (tb_nodes t)
                        (map (\<lambda>child. (child, new_node (own_allowance template))) children),
                      tb_owned_children := bm_insert parent children (tb_owned_children t)\<rparr>)))"

definition experimental_malformed :: "TaskBudget \<Rightarrow> string \<Rightarrow> string \<times> NodeAllowance \<Rightarrow> bool" where
  "experimental_malformed t parent = (\<lambda>(child, a).
     \<not> within child parent \<or> \<not> dotted child \<or> bm_contains (tb_nodes t) child \<or>
     bm_contains (tb_owned_templates t) child \<or> na_max_attempts a = 0 \<or>
     na_max_attempts a < na_verification_attempts a \<or> na_wall_ms_per_attempt a = 0 \<or>
     tl_tokens (tb_limits t) < na_tokens_per_attempt a)"

fun experimental_reserve ::
  "NodeAllowance list \<Rightarrow> VerificationReserve \<Rightarrow> (TaskError, VerificationReserve) res" where
  "experimental_reserve [] v = Ok v"
| "experimental_reserve (a # rest) v =
     and_then (ok_or ExperimentalAttemptOverflow (checked_add u32_max (vr_attempts v) (na_verification_attempts a)))
       (\<lambda>attempts. and_then (ok_or ExperimentalTokenOverflow
          (Option.bind (checked_mul u64_max (na_tokens_per_attempt a) (na_verification_attempts a))
             (checked_add u64_max (vr_tokens v))))
       (\<lambda>tokens. and_then (ok_or ExperimentalWallOverflow
          (Option.bind (checked_mul u64_max (na_wall_ms_per_attempt a) (na_verification_attempts a))
             (checked_add u64_max (vr_wall_ms v))))
       (\<lambda>wall. experimental_reserve rest \<lparr>vr_tokens = tokens, vr_attempts = attempts, vr_wall_ms = wall\<rparr>)))"

definition register_experimental_children ::
  "TaskBudget \<Rightarrow> string \<Rightarrow> (string, NodeAllowance) bmap \<Rightarrow> nat \<Rightarrow> (TaskError, unit) res \<times> TaskBudget" where
  "register_experimental_children t parent children max_children =
     (case bm_get (tb_owned_children t) parent of
        Some previous \<Rightarrow> (if previous = bm_keys children then Ok () else Err ExperimentalChanged, t)
      | None \<Rightarrow>
          if bm_is_empty children \<or> max_children < length (bm_entries children) \<or>
             list_ex (experimental_malformed t parent) (bm_entries children)
          then (Err ExperimentalOutsideNamespace, t)
          else case experimental_reserve (map nd_allowance (bm_values (tb_nodes t)) @ bm_values children) no_reserve of
            Ok v \<Rightarrow>
              if vr_attempts (tl_verification (tb_limits t)) < vr_attempts v \<or>
                 vr_tokens (tl_verification (tb_limits t)) < vr_tokens v \<or>
                 vr_wall_ms (tl_verification (tb_limits t)) < vr_wall_ms v
              then (Err ExperimentalExceedsReserve, t)
              else (Ok (), t\<lparr>tb_nodes := bm_extend (tb_nodes t)
                       (map (\<lambda>(child, a). (child, new_node a)) (bm_entries children)),
                     tb_owned_children := bm_insert parent (bm_keys children) (tb_owned_children t)\<rparr>)
          | Err e \<Rightarrow> (Err e, t)
          | Panic \<Rightarrow> (Panic, t))"

subsection \<open>Replacing the graph\<close>

definition invalidate_plan :: "TaskBudget \<Rightarrow> nat \<Rightarrow> (TaskError, unit) res \<times> TaskBudget" where
  "invalidate_plan t now =
     (if now < tb_last_time t \<or> list_ex pending (bm_values (tb_reservations t)) then (Err CannotRevise, t)
      else case retire t of
        Ok t' \<Rightarrow> (Ok (), t'\<lparr>tb_nodes := bm_empty, tb_call_limits := bm_empty, tb_token_scopes := bm_empty,
           tb_owned_templates := bm_empty, tb_owned_children := bm_empty,
           tb_deferred_verification := True, tb_last_time := now\<rparr>)
      | Err e \<Rightarrow> (Err e, t)
      | Panic \<Rightarrow> (Panic, t))"

definition replacement_graph ::
  "TaskBudget \<Rightarrow> (string, NodeAllowance) bmap \<Rightarrow> (string, nat) bmap \<Rightarrow> (string, TaskTokenScope) bmap \<Rightarrow>
   (string, OwnedNodeAllowance) bmap \<Rightarrow> nat \<Rightarrow> bool \<Rightarrow> (TaskError, TaskBudget) res" where
  "replacement_graph t allowances call_limits token_scopes owned_templates now preparation =
     (if \<not> tb_deferred_verification t \<or> tb_breached t \<or> now < tb_last_time t \<or>
         tl_deadline_unix_ms (tb_limits t) \<le> now \<or> list_ex pending (bm_values (tb_reservations t))
      then Err CannotAdvance
      else and_then (remaining_limits t)
        (\<lambda>rem. if tl_tokens rem < vr_tokens (tl_verification (tb_limits t)) \<or>
                  tl_max_attempts rem < vr_attempts (tl_verification (tb_limits t)) \<or>
                  tl_deadline_unix_ms (tb_limits t) - now < vr_wall_ms (tl_verification (tb_limits t))
               then Err PlanningSpentVerification
               else and_then (task_budget_new rem allowances)
          (\<lambda>n0. and_then (with_call_limits n0 call_limits)
          (\<lambda>n1. and_then (with_owned_templates n1 owned_templates)
          (\<lambda>n2. and_then (if preparation then with_deferred_verification n2 else Ok n2)
          (\<lambda>n. and_then (retire t)
          (\<lambda>candidate. install_token_scopes (candidate\<lparr>tb_nodes := tb_nodes n,
               tb_call_limits := tb_call_limits n, tb_deferred_verification := preparation,
               tb_owned_templates := tb_owned_templates n, tb_owned_children := bm_empty,
               tb_last_time := now\<rparr>) token_scopes)))))))"

definition install_graph_with_owned_templates ::
  "TaskBudget \<Rightarrow> (string, NodeAllowance) bmap \<Rightarrow> (string, nat) bmap \<Rightarrow> (string, TaskTokenScope) bmap \<Rightarrow>
   (string, OwnedNodeAllowance) bmap \<Rightarrow> nat \<Rightarrow> bool \<Rightarrow> (TaskError, unit) res \<times> TaskBudget" where
  "install_graph_with_owned_templates t allowances call_limits token_scopes owned_templates now preparation =
     (case replacement_graph t allowances call_limits token_scopes owned_templates now preparation of
        Ok t' \<Rightarrow> (Ok (), t')
      | Err e \<Rightarrow> (Err e, t)
      | Panic \<Rightarrow> (Panic, t))"

subsection \<open>Dispatch\<close>

fun protected_walk ::
  "string \<Rightarrow> (string \<times> NodeAccount) list \<Rightarrow> VerificationReserve \<Rightarrow> nat \<Rightarrow> (TaskError, VerificationReserve \<times> nat) res"
where
  "protected_walk candidate [] consumed rem = Ok (consumed, rem)"
| "protected_walk candidate ((name, a) # rest) consumed rem =
     and_then (chargeable a)
       (\<lambda>c. and_then (ok_or AttemptCountOverflow (Option.bind (checked_add u32_max c (nd_prepared a))
              (\<lambda>n. checked_add u32_max n (if name = candidate then 1 else 0))))
       (\<lambda>n. let used = min n (na_verification_attempts (nd_allowance a)) in
          and_then (ok_or AttemptCountOverflow (checked_add u32_max (vr_attempts consumed) used))
       (\<lambda>attempts. and_then (ok_or TokenTotalOverflow (checked_mul u64_max (na_tokens_per_attempt (nd_allowance a)) used))
       (\<lambda>dt. and_then (add (vr_tokens consumed) dt)
       (\<lambda>tokens. and_then (ok_or WallTotalOverflow (checked_mul u64_max (na_wall_ms_per_attempt (nd_allowance a)) used))
       (\<lambda>dw. and_then (add (vr_wall_ms consumed) dw)
       (\<lambda>wall. and_then (ok_or AttemptCountOverflow (checked_add u32_max rem (na_verification_attempts (nd_allowance a) - used)))
       (\<lambda>rem'. protected_walk candidate rest
          \<lparr>vr_tokens = tokens, vr_attempts = attempts, vr_wall_ms = wall\<rparr> rem'))))))))"

definition protected_after :: "TaskBudget \<Rightarrow> string \<Rightarrow> (TaskError, VerificationReserve) res" where
  "protected_after t candidate =
     (let v = tl_verification (tb_limits t) in
      if tb_deferred_verification t then Ok v
      else and_then (protected_walk candidate (bm_entries (tb_nodes t)) no_reserve 0)
        (\<lambda>(consumed, rem).
           if rem = 0 then Ok no_reserve
           else Ok \<lparr>vr_tokens = saturating_sub (vr_tokens v) (vr_tokens consumed),
                    vr_attempts = saturating_sub (vr_attempts v) (vr_attempts consumed),
                    vr_wall_ms = saturating_sub (vr_wall_ms v) (vr_wall_ms consumed)\<rparr>))"

definition allow_retry :: "TaskBudget \<Rightarrow> string \<Rightarrow> (TaskError, unit) res \<times> TaskBudget" where
  "allow_retry t node =
     (case bm_get (tb_nodes t) node of
        None \<Rightarrow> (Err (UnknownNode node), t)
      | Some a \<Rightarrow>
          (case checked_add u32_max (na_max_attempts (nd_allowance a)) 1 of
             None \<Rightarrow> (Err AttemptCountOverflow, t)
           | Some n \<Rightarrow> (Ok (), t\<lparr>tb_nodes := bm_insert node
                 (a\<lparr>nd_allowance := (nd_allowance a)\<lparr>na_max_attempts := n\<rparr>\<rparr>) (tb_nodes t)\<rparr>)))"

fun call_occupied ::
  "string \<Rightarrow> string \<Rightarrow> (string \<times> NodeAccount) list \<Rightarrow> nat \<Rightarrow> (TaskError, nat) res" where
  "call_occupied node scope [] occupied = Ok occupied"
| "call_occupied node scope ((member, a) # rest) occupied =
     (if \<not> within member scope then call_occupied node scope rest occupied
      else and_then (used_u64 a)
        (\<lambda>used. and_then (add occupied used)
        (\<lambda>o1. and_then (add o1 (saturating_sub (na_verification_attempts (nd_allowance a))
                                  (used + (if member = node then 1 else 0))))
        (call_occupied node scope rest))))"

fun calls_admit ::
  "TaskBudget \<Rightarrow> string \<Rightarrow> (string \<times> nat) list \<Rightarrow> (TaskError, unit) res" where
  "calls_admit t node [] = Ok ()"
| "calls_admit t node ((scope, lim) # rest) =
     (if \<not> within node scope then calls_admit t node rest
      else and_then (call_occupied node scope (bm_entries (tb_nodes t)) 1)
        (\<lambda>occupied. if lim < occupied then Err (CallLimitProtects scope) else calls_admit t node rest))"

text \<open>The guards of \<open>prepare\<close> in source order, up to the scopes the reservation is taken in.\<close>

definition prepare_guards ::
  "TaskBudget \<Rightarrow> string \<Rightarrow> nat \<Rightarrow> (TaskError, NodeAccount \<times> nat \<times> BudgetScope list) res" where
  "prepare_guards t node now =
     (if tb_breached t \<or> now < tb_last_time t then Err BreachedOrBackwards
      else and_then (ok_or (UnknownNode node) (bm_get (tb_nodes t) node))
        (\<lambda>a. let allowance = nd_allowance a in
           if nd_recovery_allowance a < nd_recovered a
           then Err (RecoveryExhausted node (nd_recovered a) (nd_recovery_allowance a))
           else and_then (chargeable a)
        (\<lambda>c. and_then (expect (checked_add u32_max c (nd_prepared a)))
        (\<lambda>own. if na_max_attempts allowance \<le> own then Err (AttemptLimit node)
           else and_then (protected_after t node)
        (\<lambda>protected. and_then (sum_u64 used_u64 (bm_values (tb_nodes t)) 0)
        (\<lambda>current. and_then (expect (checked_add u64_max (tb_retired_attempts t) current))
        (\<lambda>used. and_then (expect (Option.bind (checked_add u64_max used 1)
                   (\<lambda>n. checked_add u64_max n (vr_attempts protected))))
        (\<lambda>attempts. if tl_max_attempts (tb_limits t) < attempts then Err TaskAttemptLimitProtects
           else and_then (calls_admit t node (bm_entries (tb_call_limits t)))
        (\<lambda>_. and_then (add now (na_wall_ms_per_attempt allowance))
        (\<lambda>deadline. if tl_deadline_unix_ms (tb_limits t) \<le> now then Err DeadlineProtects
           else and_then (add deadline (vr_wall_ms protected))
        (\<lambda>until. if tl_deadline_unix_ms (tb_limits t) < until then Err DeadlineProtects
           else let rem = (case remaining (tb_tokens t) Run of None \<Rightarrow> 0 | Some r \<Rightarrow> r) in
             and_then (add (na_tokens_per_attempt allowance) (vr_tokens protected))
        (\<lambda>need. if rem < need
           then Err (TokenLimitProtects (group (na_tokens_per_attempt allowance)) (group (vr_tokens protected)) (group rem))
           else and_then (reservation_scopes t node) (\<lambda>scopes. Ok (a, deadline, scopes))))))))))))))"

definition prepare :: "TaskBudget \<Rightarrow> string \<Rightarrow> nat \<Rightarrow> (TaskError, TaskReservation) res \<times> TaskBudget" where
  "prepare t node now =
     (case prepare_guards t node now of
        Err e \<Rightarrow> (Err e, t)
      | Panic \<Rightarrow> (Panic, t)
      | Ok (a, deadline, scopes) \<Rightarrow>
          (case reserve (tb_tokens t) scopes (na_tokens_per_attempt (nd_allowance a)) of
             (Err e, l) \<Rightarrow> (Err (LedgerRefused e), t\<lparr>tb_tokens := l\<rparr>)
           | (Panic, l) \<Rightarrow> (Panic, t)
           | (Ok r, l) \<Rightarrow>
               (case checked_add u32_max (nd_prepared a) 1 of
                  None \<Rightarrow> (Panic, t)
                | Some n \<Rightarrow>
                    (let public = \<lparr>tr_id = res_id r, tr_node = node, tr_tokens = res_amount r,
                                   tr_deadline_unix_ms = deadline\<rparr> in
                     (Ok public, t\<lparr>tb_tokens := l,
                        tb_nodes := bm_insert node (a\<lparr>nd_prepared := n\<rparr>) (tb_nodes t),
                        tb_reservations := bm_insert (tr_id public)
                          \<lparr>h_public = public, h_tokens = r, h_begun = False, h_settled = None,
                           h_released = False, h_recovered = False\<rparr> (tb_reservations t),
                        tb_last_time := now\<rparr>)))))"

definition begin_refusal :: "TaskBudget \<Rightarrow> Held \<Rightarrow> nat \<Rightarrow> BeginRefusal option" where
  "begin_refusal t held now =
     (if h_released held then Some ReleasedBeforeStart
      else case h_settled held of
        Some charged \<Rightarrow> Some (AlreadySettled (group charged))
      | None \<Rightarrow>
          if now < tb_last_time t then Some (ClockMovedBackwards now (tb_last_time t))
          else if tr_deadline_unix_ms (h_public held) \<le> now
          then Some (DeadlinePassed now (tr_deadline_unix_ms (h_public held)))
          else if tb_breached t
          then Some (TokenBudgetBreached (group (committed (tb_tokens t) Run)) (group (tl_tokens (tb_limits t)))
                 (group (tr_tokens (h_public held)))
                 (group (case remaining (tb_tokens t) Run of None \<Rightarrow> 0 | Some r \<Rightarrow> r)))
          else None)"

definition begin_attempt :: "TaskBudget \<Rightarrow> string \<Rightarrow> nat \<Rightarrow> (TaskError, unit) res \<times> TaskBudget" where
  "begin_attempt t rid now =
     (case bm_get (tb_reservations t) rid of
        None \<Rightarrow> (Err UnknownReservation, t)
      | Some held \<Rightarrow>
          (case begin_refusal t held now of
             Some reason \<Rightarrow> (Err (NotDispatchable (tr_node (h_public held)) reason), t)
           | None \<Rightarrow>
               if h_begun held then (Ok (), t\<lparr>tb_last_time := now\<rparr>)
               else
                 (case bm_get (tb_nodes t) (tr_node (h_public held)) of
                    None \<Rightarrow> (Panic, t)
                  | Some a \<Rightarrow>
                      (case (checked_sub (nd_prepared a) 1, checked_add u32_max (nd_begun a) 1) of
                         (Some p, Some b) \<Rightarrow>
                           (Ok (), t\<lparr>tb_nodes := bm_insert (tr_node (h_public held))
                                (a\<lparr>nd_prepared := p, nd_begun := b\<rparr>) (tb_nodes t),
                              tb_reservations := bm_insert rid (held\<lparr>h_begun := True\<rparr>) (tb_reservations t),
                              tb_last_time := now\<rparr>)
                       | _ \<Rightarrow> (Panic, t)))))"

definition release_attempt :: "TaskBudget \<Rightarrow> string \<Rightarrow> (TaskError, unit) res \<times> TaskBudget" where
  "release_attempt t rid =
     (case bm_get (tb_reservations t) rid of
        None \<Rightarrow> (Err UnknownReservation, t)
      | Some held \<Rightarrow>
          if h_begun held \<or> h_settled held \<noteq> None then (Err StartedCannotRelease, t)
          else if h_released held then (Ok (), t)
          else
            (case release (tb_tokens t) (h_tokens held) of
               (Ok _, l) \<Rightarrow>
                 (case Option.bind (bm_get (tb_nodes t) (tr_node (h_public held)))
                         (\<lambda>a. map_option (\<lambda>p. a\<lparr>nd_prepared := p\<rparr>) (checked_sub (nd_prepared a) 1)) of
                    None \<Rightarrow> (Panic, t)
                  | Some a \<Rightarrow>
                      (Ok (), t\<lparr>tb_tokens := l,
                         tb_nodes := bm_insert (tr_node (h_public held)) a (tb_nodes t),
                         tb_reservations := bm_insert rid (held\<lparr>h_released := True\<rparr>) (tb_reservations t)\<rparr>))
             | _ \<Rightarrow> (Panic, t)))"

definition settle_exact :: "TaskBudget \<Rightarrow> string \<Rightarrow> nat \<Rightarrow> (TaskError, unit) res \<times> TaskBudget" where
  "settle_exact t rid actual =
     (case bm_get (tb_reservations t) rid of
        None \<Rightarrow> (Err UnknownReservation, t)
      | Some held \<Rightarrow>
          if \<not> h_begun held \<or> h_released held then (Err SettlementNotStarted, t)
          else case h_settled held of
            Some old \<Rightarrow> (if old = actual then Ok () else Err ConflictingSettlement, t)
          | None \<Rightarrow>
              if actual < observed_charge_exact (tb_tokens t) (h_tokens held) then (Err SettlementRefund, t)
              else
                (case charge_exact (tb_tokens t) (h_tokens held) actual of
                   (Err e, l) \<Rightarrow> (Err (UsageRefused e), t\<lparr>tb_tokens := l, tb_breached := True\<rparr>)
                 | (Panic, l) \<Rightarrow> (Panic, t)
                 | (Ok _, l) \<Rightarrow>
                     (Ok (), t\<lparr>tb_tokens := l,
                        tb_reservations := bm_insert rid (held\<lparr>h_settled := Some actual\<rparr>) (tb_reservations t),
                        tb_breached := (tb_breached t \<or> res_amount (h_tokens held) < actual)\<rparr>)))"

definition recover :: "TaskBudget \<Rightarrow> string \<Rightarrow> (TaskError, unit) res \<times> TaskBudget" where
  "recover t rid =
     (case bm_get (tb_reservations t) rid of
        None \<Rightarrow> (Err UnknownReservation, t)
      | Some held \<Rightarrow>
          if \<not> h_begun held \<or> h_released held \<or> h_settled held = None then (Err OnlySettledRecovered, t)
          else if h_recovered held then (Ok (), t)
          else case bm_get (tb_nodes t) (tr_node (h_public held)) of
            None \<Rightarrow> (Err RecoveredNodeGone, t)
          | Some a \<Rightarrow>
              (case checked_add u32_max (nd_recovered a) 1 of
                 None \<Rightarrow> (Panic, t)
               | Some n \<Rightarrow>
                   (Ok (), t\<lparr>tb_nodes := bm_insert (tr_node (h_public held)) (a\<lparr>nd_recovered := n\<rparr>) (tb_nodes t),
                      tb_reservations := bm_insert rid (held\<lparr>h_recovered := True\<rparr>) (tb_reservations t)\<rparr>)))"

text \<open>The allowances are installed one by one: an error leaves the earlier ones in place.\<close>

fun install_recovery_from ::
  "(string \<times> nat) list \<Rightarrow> TaskBudget \<Rightarrow> (TaskError, unit) res \<times> TaskBudget" where
  "install_recovery_from [] t = (Ok (), t)"
| "install_recovery_from ((node, allowance) # rest) t =
     (if MAX_RECOVERY_ATTEMPTS < allowance then (Err (TooManyRecoveries node allowance), t)
      else case bm_get (tb_nodes t) node of
        None \<Rightarrow> (Err (UnknownNode node), t)
      | Some a \<Rightarrow> install_recovery_from rest
          (t\<lparr>tb_nodes := bm_insert node (a\<lparr>nd_recovery_allowance := allowance\<rparr>) (tb_nodes t)\<rparr>))"

definition install_recovery_allowances ::
  "TaskBudget \<Rightarrow> (string, nat) bmap \<Rightarrow> (TaskError, unit) res \<times> TaskBudget" where
  "install_recovery_allowances t allowances = install_recovery_from (bm_entries allowances) t"

definition with_recovery_allowances :: "TaskBudget \<Rightarrow> (string, nat) bmap \<Rightarrow> (TaskError, TaskBudget) res" where
  "with_recovery_allowances t allowances =
     (case install_recovery_allowances t allowances of
        (Ok _, t') \<Rightarrow> Ok t'
      | (Err e, _) \<Rightarrow> Err e
      | (Panic, _) \<Rightarrow> Panic)"

definition recovery :: "TaskBudget \<Rightarrow> string \<Rightarrow> ('e, NodeRecovery option) res" where
  "recovery t node =
     (case bm_get (tb_nodes t) node of
        None \<Rightarrow> Ok None
      | Some a \<Rightarrow> and_then (chargeable a)
          (\<lambda>c. Ok (Some \<lparr>rec_chargeable = c, rec_abandoned = nd_recovered a,
             rec_allowance = nd_recovery_allowance a\<rparr>)))"

definition committed_tokens :: "TaskBudget \<Rightarrow> nat" where
  "committed_tokens t = committed (tb_tokens t) Run"

definition reserved_tokens :: "TaskBudget \<Rightarrow> nat" where
  "reserved_tokens t = reserved (tb_tokens t) Run"

text \<open>Usage reported after settlement: each scope's commitment is rewritten with the difference.\<close>

fun late_charge ::
  "BudgetLedger \<Rightarrow> nat \<Rightarrow> BudgetScope list \<Rightarrow> BudgetLedger \<Rightarrow> BudgetLedger option" where
  "late_charge before delta [] updated = Some updated"
| "late_charge before delta (s # ss) updated =
     Option.bind (checked_add u128_max (committed before s) delta)
       (\<lambda>tot. late_charge before delta ss (with_exact_committed updated s tot))"

definition observe_attempt :: "TaskBudget \<Rightarrow> string \<Rightarrow> nat \<Rightarrow> (TaskError, unit) res \<times> TaskBudget" where
  "observe_attempt t rid actual =
     (case bm_get (tb_reservations t) rid of
        None \<Rightarrow> (Err UnknownReservation, t)
      | Some held \<Rightarrow>
          if \<not> h_begun held \<or> h_released held then (Err UsageNotStarted, t)
          else
            (let breached = (tb_breached t \<or> res_amount (h_tokens held) < actual) in
             case h_settled held of
               Some previous \<Rightarrow>
                 if previous < actual then
                   (case late_charge (tb_tokens t) (actual - previous) (res_scopes (h_tokens held)) (tb_tokens t) of
                      None \<Rightarrow> (Err ObservedOverflow, t\<lparr>tb_breached := True\<rparr>)
                    | Some l \<Rightarrow>
                        (Ok (), t\<lparr>tb_tokens := l,
                           tb_reservations := bm_insert rid (held\<lparr>h_settled := Some actual\<rparr>) (tb_reservations t),
                           tb_breached := breached\<rparr>))
                 else (Ok (), t\<lparr>tb_breached := breached\<rparr>)
             | None \<Rightarrow>
                 (case observe_charge_exact (tb_tokens t) (h_tokens held) actual of
                    (Err e, l) \<Rightarrow> (Err (UsageRefused e), t\<lparr>tb_tokens := l, tb_breached := True\<rparr>)
                  | (Panic, l) \<Rightarrow> (Panic, t)
                  | (Ok _, l) \<Rightarrow> (Ok (), t\<lparr>tb_tokens := l, tb_breached := breached\<rparr>))))"

end
