(* ===== verification/TaskAccounting.thy ===== *)
theory TaskAccounting
  imports TaskBudget
begin

text \<open>
  The accounting invariant of the Task budget over every operation: each reservation is filed under
  its ledger identity and outstanding there exactly while it is pending, node counters equal the
  reservations they count, begun Attempts are never lost by a graph replacement, and the Attempt
  limit holds. Each operation is reduced to one transition and keeps the invariant without panic.
\<close>

subsection \<open>Counting\<close>

definition used :: "NodeAccount \<Rightarrow> nat" where
  "used a = nd_begun a - nd_recovered a + nd_prepared a"

lemma chargeable_ok [simp]:
  "nd_recovered a \<le> nd_begun a \<Longrightarrow> chargeable a = Ok (nd_begun a - nd_recovered a)"
  by (simp add: chargeable_def checked_sub_def)

lemma chargeable_Ok_iff: "chargeable a = Ok c \<longleftrightarrow> nd_recovered a \<le> nd_begun a \<and> c = nd_begun a - nd_recovered a"
  by (auto simp: chargeable_def expect_def split: option.splits)

lemma used_u64_ok [simp]: "nd_recovered a \<le> nd_begun a \<Longrightarrow> used_u64 a = Ok (used a)"
  by (simp add: used_u64_def used_def)

lemma sum_u64_ok:
  "(\<And>x. x \<in> set xs \<Longrightarrow> f x = Ok (g x)) \<Longrightarrow> acc + sum_list (map g xs) \<le> u64_max \<Longrightarrow>
   sum_u64 f xs acc = Ok (acc + sum_list (map g xs))"
  by (induction xs arbitrary: acc) (auto simp: checked_add_def add.assoc)

lemma sum_values: "sum_list (map g (bm_values m)) = bm_sum (\<lambda>_. g) m"
  by (simp add: bm_values_def bm_sum_def comp_def case_prod_unfold)

lemma sum_nodes_ok:
  assumes "\<And>n a. bm_get m n = Some a \<Longrightarrow> f a = Ok (g a)" "bm_sum (\<lambda>_. g) m \<le> u64_max"
  shows "sum_u64 f (bm_values m) 0 = Ok (bm_sum (\<lambda>_. g) m)"
proof -
  have "f a = Ok (g a)" if "a \<in> set (bm_values m)" for a
    using that assms(1) by (auto simp: set_bm_values ran_def)
  then show ?thesis
    using sum_u64_ok [of "bm_values m" f g 0] assms(2) by (simp add: sum_values)
qed

text \<open>Reservations of a node that wait to begin, and reservations that have begun.\<close>

definition waiting :: "TaskBudget \<Rightarrow> string \<Rightarrow> nat" where
  "waiting t n = bm_sum (\<lambda>_ h. if pending h \<and> \<not> h_begun h \<and> tr_node (h_public h) = n then 1 else 0) (tb_reservations t)"

definition begun_total :: "TaskBudget \<Rightarrow> nat" where
  "begun_total t = bm_sum (\<lambda>_ h. if h_begun h then 1 else 0) (tb_reservations t)"

definition reservations_made :: "TaskBudget \<Rightarrow> nat" where
  "reservations_made t = bm_sum (\<lambda>_ _. 1) (tb_reservations t)"

definition all_used :: "TaskBudget \<Rightarrow> nat" where
  "all_used t = tb_retired_attempts t + bm_sum (\<lambda>_. used) (tb_nodes t)"

subsection \<open>The budget invariant\<close>

definition allowance_typed :: "NodeAllowance \<Rightarrow> bool" where
  "allowance_typed a \<longleftrightarrow> na_tokens_per_attempt a \<le> u64_max \<and> na_wall_ms_per_attempt a \<le> u64_max \<and>
     na_max_attempts a \<le> u32_max \<and> na_verification_attempts a \<le> u32_max"

definition held_ok :: "TaskBudget \<Rightarrow> string \<Rightarrow> Held \<Rightarrow> bool" where
  "held_ok t rid h \<longleftrightarrow>
     tr_id (h_public h) = rid \<and> res_id (h_tokens h) = rid \<and>
     tr_tokens (h_public h) = res_amount (h_tokens h) \<and>
     Run \<in> set (res_scopes (h_tokens h)) \<and> distinct (res_scopes (h_tokens h)) \<and>
     (\<exists>n \<le> led_next (tb_tokens t). rid = reservation_id n) \<and>
     (h_released h \<longrightarrow> \<not> h_begun h \<and> h_settled h = None) \<and>
     (h_settled h \<noteq> None \<longrightarrow> h_begun h) \<and> (h_recovered h \<longrightarrow> h_settled h \<noteq> None) \<and>
     (pending h \<longrightarrow> bm_get (tb_nodes t) (tr_node (h_public h)) \<noteq> None) \<and>
     map_option out_reservation (bm_get (led_outstanding (tb_tokens t)) rid)
       = (if pending h then Some (h_tokens h) else None)"

definition node_ok :: "TaskBudget \<Rightarrow> string \<Rightarrow> NodeAccount \<Rightarrow> bool" where
  "node_ok t n a \<longleftrightarrow> allowance_typed (nd_allowance a) \<and> nd_recovered a \<le> nd_begun a \<and>
     nd_prepared a = waiting t n \<and> used a \<le> na_max_attempts (nd_allowance a)"

definition task_inv :: "TaskBudget \<Rightarrow> bool" where
  "task_inv t \<longleftrightarrow> ledger_inv (tb_tokens t) \<and>
     (\<forall>rid h. bm_get (tb_reservations t) rid = Some h \<longrightarrow> held_ok t rid h) \<and>
     dom (bm_get (led_outstanding (tb_tokens t))) \<subseteq> dom (bm_get (tb_reservations t)) \<and>
     (\<forall>n a. bm_get (tb_nodes t) n = Some a \<longrightarrow> node_ok t n a) \<and>
     tb_retired_attempts t + tb_retired_recovered t + bm_sum (\<lambda>_. nd_begun) (tb_nodes t) = begun_total t \<and>
     reservations_made t \<le> led_next (tb_tokens t) \<and>
     all_used t \<le> tl_max_attempts (tb_limits t) \<and> tl_max_attempts (tb_limits t) \<le> u32_max \<and>
     limits_valid (tb_limits t)"

lemma task_invD:
  assumes "task_inv t"
  shows "ledger_inv (tb_tokens t)"
    and "bm_get (tb_reservations t) rid = Some h \<Longrightarrow> held_ok t rid h"
    and "bm_get (led_outstanding (tb_tokens t)) rid = Some oh \<Longrightarrow> \<exists>h. bm_get (tb_reservations t) rid = Some h"
    and "bm_get (tb_nodes t) n = Some a \<Longrightarrow> node_ok t n a"
    and "tb_retired_attempts t + tb_retired_recovered t + bm_sum (\<lambda>_. nd_begun) (tb_nodes t) = begun_total t"
    and "reservations_made t \<le> led_next (tb_tokens t)"
    and "all_used t \<le> tl_max_attempts (tb_limits t)" "tl_max_attempts (tb_limits t) \<le> u32_max"
    and "limits_valid (tb_limits t)"
  using assms by (auto simp: task_inv_def)

lemma begun_total_bound:
  assumes "task_inv t"
  shows "begun_total t \<le> u64_max"
proof -
  have "begun_total t \<le> reservations_made t"
    unfolding begun_total_def reservations_made_def by (rule bm_sum_mono) simp
  also have "\<dots> \<le> u64_max"
    using task_invD(6) [OF assms] ledger_invD(5) [OF task_invD(1) [OF assms]] by simp
  finally show ?thesis .
qed

text \<open>The Attempt counts of the source are these sums, and none of them overflows.\<close>

definition chargeable_sum :: "TaskBudget \<Rightarrow> nat" where
  "chargeable_sum t = bm_sum (\<lambda>_ a. nd_begun a - nd_recovered a) (tb_nodes t)"

lemma split_begun:
  assumes "task_inv t"
  shows "bm_sum (\<lambda>_. nd_begun) (tb_nodes t) = chargeable_sum t + bm_sum (\<lambda>_. nd_recovered) (tb_nodes t)"
  unfolding chargeable_sum_def bm_sum_add [symmetric]
  by (rule bm_sum_cong) (use task_invD(4) [OF assms] in \<open>auto simp: node_ok_def\<close>)

lemma used_split: "bm_sum (\<lambda>_. used) (tb_nodes t) = chargeable_sum t + bm_sum (\<lambda>_. nd_prepared) (tb_nodes t)"
  by (simp add: used_def [abs_def] chargeable_sum_def bm_sum_add)

lemma node_recovered_le: "task_inv t \<Longrightarrow> bm_get (tb_nodes t) n = Some a \<Longrightarrow> nd_recovered a \<le> nd_begun a"
  using task_invD(4) by (auto simp: node_ok_def)

lemma attempt_counts:
  assumes inv: "task_inv t"
  shows "chargeable_attempts t = Ok (tb_retired_attempts t + chargeable_sum t)"
    and "begun_attempts t = Ok (begun_total t)"
    and "retire t = Ok (t\<lparr>tb_retired_attempts := tb_retired_attempts t + chargeable_sum t,
           tb_retired_recovered := tb_retired_recovered t + bm_sum (\<lambda>_. nd_recovered) (tb_nodes t)\<rparr>)"
    and "sum_u64 used_u64 (bm_values (tb_nodes t)) 0 = Ok (bm_sum (\<lambda>_. used) (tb_nodes t))"
proof -
  note b = task_invD(5) [OF inv] split_begun [OF inv] begun_total_bound [OF inv]
  have 1: "sum_u64 chargeable (bm_values (tb_nodes t)) 0 = Ok (chargeable_sum t)"
    unfolding chargeable_sum_def
    by (rule sum_nodes_ok) (use node_recovered_le [OF inv] b in \<open>auto simp: chargeable_sum_def\<close>)
  have 2: "sum_u64 (\<lambda>a. Ok (nd_begun a)) (bm_values (tb_nodes t)) 0 = Ok (bm_sum (\<lambda>_. nd_begun) (tb_nodes t))"
    by (rule sum_nodes_ok) (use b in auto)
  have 3: "sum_u64 (\<lambda>a. Ok (nd_recovered a)) (bm_values (tb_nodes t)) 0 = Ok (bm_sum (\<lambda>_. nd_recovered) (tb_nodes t))"
    by (rule sum_nodes_ok) (use b in auto)
  show 4: "chargeable_attempts t = Ok (tb_retired_attempts t + chargeable_sum t)"
    using b by (simp add: chargeable_attempts_def 1 checked_add_def)
  show "begun_attempts t = Ok (begun_total t)"
    using b by (simp add: begun_attempts_def 2 checked_add_def)
  show "retire t = Ok (t\<lparr>tb_retired_attempts := tb_retired_attempts t + chargeable_sum t,
      tb_retired_recovered := tb_retired_recovered t + bm_sum (\<lambda>_. nd_recovered) (tb_nodes t)\<rparr>)"
    using b by (simp add: retire_def 3 4 checked_add_def)
  show "sum_u64 used_u64 (bm_values (tb_nodes t)) 0 = Ok (bm_sum (\<lambda>_. used) (tb_nodes t))"
    by (rule sum_nodes_ok)
      (use node_recovered_le [OF inv] task_invD(7,8) [OF inv] in \<open>auto simp: all_used_def uint_bounds\<close>)
qed


subsection \<open>Every operation keeps the invariant\<close>

text \<open>Replacing one reservation by another of the same node.\<close>

lemma count_upd:
  assumes "bm_get m k = Some (w::Held)"
  shows "bm_sum (\<lambda>_ h. if P h then 1 else 0) (bm_insert k v m) + (if P w then 1 else 0)
    = bm_sum (\<lambda>_ h. if P h then 1 else 0) m + (if P v then 1 else (0::nat))"
  using bm_sum_insert_upd [OF assms, of "\<lambda>_ h. if P h then 1 else 0" v] by simp

lemma after_observe_frame [simp]:
  "led_next (after_observe l held actual) = led_next l"
  "led_outstanding (after_observe l held actual) = bm_insert (res_id (out_reservation held))
     (held\<lparr>out_observed := max (out_observed held) actual\<rparr>) (led_outstanding l)"
  by (simp_all add: after_observe_def Let_def)

lemma after_drop_frame [simp]:
  "led_next (after_drop l rid held) = led_next l"
  "led_outstanding (after_drop l rid held) = bm_remove rid (led_outstanding l)"
  by (simp_all add: after_drop_def)

text \<open>A change of the token ledger that keeps which reservations are outstanding.\<close>

lemma tokens_inv:
  assumes "task_inv t" "ledger_inv l" "led_next l = led_next (tb_tokens t)"
    and "\<And>rid. map_option out_reservation (bm_get (led_outstanding l) rid)
        = map_option out_reservation (bm_get (led_outstanding (tb_tokens t)) rid)"
  shows "task_inv (t\<lparr>tb_tokens := l\<rparr>)"
proof -
  have "dom (bm_get (led_outstanding l)) = dom (bm_get (led_outstanding (tb_tokens t)))"
    using assms(4) by (auto simp: dom_def) (metis not_Some_eq option.map_disc_iff)+
  then show ?thesis
    using assms by (auto simp: task_inv_def held_ok_def node_ok_def waiting_def begun_total_def
        reservations_made_def all_used_def)
qed

lemma flags_inv [simp]:
  "task_inv (t\<lparr>tb_breached := b\<rparr>) = task_inv t" "task_inv (t\<lparr>tb_last_time := now\<rparr>) = task_inv t"
  "task_inv (t\<lparr>tb_call_limits := c\<rparr>) = task_inv t" "task_inv (t\<lparr>tb_token_scopes := s\<rparr>) = task_inv t"
  "task_inv (t\<lparr>tb_captured_token_scopes := s\<rparr>) = task_inv t" "task_inv (t\<lparr>tb_deferred_verification := b\<rparr>) = task_inv t"
  "task_inv (t\<lparr>tb_owned_templates := w\<rparr>) = task_inv t" "task_inv (t\<lparr>tb_owned_children := k\<rparr>) = task_inv t"
  by (simp_all add: task_inv_def held_ok_def node_ok_def waiting_def begun_total_def
        reservations_made_def all_used_def)

lemma settled_upd_inv:
  assumes inv: "task_inv t" and h: "bm_get (tb_reservations t) rid = Some h" "h_settled h = Some old"
  shows "task_inv (t\<lparr>tb_reservations := bm_insert rid (h\<lparr>h_settled := Some new\<rparr>) (tb_reservations t)\<rparr>)"
proof -
  let ?t = "t\<lparr>tb_reservations := bm_insert rid (h\<lparr>h_settled := Some new\<rparr>) (tb_reservations t)\<rparr>"
  have w: "waiting ?t n = waiting t n" for n
    using count_upd [OF h(1), of "\<lambda>h. pending h \<and> \<not> h_begun h \<and> tr_node (h_public h) = n" "h\<lparr>h_settled := Some new\<rparr>"] h(2)
    by (simp add: waiting_def pending_def)
  have b: "begun_total ?t = begun_total t" "reservations_made ?t = reservations_made t"
    using count_upd [OF h(1), of h_begun "h\<lparr>h_settled := Some new\<rparr>"]
      count_upd [OF h(1), of "\<lambda>_. True" "h\<lparr>h_settled := Some new\<rparr>"]
    by (simp_all add: begun_total_def reservations_made_def)
  have "held_ok ?t rid' h'" if "bm_get (tb_reservations ?t) rid' = Some h'" for rid' h'
    using that task_invD(2) [OF inv, of rid'] task_invD(2) [OF inv h(1)] h(2)
    by (auto simp: held_ok_def pending_def split: if_splits)
  then show ?thesis
    using inv h(1) by (auto simp: task_inv_def node_ok_def w b all_used_def)
qed

lemma with_exact_committed_frame [simp]:
  "led_next (with_exact_committed l s c) = led_next l"
  "led_outstanding (with_exact_committed l s c) = led_outstanding l"
  "led_overflowed (with_exact_committed l s c) = led_overflowed l"
  by (simp_all add: with_exact_committed_def)

lemma late_charge_views:
  "late_charge before delta ss l = Some l' \<Longrightarrow>
   led_next l' = led_next l \<and> led_outstanding l' = led_outstanding l \<and> led_overflowed l' = led_overflowed l \<and>
   (\<forall>s. committed l' s = (if s \<in> set ss then committed before s + delta else committed l s)) \<and>
   (\<forall>s. reserved l' s = reserved l s) \<and> (ledger_inv l \<longrightarrow> ledger_inv l')"
proof (induction ss arbitrary: l)
  case (Cons s ss)
  then have c: "committed before s + delta \<le> u128_max"
    "late_charge before delta ss (with_exact_committed l s (committed before s + delta)) = Some l'"
    by (auto split: bind_splits)
  show ?case
    using Cons.IH [OF c(2)] with_exact_committed_inv [OF _ c(1)] by auto
qed simp

lemma observe_keeps:
  assumes "ledger_inv l"
  shows "led_next (snd (observe_charge_exact l r actual)) = led_next l"
    and "map_option out_reservation (bm_get (led_outstanding (snd (observe_charge_exact l r actual))) rid)
      = map_option out_reservation (bm_get (led_outstanding l) rid)"
  using assms by (cases rule: observe_cases [of l r actual]; auto)+

lemma observe_attempt_inv:
  assumes inv: "task_inv t"
  shows "task_inv (snd (observe_attempt t rid actual))" "fst (observe_attempt t rid actual) \<noteq> Panic"
proof -
  note li = task_invD(1) [OF inv]
  have "task_inv (snd (observe_attempt t rid actual)) \<and> fst (observe_attempt t rid actual) \<noteq> Panic"
  proof (cases "bm_get (tb_reservations t) rid")
    case (Some h)
    show ?thesis
    proof (cases "h_settled h")
      case None
      have "task_inv (t\<lparr>tb_tokens := snd (observe_charge_exact (tb_tokens t) (h_tokens h) actual)\<rparr>)"
        by (rule tokens_inv [OF inv observe_inv(1) [OF li] observe_keeps [OF li]])
      moreover have "fst (observe_charge_exact (tb_tokens t) (h_tokens h) actual) \<noteq> Panic"
        by (rule observe_inv(2) [OF li])
      ultimately show ?thesis
        using Some None inv by (auto simp: observe_attempt_def Let_def split: prod.splits res.splits)
    next
      case (Some old)
      note held = \<open>bm_get (tb_reservations t) rid = Some h\<close>
      have "task_inv (t\<lparr>tb_tokens := l, tb_reservations := bm_insert rid (h\<lparr>h_settled := Some actual\<rparr>) (tb_reservations t)\<rparr>)"
        if "late_charge (tb_tokens t) (actual - old) (res_scopes (h_tokens h)) (tb_tokens t) = Some l" for l
      proof -
        have "task_inv (t\<lparr>tb_tokens := l\<rparr>)"
          using late_charge_views [OF that] li by (intro tokens_inv [OF inv]) auto
        from settled_upd_inv [OF this] held Some show ?thesis by simp
      qed
      then show ?thesis
        using Some held inv by (auto simp: observe_attempt_def Let_def split: option.splits)
    qed
  qed (simp add: observe_attempt_def inv)
  then show "task_inv (snd (observe_attempt t rid actual))" "fst (observe_attempt t rid actual) \<noteq> Panic"
    by simp_all
qed


text \<open>
  One reservation changes its state together with its node's account and the token ledger:
  begin, release, settle and recover are instances.
\<close>

definition waits :: "Held \<Rightarrow> nat" where
  "waits h = (if pending h \<and> \<not> h_begun h then 1 else 0)"

definition started :: "Held \<Rightarrow> nat" where
  "started h = (if h_begun h then 1 else 0)"

definition held_flags_ok :: "Held \<Rightarrow> bool" where
  "held_flags_ok h \<longleftrightarrow> (h_released h \<longrightarrow> \<not> h_begun h \<and> h_settled h = None) \<and>
     (h_settled h \<noteq> None \<longrightarrow> h_begun h) \<and> (h_recovered h \<longrightarrow> h_settled h \<noteq> None)"

lemma transition_inv:
  assumes inv: "task_inv t" and h: "bm_get (tb_reservations t) rid = Some h"
    and a: "bm_get (tb_nodes t) (tr_node (h_public h)) = Some a"
    and same: "h_public h' = h_public h" "h_tokens h' = h_tokens h"
    and flags: "held_flags_ok h'"
    and l: "ledger_inv l" "led_next l = led_next (tb_tokens t)"
    and out: "\<And>r. map_option out_reservation (bm_get (led_outstanding l) r)
        = (if r = rid then (if pending h' then Some (h_tokens h) else None)
           else map_option out_reservation (bm_get (led_outstanding (tb_tokens t)) r))"
    and a': "nd_allowance a' = nd_allowance a" "nd_recovered a' \<le> nd_begun a'" "used a' \<le> used a"
      "nd_prepared a' + waits h = nd_prepared a + waits h'" "nd_begun a' + started h = nd_begun a + started h'"
  shows "task_inv (t\<lparr>tb_tokens := l, tb_nodes := bm_insert (tr_node (h_public h)) a' (tb_nodes t),
    tb_reservations := bm_insert rid h' (tb_reservations t)\<rparr>)" (is "task_inv ?t")
proof -
  let ?n = "tr_node (h_public h)"
  have w: "waiting ?t m + (if m = ?n then waits h else 0) = waiting t m + (if m = ?n then waits h' else 0)" for m
    using count_upd [OF h, of "\<lambda>h. pending h \<and> \<not> h_begun h \<and> tr_node (h_public h) = m" h'] same
    by (auto simp: waiting_def waits_def split: if_splits)
  have b: "begun_total ?t + started h = begun_total t + started h'" "reservations_made ?t = reservations_made t"
    using count_upd [OF h, of h_begun h'] count_upd [OF h, of "\<lambda>_. True" h']
    by (simp_all add: begun_total_def reservations_made_def started_def)
  have held: "held_ok ?t r k" if "bm_get (tb_reservations ?t) r = Some k" for r k
  proof (cases "r = rid")
    case True
    then show ?thesis
      using that task_invD(2) [OF inv h] same flags l out [of rid] a
      by (auto simp: held_ok_def held_flags_ok_def)
  next
    case False
    then show ?thesis
      using that task_invD(2) [OF inv, of r k] l out [of r] by (auto simp: held_ok_def)
  qed
  have sub: "dom (bm_get (led_outstanding l)) \<subseteq> dom (bm_get (tb_reservations ?t))"
  proof
    fix r
    assume "r \<in> dom (bm_get (led_outstanding l))"
    then obtain k where k: "bm_get (led_outstanding l) r = Some k" by auto
    show "r \<in> dom (bm_get (tb_reservations ?t))"
    proof (cases "r = rid")
      case False
      then obtain k' where "bm_get (led_outstanding (tb_tokens t)) r = Some k'"
        using out [of r] k by (cases "bm_get (led_outstanding (tb_tokens t)) r") auto
      then show ?thesis using task_invD(3) [OF inv] by auto
    qed (use h in auto)
  qed
  have node: "node_ok ?t m k" if "bm_get (tb_nodes ?t) m = Some k" for m k
    using that task_invD(4) [OF inv, of m] task_invD(4) [OF inv a] a' w [of m]
    by (auto simp: node_ok_def split: if_splits)
  have sums: "bm_sum (\<lambda>_. nd_begun) (tb_nodes ?t) + nd_begun a = bm_sum (\<lambda>_. nd_begun) (tb_nodes t) + nd_begun a'"
    "bm_sum (\<lambda>_. used) (tb_nodes ?t) + used a = bm_sum (\<lambda>_. used) (tb_nodes t) + used a'"
    using bm_sum_insert_upd [OF a, of "\<lambda>_. nd_begun" a'] bm_sum_insert_upd [OF a, of "\<lambda>_. used" a'] by simp_all
  have "tb_retired_attempts t + tb_retired_recovered t + bm_sum (\<lambda>_. nd_begun) (tb_nodes ?t) = begun_total ?t"
    using task_invD(5) [OF inv] sums(1) b(1) a'(5) by simp
  moreover have "all_used ?t \<le> tl_max_attempts (tb_limits t)"
    using task_invD(7) [OF inv] sums(2) a'(3) by (simp add: all_used_def)
  ultimately show ?thesis
    using held sub node l(1) b(2) l(2) task_invD(6,8,9) [OF inv] by (auto simp: task_inv_def)
qed

lemma insert_same: "bm_get m k = Some v \<Longrightarrow> bm_insert k v m = m"
  by (rule bm_eqI) simp

lemma pending_outstanding:
  assumes "task_inv t" "bm_get (tb_reservations t) rid = Some h" "pending h"
  obtains oh a where "bm_get (led_outstanding (tb_tokens t)) rid = Some oh" "out_reservation oh = h_tokens h"
    "res_id (h_tokens h) = rid" "bm_get (tb_nodes t) (tr_node (h_public h)) = Some a" "node_ok t (tr_node (h_public h)) a"
  using task_invD(2) [OF assms(1,2)] assms(3) task_invD(4) [OF assms(1)] by (auto simp: held_ok_def)

lemma waiting_pos:
  assumes "bm_get (tb_reservations t) rid = Some h" "pending h" "\<not> h_begun h"
  shows "0 < waiting t (tr_node (h_public h))"
  using bm_sum_ge [OF assms(1), of "\<lambda>_ k. if pending k \<and> \<not> h_begun k \<and> tr_node (h_public k) = tr_node (h_public h) then 1 else 0"]
    assms(2,3) by (simp add: waiting_def)

lemma release_attempt_inv:
  assumes inv: "task_inv t"
  shows "task_inv (snd (release_attempt t rid)) \<and> fst (release_attempt t rid) \<noteq> Panic"
proof (cases "\<exists>h. bm_get (tb_reservations t) rid = Some h \<and> \<not> h_begun h \<and> h_settled h = None \<and> \<not> h_released h")
  case True
  then obtain h where h: "bm_get (tb_reservations t) rid = Some h" "\<not> h_begun h" "h_settled h = None" "\<not> h_released h"
    by blast
  then have p: "pending h" by (simp add: pending_def)
  obtain oh a where oh: "bm_get (led_outstanding (tb_tokens t)) rid = Some oh" "out_reservation oh = h_tokens h"
    "res_id (h_tokens h) = rid" and a: "bm_get (tb_nodes t) (tr_node (h_public h)) = Some a"
    "node_ok t (tr_node (h_public h)) a"
    using pending_outstanding [OF inv h(1) p] by metis
  have pos: "0 < nd_prepared a" using waiting_pos [OF h(1) p h(2)] a(2) by (simp add: node_ok_def)
  note li = task_invD(1) [OF inv]
  have "release (tb_tokens t) (h_tokens h) = (Ok (), after_drop (tb_tokens t) rid oh)"
    using drop_held_ok [OF li oh(1)] oh by (simp add: release_def)
  moreover have "task_inv (t\<lparr>tb_tokens := after_drop (tb_tokens t) rid oh,
      tb_nodes := bm_insert (tr_node (h_public h)) (a\<lparr>nd_prepared := nd_prepared a - 1\<rparr>) (tb_nodes t),
      tb_reservations := bm_insert rid (h\<lparr>h_released := True\<rparr>) (tb_reservations t)\<rparr>)"
    by (rule transition_inv [OF inv h(1) a(1)])
      (use h pos a(2) after_drop_inv [OF li oh(1)] task_invD(2) [OF inv h(1)] in
        \<open>auto simp: held_flags_ok_def held_ok_def node_ok_def used_def waits_def started_def pending_def\<close>)
  ultimately show ?thesis
    using h a(1) pos by (simp add: release_attempt_def checked_sub_def)
next
  case False
  then show ?thesis
    using inv by (auto simp: release_attempt_def split: option.splits)
qed

lemma begin_attempt_inv:
  assumes inv: "task_inv t"
  shows "task_inv (snd (begin_attempt t rid now)) \<and>
    (fst (begin_attempt t rid now) = Panic \<longrightarrow> (\<exists>n a. bm_get (tb_nodes t) n = Some a \<and> u32_max \<le> nd_begun a))"
proof (cases "\<exists>h. bm_get (tb_reservations t) rid = Some h \<and> \<not> h_begun h \<and> begin_refusal t h now = None")
  case True
  then obtain h where h: "bm_get (tb_reservations t) rid = Some h" "\<not> h_begun h" "begin_refusal t h now = None"
    by blast
  then have p: "pending h" by (auto simp: begin_refusal_def pending_def split: if_splits option.splits)
  obtain oh a where oh: "bm_get (led_outstanding (tb_tokens t)) rid = Some oh" "out_reservation oh = h_tokens h"
    "res_id (h_tokens h) = rid" and a: "bm_get (tb_nodes t) (tr_node (h_public h)) = Some a"
    "node_ok t (tr_node (h_public h)) a"
    using pending_outstanding [OF inv h(1) p] by metis
  have pos: "0 < nd_prepared a" using waiting_pos [OF h(1) p h(2)] a(2) by (simp add: node_ok_def)
  have "task_inv (t\<lparr>tb_tokens := tb_tokens t,
      tb_nodes := bm_insert (tr_node (h_public h)) (a\<lparr>nd_prepared := nd_prepared a - 1, nd_begun := nd_begun a + 1\<rparr>) (tb_nodes t),
      tb_reservations := bm_insert rid (h\<lparr>h_begun := True\<rparr>) (tb_reservations t)\<rparr>)"
    by (rule transition_inv [OF inv h(1) a(1)])
      (use h p pos a(2) oh task_invD(1) [OF inv] task_invD(2) [OF inv h(1)] in
        \<open>auto simp: held_flags_ok_def held_ok_def node_ok_def used_def waits_def started_def pending_def\<close>)
  then show ?thesis
    using h a(1) pos inv
    by (cases "nd_begun a + 1 \<le> u32_max")
      (auto simp: begin_attempt_def checked_sub_def checked_add_def intro!: exI [of _ "tr_node (h_public h)"])
next
  case False
  then show ?thesis
    using inv by (auto simp: begin_attempt_def split: option.splits)
qed


lemma settle_exact_inv:
  assumes inv: "task_inv t"
  shows "task_inv (snd (settle_exact t rid actual)) \<and> fst (settle_exact t rid actual) \<noteq> Panic"
proof (cases "\<exists>h. bm_get (tb_reservations t) rid = Some h \<and> h_begun h \<and> \<not> h_released h \<and> h_settled h = None \<and>
    observed_charge_exact (tb_tokens t) (h_tokens h) \<le> actual")
  case True
  then obtain h where h: "bm_get (tb_reservations t) rid = Some h" "h_begun h" "\<not> h_released h" "h_settled h = None"
    "observed_charge_exact (tb_tokens t) (h_tokens h) \<le> actual"
    by blast
  then have p: "pending h" by (simp add: pending_def)
  obtain oh a where oh: "bm_get (led_outstanding (tb_tokens t)) rid = Some oh" "out_reservation oh = h_tokens h"
    "res_id (h_tokens h) = rid" and a: "bm_get (tb_nodes t) (tr_node (h_public h)) = Some a"
    "node_ok t (tr_node (h_public h)) a"
    using pending_outstanding [OF inv h(1) p] by metis
  note li = task_invD(1) [OF inv]
  have settled: "task_inv (t\<lparr>tb_tokens := after_charge (tb_tokens t) oh actual,
      tb_nodes := bm_insert (tr_node (h_public h)) a (tb_nodes t),
      tb_reservations := bm_insert rid (h\<lparr>h_settled := Some actual\<rparr>) (tb_reservations t)\<rparr>)"
    if "observe_fits (tb_tokens t) oh actual"
    by (rule transition_inv [OF inv h(1) a(1)])
      (use h a(2) oh after_charge_inv [OF li oh(1) that] task_invD(2) [OF inv h(1)] in
        \<open>auto simp: held_flags_ok_def held_ok_def node_ok_def used_def waits_def started_def pending_def after_charge_def\<close>)
  have closed: "task_inv (t\<lparr>tb_tokens := (tb_tokens t)\<lparr>led_overflowed := True\<rparr>\<rparr>)"
    by (rule tokens_inv [OF inv close_admission_inv [OF li]]) simp_all
  show ?thesis
    using li
  proof (cases rule: charge_cases [of "tb_tokens t" "h_tokens h" actual])
    case (settled held)
    then show ?thesis
      using h oh \<open>observe_fits (tb_tokens t) oh actual \<Longrightarrow> _\<close>
      by (simp add: settle_exact_def insert_same [OF a(1)])
  qed (use h oh closed in \<open>auto simp: settle_exact_def\<close>)
next
  case False
  then show ?thesis
    using inv by (auto simp: settle_exact_def split: option.splits)
qed

text \<open>
  \<open>recover\<close> needs the node's account to still hold a begun Attempt that was not recovered; it
  always does for a reservation of the current graph.
\<close>

lemma recover_inv:
  assumes inv: "task_inv t"
    and own: "\<And>h a. bm_get (tb_reservations t) rid = Some h \<Longrightarrow> \<not> h_recovered h \<Longrightarrow>
      bm_get (tb_nodes t) (tr_node (h_public h)) = Some a \<Longrightarrow> nd_recovered a < nd_begun a"
  shows "task_inv (snd (recover t rid))"
proof (cases "\<exists>h a. bm_get (tb_reservations t) rid = Some h \<and> h_begun h \<and> \<not> h_released h \<and> h_settled h \<noteq> None \<and>
    \<not> h_recovered h \<and> bm_get (tb_nodes t) (tr_node (h_public h)) = Some a")
  case True
  then obtain h a where h: "bm_get (tb_reservations t) rid = Some h" "h_begun h" "\<not> h_released h" "h_settled h \<noteq> None"
    "\<not> h_recovered h" "bm_get (tb_nodes t) (tr_node (h_public h)) = Some a" by blast
  have "task_inv (t\<lparr>tb_tokens := tb_tokens t,
      tb_nodes := bm_insert (tr_node (h_public h)) (a\<lparr>nd_recovered := nd_recovered a + 1\<rparr>) (tb_nodes t),
      tb_reservations := bm_insert rid (h\<lparr>h_recovered := True\<rparr>) (tb_reservations t)\<rparr>)"
    by (rule transition_inv [OF inv h(1) h(6)])
      (use h own [OF h(1,5,6)] task_invD(1) [OF inv] task_invD(2) [OF inv h(1)] in
        \<open>auto simp: held_flags_ok_def held_ok_def used_def waits_def started_def pending_def\<close>)
  then show ?thesis
    using h inv by (auto simp: recover_def split: option.splits)
next
  case False
  then show ?thesis
    using inv by (auto simp: recover_def split: option.splits)
qed

lemma node_upd_inv:
  assumes inv: "task_inv t" and a: "bm_get (tb_nodes t) node = Some a"
    and a': "allowance_typed (nd_allowance a')" "na_max_attempts (nd_allowance a) \<le> na_max_attempts (nd_allowance a')"
      "nd_begun a' = nd_begun a" "nd_prepared a' = nd_prepared a" "nd_recovered a' = nd_recovered a"
  shows "task_inv (t\<lparr>tb_nodes := bm_insert node a' (tb_nodes t)\<rparr>)" (is "task_inv ?t")
proof -
  have u: "used a' = used a" using a' by (simp add: used_def)
  have counts: "waiting ?t n = waiting t n" "begun_total ?t = begun_total t" "reservations_made ?t = reservations_made t" for n
    by (simp_all add: waiting_def begun_total_def reservations_made_def)
  have "held_ok ?t rid h" if "bm_get (tb_reservations t) rid = Some h" for rid h
    using task_invD(2) [OF inv that] a by (auto simp: held_ok_def)
  moreover have "node_ok ?t n k" if "bm_get (tb_nodes ?t) n = Some k" for n k
    using that task_invD(4) [OF inv, of n] task_invD(4) [OF inv a] a' u
    by (auto simp: node_ok_def counts split: if_splits)
  ultimately show ?thesis
    using inv bm_sum_insert_upd [OF a, of "\<lambda>_. nd_begun" a'] bm_sum_insert_upd [OF a, of "\<lambda>_. used" a'] a' u
    by (simp add: task_inv_def counts all_used_def)
qed

lemma allow_retry_inv:
  assumes inv: "task_inv t"
  shows "task_inv (snd (allow_retry t node)) \<and> fst (allow_retry t node) \<noteq> Panic"
proof (cases "bm_get (tb_nodes t) node")
  case (Some a)
  then show ?thesis
    using node_upd_inv [OF inv Some] task_invD(4) [OF inv Some] inv
    by (auto simp: allow_retry_def checked_add_def node_ok_def allowance_typed_def)
qed (simp add: allow_retry_def inv)

lemma install_recovery_inv:
  assumes "task_inv t"
  shows "task_inv (snd (install_recovery_from xs t)) \<and> fst (install_recovery_from xs t) \<noteq> Panic"
  using assms
proof (induction xs t rule: install_recovery_from.induct)
  case (2 node allowance rest t)
  show ?case
  proof (cases "bm_get (tb_nodes t) node")
    case (Some a)
    have "task_inv (t\<lparr>tb_nodes := bm_insert node (a\<lparr>nd_recovery_allowance := allowance\<rparr>) (tb_nodes t)\<rparr>)"
      using node_upd_inv [OF 2(2) Some] task_invD(4) [OF 2(2) Some] by (simp add: node_ok_def)
    then show ?thesis using 2 Some by simp
  qed (use 2(2) in simp)
qed simp


subsection \<open>Preparing an Attempt\<close>

lemma add_eq_Ok [simp]: "add a b = Ok c \<longleftrightarrow> a + b \<le> u64_max \<and> c = a + b"
  by (auto simp: add_def)

lemma add_not_Panic [simp]: "add a b \<noteq> Panic"
  by (simp add: add_def)

lemma expect_eq_Ok [simp]: "expect x = Ok v \<longleftrightarrow> x = Some v"
  by (cases x) simp_all

text \<open>What a candidate that passes every guard of \<open>prepare\<close> satisfies.\<close>

definition admissible :: "TaskBudget \<Rightarrow> string \<Rightarrow> nat \<Rightarrow> NodeAccount \<Rightarrow> VerificationReserve \<Rightarrow> BudgetScope list \<Rightarrow> bool" where
  "admissible t node now a p scopes \<longleftrightarrow>
     \<not> tb_breached t \<and> tb_last_time t \<le> now \<and> bm_get (tb_nodes t) node = Some a \<and>
     nd_recovered a \<le> nd_recovery_allowance a \<and> used a < na_max_attempts (nd_allowance a) \<and>
     protected_after t node = Ok p \<and> all_used t + 1 + vr_attempts p \<le> tl_max_attempts (tb_limits t) \<and>
     calls_admit t node (bm_entries (tb_call_limits t)) = Ok () \<and>
     now < tl_deadline_unix_ms (tb_limits t) \<and> now + na_wall_ms_per_attempt (nd_allowance a) + vr_wall_ms p \<le> tl_deadline_unix_ms (tb_limits t) \<and>
     now + na_wall_ms_per_attempt (nd_allowance a) + vr_wall_ms p \<le> u64_max \<and>
     na_tokens_per_attempt (nd_allowance a) + vr_tokens p \<le> u64_max \<and>
     na_tokens_per_attempt (nd_allowance a) + vr_tokens p \<le> (case remaining (tb_tokens t) Run of None \<Rightarrow> 0 | Some r \<Rightarrow> r) \<and>
     reservation_scopes t node = Ok scopes"

lemma used_le_u32:
  assumes "task_inv t" "bm_get (tb_nodes t) n = Some a"
  shows "used a \<le> u32_max" "nd_begun a - nd_recovered a + nd_prepared a \<le> u32_max"
  using task_invD(4) [OF assms] by (auto simp: node_ok_def allowance_typed_def used_def)

lemma prepare_guards_Ok:
  assumes inv: "task_inv t"
  shows "prepare_guards t node now = Ok (a, deadline, scopes) \<longleftrightarrow>
    (\<exists>p. admissible t node now a p scopes \<and> deadline = now + na_wall_ms_per_attempt (nd_allowance a))"
proof (cases "bm_get (tb_nodes t) node")
  case (Some k)
  note k = task_invD(4) [OF inv Some] used_le_u32 [OF inv Some]
  have own: "chargeable k = Ok (nd_begun k - nd_recovered k)" using k(1) by (simp add: node_ok_def)
  have sum: "tb_retired_attempts t + bm_sum (\<lambda>_. used) (tb_nodes t) = all_used t" "all_used t \<le> u32_max"
    using task_invD(7,8) [OF inv] by (simp_all add: all_used_def)
  show ?thesis
  proof
    assume "prepare_guards t node now = Ok (a, deadline, scopes)"
    then show "\<exists>p. admissible t node now a p scopes \<and> deadline = now + na_wall_ms_per_attempt (nd_allowance a)"
      using Some k sum
      by (auto simp: prepare_guards_def admissible_def and_then_eq_Ok own attempt_counts(4) [OF inv] Let_def
          used_def not_le not_less all_used_def split: if_splits bind_splits)
  next
    assume "\<exists>p. admissible t node now a p scopes \<and> deadline = now + na_wall_ms_per_attempt (nd_allowance a)"
    then obtain p where p: "admissible t node now a p scopes" "deadline = now + na_wall_ms_per_attempt (nd_allowance a)"
      by blast
    then have ka: "k = a" using Some by (simp add: admissible_def)
    note adm = p(1) [unfolded admissible_def]
    have fits: "checked_add u64_max (tb_retired_attempts t) (bm_sum (\<lambda>_. used) (tb_nodes t)) = Some (all_used t)"
      "checked_add u64_max (all_used t) 1 = Some (all_used t + 1)"
      "checked_add u64_max (all_used t + 1) (vr_attempts p) = Some (all_used t + 1 + vr_attempts p)"
      using adm task_invD(8) [OF inv] sum by (simp_all add: uint_bounds)
    have own': "checked_add u32_max (nd_begun a - nd_recovered a) (nd_prepared a) = Some (used a)"
      using k(3) ka by (simp add: used_def)
    have adds: "add now (na_wall_ms_per_attempt (nd_allowance a)) = Ok (now + na_wall_ms_per_attempt (nd_allowance a))"
      "add (now + na_wall_ms_per_attempt (nd_allowance a)) (vr_wall_ms p) = Ok (now + na_wall_ms_per_attempt (nd_allowance a) + vr_wall_ms p)"
      "add (na_tokens_per_attempt (nd_allowance a)) (vr_tokens p) = Ok (na_tokens_per_attempt (nd_allowance a) + vr_tokens p)"
      using adm by simp_all
    show "prepare_guards t node now = Ok (a, deadline, scopes)"
      unfolding prepare_guards_def p(2) using adm
      by (simp add: attempt_counts(4) [OF inv] Let_def fits own [unfolded ka] own' adds not_le not_less del: One_nat_def)
  qed
qed (auto simp: prepare_guards_def admissible_def)


text \<open>None of the walks over the nodes panics while no node has recovered more than it began.\<close>

definition counted :: "(string \<times> NodeAccount) list \<Rightarrow> bool" where
  "counted xs \<longleftrightarrow> (\<forall>(n, a) \<in> set xs. nd_recovered a \<le> nd_begun a)"

lemma counted_nodes: "task_inv t \<Longrightarrow> counted (bm_entries (tb_nodes t))"
  using node_recovered_le by (fastforce simp: counted_def simp flip: bm_get_iff_entry)

lemma counted_Cons [simp]: "counted ((n, a) # xs) \<longleftrightarrow> nd_recovered a \<le> nd_begun a \<and> counted xs"
  by (simp add: counted_def)

lemma ok_or_cases: "(x = None \<Longrightarrow> P (Err e)) \<Longrightarrow> (\<And>v. x = Some v \<Longrightarrow> P (Ok v)) \<Longrightarrow> P (ok_or e x)"
  by (cases x) simp_all

lemma protected_walk_no_panic: "counted xs \<Longrightarrow> protected_walk candidate xs consumed rem \<noteq> Panic"
  by (induction candidate xs consumed rem rule: protected_walk.induct) (auto simp: and_then_eq_Panic Let_def)

lemma scope_owed_no_panic: "counted xs \<Longrightarrow> scope_owed_from scope candidate xs required \<noteq> Panic"
  by (induction scope candidate xs required rule: scope_owed_from.induct) (auto simp: and_then_eq_Panic Let_def)

lemma call_occupied_no_panic: "counted xs \<Longrightarrow> call_occupied node scope xs occupied \<noteq> Panic"
  by (induction node scope xs occupied rule: call_occupied.induct) (auto simp: and_then_eq_Panic)

lemma calls_admit_no_panic: "counted (bm_entries (tb_nodes t)) \<Longrightarrow> calls_admit t node xs \<noteq> Panic"
  by (induction t node xs rule: calls_admit.induct) (auto simp: and_then_eq_Panic call_occupied_no_panic)

lemma reservation_scopes_no_panic:
  "counted (bm_entries (tb_nodes t)) \<Longrightarrow> bm_get (tb_nodes t) node = Some a \<Longrightarrow> reservation_scopes_from t node xs \<noteq> Panic"
  by (induction t node xs rule: reservation_scopes_from.induct)
    (auto simp: and_then_eq_Panic scope_verification_after_def scope_owed_no_panic)

lemma protected_after_no_panic: "task_inv t \<Longrightarrow> protected_after t candidate \<noteq> Panic"
  using protected_walk_no_panic [OF counted_nodes]
  by (auto simp: protected_after_def Let_def and_then_eq_Panic split: if_splits prod.splits)

lemma protected_walk_bound:
  "protected_walk candidate xs consumed rem = Ok (c, r) \<Longrightarrow> vr_attempts consumed \<le> u32_max \<Longrightarrow> vr_attempts c \<le> u32_max"
  by (induction candidate xs consumed rem rule: protected_walk.induct)
    (auto simp: and_then_eq_Ok Let_def split: bind_splits)

lemma protected_le:
  assumes "protected_after t candidate = Ok p"
  shows "vr_attempts p \<le> vr_attempts (tl_verification (tb_limits t))"
    "vr_tokens p \<le> vr_tokens (tl_verification (tb_limits t))"
    "vr_wall_ms p \<le> vr_wall_ms (tl_verification (tb_limits t))"
  using assms by (auto simp: protected_after_def Let_def and_then_eq_Ok saturating_sub_def split: if_splits prod.splits)


lemma prepare_guards_no_panic:
  assumes inv: "task_inv t"
  shows "prepare_guards t node now \<noteq> Panic"
proof (cases "bm_get (tb_nodes t) node")
  case (Some a)
  note cn = counted_nodes [OF inv]
  have "vr_attempts p \<le> u32_max" if "protected_after t node = Ok p" for p
    using protected_le(1) [OF that] task_invD(8,9) [OF inv] by (simp add: limits_valid_def)
  moreover have "tb_retired_attempts t + bm_sum (\<lambda>_. used) (tb_nodes t) \<le> u32_max"
    using task_invD(7,8) [OF inv] by (simp add: all_used_def)
  ultimately have "tb_retired_attempts t + bm_sum (\<lambda>_. used) (tb_nodes t) + 1 + vr_attempts p \<le> u64_max"
    if "protected_after t node = Ok p" for p
    using that by (fastforce simp: uint_bounds)
  then show ?thesis
    using Some used_le_u32(2) [OF inv Some] node_recovered_le [OF inv Some] protected_after_no_panic [OF inv]
      calls_admit_no_panic [OF cn] reservation_scopes_no_panic [OF cn Some]
    by (auto simp: prepare_guards_def and_then_eq_Panic Let_def expect_def attempt_counts(4) [OF inv]
        reservation_scopes_def split: option.splits bind_splits)
qed (simp add: prepare_guards_def)

lemma scopes_have_Run: "reservation_scopes_from t node xs = Ok scopes \<Longrightarrow> Run \<in> set scopes"
  by (induction t node xs arbitrary: scopes rule: reservation_scopes_from.induct)
    (auto simp: and_then_eq_Ok split: if_splits)

definition new_held :: "TaskBudget \<Rightarrow> string \<Rightarrow> nat \<Rightarrow> nat \<Rightarrow> BudgetScope list \<Rightarrow> Held" where
  "new_held t node deadline amount scopes =
     (let r = granted (tb_tokens t) scopes amount in
      \<lparr>h_public = \<lparr>tr_id = res_id r, tr_node = node, tr_tokens = amount, tr_deadline_unix_ms = deadline\<rparr>,
       h_tokens = r, h_begun = False, h_settled = None, h_released = False, h_recovered = False\<rparr>)"

definition after_prepare :: "TaskBudget \<Rightarrow> string \<Rightarrow> nat \<Rightarrow> NodeAccount \<Rightarrow> BudgetScope list \<Rightarrow> TaskBudget" where
  "after_prepare t node now a scopes =
     t\<lparr>tb_tokens := after_reserve (tb_tokens t) scopes (na_tokens_per_attempt (nd_allowance a)),
        tb_nodes := bm_insert node (a\<lparr>nd_prepared := nd_prepared a + 1\<rparr>) (tb_nodes t),
        tb_reservations := bm_insert (reservation_id (led_next (tb_tokens t) + 1))
          (new_held t node (now + na_wall_ms_per_attempt (nd_allowance a)) (na_tokens_per_attempt (nd_allowance a)) scopes)
          (tb_reservations t),
        tb_last_time := now\<rparr>"

lemma prepare_cases:
  assumes inv: "task_inv t"
  obtains (prepared) a p scopes where "admissible t node now a p scopes"
      "reserve_admitted (tb_tokens t) scopes (na_tokens_per_attempt (nd_allowance a))"
      "prepare t node now = (Ok (h_public (new_held t node (now + na_wall_ms_per_attempt (nd_allowance a))
         (na_tokens_per_attempt (nd_allowance a)) scopes)), after_prepare t node now a scopes)"
  | (refused) e where "prepare t node now = (Err e, t)"
      "\<And>a p scopes. admissible t node now a p scopes \<Longrightarrow>
         \<not> reserve_admitted (tb_tokens t) scopes (na_tokens_per_attempt (nd_allowance a))"
proof (cases "prepare_guards t node now")
  case (Ok g)
  obtain a deadline scopes where g: "g = (a, deadline, scopes)" by (cases g)
  obtain p where p: "admissible t node now a p scopes" "deadline = now + na_wall_ms_per_attempt (nd_allowance a)"
    using Ok g prepare_guards_Ok [OF inv] by auto
  have only: "a' = a \<and> scopes' = scopes" if "admissible t node now a' p' scopes'" for a' p' scopes'
    using that p by (auto simp: admissible_def)
  show ?thesis
  proof (cases "reserve_admitted (tb_tokens t) scopes (na_tokens_per_attempt (nd_allowance a))")
    case True
    have "bm_get (tb_nodes t) node = Some a" "used a < na_max_attempts (nd_allowance a)"
      using p(1) by (simp_all add: admissible_def)
    then have "nd_prepared a + 1 \<le> u32_max"
      using task_invD(4) [OF inv] by (fastforce simp: node_ok_def allowance_typed_def used_def)
    then show ?thesis
      using Ok g p reserve_when_admitted [OF True]
      by (intro prepared [OF p(1) True])
        (simp add: prepare_def checked_add_def Let_def after_prepare_def new_held_def granted_def)
  next
    case False
    then obtain e where "reserve (tb_tokens t) scopes (na_tokens_per_attempt (nd_allowance a)) = (Err e, tb_tokens t)"
      using reserve_when_refused by blast
    then show ?thesis
      using Ok g False only by (intro refused [of "LedgerRefused e"]) (auto simp: prepare_def)
  qed
next
  case (Err e)
  then show ?thesis
    using prepare_guards_Ok [OF inv, of node now] by (intro refused) (force simp: prepare_def)+
next
  case Panic
  then show ?thesis using prepare_guards_no_panic [OF inv] by simp
qed

lemma after_reserve_frame [simp]:
  "led_next (after_reserve l scopes amount) = led_next l + 1"
  "led_outstanding (after_reserve l scopes amount) = bm_insert (reservation_id (led_next l + 1))
     \<lparr>out_reservation = granted l scopes amount, out_observed = 0\<rparr> (led_outstanding l)"
  by (simp_all add: after_reserve_def)

lemma fresh_held:
  assumes "task_inv t"
  shows "bm_get (tb_reservations t) (reservation_id (led_next (tb_tokens t) + 1)) = None"
proof (rule ccontr)
  assume "\<not> ?thesis"
  then obtain h where "bm_get (tb_reservations t) (reservation_id (led_next (tb_tokens t) + 1)) = Some h" by blast
  then show False using task_invD(2) [OF assms] by (force simp: held_ok_def)
qed

lemma after_prepare_inv:
  assumes inv: "task_inv t" and adm: "admissible t node now a p scopes"
    and res: "reserve_admitted (tb_tokens t) scopes (na_tokens_per_attempt (nd_allowance a))"
  shows "task_inv (after_prepare t node now a scopes)" (is "task_inv ?t")
proof -
  let ?rid = "reservation_id (led_next (tb_tokens t) + 1)"
  let ?h = "new_held t node (now + na_wall_ms_per_attempt (nd_allowance a)) (na_tokens_per_attempt (nd_allowance a)) scopes"
  let ?l = "after_reserve (tb_tokens t) scopes (na_tokens_per_attempt (nd_allowance a))"
  let ?a = "a\<lparr>nd_prepared := nd_prepared a + 1\<rparr>"
  have a: "bm_get (tb_nodes t) node = Some a" "used a < na_max_attempts (nd_allowance a)" "Run \<in> set scopes"
    "all_used t + 1 \<le> tl_max_attempts (tb_limits t)"
    using adm scopes_have_Run by (auto simp: admissible_def reservation_scopes_def)
  have u: "used ?a = used a + 1" by (simp add: used_def)
  have f: "tb_tokens ?t = ?l" "tb_nodes ?t = bm_insert node ?a (tb_nodes t)"
    "tb_reservations ?t = bm_insert ?rid ?h (tb_reservations t)" "tb_limits ?t = tb_limits t"
    "tb_retired_attempts ?t = tb_retired_attempts t" "tb_retired_recovered ?t = tb_retired_recovered t"
    by (simp_all add: after_prepare_def)
  have hf: "pending ?h" "\<not> h_begun ?h" "tr_node (h_public ?h) = node" "h_tokens ?h = granted (tb_tokens t) scopes (na_tokens_per_attempt (nd_allowance a))"
    by (simp_all add: new_held_def Let_def pending_def)
  have fresh: "bm_get (tb_reservations t) ?rid = None" by (rule fresh_held [OF inv])
  have counts: "waiting ?t n = waiting t n + (if n = node then 1 else 0)" "begun_total ?t = begun_total t"
    "reservations_made ?t = reservations_made t + 1" for n
    using hf by (simp_all add: waiting_def begun_total_def reservations_made_def f bm_sum_insert_fresh [OF fresh]
        del: One_nat_def)
  have li: "ledger_inv ?l" using reserve_inv [OF task_invD(1) [OF inv]] reserve_when_admitted [OF res]
    by (metis snd_conv)
  have held: "held_ok ?t r k" if k: "bm_get (tb_reservations ?t) r = Some k" for r k
  proof (cases "r = ?rid")
    case True
    then have "k = ?h" using k by (simp add: f)
    then show ?thesis
      using True hf a(3) by (auto simp: held_ok_def f pending_def new_held_def Let_def granted_def)
  next
    case False
    then have "bm_get (tb_reservations t) r = Some k" using k by (simp add: f)
    from task_invD(2) [OF inv this] False show ?thesis
      unfolding held_ok_def f by (auto intro: le_SucI)
  qed
  have node: "node_ok ?t n k" if "bm_get (tb_nodes ?t) n = Some k" for n k
    using that task_invD(4) [OF inv, of n] task_invD(4) [OF inv a(1)] a(2) u
    by (auto simp: node_ok_def counts f split: if_splits)
  have sums: "bm_sum (\<lambda>_. nd_begun) (tb_nodes ?t) = bm_sum (\<lambda>_. nd_begun) (tb_nodes t)"
    "bm_sum (\<lambda>_. used) (tb_nodes ?t) = bm_sum (\<lambda>_. used) (tb_nodes t) + 1"
    using bm_sum_insert_upd [OF a(1), of "\<lambda>_. nd_begun" ?a] bm_sum_insert_upd [OF a(1), of "\<lambda>_. used" ?a] u
    by (simp_all add: f)
  have "dom (bm_get (led_outstanding ?l)) \<subseteq> dom (bm_get (tb_reservations ?t))"
    using inv by (auto simp: f task_inv_def split: if_splits)
  then show ?thesis
    using held node li sums a(4) task_invD(5-) [OF inv] unfolding task_inv_def
    by (simp add: counts all_used_def f(1,4-6))
qed

lemma prepare_inv:
  assumes inv: "task_inv t"
  shows "task_inv (snd (prepare t node now)) \<and> fst (prepare t node now) \<noteq> Panic"
  using inv by (cases rule: prepare_cases [of t node now]) (use inv after_prepare_inv in auto)


subsection \<open>Opening and replacing graphs\<close>

lemma task_inv_cong:
  "tb_limits t' = tb_limits t \<Longrightarrow> tb_tokens t' = tb_tokens t \<Longrightarrow> tb_nodes t' = tb_nodes t \<Longrightarrow>
   tb_reservations t' = tb_reservations t \<Longrightarrow> tb_retired_attempts t' = tb_retired_attempts t \<Longrightarrow>
   tb_retired_recovered t' = tb_retired_recovered t \<Longrightarrow> task_inv t \<Longrightarrow> task_inv t'"
  by (simp add: task_inv_def held_ok_def node_ok_def waiting_def begun_total_def reservations_made_def all_used_def)

lemma no_pending_waiting:
  assumes "\<not> list_ex pending (bm_values (tb_reservations t))"
  shows "waiting t n = 0"
  unfolding waiting_def
  by (rule bm_sum_0) (use assms in \<open>auto simp: list_ex_iff set_bm_values ran_def\<close>)

definition fresh_nodes :: "(string, NodeAccount) bmap \<Rightarrow> bool" where
  "fresh_nodes m \<longleftrightarrow> (\<forall>n a. bm_get m n = Some a \<longrightarrow> allowance_typed (nd_allowance a) \<and> a = new_node (nd_allowance a))"

lemma new_node_simps [simp]:
  "nd_allowance (new_node al) = al" "nd_begun (new_node al) = 0" "nd_prepared (new_node al) = 0"
  "nd_recovered (new_node al) = 0" "used (new_node al) = 0"
  "nd_recovery_allowance (new_node al) = DEFAULT_RECOVERY_ATTEMPTS"
  by (simp_all add: new_node_def used_def)

lemma fresh_nodesD:
  assumes "fresh_nodes m" "bm_get m n = Some a"
  shows "nd_begun a = 0" "nd_prepared a = 0" "nd_recovered a = 0" "used a = 0" "allowance_typed (nd_allowance a)"
  using assms unfolding fresh_nodes_def by (metis new_node_simps)+

lemma fresh_sums:
  assumes "fresh_nodes m"
  shows "bm_sum (\<lambda>_. nd_begun) m = 0" "bm_sum (\<lambda>_. used) m = 0"
  by (rule bm_sum_0, simp add: fresh_nodesD [OF assms])+

lemma replace_graph_inv:
  assumes inv: "task_inv t" and idle: "\<not> list_ex pending (bm_values (tb_reservations t))" and m: "fresh_nodes m"
  shows "task_inv (t\<lparr>tb_retired_attempts := tb_retired_attempts t + chargeable_sum t,
    tb_retired_recovered := tb_retired_recovered t + bm_sum (\<lambda>_. nd_recovered) (tb_nodes t), tb_nodes := m\<rparr>)"
    (is "task_inv ?t")
proof -
  have idle': "\<not> pending h" if "bm_get (tb_reservations t) rid = Some h" for rid h
    using that idle by (auto simp: list_ex_iff set_bm_values ran_def)
  have "held_ok ?t rid h" if "bm_get (tb_reservations t) rid = Some h" for rid h
    using task_invD(2) [OF inv that] idle' [OF that] by (simp add: held_ok_def)
  moreover have "node_ok ?t n a" if "bm_get m n = Some a" for n a
    using fresh_nodesD [OF m that] no_pending_waiting [of ?t n] idle by (simp add: node_ok_def)
  moreover have "begun_total ?t = begun_total t" "reservations_made ?t = reservations_made t"
    by (simp_all add: begun_total_def reservations_made_def)
  moreover have "all_used ?t \<le> all_used t"
    using fresh_sums [OF m] used_split [of t] by (simp add: all_used_def)
  ultimately show ?thesis
    using inv split_begun [OF inv] fresh_sums [OF m] by (simp add: task_inv_def)
qed

lemma add_node_inv:
  assumes inv: "task_inv t" and "bm_get (tb_nodes t) n = None" "allowance_typed al"
  shows "task_inv (t\<lparr>tb_nodes := bm_insert n (new_node al) (tb_nodes t)\<rparr>)" (is "task_inv ?t")
proof -
  have "waiting t n = 0"
    unfolding waiting_def
    by (rule bm_sum_0) (use assms(2) in \<open>auto simp: held_ok_def dest: task_invD(2) [OF inv]\<close>)
  moreover have counts: "waiting ?t k = waiting t k" "begun_total ?t = begun_total t" "reservations_made ?t = reservations_made t" for k
    by (simp_all add: waiting_def begun_total_def reservations_made_def)
  ultimately have "node_ok ?t k a" if "bm_get (tb_nodes ?t) k = Some a" for k a
    using that task_invD(4) [OF inv, of k] assms(3) by (auto simp: node_ok_def split: if_splits)
  moreover have "held_ok ?t rid h" if "bm_get (tb_reservations t) rid = Some h" for rid h
    using task_invD(2) [OF inv that] by (auto simp: held_ok_def)
  ultimately show ?thesis
    using inv by (simp add: task_inv_def counts all_used_def bm_sum_insert_fresh [OF assms(2)])
qed

lemma bm_extend_simps [simp]:
  "bm_extend m [] = m" "bm_extend m ((k, v) # xs) = bm_extend (bm_insert k v m) xs"
  by (simp_all add: bm_extend_def)

lemma add_nodes_inv:
  assumes "task_inv t" "distinct (map fst xs)" "\<forall>(n, al) \<in> set xs. bm_get (tb_nodes t) n = None \<and> allowance_typed al"
  shows "task_inv (t\<lparr>tb_nodes := bm_extend (tb_nodes t) (map (\<lambda>(n, al). (n, new_node al)) xs)\<rparr>)"
  using assms
proof (induction xs arbitrary: t)
  case (Cons x xs)
  obtain n al where x: "x = (n, al)" by (cases x)
  let ?t = "t\<lparr>tb_nodes := bm_insert n (new_node al) (tb_nodes t)\<rparr>"
  have "task_inv ?t" using add_node_inv [OF Cons.prems(1)] Cons.prems(3) by (simp add: x)
  moreover have "\<forall>(k, al) \<in> set xs. bm_get (tb_nodes ?t) k = None \<and> allowance_typed al"
    using Cons.prems(2,3) by (force simp: x)
  ultimately show ?case using Cons.IH [of ?t] Cons.prems(2) by (simp add: x)
qed simp

lemma children_distinct:
  "\<not> children_malformed t parent unique children \<Longrightarrow>
   distinct children \<and> set children \<inter> set unique = {} \<and> (\<forall>c \<in> set children. bm_get (tb_nodes t) c = None)"
  by (induction t parent unique children rule: children_malformed.induct) auto

definition templates_typed :: "(string, OwnedNodeAllowance) bmap \<Rightarrow> bool" where
  "templates_typed m \<longleftrightarrow> (\<forall>n a. bm_get m n = Some a \<longrightarrow> allowance_typed (own_allowance a))"

definition allowances_typed :: "(string, NodeAllowance) bmap \<Rightarrow> bool" where
  "allowances_typed m \<longleftrightarrow> (\<forall>n a. bm_get m n = Some a \<longrightarrow> allowance_typed a)"

lemma register_owned_inv:
  assumes inv: "task_inv t" and ty: "templates_typed (tb_owned_templates t)"
  shows "task_inv (snd (register_owned_children t parent children))"
proof (cases "bm_get (tb_owned_templates t) parent")
  case (Some template)
  have "task_inv (t\<lparr>tb_nodes := bm_extend (tb_nodes t) (map (\<lambda>child. (child, new_node (own_allowance template))) children)\<rparr>)"
    if "\<not> children_malformed t parent [] children"
    using add_nodes_inv [OF inv, of "map (\<lambda>child. (child, own_allowance template)) children"]
      children_distinct [OF that] Some ty by (simp add: comp_def templates_typed_def)
  then show ?thesis
    using Some inv by (auto simp: register_owned_children_def split: option.splits)
qed (simp add: register_owned_children_def inv)

lemma register_experimental_inv:
  assumes inv: "task_inv t" and ty: "allowances_typed children"
  shows "task_inv (snd (register_experimental_children t parent children k))"
proof -
  have "task_inv (t\<lparr>tb_nodes := bm_extend (tb_nodes t) (map (\<lambda>(child, a). (child, new_node a)) (bm_entries children))\<rparr>)"
    if "\<not> list_ex (experimental_malformed t parent) (bm_entries children)"
    using that ty ascending_distinct [OF bm_entries_ascending [of children]]
    by (intro add_nodes_inv [OF inv])
      (auto simp: list_ex_iff experimental_malformed_def allowances_typed_def simp flip: bm_get_iff_entry)
  then show ?thesis
    using inv by (auto simp: register_experimental_children_def split: option.splits res.splits)
qed


lemma with_limit_frame [simp]:
  "led_next (with_limit l s lim) = led_next l" "led_outstanding (with_limit l s lim) = led_outstanding l"
  "led_overflowed (with_limit l s lim) = led_overflowed l"
  "scope_limit (with_limit l s lim) s' = (if s' = s then Some lim else scope_limit l s')"
  by (simp_all add: with_limit_def scope_limit_def account_or_default_def)

lemma install_scopes_ledger:
  "install_scopes_from t xs l = Ok l' \<Longrightarrow>
   led_next l' = led_next l \<and> led_outstanding l' = led_outstanding l \<and> led_overflowed l' = led_overflowed l \<and>
   (\<forall>s. committed l' s = committed l s \<and> reserved l' s = reserved l s) \<and> (ledger_inv l \<longrightarrow> ledger_inv l') \<and>
   (\<forall>s. s \<notin> FanOut ` fst ` set xs \<longrightarrow> scope_limit l' s = scope_limit l s)"
proof (induction t xs l rule: install_scopes_from.induct)
  case (2 t name scope rest l)
  then obtain required where req: "scope_verification_after t scope None = Ok required"
    "install_scopes_from t rest (with_limit l (FanOut name) (ts_tokens scope)) = Ok l'"
    by (auto simp: and_then_eq_Ok split: if_splits)
  have "led_next l' = led_next (with_limit l (FanOut name) (ts_tokens scope)) \<and>
      led_outstanding l' = led_outstanding (with_limit l (FanOut name) (ts_tokens scope)) \<and>
      led_overflowed l' = led_overflowed (with_limit l (FanOut name) (ts_tokens scope)) \<and>
      (\<forall>s. committed l' s = committed (with_limit l (FanOut name) (ts_tokens scope)) s \<and>
         reserved l' s = reserved (with_limit l (FanOut name) (ts_tokens scope)) s) \<and>
      (ledger_inv (with_limit l (FanOut name) (ts_tokens scope)) \<longrightarrow> ledger_inv l') \<and>
      (\<forall>s. s \<notin> FanOut ` fst ` set rest \<longrightarrow> scope_limit l' s = scope_limit (with_limit l (FanOut name) (ts_tokens scope)) s)"
    using 2 req by (auto simp: and_then_eq_Ok split: if_splits)
  then show ?case
    using with_limit_inv by auto
qed simp

lemma install_token_scopes_inv:
  assumes "task_inv t" "install_token_scopes t scopes = Ok t'"
  shows "task_inv t'"
proof -
  obtain l where l: "install_scopes_from t (bm_entries scopes) (tb_tokens t) = Ok l"
    "t' = t\<lparr>tb_tokens := l, tb_captured_token_scopes := bm_extend (tb_captured_token_scopes t) (bm_entries scopes),
       tb_token_scopes := scopes\<rparr>"
    using assms(2) by (auto simp: install_token_scopes_def and_then_eq_Ok)
  have "task_inv (t\<lparr>tb_tokens := l\<rparr>)"
    using install_scopes_ledger [OF l(1)] task_invD(1) [OF assms(1)] by (intro tokens_inv [OF assms(1)]) auto
  then show ?thesis by (simp add: l(2))
qed

lemma invalidate_inv:
  assumes inv: "task_inv t"
  shows "task_inv (snd (invalidate_plan t now)) \<and> fst (invalidate_plan t now) \<noteq> Panic"
  using replace_graph_inv [OF inv, of bm_empty] inv
  by (auto simp: invalidate_plan_def attempt_counts(3) [OF inv] fresh_nodes_def)

lemma new_nodes:
  assumes "task_budget_new limits allowances = Ok t"
  shows "tb_nodes t = bm_map (\<lambda>_. new_node) allowances" "tb_limits t = limits" "limits_valid limits"
    "tb_reservations t = bm_empty" "tb_tokens t = with_limit default_ledger Run (tl_tokens limits)"
    "tb_retired_attempts t = 0" "tb_retired_recovered t = 0" "\<not> tb_breached t"
  using assms by (auto simp: task_budget_new_def and_then_eq_Ok split: if_splits)

lemma fresh_nodes_map: "allowances_typed allowances \<Longrightarrow> fresh_nodes (bm_map (\<lambda>_. new_node) allowances)"
  by (auto simp: fresh_nodes_def allowances_typed_def)

lemma new_inv:
  assumes "task_budget_new limits allowances = Ok t" "allowances_typed allowances" "tl_max_attempts limits \<le> u32_max"
  shows "task_inv t"
proof -
  note n = new_nodes [OF assms(1)]
  note fr = fresh_nodes_map [OF assms(2)]
  have "node_ok t k a" if "bm_get (tb_nodes t) k = Some a" for k a
    using fresh_nodesD [OF fr, of k a] that by (simp add: node_ok_def waiting_def n)
  then show ?thesis
    using fresh_sums [OF fr] with_limit_inv [OF ledger_inv_default] assms(3) n
    by (simp add: task_inv_def begun_total_def reservations_made_def all_used_def with_limit_def default_ledger_def)
qed

lemma setters_keep:
  "with_call_limits t limits = Ok t' \<Longrightarrow> task_inv t \<Longrightarrow> task_inv t' \<and> tb_nodes t' = tb_nodes t"
  "with_owned_templates t templates = Ok t' \<Longrightarrow> task_inv t \<Longrightarrow> task_inv t' \<and> tb_nodes t' = tb_nodes t"
  "with_deferred_verification t = Ok t' \<Longrightarrow> task_inv t \<Longrightarrow> task_inv t' \<and> tb_nodes t' = tb_nodes t"
  by (auto simp: with_call_limits_def with_owned_templates_def with_deferred_verification_def and_then_eq_Ok
      split: if_splits option.splits)

lemma replacement_graph_inv:
  assumes inv: "task_inv t" and ty: "allowances_typed allowances"
    and ok: "replacement_graph t allowances calls scopes templates now preparation = Ok t'"
  shows "task_inv t'"
proof -
  obtain rem n0 n1 n2 n where st: "task_budget_new rem allowances = Ok n0" "with_call_limits n0 calls = Ok n1"
    "with_owned_templates n1 templates = Ok n2" "(if preparation then with_deferred_verification n2 else Ok n2) = Ok n"
    and idle: "\<not> list_ex pending (bm_values (tb_reservations t))"
    and fin: "install_token_scopes (t\<lparr>tb_retired_attempts := tb_retired_attempts t + chargeable_sum t,
      tb_retired_recovered := tb_retired_recovered t + bm_sum (\<lambda>_. nd_recovered) (tb_nodes t),
      tb_nodes := tb_nodes n, tb_call_limits := tb_call_limits n, tb_deferred_verification := preparation,
      tb_owned_templates := tb_owned_templates n, tb_owned_children := bm_empty, tb_last_time := now\<rparr>) scopes = Ok t'"
    using ok that
    by (cases preparation) (auto simp: replacement_graph_def and_then_eq_Ok attempt_counts(3) [OF inv] split: if_splits)
  have "tb_nodes n = bm_map (\<lambda>_. new_node) allowances"
    using st new_nodes(1) [OF st(1)]
    by (auto simp: with_call_limits_def with_owned_templates_def with_deferred_verification_def and_then_eq_Ok
        split: if_splits option.splits)
  then have "fresh_nodes (tb_nodes n)" using fresh_nodes_map [OF ty] by simp
  from install_token_scopes_inv [OF _ fin] replace_graph_inv [OF inv idle this] show ?thesis by simp
qed


subsection \<open>Reachable budgets\<close>

text \<open>
  A budget is opened over typed allowances, then any operation is called with any arguments whose
  integers fit their types. \<open>recover\<close> is restricted to an Attempt its node's account still counts;
  the property on stale recoveries shows what happens without that restriction.
\<close>

definition opened :: "TaskBudget \<Rightarrow> bool" where
  "opened t \<longleftrightarrow> (\<exists>limits allowances. task_budget_new limits allowances = Ok t \<and> allowances_typed allowances \<and>
     tl_max_attempts limits \<le> u32_max)"

definition counts_attempt :: "TaskBudget \<Rightarrow> string \<Rightarrow> bool" where
  "counts_attempt t rid \<longleftrightarrow> (\<forall>h a. bm_get (tb_reservations t) rid = Some h \<and> \<not> h_recovered h \<and>
     bm_get (tb_nodes t) (tr_node (h_public h)) = Some a \<longrightarrow> nd_recovered a < nd_begun a)"

inductive task_step :: "TaskBudget \<Rightarrow> TaskBudget \<Rightarrow> bool" where
  step_prepare: "task_step t (snd (prepare t node now))"
| step_begin: "task_step t (snd (begin_attempt t rid now))"
| step_release: "task_step t (snd (release_attempt t rid))"
| step_settle: "task_step t (snd (settle_exact t rid actual))"
| step_observe: "task_step t (snd (observe_attempt t rid actual))"
| step_recover: "counts_attempt t rid \<Longrightarrow> task_step t (snd (recover t rid))"
| step_retry: "task_step t (snd (allow_retry t node))"
| step_recovery: "task_step t (snd (install_recovery_allowances t allowances))"
| step_owned: "templates_typed (tb_owned_templates t) \<Longrightarrow> task_step t (snd (register_owned_children t parent children))"
| step_experimental: "allowances_typed children \<Longrightarrow> task_step t (snd (register_experimental_children t parent children k))"
| step_invalidate: "task_step t (snd (invalidate_plan t now))"
| step_install: "allowances_typed allowances \<Longrightarrow>
    task_step t (snd (install_graph_with_owned_templates t allowances calls scopes templates now preparation))"
| step_calls: "with_call_limits t calls = Ok t' \<Longrightarrow> task_step t t'"
| step_scopes: "with_token_scopes t scopes = Ok t' \<Longrightarrow> task_step t t'"
| step_templates: "with_owned_templates t templates = Ok t' \<Longrightarrow> task_step t t'"
| step_deferred: "with_deferred_verification t = Ok t' \<Longrightarrow> task_step t t'"

inductive_cases task_stepE: "task_step t t'"

lemma install_graph_inv:
  assumes "task_inv t" "allowances_typed allowances"
  shows "task_inv (snd (install_graph_with_owned_templates t allowances calls scopes templates now preparation))"
  using assms replacement_graph_inv [OF assms]
  by (auto simp: install_graph_with_owned_templates_def split: res.splits)

interpretation budget: invariant opened task_step task_inv
proof unfold_locales
  fix t
  assume "opened t"
  then show "task_inv t" by (auto simp: opened_def intro: new_inv)
next
  fix t t'
  assume "task_inv t" and "task_step t t'"
  then show "task_inv t'"
    by (auto elim!: task_stepE simp: prepare_inv begin_attempt_inv release_attempt_inv settle_exact_inv
        allow_retry_inv install_recovery_allowances_def install_recovery_inv invalidate_inv counts_attempt_def
        with_token_scopes_def setters_keep split: if_splits
        intro: observe_attempt_inv recover_inv register_owned_inv register_experimental_inv install_graph_inv
          install_token_scopes_inv)
qed

end
