(* ===== verification/TaskProtection.thy ===== *)
theory TaskProtection
  imports TaskAccounting
begin

text \<open>
  The capacity owed to verification. The guards of \<open>prepare\<close> are brought into closed form (what
  is taken, what is still owed, what a call and a token scope have to keep), and from them follows
  an invariant of running budgets: tokens, Attempts, call limits and token scopes always leave room
  for every verification Attempt still owed, so \<open>prepare\<close> admits it.
\<close>

subsection \<open>What verification is still owed\<close>

abbreviation ver :: "NodeAccount \<Rightarrow> nat" where "ver a \<equiv> na_verification_attempts (nd_allowance a)"
abbreviation tok :: "NodeAccount \<Rightarrow> nat" where "tok a \<equiv> na_tokens_per_attempt (nd_allowance a)"
abbreviation wall :: "NodeAccount \<Rightarrow> nat" where "wall a \<equiv> na_wall_ms_per_attempt (nd_allowance a)"

definition owed :: "NodeAccount \<Rightarrow> nat" where
  "owed a = ver a - used a"

definition taken :: "NodeAccount \<Rightarrow> nat" where
  "taken a = min (used a) (ver a)"

definition taken_reserve :: "(string, NodeAccount) bmap \<Rightarrow> VerificationReserve" where
  "taken_reserve m = \<lparr>vr_tokens = bm_sum (\<lambda>_ a. tok a * taken a) m, vr_attempts = bm_sum (\<lambda>_. taken) m,
     vr_wall_ms = bm_sum (\<lambda>_ a. wall a * taken a) m\<rparr>"

definition still_owed :: "(string, NodeAccount) bmap \<Rightarrow> nat" where
  "still_owed m = bm_sum (\<lambda>_. owed) m"

definition less_reserve :: "VerificationReserve \<Rightarrow> VerificationReserve \<Rightarrow> VerificationReserve" where
  "less_reserve v c = \<lparr>vr_tokens = vr_tokens v - vr_tokens c, vr_attempts = vr_attempts v - vr_attempts c,
     vr_wall_ms = vr_wall_ms v - vr_wall_ms c\<rparr>"

definition reserve_left :: "TaskLimits \<Rightarrow> bool \<Rightarrow> (string, NodeAccount) bmap \<Rightarrow> VerificationReserve" where
  "reserve_left limits deferred m =
     (if deferred then tl_verification limits
      else if still_owed m = 0 then no_reserve
      else less_reserve (tl_verification limits) (taken_reserve m))"

text \<open>The declared verifier allocation fits the reserve: checked when a graph is opened.\<close>

definition covered :: "TaskLimits \<Rightarrow> (string, NodeAccount) bmap \<Rightarrow> bool" where
  "covered limits m \<longleftrightarrow>
     bm_sum (\<lambda>_ a. tok a * ver a) m \<le> vr_tokens (tl_verification limits) \<and>
     bm_sum (\<lambda>_. ver) m \<le> vr_attempts (tl_verification limits) \<and>
     bm_sum (\<lambda>_ a. wall a * ver a) m \<le> vr_wall_ms (tl_verification limits)"

definition bump :: "string \<Rightarrow> string \<Rightarrow> NodeAccount \<Rightarrow> NodeAccount" where
  "bump candidate n a = (if n = candidate then a\<lparr>nd_prepared := nd_prepared a + 1\<rparr> else a)"

lemma bump_simps [simp]:
  "nd_allowance (bump c n a) = nd_allowance a" "nd_begun (bump c n a) = nd_begun a"
  "nd_recovered (bump c n a) = nd_recovered a" "used (bump c n a) = used a + (if n = c then 1 else 0)"
  by (simp_all add: bump_def used_def)

lemma bump_insert:
  "bm_get m n = Some a \<Longrightarrow> bm_map (bump n) m = bm_insert n (a\<lparr>nd_prepared := nd_prepared a + 1\<rparr>) m"
  by (rule bm_eqI) (auto simp: bump_def map_option_case split: option.splits)

lemma taken_plus_owed: "taken a + owed a = ver a"
  by (simp add: taken_def owed_def)

text \<open>The walk of \<open>protected_after\<close> computes these sums.\<close>

lemma protected_walk_eq:
  assumes "counted xs" "\<forall>(n, a) \<in> set xs. used (bump candidate n a) \<le> u32_max"
    and "vr_attempts c + r + (\<Sum>(n, a)\<leftarrow>xs. ver a) \<le> u32_max"
    and "vr_tokens c + (\<Sum>(n, a)\<leftarrow>xs. tok a * ver a) \<le> u64_max" "vr_wall_ms c + (\<Sum>(n, a)\<leftarrow>xs. wall a * ver a) \<le> u64_max"
  shows "protected_walk candidate xs c r = Ok (\<lparr>vr_tokens = vr_tokens c + (\<Sum>(n, a)\<leftarrow>xs. tok a * taken (bump candidate n a)),
      vr_attempts = vr_attempts c + (\<Sum>(n, a)\<leftarrow>xs. taken (bump candidate n a)),
      vr_wall_ms = vr_wall_ms c + (\<Sum>(n, a)\<leftarrow>xs. wall a * taken (bump candidate n a))\<rparr>,
      r + (\<Sum>(n, a)\<leftarrow>xs. owed (bump candidate n a)))"
  using assms
proof (induction xs arbitrary: c r)
  case (Cons x xs)
  obtain n a where x: "x = (n, a)" by (cases x)
  let ?b = "bump candidate n a"
  let ?c = "\<lparr>vr_tokens = vr_tokens c + tok a * taken ?b, vr_attempts = vr_attempts c + taken ?b, vr_wall_ms = vr_wall_ms c + wall a * taken ?b\<rparr>"
  have le: "taken ?b + owed ?b = ver a" using taken_plus_owed [of ?b] by simp
  then have mono: "taken ?b \<le> ver a" "tok a * taken ?b \<le> tok a * ver a" "wall a * taken ?b \<le> wall a * ver a"
    by (auto intro: mult_le_mono2)
  have "vr_attempts c + r + ver a + (\<Sum>(n, a)\<leftarrow>xs. ver a) \<le> u32_max"
    "vr_tokens c + tok a * ver a + (\<Sum>(n, a)\<leftarrow>xs. tok a * ver a) \<le> u64_max"
    "vr_wall_ms c + wall a * ver a + (\<Sum>(n, a)\<leftarrow>xs. wall a * ver a) \<le> u64_max"
    using Cons.prems(3-5) by (simp_all add: x add.assoc)
  with mono le have fits: "vr_attempts c + taken ?b + (r + owed ?b) + (\<Sum>(n, a)\<leftarrow>xs. ver a) \<le> u32_max"
    "vr_tokens c + tok a * taken ?b + (\<Sum>(n, a)\<leftarrow>xs. tok a * ver a) \<le> u64_max"
    "vr_wall_ms c + wall a * taken ?b + (\<Sum>(n, a)\<leftarrow>xs. wall a * ver a) \<le> u64_max"
    by linarith+
  then have adds: "vr_attempts c + taken ?b \<le> u32_max" "r + owed ?b \<le> u32_max" "tok a * taken ?b \<le> u64_max"
    "wall a * taken ?b \<le> u64_max" "vr_tokens c + tok a * taken ?b \<le> u64_max" "vr_wall_ms c + wall a * taken ?b \<le> u64_max"
    by linarith+
  have "chargeable a = (Ok (nd_begun a - nd_recovered a) :: (TaskError, nat) res)"
    using Cons.prems(1) by (simp add: x)
  moreover have "used ?b \<le> u32_max" "used ?b = used a + (if n = candidate then 1 else 0)"
    using Cons.prems(2) by (simp_all add: x)
  then have "Option.bind (checked_add u32_max (nd_begun a - nd_recovered a) (nd_prepared a))
      (\<lambda>n'. checked_add u32_max n' (if n = candidate then 1 else 0)) = Some (used ?b)"
    by (auto simp: used_def checked_add_def)
  moreover have "min (used ?b) (ver a) = taken ?b" "ver a - taken ?b = owed ?b"
    using le by (simp_all add: taken_def)
  moreover have "checked_add u32_max (vr_attempts c) (taken ?b) = Some (vr_attempts c + taken ?b)"
    "checked_add u32_max r (owed ?b) = Some (r + owed ?b)"
    "checked_mul u64_max (tok a) (taken ?b) = Some (tok a * taken ?b)" "checked_mul u64_max (wall a) (taken ?b) = Some (wall a * taken ?b)"
    "add (vr_tokens c) (tok a * taken ?b) = Ok (vr_tokens c + tok a * taken ?b)"
    "add (vr_wall_ms c) (wall a * taken ?b) = Ok (vr_wall_ms c + wall a * taken ?b)"
    using adds by simp_all
  ultimately have step: "protected_walk candidate (x # xs) c r = protected_walk candidate xs ?c (r + owed ?b)"
    by (simp only: x protected_walk.simps and_then.simps ok_or_simps Let_def)
  show ?case
    unfolding step
    by (subst Cons.IH [of ?c "r + owed ?b"]) (use Cons.prems(1,2) fits in \<open>simp_all add: x add.assoc\<close>)
qed simp

lemma sum_entries: "(\<Sum>(n, a)\<leftarrow>bm_entries m. f n a) = bm_sum f m"
  by (simp add: bm_sum_def)

lemma coveredD:
  assumes "covered limits m"
  shows "bm_sum (\<lambda>_ a. tok a * ver a) m \<le> vr_tokens (tl_verification limits)"
    "bm_sum (\<lambda>_. ver) m \<le> vr_attempts (tl_verification limits)"
    "bm_sum (\<lambda>_ a. wall a * ver a) m \<le> vr_wall_ms (tl_verification limits)"
  using assms by (simp_all add: covered_def)

lemma limits_bounds:
  assumes "limits_valid limits" "tl_max_attempts limits \<le> u32_max"
  shows "vr_tokens (tl_verification limits) \<le> u64_max" "vr_attempts (tl_verification limits) \<le> u32_max"
    "vr_wall_ms (tl_verification limits) \<le> u64_max" "tl_tokens limits \<le> u64_max" "tl_deadline_unix_ms limits \<le> u64_max"
  using assms by (auto simp: limits_valid_def safe_number_def SAFE_INTEGER_MAX_def uint_bounds)

lemma protected_after_eq:
  assumes inv: "task_inv t" and cov: "covered (tb_limits t) (tb_nodes t)"
    and room: "\<And>a. bm_get (tb_nodes t) candidate = Some a \<Longrightarrow> used a < na_max_attempts (nd_allowance a)"
  shows "protected_after t candidate
    = Ok (reserve_left (tb_limits t) (tb_deferred_verification t) (bm_map (bump candidate) (tb_nodes t)))"
proof -
  note lim = limits_bounds [OF task_invD(9,8) [OF inv]]
  have u: "\<forall>(n, a) \<in> set (bm_entries (tb_nodes t)). used (bump candidate n a) \<le> u32_max"
    using used_le_u32(1) [OF inv] room task_invD(4) [OF inv]
    by (fastforce simp: node_ok_def allowance_typed_def simp flip: bm_get_iff_entry)
  have "protected_walk candidate (bm_entries (tb_nodes t)) no_reserve 0
      = Ok (taken_reserve (bm_map (bump candidate) (tb_nodes t)), still_owed (bm_map (bump candidate) (tb_nodes t)))"
    using coveredD [OF cov] lim
    by (subst protected_walk_eq [OF counted_nodes [OF inv] u])
      (simp_all add: sum_entries taken_reserve_def still_owed_def bm_sum_map)
  then show ?thesis
    by (simp add: protected_after_def Let_def reserve_left_def less_reserve_def saturating_sub_def)
qed

lemma call_occupied_eq:
  assumes "counted xs" "occupied + (\<Sum>(n, a)\<leftarrow>xs. if within n scope then used a + owed (bump node n a) else 0) \<le> u64_max"
  shows "call_occupied node scope xs occupied
    = Ok (occupied + (\<Sum>(n, a)\<leftarrow>xs. if within n scope then used a + owed (bump node n a) else 0))"
  using assms
proof (induction xs arbitrary: occupied)
  case (Cons x xs)
  obtain n a where x: "x = (n, a)" by (cases x)
  have "saturating_sub (ver a) (used a + (if n = node then 1 else 0)) = owed (bump node n a)"
    by (simp add: owed_def saturating_sub_def)
  then show ?case
    using Cons.prems Cons.IH [of "occupied + used a + owed (bump node n a)"] Cons.IH [of occupied]
    by (auto simp: x add_def checked_add_def add.assoc)
qed simp

lemma scope_owed_eq:
  assumes "counted xs" "required + (\<Sum>(n, a)\<leftarrow>xs. if scope_contains scope n then tok a * owed (bump node n a) else 0) \<le> u64_max"
  shows "scope_owed_from scope (Some node) xs required
    = Ok (required + (\<Sum>(n, a)\<leftarrow>xs. if scope_contains scope n then tok a * owed (bump node n a) else 0))"
  using assms
proof (induction xs arbitrary: required)
  case (Cons x xs)
  obtain n a where x: "x = (n, a)" by (cases x)
  have "saturating_sub (ver a) (used a + (if node = n then 1 else 0)) = owed (bump node n a)"
    by (simp add: owed_def saturating_sub_def)
  then show ?case
    using Cons.prems Cons.IH [of "required + tok a * owed (bump node n a)"] Cons.IH [of required]
    by (auto simp: x add_def checked_add_def checked_mul_def Let_def add.assoc)
qed simp

lemma scope_owed_None_Ok:
  assumes "counted xs" "scope_owed_from scope None xs required = Ok r"
  shows "r = required + (\<Sum>(n, a)\<leftarrow>xs. if scope_contains scope n then tok a * owed a else 0)"
  using assms
proof (induction xs arbitrary: required)
  case (Cons x xs)
  obtain n a where x: "x = (n, a)" by (cases x)
  show ?case
    using Cons.prems Cons.IH
    by (fastforce simp: x and_then_eq_Ok Let_def saturating_sub_def owed_def add.assoc split: if_splits)
qed simp

subsection \<open>The protection invariant\<close>

definition call_use :: "(string, NodeAccount) bmap \<Rightarrow> string \<Rightarrow> nat" where
  "call_use m scope = bm_sum (\<lambda>n a. if within n scope then used a + owed a else 0) m"

definition scope_owed :: "(string, NodeAccount) bmap \<Rightarrow> TaskTokenScope \<Rightarrow> nat" where
  "scope_owed m scope = bm_sum (\<lambda>n a. if scope_contains scope n then tok a * owed a else 0) m"

definition calls_protected :: "TaskBudget \<Rightarrow> bool" where
  "calls_protected t \<longleftrightarrow> (\<forall>scope lim. bm_get (tb_call_limits t) scope = Some lim \<longrightarrow>
     lim \<le> u32_max \<and> call_use (tb_nodes t) scope \<le> lim)"

definition scopes_protected :: "TaskBudget \<Rightarrow> bool" where
  "scopes_protected t \<longleftrightarrow> (\<forall>name scope. bm_get (tb_token_scopes t) name = Some scope \<longrightarrow>
     scope_limit (tb_tokens t) (FanOut name) = Some (ts_tokens scope) \<and> ts_tokens scope \<le> u64_max \<and>
     scope_used (tb_tokens t) (FanOut name) + scope_owed (tb_nodes t) scope \<le> ts_tokens scope)"

definition run_protected :: "TaskBudget \<Rightarrow> bool" where
  "run_protected t \<longleftrightarrow> scope_limit (tb_tokens t) Run = Some (tl_tokens (tb_limits t)) \<and>
     (let r = reserve_left (tb_limits t) (tb_deferred_verification t) (tb_nodes t) in
      vr_tokens r \<le> tl_tokens (tb_limits t) - scope_used (tb_tokens t) Run \<and>
      (vr_tokens (tl_verification (tb_limits t)) = 0 \<or> scope_used (tb_tokens t) Run \<le> tl_tokens (tb_limits t)) \<and>
      all_used t + vr_attempts r \<le> tl_max_attempts (tb_limits t))"

text \<open>A pending reservation holds what its node's allowance says, in every scope of its node.\<close>

definition pending_priced :: "TaskBudget \<Rightarrow> bool" where
  "pending_priced t \<longleftrightarrow> (\<forall>rid h a. bm_get (tb_reservations t) rid = Some h \<and> pending h \<and>
     bm_get (tb_nodes t) (tr_node (h_public h)) = Some a \<longrightarrow>
     res_amount (h_tokens h) = tok a \<and>
     (\<forall>name scope. bm_get (tb_token_scopes t) name = Some scope \<and> scope_contains scope (tr_node (h_public h)) \<longrightarrow>
        FanOut name \<in> set (res_scopes (h_tokens h))) \<and>
     (\<not> h_begun h \<longrightarrow> observed_charge_exact (tb_tokens t) (h_tokens h) = 0))"

lemma remaining_eq:
  assumes "\<not> led_overflowed l" "scope_limit l s = Some lim" "lim \<le> u64_max"
  shows "(case remaining l s of None \<Rightarrow> 0 | Some r \<Rightarrow> r) = lim - scope_used l s"
proof -
  obtain acct where acct: "bm_get (led_accounts l) s = Some acct" "acct_limit acct = Some lim"
    using assms(2) by (auto simp: scope_limit_def account_or_default_def default_account_def split: option.splits)
  then have "scope_used l s = acct_committed acct + acct_reserved acct"
    by (simp add: scope_used_def committed_def reserved_def)
  then show ?thesis
    using assms(1,3) acct by (auto simp: remaining_def checked_add_def saturating_sub_def uint_bounds)
qed

lemma sum_upd_same: "bm_get m n = Some a \<Longrightarrow> f n a' = f n a \<Longrightarrow> bm_sum f (bm_insert n a' m) = bm_sum f m"
  using bm_sum_insert_upd [of m n a f a'] by simp

text \<open>Two accounts that verification sees alike.\<close>

definition alike :: "NodeAccount \<Rightarrow> NodeAccount \<Rightarrow> bool" where
  "alike a a' \<longleftrightarrow> ver a' = ver a \<and> tok a' = tok a \<and> wall a' = wall a \<and> used a' = used a"

lemma alikeD:
  assumes "alike a a'"
  shows "owed a' = owed a" "taken a' = taken a" "ver a' = ver a" "tok a' = tok a" "wall a' = wall a" "used a' = used a"
  using assms by (simp_all add: alike_def owed_def taken_def)

lemma alike_views:
  assumes "bm_get m n = Some a" "alike a a'"
  shows "covered limits (bm_insert n a' m) = covered limits m"
    "reserve_left limits d (bm_insert n a' m) = reserve_left limits d m"
    "call_use (bm_insert n a' m) c = call_use m c" "scope_owed (bm_insert n a' m) sc = scope_owed m sc"
    "bm_sum (\<lambda>_. used) (bm_insert n a' m) = bm_sum (\<lambda>_. used) m"
  using alikeD [OF assms(2)]
  by (simp_all add: covered_def reserve_left_def still_owed_def taken_reserve_def call_use_def scope_owed_def
      sum_upd_same [OF assms(1)])

text \<open>
  A transition that changes no account verification can see and spends nothing beyond what was
  held keeps every guarantee.
\<close>

definition guarantees :: "TaskBudget \<Rightarrow> bool" where
  "guarantees t \<longleftrightarrow> \<not> led_overflowed (tb_tokens t) \<and> calls_protected t \<and> scopes_protected t \<and> run_protected t"

lemma guarantees_mono:
  assumes "guarantees t" "tb_limits t' = tb_limits t" "tb_deferred_verification t' = tb_deferred_verification t"
    "tb_call_limits t' = tb_call_limits t" "tb_token_scopes t' = tb_token_scopes t"
    "tb_retired_attempts t' = tb_retired_attempts t"
    and nodes: "tb_nodes t' = tb_nodes t \<or> (\<exists>n a a'. bm_get (tb_nodes t) n = Some a \<and> alike a a' \<and> tb_nodes t' = bm_insert n a' (tb_nodes t))"
    and l: "led_overflowed (tb_tokens t') = led_overflowed (tb_tokens t)" "\<And>s. scope_limit (tb_tokens t') s = scope_limit (tb_tokens t) s"
      "\<And>s. scope_used (tb_tokens t') s \<le> scope_used (tb_tokens t) s"
  shows "guarantees t'"
proof -
  have n: "reserve_left limits d (tb_nodes t') = reserve_left limits d (tb_nodes t)"
    "call_use (tb_nodes t') c = call_use (tb_nodes t) c" "scope_owed (tb_nodes t') sc = scope_owed (tb_nodes t) sc"
    "bm_sum (\<lambda>_. used) (tb_nodes t') = bm_sum (\<lambda>_. used) (tb_nodes t)" for limits d c sc
    using nodes alike_views by auto
  have "scopes_protected t'"
    unfolding scopes_protected_def assms(5) n l(2)
  proof (intro allI impI)
    fix name scope
    assume "bm_get (tb_token_scopes t) name = Some scope"
    then show "scope_limit (tb_tokens t) (FanOut name) = Some (ts_tokens scope) \<and> ts_tokens scope \<le> u64_max \<and>
        scope_used (tb_tokens t') (FanOut name) + scope_owed (tb_nodes t) scope \<le> ts_tokens scope"
      using assms(1) l(3) [of "FanOut name"] by (fastforce simp: guarantees_def scopes_protected_def)
  qed
  moreover have "calls_protected t'" using assms(1,4) by (simp add: guarantees_def calls_protected_def n)
  moreover have "run_protected t'"
    using assms(1-3,6) l(2) l(3) [of Run] unfolding guarantees_def run_protected_def Let_def all_used_def
    by (auto simp: n intro: le_trans diff_le_mono2)
  ultimately show ?thesis using assms(1) l(1) by (simp add: guarantees_def)
qed


definition templates_plain :: "TaskBudget \<Rightarrow> bool" where
  "templates_plain t \<longleftrightarrow> (\<forall>n w. bm_get (tb_owned_templates t) n = Some w \<longrightarrow>
     allowance_typed (own_allowance w) \<and> na_verification_attempts (own_allowance w) = 0)"

definition protect_inv :: "TaskBudget \<Rightarrow> bool" where
  "protect_inv t \<longleftrightarrow> task_inv t \<and> covered (tb_limits t) (tb_nodes t) \<and> templates_plain t \<and>
     (tb_breached t \<or> guarantees t \<and> pending_priced t)"

lemma protect_invD:
  assumes "protect_inv t"
  shows "task_inv t" "covered (tb_limits t) (tb_nodes t)" "templates_plain t"
    "\<not> tb_breached t \<Longrightarrow> guarantees t" "\<not> tb_breached t \<Longrightarrow> pending_priced t"
  using assms by (auto simp: protect_inv_def)

subsection \<open>Beginning, observing and settling\<close>

lemma after_observe_limit:
  assumes "ledger_inv l" "bm_get (led_outstanding l) rid = Some held"
  shows "scope_limit (after_observe l held actual) s = scope_limit l s"
    "led_overflowed (after_observe l held actual) = led_overflowed l"
  using ledger_invD(2) [OF assms] unfolding held_wf_def
  by (simp_all add: scope_limit_def after_observe_def Let_def account_update_accounts)

lemma after_drop_limit:
  assumes "ledger_inv l" "bm_get (led_outstanding l) rid = Some held"
  shows "scope_limit (after_drop l rid held) s = scope_limit l s"
    "led_overflowed (after_drop l rid held) = led_overflowed l"
  using ledger_invD(2) [OF assms] unfolding held_wf_def
  by (simp_all add: scope_limit_def after_drop_def account_update_accounts)

lemma after_charge_limit:
  assumes "ledger_inv l" "bm_get (led_outstanding l) rid = Some held" "observe_fits l held actual"
  shows "scope_limit (after_charge l held actual) s = scope_limit l s"
    "led_overflowed (after_charge l held actual) = led_overflowed l"
  unfolding after_charge_def
  using after_drop_limit [OF after_observe_inv [OF assms] held_after_observe] after_observe_limit [OF assms(1,2)]
  by simp_all

lemma pending_priced_frame:
  assumes "pending_priced t" "tb_token_scopes t' = tb_token_scopes t"
    and res: "\<And>r h'. bm_get (tb_reservations t') r = Some h' \<Longrightarrow> pending h' \<Longrightarrow>
      \<exists>h. bm_get (tb_reservations t) r = Some h \<and> pending h \<and> h_tokens h' = h_tokens h \<and> h_public h' = h_public h \<and>
        (\<not> h_begun h' \<longrightarrow> \<not> h_begun h \<and>
           observed_charge_exact (tb_tokens t') (h_tokens h) = observed_charge_exact (tb_tokens t) (h_tokens h))"
    and nodes: "\<And>n a'. bm_get (tb_nodes t') n = Some a' \<Longrightarrow> \<exists>a. bm_get (tb_nodes t) n = Some a \<and> tok a' = tok a"
  shows "pending_priced t'"
  unfolding pending_priced_def
proof (intro allI impI)
  fix r h' a'
  assume "bm_get (tb_reservations t') r = Some h' \<and> pending h' \<and> bm_get (tb_nodes t') (tr_node (h_public h')) = Some a'"
  then obtain h a where h: "bm_get (tb_reservations t) r = Some h" "pending h" "h_tokens h' = h_tokens h" "h_public h' = h_public h"
    "\<not> h_begun h' \<longrightarrow> \<not> h_begun h \<and>
       observed_charge_exact (tb_tokens t') (h_tokens h) = observed_charge_exact (tb_tokens t) (h_tokens h)"
    and a: "bm_get (tb_nodes t) (tr_node (h_public h')) = Some a" "tok a' = tok a"
    using res nodes by blast
  with assms(1) show "res_amount (h_tokens h') = tok a' \<and>
      (\<forall>name scope. bm_get (tb_token_scopes t') name = Some scope \<and> scope_contains scope (tr_node (h_public h')) \<longrightarrow>
         FanOut name \<in> set (res_scopes (h_tokens h'))) \<and>
      (\<not> h_begun h' \<longrightarrow> observed_charge_exact (tb_tokens t') (h_tokens h') = 0)"
    unfolding pending_priced_def assms(2) by auto
qed

lemma observed_frame:
  "bm_get (led_outstanding l') (res_id r) = bm_get (led_outstanding l) (res_id r) \<Longrightarrow>
   observed_charge_exact l' r = observed_charge_exact l r"
  by (simp add: observed_charge_exact_def)

lemma alike_refl [simp]: "alike a a"
  by (simp add: alike_def)

lemma begin_protect:
  assumes p: "protect_inv t"
  shows "protect_inv (snd (begin_attempt t rid now))"
proof (cases "begin_attempt t rid now = (Panic, t) \<or> snd (begin_attempt t rid now) = t \<or>
    snd (begin_attempt t rid now) = t\<lparr>tb_last_time := now\<rparr>")
  case True
  then show ?thesis
    using p by (auto simp: protect_inv_def guarantees_def calls_protected_def scopes_protected_def run_protected_def
        pending_priced_def templates_plain_def all_used_def)
next
  case False
  then obtain h a where h: "bm_get (tb_reservations t) rid = Some h" "begin_refusal t h now = None" "\<not> h_begun h"
    and a: "bm_get (tb_nodes t) (tr_node (h_public h)) = Some a" "0 < nd_prepared a"
    and t': "snd (begin_attempt t rid now) = t\<lparr>tb_nodes := bm_insert (tr_node (h_public h))
        (a\<lparr>nd_prepared := nd_prepared a - 1, nd_begun := nd_begun a + 1\<rparr>) (tb_nodes t),
      tb_reservations := bm_insert rid (h\<lparr>h_begun := True\<rparr>) (tb_reservations t), tb_last_time := now\<rparr>"
    (is "_ = ?t")
    by (auto simp: begin_attempt_def split: option.splits if_splits)
  have nb: "\<not> tb_breached t" and pend: "pending h" using h(2)
    by (auto simp: begin_refusal_def pending_def split: if_splits option.splits)
  have "nd_recovered a \<le> nd_begun a" by (rule node_recovered_le [OF protect_invD(1) [OF p] a(1)])
  then have al: "alike a (a\<lparr>nd_prepared := nd_prepared a - 1, nd_begun := nd_begun a + 1\<rparr>)"
    using a(2) by (auto simp: alike_def used_def)
  have "guarantees ?t"
    by (rule guarantees_mono [OF protect_invD(4) [OF p nb]]) (use a(1) al in auto)
  moreover have "pending_priced ?t"
    by (rule pending_priced_frame [OF protect_invD(5) [OF p nb]])
      (use h(1,3) a(1) pend in \<open>auto simp: pending_def split: if_splits\<close>)
  moreover have "task_inv ?t" using begin_attempt_inv [OF protect_invD(1) [OF p], of rid now] t' by simp
  moreover have "covered (tb_limits ?t) (tb_nodes ?t)"
    using alike_views(1) [OF a(1) al] protect_invD(2) [OF p] by simp
  ultimately show ?thesis
    unfolding t' using protect_invD(3) [OF p] by (simp add: protect_inv_def templates_plain_def)
qed


lemma breached_protect:
  "task_inv t' \<Longrightarrow> covered (tb_limits t') (tb_nodes t') \<Longrightarrow> templates_plain t' \<Longrightarrow> tb_breached t' \<Longrightarrow> protect_inv t'"
  by (simp add: protect_inv_def)

text \<open>One reservation's spend moves in the ledger and nothing a verifier sees changes.\<close>

lemma spend_protect:
  assumes p: "protect_inv t" and inv: "task_inv (t\<lparr>tb_tokens := l, tb_reservations := bm_insert rid h' (tb_reservations t), tb_breached := b\<rparr>)"
      (is "task_inv ?t")
    and h: "bm_get (tb_reservations t) rid = Some h" "h_public h' = h_public h" "h_tokens h' = h_tokens h" "h_begun h'" "pending h"
    and l: "led_overflowed l = led_overflowed (tb_tokens t)" "\<And>s. scope_limit l s = scope_limit (tb_tokens t) s"
      "\<And>r. r \<noteq> rid \<Longrightarrow> bm_get (led_outstanding l) r = bm_get (led_outstanding (tb_tokens t)) r"
    and b: "\<not> b \<Longrightarrow> \<not> tb_breached t \<and> (\<forall>s. scope_used l s \<le> scope_used (tb_tokens t) s)"
  shows "protect_inv ?t"
proof (cases b)
  case True
  then show ?thesis
    using inv protect_invD(2,3) [OF p] by (intro breached_protect) (simp_all add: templates_plain_def)
next
  case False
  note nb = b [OF False]
  have "guarantees ?t"
    by (rule guarantees_mono [OF protect_invD(4) [OF p]]) (use nb l in auto)
  moreover have "pending_priced ?t"
  proof (rule pending_priced_frame [OF protect_invD(5) [OF p]])
    fix r k'
    assume k': "bm_get (tb_reservations ?t) r = Some k'" "pending k'"
    show "\<exists>k. bm_get (tb_reservations t) r = Some k \<and> pending k \<and> h_tokens k' = h_tokens k \<and> h_public k' = h_public k \<and>
        (\<not> h_begun k' \<longrightarrow> \<not> h_begun k \<and>
           observed_charge_exact (tb_tokens ?t) (h_tokens k) = observed_charge_exact (tb_tokens t) (h_tokens k))"
    proof (cases "r = rid")
      case False
      then have k: "bm_get (tb_reservations t) r = Some k'" using k'(1) by simp
      then have "res_id (h_tokens k') = r" using task_invD(2) [OF protect_invD(1) [OF p]] by (auto simp: held_ok_def)
      then show ?thesis using k k'(2) l(3) [OF False] by (simp add: observed_charge_exact_def)
    qed (use k' h in auto)
  qed (use nb in auto)
  ultimately show ?thesis
    using inv protect_invD(2,3) [OF p] by (simp add: protect_inv_def templates_plain_def)
qed

lemma ledger_change_protect:
  assumes p: "protect_inv t" and inv: "task_inv (t\<lparr>tb_tokens := l, tb_breached := True\<rparr>)"
  shows "protect_inv (t\<lparr>tb_tokens := l, tb_breached := True\<rparr>)"
  using inv protect_invD(2,3) [OF p] by (intro breached_protect) (simp_all add: templates_plain_def)

lemma breach_protect: "protect_inv t \<Longrightarrow> protect_inv (t\<lparr>tb_breached := tb_breached t \<or> b\<rparr>)"
  by (auto simp: protect_inv_def guarantees_def calls_protected_def scopes_protected_def run_protected_def
      pending_priced_def templates_plain_def all_used_def)

lemma settle_protect:
  assumes p: "protect_inv t"
  shows "protect_inv (snd (settle_exact t rid actual))"
proof (cases "\<exists>h. bm_get (tb_reservations t) rid = Some h \<and> h_begun h \<and> \<not> h_released h \<and> h_settled h = None \<and>
    observed_charge_exact (tb_tokens t) (h_tokens h) \<le> actual")
  case True
  then obtain h where h: "bm_get (tb_reservations t) rid = Some h" "h_begun h" "\<not> h_released h" "h_settled h = None"
    "observed_charge_exact (tb_tokens t) (h_tokens h) \<le> actual" by blast
  then have pend: "pending h" by (simp add: pending_def)
  note inv = protect_invD(1) [OF p]
  note inv' = settle_exact_inv [OF inv, of rid actual, THEN conjunct1]
  note li = task_invD(1) [OF inv]
  obtain oh where oh: "bm_get (led_outstanding (tb_tokens t)) rid = Some oh" "out_reservation oh = h_tokens h"
    "res_id (h_tokens h) = rid"
    using pending_outstanding [OF inv h(1) pend] by metis
  show ?thesis
    using li
  proof (cases rule: charge_cases [of "tb_tokens t" "h_tokens h" actual])
    case (settled held)
    then have held: "held = oh" "observe_fits (tb_tokens t) oh actual" using oh by auto
    have step: "snd (settle_exact t rid actual) = t\<lparr>tb_tokens := after_charge (tb_tokens t) oh actual,
        tb_reservations := bm_insert rid (h\<lparr>h_settled := Some actual\<rparr>) (tb_reservations t),
        tb_breached := tb_breached t \<or> res_amount (h_tokens h) < actual\<rparr>"
      using h settled held by (simp add: settle_exact_def)
    show ?thesis
      unfolding step
    proof (rule spend_protect [OF p _ h(1)])
      fix r
      assume "r \<noteq> rid"
      then show "bm_get (led_outstanding (after_charge (tb_tokens t) oh actual)) r = bm_get (led_outstanding (tb_tokens t)) r"
        using oh by (simp add: after_charge_def)
    qed (use inv' step h pend oh after_charge_limit [OF li oh(1) held(2)] after_charge_used [OF li oh(1) held(2)] in auto)
  qed (use p h oh inv' ledger_change_protect in \<open>auto simp: settle_exact_def\<close>)
next
  case False
  then show ?thesis using p by (auto simp: settle_exact_def split: option.splits)
qed

lemma observe_protect:
  assumes p: "protect_inv t"
    and early: "\<And>h old. bm_get (tb_reservations t) rid = Some h \<Longrightarrow> h_settled h = Some old \<Longrightarrow> actual \<le> old"
  shows "protect_inv (snd (observe_attempt t rid actual))"
proof (cases "\<exists>h. bm_get (tb_reservations t) rid = Some h \<and> h_begun h \<and> \<not> h_released h \<and> h_settled h = None")
  case True
  then obtain h where h: "bm_get (tb_reservations t) rid = Some h" "h_begun h" "\<not> h_released h" "h_settled h = None" by blast
  then have pend: "pending h" by (simp add: pending_def)
  note inv = protect_invD(1) [OF p]
  note inv' = observe_attempt_inv(1) [OF inv, of rid actual]
  note li = task_invD(1) [OF inv]
  obtain oh where oh: "bm_get (led_outstanding (tb_tokens t)) rid = Some oh" "out_reservation oh = h_tokens h"
    "res_id (h_tokens h) = rid"
    using pending_outstanding [OF inv h(1) pend] by metis
  show ?thesis
    using li
  proof (cases rule: observe_cases [of "tb_tokens t" "h_tokens h" actual])
    case (charged held)
    then have held: "held = oh" using oh by auto
    have step: "snd (observe_attempt t rid actual) = t\<lparr>tb_tokens := after_observe (tb_tokens t) oh actual,
        tb_reservations := bm_insert rid h (tb_reservations t),
        tb_breached := tb_breached t \<or> res_amount (h_tokens h) < actual\<rparr>"
      using h charged held by (simp add: observe_attempt_def insert_same [OF h(1)])
    show ?thesis
      unfolding step
    proof (rule spend_protect [OF p _ h(1)])
      fix r
      assume "r \<noteq> rid"
      then show "bm_get (led_outstanding (after_observe (tb_tokens t) oh actual)) r = bm_get (led_outstanding (tb_tokens t)) r"
        using oh by simp
    qed (use inv' step h pend oh after_observe_limit [OF li oh(1)] after_observe_used [OF li oh(1), of actual] in auto)
  qed (use p h oh inv' ledger_change_protect in \<open>auto simp: observe_attempt_def\<close>)
next
  case False
  then show ?thesis
    using p early breach_protect [OF p] by (fastforce simp: observe_attempt_def Let_def split: option.splits)
qed


subsection \<open>Releasing\<close>

text \<open>
  Releasing an Attempt that never began gives its verification credit back. When every owed
  verification had started, this makes the reserve owed again in full, extra included; the
  guarantee is claimed for releases that do not reopen a finished verification.
\<close>

definition reopens :: "TaskBudget \<Rightarrow> string \<Rightarrow> bool" where
  "reopens t rid \<longleftrightarrow> (\<exists>h a. bm_get (tb_reservations t) rid = Some h \<and> pending h \<and> \<not> h_begun h \<and>
     bm_get (tb_nodes t) (tr_node (h_public h)) = Some a \<and> used a \<le> ver a \<and> still_owed (tb_nodes t) = 0)"

text \<open>Giving one prepared Attempt of an account back.\<close>

definition unprepare :: "NodeAccount \<Rightarrow> NodeAccount" where
  "unprepare a = a\<lparr>nd_prepared := nd_prepared a - 1\<rparr>"

lemma unprepare_counts:
  assumes "0 < nd_prepared a"
  shows "used (unprepare a) + 1 = used a" "nd_allowance (unprepare a) = nd_allowance a"
    "owed (unprepare a) = owed a + (if used a \<le> ver a then 1 else 0)"
    "taken (unprepare a) + (if used a \<le> ver a then 1 else 0) = taken a"
  using assms by (auto simp: unprepare_def used_def owed_def taken_def)

lemma unprepare_sums:
  assumes a: "bm_get m n = Some a" and pos: "0 < nd_prepared a"
  defines "d \<equiv> if used a \<le> ver a then 1 else 0"
  shows "vr_tokens (taken_reserve (bm_insert n (unprepare a) m)) + tok a * d = vr_tokens (taken_reserve m)"
    "vr_attempts (taken_reserve (bm_insert n (unprepare a) m)) + d = vr_attempts (taken_reserve m)"
    "still_owed (bm_insert n (unprepare a) m) = still_owed m + d"
    "bm_sum (\<lambda>_. used) (bm_insert n (unprepare a) m) + 1 = bm_sum (\<lambda>_. used) m"
    "covered limits (bm_insert n (unprepare a) m) = covered limits m"
    "call_use (bm_insert n (unprepare a) m) c \<le> call_use m c"
    "scope_owed (bm_insert n (unprepare a) m) sc \<le> scope_owed m sc + (if scope_contains sc n then tok a * d else 0)"
proof -
  note u = unprepare_counts [OF pos, folded d_def]
  have tk: "tok a * taken a = tok a * taken (unprepare a) + tok a * d"
    using u(4) by (simp flip: distrib_left)
  show "vr_tokens (taken_reserve (bm_insert n (unprepare a) m)) + tok a * d = vr_tokens (taken_reserve m)"
    using bm_sum_insert_upd [OF a, of "\<lambda>_ a. tok a * taken a" "unprepare a"] tk u(2) by (simp add: taken_reserve_def)
  show "vr_attempts (taken_reserve (bm_insert n (unprepare a) m)) + d = vr_attempts (taken_reserve m)"
    using bm_sum_insert_upd [OF a, of "\<lambda>_. taken" "unprepare a"] u(4) by (simp add: taken_reserve_def)
  show "still_owed (bm_insert n (unprepare a) m) = still_owed m + d"
    using bm_sum_insert_upd [OF a, of "\<lambda>_. owed" "unprepare a"] u(3) by (simp add: still_owed_def)
  show "bm_sum (\<lambda>_. used) (bm_insert n (unprepare a) m) + 1 = bm_sum (\<lambda>_. used) m"
    using bm_sum_insert_upd [OF a, of "\<lambda>_. used" "unprepare a"] u(1) by simp
  show "covered limits (bm_insert n (unprepare a) m) = covered limits m"
    by (simp add: covered_def sum_upd_same [OF a] u(2))
  have "d \<le> 1" by (simp add: d_def)
  then show "call_use (bm_insert n (unprepare a) m) c \<le> call_use m c"
    using bm_sum_insert_upd [OF a, of "\<lambda>n a. if within n c then used a + owed a else 0" "unprepare a"] u
    by (auto simp: call_use_def split: if_splits)
  show "scope_owed (bm_insert n (unprepare a) m) sc \<le> scope_owed m sc + (if scope_contains sc n then tok a * d else 0)"
    using bm_sum_insert_upd [OF a, of "\<lambda>n a. if scope_contains sc n then tok a * owed a else 0" "unprepare a"] u(2,3)
    by (auto simp: scope_owed_def distrib_left split: if_splits)
qed

lemma diff_shift: "(r::nat) \<le> L - U \<Longrightarrow> k \<le> U \<Longrightarrow> U \<le> L \<Longrightarrow> r + k \<le> L - (U - k)"
  by linarith

lemma release_reserve:
  assumes a: "bm_get m n = Some a" and pos: "0 < nd_prepared a" and cov: "covered limits m"
    and reopen: "used a \<le> ver a \<Longrightarrow> still_owed m \<noteq> 0"
    and run: "vr_tokens (reserve_left limits d m) \<le> tl_tokens limits - U"
      "vr_tokens (tl_verification limits) = 0 \<or> U \<le> tl_tokens limits" "tok a \<le> U"
  shows "vr_tokens (reserve_left limits d (bm_insert n (unprepare a) m)) \<le> tl_tokens limits - (U - tok a)"
    "vr_attempts (reserve_left limits d (bm_insert n (unprepare a) m)) \<le> vr_attempts (reserve_left limits d m) + 1"
proof -
  note s = unprepare_sums [OF a pos]
  have "vr_tokens (reserve_left limits d (bm_insert n (unprepare a) m)) \<le> tl_tokens limits - (U - tok a) \<and>
    vr_attempts (reserve_left limits d (bm_insert n (unprepare a) m)) \<le> vr_attempts (reserve_left limits d m) + 1"
  proof (cases "\<not> d \<and> used a \<le> ver a")
    case True
    have zero: "tok a = 0" if "vr_tokens (tl_verification limits) = 0"
    proof -
      have "tok a * ver a = 0"
        using bm_sum_ge [OF a, of "\<lambda>_ a. tok a * ver a"] coveredD(1) [OF cov] that by simp
      moreover have "0 < ver a" using True pos by (auto simp: used_def)
      ultimately show ?thesis by simp
    qed
    have ne: "still_owed m \<noteq> 0" using reopen True by blast
    have "vr_tokens (reserve_left limits d (bm_insert n (unprepare a) m)) \<le> vr_tokens (reserve_left limits d m) + tok a"
      using s(1,3) True ne by (auto simp: reserve_left_def less_reserve_def)
    moreover have "vr_tokens (reserve_left limits d m) + tok a \<le> tl_tokens limits - (U - tok a)"
      using run zero by (cases "vr_tokens (tl_verification limits) = 0") (simp_all add: diff_shift)
    ultimately show ?thesis
      using s(2,3) True ne by (auto simp: reserve_left_def less_reserve_def)
  next
    case False
    then have "reserve_left limits d (bm_insert n (unprepare a) m) = reserve_left limits d m"
      using s(1-3) unprepare_counts [OF pos]
      by (auto simp: reserve_left_def less_reserve_def taken_reserve_def sum_upd_same [OF a])
    then show ?thesis using run(1) by (auto intro: le_trans [OF _ diff_le_mono2])
  qed
  then show "vr_tokens (reserve_left limits d (bm_insert n (unprepare a) m)) \<le> tl_tokens limits - (U - tok a)"
    "vr_attempts (reserve_left limits d (bm_insert n (unprepare a) m)) \<le> vr_attempts (reserve_left limits d m) + 1"
    by simp_all
qed


lemma release_step:
  assumes inv: "task_inv t" and h: "bm_get (tb_reservations t) rid = Some h" "\<not> h_begun h" "pending h"
  obtains a oh where "bm_get (tb_nodes t) (tr_node (h_public h)) = Some a" "0 < nd_prepared a"
    "bm_get (led_outstanding (tb_tokens t)) rid = Some oh" "out_reservation oh = h_tokens h" "res_id (h_tokens h) = rid"
    "release_attempt t rid = (Ok (), t\<lparr>tb_tokens := after_drop (tb_tokens t) rid oh,
       tb_nodes := bm_insert (tr_node (h_public h)) (unprepare a) (tb_nodes t),
       tb_reservations := bm_insert rid (h\<lparr>h_released := True\<rparr>) (tb_reservations t)\<rparr>)"
proof -
  obtain oh a where oh: "bm_get (led_outstanding (tb_tokens t)) rid = Some oh" "out_reservation oh = h_tokens h"
    "res_id (h_tokens h) = rid" and a: "bm_get (tb_nodes t) (tr_node (h_public h)) = Some a"
    "node_ok t (tr_node (h_public h)) a"
    using pending_outstanding [OF inv h(1,3)] by metis
  have pos: "0 < nd_prepared a" using waiting_pos [OF h(1,3,2)] a(2) by (simp add: node_ok_def)
  have "release (tb_tokens t) (h_tokens h) = (Ok (), after_drop (tb_tokens t) rid oh)"
    using drop_held_ok [OF task_invD(1) [OF inv] oh(1)] oh by (simp add: release_def)
  then show ?thesis
    using h a(1) pos by (intro that [OF a(1) pos oh])
      (simp add: release_attempt_def checked_sub_def pending_def unprepare_def)
qed

lemma release_used:
  assumes "ledger_inv l" "bm_get (led_outstanding l) rid = Some oh" "out_observed oh = 0"
    "s \<in> set (res_scopes (out_reservation oh))"
  shows "scope_used (after_drop l rid oh) s = scope_used l s - res_amount (out_reservation oh)"
    "res_amount (out_reservation oh) \<le> scope_used l s"
  using open_le_reserved [OF assms(1,2), of s] assms(3,4)
  by (auto simp: scope_used_def after_drop_views [OF assms(1,2)] open_in_def)

lemma release_protect:
  assumes p: "protect_inv t" and no: "\<not> reopens t rid"
  shows "protect_inv (snd (release_attempt t rid))"
proof (cases "\<exists>h. bm_get (tb_reservations t) rid = Some h \<and> \<not> h_begun h \<and> pending h")
  case False
  then have "snd (release_attempt t rid) = t"
    by (auto simp: release_attempt_def pending_def split: option.splits)
  then show ?thesis using p by simp
next
  case True
  then obtain h where h: "bm_get (tb_reservations t) rid = Some h" "\<not> h_begun h" "pending h" by blast
  note inv = protect_invD(1) [OF p]
  note li = task_invD(1) [OF inv]
  obtain a oh where a: "bm_get (tb_nodes t) (tr_node (h_public h)) = Some a" "0 < nd_prepared a"
    and oh: "bm_get (led_outstanding (tb_tokens t)) rid = Some oh" "out_reservation oh = h_tokens h" "res_id (h_tokens h) = rid"
    and step: "release_attempt t rid = (Ok (), t\<lparr>tb_tokens := after_drop (tb_tokens t) rid oh,
       tb_nodes := bm_insert (tr_node (h_public h)) (unprepare a) (tb_nodes t),
       tb_reservations := bm_insert rid (h\<lparr>h_released := True\<rparr>) (tb_reservations t)\<rparr>)" (is "_ = (_, ?t)")
    using release_step [OF inv h] by metis
  note s = unprepare_sums [OF a]
  have inv': "task_inv ?t" using release_attempt_inv [OF inv, of rid] step by simp
  have cov: "covered (tb_limits ?t) (tb_nodes ?t)" using protect_invD(2) [OF p] s(5) by simp
  have tp: "templates_plain ?t" using protect_invD(3) [OF p] by (simp add: templates_plain_def)
  show ?thesis
  proof (cases "tb_breached t")
    case True
    then show ?thesis using breached_protect [OF inv' cov tp] step by simp
  next
    case nb: False
    note g = protect_invD(4) [OF p nb] and pr = protect_invD(5) [OF p nb]
    have priced: "res_amount (h_tokens h) = tok a" "out_observed oh = 0"
      "\<And>name sc. bm_get (tb_token_scopes t) name = Some sc \<Longrightarrow> scope_contains sc (tr_node (h_public h)) \<Longrightarrow>
         FanOut name \<in> set (res_scopes (h_tokens h))"
      using pr h a(1) oh unfolding pending_priced_def observed_charge_exact_def by fastforce+
    have run_scope: "Run \<in> set (res_scopes (h_tokens h))"
      using task_invD(2) [OF inv h(1)] by (simp add: held_ok_def)
    note u = release_used [OF li oh(1) priced(2), unfolded oh(2) priced(1)]
    have less: "scope_used (after_drop (tb_tokens t) rid oh) s \<le> scope_used (tb_tokens t) s" for s
      by (rule after_drop_used [OF li oh(1)])
    have "scopes_protected ?t"
      unfolding scopes_protected_def
    proof (intro allI impI)
      fix name sc
      assume "bm_get (tb_token_scopes ?t) name = Some sc"
      then have sc: "bm_get (tb_token_scopes t) name = Some sc"
        "scope_limit (tb_tokens t) (FanOut name) = Some (ts_tokens sc)" "ts_tokens sc \<le> u64_max"
        "scope_used (tb_tokens t) (FanOut name) + scope_owed (tb_nodes t) sc \<le> ts_tokens sc"
        using g by (auto simp: guarantees_def scopes_protected_def)
      have "scope_used (after_drop (tb_tokens t) rid oh) (FanOut name) +
          (if scope_contains sc (tr_node (h_public h)) then tok a else 0) \<le> scope_used (tb_tokens t) (FanOut name)"
        using u [OF priced(3) [OF sc(1)]] less [of "FanOut name"] by auto
      then show "scope_limit (tb_tokens ?t) (FanOut name) = Some (ts_tokens sc) \<and> ts_tokens sc \<le> u64_max \<and>
          scope_used (tb_tokens ?t) (FanOut name) + scope_owed (tb_nodes ?t) sc \<le> ts_tokens sc"
        using sc(2-4) s(7) [of sc] after_drop_limit [OF li oh(1)] by (auto split: if_splits)
    qed
    moreover have "calls_protected ?t"
      using g s(6) by (fastforce simp: guarantees_def calls_protected_def intro: le_trans)
    moreover have "run_protected ?t"
    proof -
      note r = release_reserve [OF a protect_invD(2) [OF p], of "tb_deferred_verification t" "scope_used (tb_tokens t) Run"]
      have "still_owed (tb_nodes t) \<noteq> 0" if "used a \<le> ver a" using no h a(1) that by (auto simp: reopens_def)
      with r g u [OF run_scope] s(4) after_drop_limit [OF li oh(1)] show ?thesis
        by (auto simp: guarantees_def run_protected_def Let_def all_used_def)
    qed
    moreover have "pending_priced ?t"
    proof (rule pending_priced_frame [OF pr])
      fix r k'
      assume "bm_get (tb_reservations ?t) r = Some k'" "pending k'"
      then have k: "r \<noteq> rid" "bm_get (tb_reservations t) r = Some k'" "pending k'"
        by (auto simp: pending_def split: if_splits)
      then have "res_id (h_tokens k') = r" using task_invD(2) [OF inv] by (auto simp: held_ok_def)
      then show "\<exists>k. bm_get (tb_reservations t) r = Some k \<and> pending k \<and> h_tokens k' = h_tokens k \<and> h_public k' = h_public k \<and>
          (\<not> h_begun k' \<longrightarrow> \<not> h_begun k \<and>
             observed_charge_exact (tb_tokens ?t) (h_tokens k) = observed_charge_exact (tb_tokens t) (h_tokens k))"
        using k by (simp add: observed_charge_exact_def)
    qed (use a in \<open>auto simp: unprepare_def split: if_splits\<close>)
    ultimately show ?thesis
      using inv' cov tp g after_drop_limit(2) [OF li oh(1)] step by (simp add: protect_inv_def guarantees_def)
  qed
qed


subsection \<open>Preparing\<close>

lemma call_occupied_Ok:
  assumes "counted xs" "call_occupied node scope xs occupied = Ok r"
  shows "r = occupied + (\<Sum>(n, a)\<leftarrow>xs. if within n scope then used a + owed (bump node n a) else 0)"
  using assms
proof (induction xs arbitrary: occupied)
  case (Cons x xs)
  obtain n a where x: "x = (n, a)" by (cases x)
  have "saturating_sub (ver a) (used a + (if n = node then 1 else 0)) = owed (bump node n a)"
    by (simp add: owed_def saturating_sub_def)
  then show ?case
    using Cons.prems Cons.IH by (fastforce simp: x and_then_eq_Ok add.assoc split: if_splits)
qed simp

lemma scope_owed_Some_Ok:
  assumes "counted xs" "scope_owed_from scope (Some node) xs required = Ok r"
  shows "r = required + (\<Sum>(n, a)\<leftarrow>xs. if scope_contains scope n then tok a * owed (bump node n a) else 0)"
  using assms
proof (induction xs arbitrary: required)
  case (Cons x xs)
  obtain n a where x: "x = (n, a)" by (cases x)
  have "saturating_sub (ver a) (used a + (if node = n then 1 else 0)) = owed (bump node n a)"
    by (simp add: owed_def saturating_sub_def)
  then show ?case
    using Cons.prems Cons.IH by (fastforce simp: x and_then_eq_Ok Let_def add.assoc split: if_splits)
qed simp

lemma bumped_call_use:
  assumes "bm_get m node = Some a" "within node scope"
  shows "1 + bm_sum (\<lambda>n a. if within n scope then used a + owed (bump node n a) else 0) m
    = call_use (bm_map (bump node) m) scope"
proof -
  have "bm_sum (\<lambda>n a. if within n scope then used (bump node n a) + owed (bump node n a) else 0) m
      = bm_sum (\<lambda>n a. if within n scope then used a + owed (bump node n a) else 0) m
        + bm_sum (\<lambda>n a. if n = node then 1 else 0) m"
    unfolding bm_sum_add [symmetric] by (rule bm_sum_cong) (use assms(2) in auto)
  moreover have "bm_sum (\<lambda>n a. if n = node then 1 else 0) m = (1::nat)"
  proof -
    have "bm_sum (\<lambda>n _. if n = node then 1 else 0) (bm_remove node m) = (0::nat)"
      by (rule bm_sum_0) (simp split: if_splits)
    then show ?thesis
      using bm_sum_remove_Some [OF assms(1), of "\<lambda>n _. if n = node then 1 else 0"] by simp
  qed
  ultimately show ?thesis by (simp add: call_use_def bm_sum_map)
qed

lemma calls_admit_Ok:
  assumes inv: "task_inv t" and a: "bm_get (tb_nodes t) node = Some a"
  shows "calls_admit t node xs = Ok () \<Longrightarrow> (scope, lim) \<in> set xs \<Longrightarrow> within node scope \<Longrightarrow>
    call_use (bm_map (bump node) (tb_nodes t)) scope \<le> lim"
proof (induction xs)
  case (Cons x xs)
  obtain sc lim' where x: "x = (sc, lim')" by (cases x)
  show ?case
  proof (cases "x = (scope, lim)")
    case True
    then obtain occ where occ: "call_occupied node scope (bm_entries (tb_nodes t)) 1 = Ok occ" "occ \<le> lim"
      using Cons.prems by (auto simp: and_then_eq_Ok split: if_splits)
    show ?thesis
      using call_occupied_Ok [OF counted_nodes [OF inv] occ(1)] occ(2) bumped_call_use [OF a Cons.prems(3)]
      by (simp add: sum_entries)
  next
    case False
    then show ?thesis using Cons x by (auto simp: and_then_eq_Ok split: if_splits)
  qed
qed simp

lemma reservation_scopes_Ok:
  assumes inv: "task_inv t" and a: "bm_get (tb_nodes t) node = Some a"
    and ok: "reservation_scopes_from t node xs = Ok scopes"
  shows "FanOut name \<in> set scopes \<longleftrightarrow> (\<exists>sc. (name, sc) \<in> set xs \<and> scope_contains sc node)"
    and "(name, sc) \<in> set xs \<Longrightarrow> scope_contains sc node \<Longrightarrow>
      tok a + scope_owed (bm_map (bump node) (tb_nodes t)) sc \<le> (case remaining (tb_tokens t) (FanOut name) of None \<Rightarrow> 0 | Some r \<Rightarrow> r)"
proof -
  have "(FanOut name \<in> set scopes \<longleftrightarrow> (\<exists>sc. (name, sc) \<in> set xs \<and> scope_contains sc node)) \<and>
    ((name, sc) \<in> set xs \<longrightarrow> scope_contains sc node \<longrightarrow>
      tok a + scope_owed (bm_map (bump node) (tb_nodes t)) sc \<le> (case remaining (tb_tokens t) (FanOut name) of None \<Rightarrow> 0 | Some r \<Rightarrow> r))"
    using ok
  proof (induction xs arbitrary: scopes)
    case (Cons x xs)
    obtain name' sc' where x: "x = (name', sc')" by (cases x)
    show ?case
    proof (cases "scope_contains sc' node")
      case True
      then obtain p ss where p: "scope_verification_after t sc' (Some node) = Ok p"
        "tok a + p \<le> (case remaining (tb_tokens t) (FanOut name') of None \<Rightarrow> 0 | Some r \<Rightarrow> r)"
        "reservation_scopes_from t node xs = Ok ss" "scopes = FanOut name' # ss"
        using Cons.prems a by (auto simp: x and_then_eq_Ok not_less split: if_splits)
      have "p = scope_owed (bm_map (bump node) (tb_nodes t)) sc'"
        using scope_owed_Some_Ok [OF counted_nodes [OF inv] p(1) [unfolded scope_verification_after_def]]
        by (simp add: sum_entries scope_owed_def bm_sum_map cong: if_cong)
      then show ?thesis using Cons.IH [OF p(3)] p(2,4) True by (auto simp: x)
    next
      case False
      then show ?thesis using Cons by (auto simp: x)
    qed
  qed simp
  then show "FanOut name \<in> set scopes \<longleftrightarrow> (\<exists>sc. (name, sc) \<in> set xs \<and> scope_contains sc node)"
    "(name, sc) \<in> set xs \<Longrightarrow> scope_contains sc node \<Longrightarrow>
      tok a + scope_owed (bm_map (bump node) (tb_nodes t)) sc \<le> (case remaining (tb_tokens t) (FanOut name) of None \<Rightarrow> 0 | Some r \<Rightarrow> r)"
    by blast+
qed

lemma after_reserve_limit:
  "scope_limit (after_reserve l scopes amount) s = scope_limit l s"
  "led_overflowed (after_reserve l scopes amount) = led_overflowed l"
  "scope_used (after_reserve l scopes amount) s = scope_used l s + (if s \<in> set scopes then amount else 0)"
  by (simp_all add: scope_limit_def after_reserve_def account_update_accounts scope_used_def
      committed_account reserved_account)

lemma sum_bump_other:
  assumes "\<And>n a. n = node \<Longrightarrow> f n a = 0"
  shows "bm_sum f (bm_map (bump node) m) = bm_sum f m"
  unfolding bm_sum_map by (rule bm_sum_cong) (use assms in \<open>auto simp: bump_def\<close>)

lemma bumped_covered: "covered limits (bm_map (bump node) m) = covered limits m"
  by (simp add: covered_def bm_sum_map)


lemma prepare_guarantees:
  assumes p: "protect_inv t" and nb: "\<not> tb_breached t" and adm: "admissible t node now a r scopes"
  shows "guarantees (after_prepare t node now a scopes)" (is "guarantees ?t")
proof -
  note inv = protect_invD(1) [OF p]
  note g = protect_invD(4) [OF p nb, unfolded guarantees_def]
  let ?m = "bm_map (bump node) (tb_nodes t)"
  have a: "bm_get (tb_nodes t) node = Some a" "used a < na_max_attempts (nd_allowance a)"
    and rs: "reservation_scopes_from t node (bm_entries (tb_token_scopes t)) = Ok scopes"
    and att: "all_used t + 1 + vr_attempts r \<le> tl_max_attempts (tb_limits t)"
    and calls: "calls_admit t node (bm_entries (tb_call_limits t)) = Ok ()"
    and need: "tok a + vr_tokens r \<le> (case remaining (tb_tokens t) Run of None \<Rightarrow> 0 | Some r \<Rightarrow> r)"
    and pr: "protected_after t node = Ok r"
    using adm by (simp_all add: admissible_def reservation_scopes_def)
  have r: "r = reserve_left (tb_limits t) (tb_deferred_verification t) ?m"
    using protected_after_eq [OF inv protect_invD(2) [OF p], of node] a pr by simp
  have nodes: "tb_nodes ?t = ?m" using a(1) by (simp add: after_prepare_def bump_insert)
  note f = after_reserve_limit [of "tb_tokens t" scopes "tok a"]
  have tokens: "tb_tokens ?t = after_reserve (tb_tokens t) scopes (tok a)" by (simp add: after_prepare_def)
  have same: "tb_limits ?t = tb_limits t" "tb_deferred_verification ?t = tb_deferred_verification t"
    "tb_token_scopes ?t = tb_token_scopes t" "tb_call_limits ?t = tb_call_limits t" "tb_retired_attempts ?t = tb_retired_attempts t"
    by (simp_all add: after_prepare_def)
  have "scopes_protected ?t"
    unfolding scopes_protected_def same nodes tokens
  proof (intro allI impI)
    fix name sc
    assume sc: "bm_get (tb_token_scopes t) name = Some sc"
    with g have lim: "scope_limit (tb_tokens t) (FanOut name) = Some (ts_tokens sc)" "ts_tokens sc \<le> u64_max"
      "scope_used (tb_tokens t) (FanOut name) + scope_owed (tb_nodes t) sc \<le> ts_tokens sc"
      by (auto simp: scopes_protected_def)
    note rsc = reservation_scopes_Ok [OF inv a(1) rs, of name]
    show "scope_limit (after_reserve (tb_tokens t) scopes (tok a)) (FanOut name) = Some (ts_tokens sc) \<and> ts_tokens sc \<le> u64_max \<and>
        scope_used (after_reserve (tb_tokens t) scopes (tok a)) (FanOut name) + scope_owed ?m sc \<le> ts_tokens sc"
    proof (cases "scope_contains sc node")
      case True
      have "tok a + scope_owed ?m sc \<le> ts_tokens sc - scope_used (tb_tokens t) (FanOut name)"
        using rsc(2) [OF _ True] sc remaining_eq [OF _ lim(1,2)] g by (simp add: bm_get_iff_entry)
      then show ?thesis using lim rsc(1) sc True by (auto simp: f bm_get_iff_entry)
    next
      case False
      have "FanOut name \<notin> set scopes"
        using rsc(1) sc False by (auto simp flip: bm_get_iff_entry)
      moreover have "scope_owed ?m sc = scope_owed (tb_nodes t) sc"
        unfolding scope_owed_def by (rule sum_bump_other) (use False in simp)
      ultimately show ?thesis using lim by (simp add: f)
    qed
  qed
  moreover have "calls_protected ?t"
    unfolding calls_protected_def same nodes
  proof (intro allI impI)
    fix c lim
    assume c: "bm_get (tb_call_limits t) c = Some lim"
    then have old: "lim \<le> u32_max" "call_use (tb_nodes t) c \<le> lim" using g by (auto simp: calls_protected_def)
    have "call_use ?m c \<le> lim"
    proof (cases "within node c")
      case True
      then show ?thesis using calls_admit_Ok [OF inv a(1) calls _ True] c by (simp add: bm_get_iff_entry)
    next
      case False
      then have "call_use ?m c = call_use (tb_nodes t) c" unfolding call_use_def by (intro sum_bump_other) simp
      then show ?thesis using old by simp
    qed
    with old show "lim \<le> u32_max \<and> call_use ?m c \<le> lim" by simp
  qed
  moreover have "run_protected ?t"
  proof -
    have lim: "scope_limit (tb_tokens t) Run = Some (tl_tokens (tb_limits t))"
      "vr_tokens (tl_verification (tb_limits t)) = 0 \<or> scope_used (tb_tokens t) Run \<le> tl_tokens (tb_limits t)"
      using g by (auto simp: run_protected_def Let_def)
    have "tok a + vr_tokens r \<le> tl_tokens (tb_limits t) - scope_used (tb_tokens t) Run"
      using need remaining_eq [OF _ lim(1)] g limits_bounds(4) [OF task_invD(9,8) [OF inv]] by simp
    moreover have "Run \<in> set scopes" by (rule scopes_have_Run [OF rs])
    moreover have "bm_sum (\<lambda>_. used) ?m = bm_sum (\<lambda>_. used) (tb_nodes t) + 1"
      using bm_sum_insert_upd [OF a(1), of "\<lambda>_. used" "a\<lparr>nd_prepared := nd_prepared a + 1\<rparr>"]
      by (simp add: bump_insert [OF a(1)] used_def)
    ultimately show ?thesis
      using lim att by (auto simp: run_protected_def Let_def same nodes tokens f all_used_def simp flip: r)
  qed
  ultimately show ?thesis using g by (simp add: guarantees_def tokens f)
qed


lemma prepare_priced:
  assumes p: "protect_inv t" and nb: "\<not> tb_breached t" and adm: "admissible t node now a r scopes"
  shows "pending_priced (after_prepare t node now a scopes)" (is "pending_priced ?t")
  unfolding pending_priced_def
proof (intro allI impI)
  note inv = protect_invD(1) [OF p]
  let ?rid = "reservation_id (led_next (tb_tokens t) + 1)"
  have a: "bm_get (tb_nodes t) node = Some a"
    and rs: "reservation_scopes_from t node (bm_entries (tb_token_scopes t)) = Ok scopes"
    using adm by (simp_all add: admissible_def reservation_scopes_def)
  fix rid h b
  assume "bm_get (tb_reservations ?t) rid = Some h \<and> pending h \<and> bm_get (tb_nodes ?t) (tr_node (h_public h)) = Some b"
  then have h: "bm_get (tb_reservations ?t) rid = Some h" "pending h" "bm_get (tb_nodes ?t) (tr_node (h_public h)) = Some b" by auto
  then have b: "\<exists>k. bm_get (tb_nodes t) (tr_node (h_public h)) = Some k \<and> tok k = tok b"
    using a by (auto simp: after_prepare_def split: if_splits)
  show "res_amount (h_tokens h) = tok b \<and>
      (\<forall>name scope. bm_get (tb_token_scopes ?t) name = Some scope \<and> scope_contains scope (tr_node (h_public h)) \<longrightarrow>
         FanOut name \<in> set (res_scopes (h_tokens h))) \<and>
      (\<not> h_begun h \<longrightarrow> observed_charge_exact (tb_tokens ?t) (h_tokens h) = 0)"
  proof (cases "rid = ?rid")
    case True
    then have new: "h = new_held t node (now + wall a) (tok a) scopes" using h(1) by (simp add: after_prepare_def)
    have "FanOut name \<in> set scopes" if "bm_get (tb_token_scopes t) name = Some sc" "scope_contains sc node" for name sc
      using reservation_scopes_Ok(1) [OF inv a rs, of name] that by (auto simp: bm_get_iff_entry)
    then show ?thesis
      using new h(3) by (auto simp: new_held_def Let_def granted_def after_prepare_def observed_charge_exact_def)
  next
    case False
    then have old: "bm_get (tb_reservations t) rid = Some h" using h(1) by (simp add: after_prepare_def)
    then have "res_id (h_tokens h) = rid" using task_invD(2) [OF inv] by (auto simp: held_ok_def)
    then have "observed_charge_exact (tb_tokens ?t) (h_tokens h) = observed_charge_exact (tb_tokens t) (h_tokens h)"
      using False by (simp add: after_prepare_def observed_charge_exact_def)
    moreover have "tb_token_scopes ?t = tb_token_scopes t" by (simp add: after_prepare_def)
    ultimately show ?thesis
      using protect_invD(5) [OF p nb] old h(2) b unfolding pending_priced_def by metis
  qed
qed

lemma prepare_protect:
  assumes p: "protect_inv t"
  shows "protect_inv (snd (prepare t node now))"
  using protect_invD(1) [OF p]
proof (cases rule: prepare_cases [of t node now])
  case (prepared a r scopes)
  have nb: "\<not> tb_breached t" and a: "bm_get (tb_nodes t) node = Some a"
    using prepared(1) by (simp_all add: admissible_def)
  have "covered (tb_limits t) (tb_nodes (after_prepare t node now a scopes))"
    using protect_invD(2) [OF p] bumped_covered [of "tb_limits t" node "tb_nodes t"]
    by (simp add: after_prepare_def bump_insert [OF a])
  then show ?thesis
    using prepare_guarantees [OF p nb prepared(1)] prepare_priced [OF p nb prepared(1)] prepared(3)
      after_prepare_inv [OF protect_invD(1) [OF p] prepared(1,2)] protect_invD(3) [OF p]
    by (simp add: protect_inv_def templates_plain_def after_prepare_def)
qed (use p in simp)

subsection \<open>Retries, recovery allowances and owned children\<close>

lemma alike_protect:
  assumes p: "protect_inv t" and a: "bm_get (tb_nodes t) n = Some a" "alike a a'"
    and inv: "task_inv (t\<lparr>tb_nodes := bm_insert n a' (tb_nodes t)\<rparr>)" (is "task_inv ?t")
  shows "protect_inv ?t"
proof (cases "tb_breached t")
  case True
  then show ?thesis
    using inv protect_invD(2,3) [OF p] alike_views(1) [OF a]
    by (intro breached_protect) (simp_all add: templates_plain_def)
next
  case False
  have "guarantees ?t" by (rule guarantees_mono [OF protect_invD(4) [OF p False]]) (use a in auto)
  moreover have "pending_priced ?t"
    by (rule pending_priced_frame [OF protect_invD(5) [OF p False]])
      (use a alikeD(4) [OF a(2)] in \<open>auto split: if_splits\<close>)
  ultimately show ?thesis
    using inv protect_invD(2,3) [OF p] alike_views(1) [OF a] by (simp add: protect_inv_def templates_plain_def)
qed

lemma retry_protect:
  assumes p: "protect_inv t"
  shows "protect_inv (snd (allow_retry t node))"
proof (cases "bm_get (tb_nodes t) node")
  case (Some a)
  note inv = allow_retry_inv [OF protect_invD(1) [OF p], of node]
  show ?thesis
  proof (cases "na_max_attempts (nd_allowance a) + 1 \<le> u32_max")
    case True
    then show ?thesis
      using inv Some alike_protect [OF p Some, of "a\<lparr>nd_allowance := (nd_allowance a)\<lparr>na_max_attempts := na_max_attempts (nd_allowance a) + 1\<rparr>\<rparr>"]
      by (simp add: allow_retry_def checked_add_def alike_def used_def)
  qed (use p Some in \<open>simp add: allow_retry_def checked_add_def\<close>)
qed (simp add: allow_retry_def p)

lemma recovery_protect:
  assumes "protect_inv t"
  shows "protect_inv (snd (install_recovery_from xs t))"
  using assms
proof (induction xs t rule: install_recovery_from.induct)
  case (2 node allowance rest t)
  show ?case
  proof (cases "bm_get (tb_nodes t) node")
    case (Some a)
    have "task_inv (t\<lparr>tb_nodes := bm_insert node (a\<lparr>nd_recovery_allowance := allowance\<rparr>) (tb_nodes t)\<rparr>)"
      using node_upd_inv [OF protect_invD(1) [OF 2(2)] Some] task_invD(4) [OF protect_invD(1) [OF 2(2)] Some]
      by (simp add: node_ok_def)
    then have "protect_inv (t\<lparr>tb_nodes := bm_insert node (a\<lparr>nd_recovery_allowance := allowance\<rparr>) (tb_nodes t)\<rparr>)"
      using alike_protect [OF 2(2) Some] by (simp add: alike_def used_def)
    then show ?thesis using 2 Some by simp
  qed (use 2(2) in simp)
qed simp

lemma add_plain_node:
  assumes p: "protect_inv t" and n: "bm_get (tb_nodes t) n = None" and al: "allowance_typed al" "na_verification_attempts al = 0"
  shows "protect_inv (t\<lparr>tb_nodes := bm_insert n (new_node al) (tb_nodes t)\<rparr>)" (is "protect_inv ?t")
proof -
  have z: "owed (new_node al) = 0" "taken (new_node al) = 0" using al(2) by (simp_all add: owed_def taken_def)
  have sums: "covered limits (bm_insert n (new_node al) (tb_nodes t)) = covered limits (tb_nodes t)"
    "reserve_left limits d (bm_insert n (new_node al) (tb_nodes t)) = reserve_left limits d (tb_nodes t)"
    "call_use (bm_insert n (new_node al) (tb_nodes t)) c = call_use (tb_nodes t) c"
    "scope_owed (bm_insert n (new_node al) (tb_nodes t)) sc = scope_owed (tb_nodes t) sc"
    "bm_sum (\<lambda>_. used) (bm_insert n (new_node al) (tb_nodes t)) = bm_sum (\<lambda>_. used) (tb_nodes t)" for limits d c sc
    using z al(2) by (simp_all add: covered_def reserve_left_def still_owed_def taken_reserve_def call_use_def
        scope_owed_def bm_sum_insert_fresh [OF n])
  have "guarantees ?t = guarantees t"
    by (simp add: guarantees_def calls_protected_def scopes_protected_def run_protected_def all_used_def sums)
  moreover have "pending_priced ?t" if "pending_priced t"
  proof -
    have "tr_node (h_public h) \<noteq> n" if "bm_get (tb_reservations t) rid = Some h" "pending h" for rid h
      using task_invD(2) [OF protect_invD(1) [OF p] that(1)] that(2) n by (auto simp: held_ok_def)
    with that show ?thesis by (simp add: pending_priced_def) blast
  qed
  moreover have "task_inv ?t" using add_node_inv [OF protect_invD(1) [OF p] n al(1)] .
  ultimately show ?thesis
    using p by (auto simp: protect_inv_def templates_plain_def sums)
qed

lemma add_plain_nodes:
  assumes "protect_inv t" "distinct ns" "\<forall>n \<in> set ns. bm_get (tb_nodes t) n = None"
    "allowance_typed al" "na_verification_attempts al = 0"
  shows "protect_inv (t\<lparr>tb_nodes := bm_extend (tb_nodes t) (map (\<lambda>n. (n, new_node al)) ns)\<rparr>)"
  using assms(1-3)
proof (induction ns arbitrary: t)
  case (Cons n ns)
  have "protect_inv (t\<lparr>tb_nodes := bm_insert n (new_node al) (tb_nodes t)\<rparr>)"
    using add_plain_node [OF Cons.prems(1) _ assms(4,5)] Cons.prems(3) by simp
  moreover have "\<forall>k \<in> set ns. bm_get (bm_insert n (new_node al) (tb_nodes t)) k = None"
    using Cons.prems(2,3) by auto
  ultimately show ?case
    using Cons.IH [of "t\<lparr>tb_nodes := bm_insert n (new_node al) (tb_nodes t)\<rparr>"] Cons.prems(2) by simp
qed simp

lemma children_frame: "protect_inv (t\<lparr>tb_owned_children := k\<rparr>) = protect_inv t"
  by (simp add: protect_inv_def guarantees_def calls_protected_def scopes_protected_def run_protected_def
      pending_priced_def templates_plain_def all_used_def)

lemma owned_protect:
  assumes p: "protect_inv t"
  shows "protect_inv (snd (register_owned_children t parent children))"
proof (cases "bm_get (tb_owned_templates t) parent")
  case (Some template)
  have "protect_inv (t\<lparr>tb_nodes := bm_extend (tb_nodes t) (map (\<lambda>child. (child, new_node (own_allowance template))) children)\<rparr>)"
    if "\<not> children_malformed t parent [] children"
    using add_plain_nodes [OF p, of children "own_allowance template"] children_distinct [OF that]
      protect_invD(3) [OF p] Some by (auto simp: templates_plain_def)
  then show ?thesis
    using Some p by (auto simp: register_owned_children_def children_frame split: option.splits)
qed (simp add: register_owned_children_def p)


subsection \<open>Where protection starts\<close>

lemma minimum_reserve_Ok:
  "minimum_reserve limits xs m = Ok m' \<Longrightarrow>
   vr_tokens m' = vr_tokens m + (\<Sum>(_, a)\<leftarrow>xs. na_tokens_per_attempt a * na_verification_attempts a) \<and>
   vr_attempts m' = vr_attempts m + (\<Sum>(_, a)\<leftarrow>xs. na_verification_attempts a) \<and>
   vr_wall_ms m' = vr_wall_ms m + (\<Sum>(_, a)\<leftarrow>xs. na_wall_ms_per_attempt a * na_verification_attempts a)"
  by (induction limits xs m rule: minimum_reserve.induct) (auto simp: and_then_eq_Ok split: if_splits)

lemma new_covered:
  assumes "task_budget_new limits allowances = Ok t"
  shows "covered limits (bm_map (\<lambda>_. new_node) allowances)"
proof -
  obtain m where m: "minimum_reserve limits (bm_entries allowances) no_reserve = Ok m"
    "vr_tokens m \<le> vr_tokens (tl_verification limits)" "vr_attempts m \<le> vr_attempts (tl_verification limits)"
    "vr_wall_ms m \<le> vr_wall_ms (tl_verification limits)"
    using assms by (auto simp: task_budget_new_def and_then_eq_Ok split: if_splits)
  show ?thesis
    using minimum_reserve_Ok [OF m(1)] m(2-4) by (simp add: covered_def bm_sum_map sum_entries)
qed

lemma bm_sum_zero [simp]: "bm_sum (\<lambda>_ _. 0) m = 0"
  by (rule bm_sum_0) simp

lemma fresh_views:
  assumes "fresh_nodes m"
  shows "bm_sum (\<lambda>_. used) m = 0" "call_use m c = bm_sum (\<lambda>n a. if within n c then ver a else 0) m"
    "reserve_left limits d m = (if d \<or> still_owed m \<noteq> 0 then tl_verification limits else no_reserve)"
proof -
  have "owed a = ver a" "taken a = 0" if "bm_get m n = Some a" for n a
    using fresh_nodesD(4) [OF assms that] by (simp_all add: owed_def taken_def)
  then show "call_use m c = bm_sum (\<lambda>n a. if within n c then ver a else 0) m"
    "reserve_left limits d m = (if d \<or> still_owed m \<noteq> 0 then tl_verification limits else no_reserve)"
    using fresh_nodesD(4) [OF assms]
    by (auto simp: call_use_def reserve_left_def less_reserve_def taken_reserve_def
        intro!: bm_sum_cong cong: bm_sum_cong)
qed (rule fresh_sums(2) [OF assms])


text \<open>Over every operation: the Run scope keeps the Task's limit, and an overflow is a breach.\<close>

definition run_bound :: "TaskBudget \<Rightarrow> bool" where
  "run_bound t \<longleftrightarrow> task_inv t \<and> (led_overflowed (tb_tokens t) \<longrightarrow> tb_breached t) \<and>
     scope_limit (tb_tokens t) Run = Some (tl_tokens (tb_limits t))"

lemma with_exact_committed_limit [simp]: "scope_limit (with_exact_committed l s c) s' = scope_limit l s'"
  by (simp add: scope_limit_def with_exact_committed_def account_or_default_def)

lemma late_charge_limit: "late_charge before delta ss l = Some l' \<Longrightarrow> scope_limit l' s = scope_limit l s"
  by (induction ss arbitrary: l) (auto split: bind_splits)

lemma close_admission_limit [simp]: "scope_limit (l\<lparr>led_overflowed := b\<rparr>) s = scope_limit l s"
  by (simp add: scope_limit_def)

lemma observe_bound:
  assumes "ledger_inv l"
  shows "scope_limit (snd (observe_charge_exact l r actual)) s = scope_limit l s"
    "led_overflowed (snd (observe_charge_exact l r actual)) \<Longrightarrow>
       led_overflowed l \<or> fst (observe_charge_exact l r actual) = Err ObservedTotalOverflow"
  using assms by (cases rule: observe_cases [of l r actual]; simp add: after_observe_limit [OF assms])+

lemma charge_bound:
  assumes "ledger_inv l"
  shows "scope_limit (snd (charge_exact l r actual)) s = scope_limit l s"
    "led_overflowed (snd (charge_exact l r actual)) \<Longrightarrow>
       led_overflowed l \<or> fst (charge_exact l r actual) = Err ObservedTotalOverflow"
  using assms by (cases rule: charge_cases [of l r actual]; simp add: after_charge_limit [OF assms])+

lemma release_bound:
  assumes "ledger_inv l"
  shows "scope_limit (snd (release l r)) s = scope_limit l s" "led_overflowed (snd (release l r)) = led_overflowed l"
  using assms by (cases rule: release_cases [of l r]; simp add: after_drop_limit [OF assms])+

lemma observe_attempt_bound:
  assumes b: "run_bound t"
  shows "run_bound (snd (observe_attempt t rid actual))"
proof (cases "bm_get (tb_reservations t) rid")
  case (Some h)
  note inv = b [unfolded run_bound_def, THEN conjunct1]
  note li = task_invD(1) [OF inv]
  obtain r l where ob: "observe_charge_exact (tb_tokens t) (h_tokens h) actual = (r, l)" by force
  note bound = observe_bound [OF li, of "h_tokens h" actual, unfolded ob fst_conv snd_conv]
  have late: "scope_limit l' Run = scope_limit (tb_tokens t) Run \<and> led_overflowed l' = led_overflowed (tb_tokens t)"
    if "late_charge (tb_tokens t) d ss (tb_tokens t) = Some l'" for l' d ss
    using late_charge_limit [OF that] late_charge_views [OF that] by simp
  have "tb_limits (snd (observe_attempt t rid actual)) = tb_limits t \<and>
      scope_limit (tb_tokens (snd (observe_attempt t rid actual))) Run = scope_limit (tb_tokens t) Run \<and>
      (led_overflowed (tb_tokens (snd (observe_attempt t rid actual))) \<longrightarrow>
         led_overflowed (tb_tokens t) \<and> tb_breached t \<or> tb_breached (snd (observe_attempt t rid actual)))"
    using Some ob b bound late by (cases r) (auto simp: observe_attempt_def Let_def run_bound_def split: option.splits)
  moreover have "tb_breached t \<Longrightarrow> tb_breached (snd (observe_attempt t rid actual))"
    using Some ob by (cases r) (auto simp: observe_attempt_def Let_def split: option.splits)
  ultimately show ?thesis
    using b observe_attempt_inv(1) [OF inv, of rid actual] by (auto simp: run_bound_def)
qed (simp add: observe_attempt_def b)

lemma settle_bound:
  assumes b: "run_bound t"
  shows "run_bound (snd (settle_exact t rid actual))"
proof (cases "bm_get (tb_reservations t) rid")
  case (Some h)
  note inv = b [unfolded run_bound_def, THEN conjunct1]
  note li = task_invD(1) [OF inv]
  obtain r l where ob: "charge_exact (tb_tokens t) (h_tokens h) actual = (r, l)" by force
  note bound = charge_bound [OF li, of "h_tokens h" actual, unfolded ob fst_conv snd_conv]
  have "tb_limits (snd (settle_exact t rid actual)) = tb_limits t \<and>
      scope_limit (tb_tokens (snd (settle_exact t rid actual))) Run = scope_limit (tb_tokens t) Run \<and>
      (led_overflowed (tb_tokens (snd (settle_exact t rid actual))) \<longrightarrow> tb_breached (snd (settle_exact t rid actual)))"
    using Some ob b bound by (cases r) (auto simp: settle_exact_def run_bound_def split: option.splits)
  then show ?thesis
    using b settle_exact_inv [OF inv, of rid actual] by (simp add: run_bound_def)
qed (simp add: settle_exact_def b)

text \<open>The other operations leave the token ledger, its flag and its Run limit alone.\<close>

lemma run_bound_frame:
  assumes "run_bound t" "task_inv t'" "tb_breached t' = tb_breached t" "tb_limits t' = tb_limits t"
    "led_overflowed (tb_tokens t') = led_overflowed (tb_tokens t)" "scope_limit (tb_tokens t') Run = scope_limit (tb_tokens t) Run"
  shows "run_bound t'"
  using assms by (simp add: run_bound_def)

lemma begin_frame:
  "tb_tokens (snd (begin_attempt t rid now)) = tb_tokens t" "tb_breached (snd (begin_attempt t rid now)) = tb_breached t"
  "tb_limits (snd (begin_attempt t rid now)) = tb_limits t"
  by (simp_all add: begin_attempt_def split: option.splits prod.splits)

lemma recover_frame:
  "tb_tokens (snd (recover t rid)) = tb_tokens t" "tb_breached (snd (recover t rid)) = tb_breached t"
  "tb_limits (snd (recover t rid)) = tb_limits t"
  by (simp_all add: recover_def split: option.splits)

lemma retry_frame:
  "tb_tokens (snd (allow_retry t n)) = tb_tokens t" "tb_breached (snd (allow_retry t n)) = tb_breached t"
  "tb_limits (snd (allow_retry t n)) = tb_limits t"
  by (simp_all add: allow_retry_def split: option.splits)

lemma recovery_frame:
  "tb_tokens (snd (install_recovery_from xs t)) = tb_tokens t \<and> tb_breached (snd (install_recovery_from xs t)) = tb_breached t \<and>
   tb_limits (snd (install_recovery_from xs t)) = tb_limits t"
  by (induction xs t rule: install_recovery_from.induct) (auto split: option.splits)

lemma register_frame:
  "tb_tokens (snd (register_owned_children t p cs)) = tb_tokens t"
  "tb_breached (snd (register_owned_children t p cs)) = tb_breached t"
  "tb_limits (snd (register_owned_children t p cs)) = tb_limits t"
  "tb_tokens (snd (register_experimental_children t p es k)) = tb_tokens t"
  "tb_breached (snd (register_experimental_children t p es k)) = tb_breached t"
  "tb_limits (snd (register_experimental_children t p es k)) = tb_limits t"
  by (simp_all add: register_owned_children_def register_experimental_children_def split: option.splits res.splits)

lemma install_scopes_frame:
  assumes "install_token_scopes t scopes = Ok t'"
  shows "tb_breached t' = tb_breached t" "tb_limits t' = tb_limits t"
    "led_overflowed (tb_tokens t') = led_overflowed (tb_tokens t)" "scope_limit (tb_tokens t') Run = scope_limit (tb_tokens t) Run"
proof -
  obtain l where l: "install_scopes_from t (bm_entries scopes) (tb_tokens t) = Ok l"
    "t' = t\<lparr>tb_tokens := l, tb_captured_token_scopes := bm_extend (tb_captured_token_scopes t) (bm_entries scopes),
       tb_token_scopes := scopes\<rparr>"
    using assms by (auto simp: install_token_scopes_def and_then_eq_Ok)
  show "tb_breached t' = tb_breached t" "tb_limits t' = tb_limits t"
    "led_overflowed (tb_tokens t') = led_overflowed (tb_tokens t)" "scope_limit (tb_tokens t') Run = scope_limit (tb_tokens t) Run"
    using install_scopes_ledger [OF l(1)] by (auto simp: l(2))
qed


lemma if_Err_Ok: "(if c then Err e else r) = Ok y \<longleftrightarrow> \<not> c \<and> r = Ok y"
  by simp

definition replaced :: "TaskBudget \<Rightarrow> (string, NodeAllowance) bmap \<Rightarrow> (string, nat) bmap \<Rightarrow>
  (string, OwnedNodeAllowance) bmap \<Rightarrow> nat \<Rightarrow> bool \<Rightarrow> TaskBudget" where
  "replaced t allowances calls templates now preparation =
     t\<lparr>tb_retired_attempts := tb_retired_attempts t + chargeable_sum t,
       tb_retired_recovered := tb_retired_recovered t + bm_sum (\<lambda>_. nd_recovered) (tb_nodes t),
       tb_nodes := bm_map (\<lambda>_. new_node) allowances, tb_call_limits := calls, tb_deferred_verification := preparation,
       tb_owned_templates := templates, tb_owned_children := bm_empty, tb_last_time := now\<rparr>"

lemma replacement_graph_Ok:
  assumes inv: "task_inv t"
    and ok: "replacement_graph t allowances calls scopes templates now preparation = Ok t'"
  obtains limits n0 n1 where "\<not> tb_breached t" "\<not> list_ex pending (bm_values (tb_reservations t))"
    "vr_tokens (tl_verification (tb_limits t)) \<le> (case remaining (tb_tokens t) Run of None \<Rightarrow> 0 | Some r \<Rightarrow> r)"
    "vr_attempts (tl_verification (tb_limits t)) \<le> tl_max_attempts (tb_limits t) - (tb_retired_attempts t + chargeable_sum t)"
    "task_budget_new limits allowances = Ok n0" "tl_verification limits = tl_verification (tb_limits t)"
    "with_call_limits n0 calls = Ok n1" "\<exists>n2. with_owned_templates n1 templates = Ok n2"
    "install_token_scopes (replaced t allowances calls templates now preparation) scopes = Ok t'"
proof -
  let ?finish = "\<lambda>n2. and_then (if preparation then with_deferred_verification n2 else Ok n2)
          (\<lambda>n. and_then (retire t)
          (\<lambda>candidate. install_token_scopes (candidate\<lparr>tb_nodes := tb_nodes n,
               tb_call_limits := tb_call_limits n, tb_deferred_verification := preparation,
               tb_owned_templates := tb_owned_templates n, tb_owned_children := bm_empty,
               tb_last_time := now\<rparr>) scopes))"
  obtain rem where rem: "(remaining_limits t :: (TaskError, TaskLimits) res) = Ok rem" "\<not> tb_breached t" "\<not> list_ex pending (bm_values (tb_reservations t))"
    "vr_tokens (tl_verification (tb_limits t)) \<le> tl_tokens rem" "vr_attempts (tl_verification (tb_limits t)) \<le> tl_max_attempts rem"
    and rest: "and_then (task_budget_new rem allowances) (\<lambda>n0. and_then (with_call_limits n0 calls)
          (\<lambda>n1. and_then (with_owned_templates n1 templates) ?finish)) = Ok t'"
    using ok unfolding replacement_graph_def if_Err_Ok and_then_eq_Ok [of "remaining_limits t"]
    by (auto simp: not_less)
  obtain n0 n1 n2 where st: "task_budget_new rem allowances = Ok n0" "with_call_limits n0 calls = Ok n1"
    "with_owned_templates n1 templates = Ok n2" and finish: "?finish n2 = Ok t'"
    using rest unfolding and_then_eq_Ok [of "task_budget_new _ _"] and_then_eq_Ok [of "with_call_limits _ _"]
      and_then_eq_Ok [of "with_owned_templates _ _"] by auto
  obtain n where n': "(if preparation then with_deferred_verification n2 else Ok n2) = Ok n"
    and fin: "install_token_scopes (t\<lparr>tb_retired_attempts := tb_retired_attempts t + chargeable_sum t,
           tb_retired_recovered := tb_retired_recovered t + bm_sum (\<lambda>_. nd_recovered) (tb_nodes t),
           tb_nodes := tb_nodes n, tb_call_limits := tb_call_limits n, tb_deferred_verification := preparation,
               tb_owned_templates := tb_owned_templates n, tb_owned_children := bm_empty, tb_last_time := now\<rparr>) scopes = Ok t'"
    using finish unfolding and_then_eq_Ok attempt_counts(3) [OF inv] by auto
  have n: "tb_nodes n = bm_map (\<lambda>_. new_node) allowances" "tb_call_limits n = calls" "tb_owned_templates n = templates"
    using st n' new_nodes(1) [OF st(1)]
    by (auto simp: with_call_limits_def with_owned_templates_def with_deferred_verification_def and_then_eq_Ok
        split: if_splits option.splits)
  show ?thesis
    by (rule that [OF rem(2,3) _ _ st(1) _ st(2)])
      (use rem st fin n in \<open>auto simp: remaining_limits_def attempt_counts(1) [OF inv] saturating_sub_def replaced_def\<close>)
qed

lemma install_graph_cases:
  "install_graph_with_owned_templates t allowances calls scopes templates now preparation = (r, t') \<Longrightarrow>
   r = Ok () \<and> replacement_graph t allowances calls scopes templates now preparation = Ok t' \<or> r \<noteq> Ok () \<and> t' = t"
  by (auto simp: install_graph_with_owned_templates_def split: res.splits)

lemma run_bound_step:
  assumes b: "run_bound t" and step: "task_step t t'"
  shows "run_bound t'"
proof -
  note inv = b [unfolded run_bound_def, THEN conjunct1]
  note inv' = budget.inv_step [OF inv step]
  from step show ?thesis
  proof cases
    case (step_prepare node now)
    show ?thesis
      using inv unfolding step_prepare
      by (cases rule: prepare_cases [of t node now])
        (use b inv' step_prepare after_reserve_limit in \<open>auto simp: run_bound_def after_prepare_def\<close>)
  next
    case (step_release rid)
    have "tb_breached (snd (release_attempt t rid)) = tb_breached t" "tb_limits (snd (release_attempt t rid)) = tb_limits t"
      "led_overflowed (tb_tokens (snd (release_attempt t rid))) = led_overflowed (tb_tokens t)"
      "scope_limit (tb_tokens (snd (release_attempt t rid))) Run = scope_limit (tb_tokens t) Run"
      using release_bound [OF task_invD(1) [OF inv]]
      by (auto simp: release_attempt_def split: option.splits prod.splits res.splits) (metis snd_conv)+
    then show ?thesis using run_bound_frame [OF b inv'] step_release by simp
  next
    case (step_install allowances calls scopes templates now preparation)
    obtain r where r: "install_graph_with_owned_templates t allowances calls scopes templates now preparation = (r, t')"
      using step_install by (metis prod.collapse)
    show ?thesis
    proof (cases "t' = t")
      case False
      then have "replacement_graph t allowances calls scopes templates now preparation = Ok t'"
        using install_graph_cases [OF r] by blast
      then obtain "install_token_scopes (replaced t allowances calls templates now preparation) scopes = Ok t'"
        using replacement_graph_Ok [OF inv] by metis
      from run_bound_frame [OF b inv'] install_scopes_frame [OF this] show ?thesis by (simp add: replaced_def)
    qed (use b in simp)
  next
    case (step_invalidate now)
    then show ?thesis
      using run_bound_frame [OF b inv'] by (auto simp: invalidate_plan_def attempt_counts(3) [OF inv])
  next
    case (step_scopes scopes)
    then show ?thesis
      using run_bound_frame [OF b inv'] install_scopes_frame [of t scopes t'] by (auto simp: with_token_scopes_def split: if_splits)
  qed (use b inv' run_bound_frame [OF b inv'] observe_attempt_bound settle_bound in
      \<open>auto simp: begin_frame recover_frame retry_frame register_frame install_recovery_allowances_def recovery_frame
        with_call_limits_def with_owned_templates_def with_deferred_verification_def and_then_eq_Ok
        split: if_splits option.splits\<close>)
qed


lemma opened_bound: "opened t \<Longrightarrow> run_bound t"
  using budget.inv_init [of t]
  by (auto simp: opened_def run_bound_def new_nodes default_ledger_def)

interpretation bounded: invariant opened task_step run_bound
  by unfold_locales (auto intro: opened_bound run_bound_step)

text \<open>Installed scopes protect what their nodes are owed.\<close>

lemma installed_scopes:
  assumes inv: "task_inv t" and ok: "install_scopes_from t xs l = Ok l'" and "distinct (map fst xs)" "(name, sc) \<in> set xs"
  shows "scope_limit l' (FanOut name) = Some (ts_tokens sc) \<and> ts_tokens sc \<le> u64_max \<and>
    scope_used l (FanOut name) + scope_owed (tb_nodes t) sc \<le> ts_tokens sc"
  using ok assms(3,4)
proof (induction xs arbitrary: l)
  case (Cons x xs)
  obtain name' sc' where x: "x = (name', sc')" by (cases x)
  obtain required where req: "scope_verification_after t sc' None = Ok required" "\<not> scope_malformed t name' sc'"
    "committed l (FanOut name') + reserved l (FanOut name') + required \<le> ts_tokens sc'"
    "install_scopes_from t xs (with_limit l (FanOut name') (ts_tokens sc')) = Ok l'"
    using Cons.prems(1) by (auto simp: x and_then_eq_Ok not_less split: if_splits option.splits bind_splits)
  have "required = scope_owed (tb_nodes t) sc'"
    using scope_owed_None_Ok [OF counted_nodes [OF inv] req(1) [unfolded scope_verification_after_def]]
    by (simp add: sum_entries scope_owed_def)
  show ?case
  proof (cases "(name, sc) = x")
    case True
    then have "FanOut name \<notin> FanOut ` fst ` set xs" using Cons.prems(2) x by auto
    then show ?thesis
      using install_scopes_ledger [OF req(4)] req(2,3) True x \<open>required = _\<close>
      by (auto simp: scope_malformed_def SAFE_INTEGER_MAX_def u64_max_def scope_used_def)
  next
    case False
    then have "(name, sc) \<in> set xs" using Cons.prems(3) by auto
    with Cons.IH [OF req(4)] Cons.prems(2) show ?thesis by (simp add: scope_used_def)
  qed
qed simp

lemma install_scopes_protected:
  assumes inv: "task_inv t" and ok: "install_token_scopes t scopes = Ok t'"
  shows "scopes_protected t'"
proof -
  obtain l where l: "install_scopes_from t (bm_entries scopes) (tb_tokens t) = Ok l"
    "t' = t\<lparr>tb_tokens := l, tb_captured_token_scopes := bm_extend (tb_captured_token_scopes t) (bm_entries scopes),
       tb_token_scopes := scopes\<rparr>"
    using ok by (auto simp: install_token_scopes_def and_then_eq_Ok)
  have "scope_used l s = scope_used (tb_tokens t) s" for s
    using install_scopes_ledger [OF l(1)] by (simp add: scope_used_def)
  then show ?thesis
    using installed_scopes [OF inv l(1) ascending_distinct [OF bm_entries_ascending]]
    by (auto simp: scopes_protected_def l(2) bm_get_iff_entry)
qed

definition calls_typed :: "(string, nat) bmap \<Rightarrow> bool" where
  "calls_typed m \<longleftrightarrow> (\<forall>c lim. bm_get m c = Some lim \<longrightarrow> lim \<le> u32_max)"

lemma sum_u64_Ok:
  "sum_u64 (\<lambda>x. Ok (g x)) xs acc = Ok r \<Longrightarrow> r = acc + sum_list (map g xs)"
  by (induction xs arbitrary: acc) (fastforce simp: and_then_eq_Ok add.assoc)+

lemma sum_filter: "sum_list (map f (filter P xs)) = (\<Sum>x\<leftarrow>xs. if P x then f x else (0::nat))"
  by (induction xs) auto

lemma check_call_limits_Ok:
  "check_call_limits (bm_entries m) xs = Ok () \<Longrightarrow> (c, lim) \<in> set xs \<Longrightarrow>
   bm_sum (\<lambda>n a. if within n c then ver a else 0) m \<le> lim"
proof (induction xs)
  case (Cons x xs)
  obtain c' lim' where x: "x = (c', lim')" by (cases x)
  obtain required where req: "sum_u64 (\<lambda>(_, a). Ok (ver a)) (filter (\<lambda>(node, _). within node c') (bm_entries m)) 0 = (Ok required :: (TaskError, nat) res)"
    "required \<le> lim'" "check_call_limits (bm_entries m) xs = Ok ()"
    using Cons.prems(1) by (auto simp: x and_then_eq_Ok not_less split: if_splits)
  have "required = bm_sum (\<lambda>n a. if within n c' then ver a else 0) m"
    using sum_u64_Ok [of "\<lambda>p. ver (snd p)" _ 0 required, OF req(1) [unfolded case_prod_unfold]]
    by (simp add: sum_filter bm_sum_def case_prod_unfold)
  then show ?case using Cons.IH [OF req(3)] Cons.prems(2) req(2) x by auto
qed simp

lemma fresh_calls_protected:
  assumes "fresh_nodes (tb_nodes t)" "check_call_limits (bm_entries (tb_nodes t)) (bm_entries (tb_call_limits t)) = Ok ()"
    "calls_typed (tb_call_limits t)"
  shows "calls_protected t"
  using check_call_limits_Ok [OF assms(2)] assms(3)
  by (auto simp: calls_protected_def calls_typed_def fresh_views(2) [OF assms(1)] bm_get_iff_entry)

lemma with_owned_templates_Ok:
  assumes "with_owned_templates t templates = Ok t'" "templates_typed templates" "tb_owned_templates t'' = templates"
  shows "templates_plain t''"
proof -
  have "\<not> template_malformed t templates n w" if "bm_get templates n = Some w" for n w
    using assms(1) that by (auto simp: with_owned_templates_def find_None_iff bm_get_iff_entry split: if_splits option.splits)
  then show ?thesis
    using assms(2,3) by (fastforce simp: templates_plain_def templates_typed_def template_malformed_def Let_def)
qed

lemma install_protect:
  assumes b: "run_bound t" and ty: "allowances_typed allowances" "templates_typed templates" "calls_typed calls"
    and ok: "replacement_graph t allowances calls scopes templates now preparation = Ok t'"
  shows "protect_inv t'"
proof -
  note inv = b [unfolded run_bound_def, THEN conjunct1]
  obtain limits n0 n1 n2 where nb: "\<not> tb_breached t" and idle: "\<not> list_ex pending (bm_values (tb_reservations t))"
    and tokens: "vr_tokens (tl_verification (tb_limits t)) \<le> (case remaining (tb_tokens t) Run of None \<Rightarrow> 0 | Some r \<Rightarrow> r)"
    and attempts: "vr_attempts (tl_verification (tb_limits t)) \<le> tl_max_attempts (tb_limits t) - (tb_retired_attempts t + chargeable_sum t)"
    and new: "task_budget_new limits allowances = Ok n0" "tl_verification limits = tl_verification (tb_limits t)"
    and calls: "with_call_limits n0 calls = Ok n1" and templates: "with_owned_templates n1 templates = Ok n2"
    and fin: "install_token_scopes (replaced t allowances calls templates now preparation) scopes = Ok t'"
    using replacement_graph_Ok [OF inv ok] by metis
  let ?r = "replaced t allowances calls templates now preparation"
  note fresh = fresh_nodes_map [OF ty(1)]
  have inv_r: "task_inv ?r" using replace_graph_inv [OF inv idle fresh] by (simp add: replaced_def)
  obtain l where l: "install_scopes_from ?r (bm_entries scopes) (tb_tokens t) = Ok l"
    "t' = ?r\<lparr>tb_tokens := l, tb_captured_token_scopes := bm_extend (tb_captured_token_scopes t) (bm_entries scopes),
       tb_token_scopes := scopes\<rparr>"
    using fin by (auto simp: install_token_scopes_def and_then_eq_Ok replaced_def)
  note led = install_scopes_ledger [OF l(1)]
  have used_l: "scope_used l s = scope_used (tb_tokens t) s" for s using led by (simp add: scope_used_def)
  have nodes: "tb_nodes t' = bm_map (\<lambda>_. new_node) allowances" by (simp add: l(2) replaced_def)
  have "calls_protected t'"
  proof (rule fresh_calls_protected)
    show "check_call_limits (bm_entries (tb_nodes t')) (bm_entries (tb_call_limits t')) = Ok ()"
      using calls new_nodes(1) [OF new(1)] unfolding nodes by (auto simp: with_call_limits_def and_then_eq_Ok l(2) replaced_def split: if_splits)
  qed (use fresh ty(3) in \<open>simp_all add: nodes l(2) replaced_def\<close>)
  moreover have "run_protected t'"
  proof -
    have lim: "scope_limit (tb_tokens t) Run = Some (tl_tokens (tb_limits t))" "\<not> led_overflowed (tb_tokens t)"
      using b nb by (auto simp: run_bound_def)
    have "vr_tokens (tl_verification (tb_limits t)) \<le> tl_tokens (tb_limits t) - scope_used (tb_tokens t) Run"
      using tokens remaining_eq [OF lim(2,1)] limits_bounds(4) [OF task_invD(9,8) [OF inv]] by simp
    moreover have "tb_retired_attempts t + chargeable_sum t \<le> tl_max_attempts (tb_limits t)"
      using task_invD(7) [OF inv] used_split [of t] by (simp add: all_used_def)
    ultimately show ?thesis
      using attempts lim led fresh_views [OF fresh]
      by (auto simp: run_protected_def Let_def nodes all_used_def l(2) replaced_def used_l)
  qed
  moreover have "pending_priced t'"
    using idle by (auto simp: pending_priced_def l(2) replaced_def list_ex_iff set_bm_values ran_def)
  moreover have "scopes_protected t'" by (rule install_scopes_protected [OF inv_r fin])
  moreover have "covered (tb_limits t') (tb_nodes t')"
    using new_covered [OF new(1)] new(2) by (simp add: nodes covered_def l(2) replaced_def)
  moreover have "templates_plain t'"
    by (rule with_owned_templates_Ok [OF templates ty(2)]) (simp add: l(2) replaced_def)
  ultimately show ?thesis
    using install_token_scopes_inv [OF inv_r fin] led b nb by (auto simp: protect_inv_def guarantees_def l(2) run_bound_def)
qed


lemma opened_protect:
  assumes new: "task_budget_new limits allowances = Ok t" and ty: "allowances_typed allowances" "tl_max_attempts limits \<le> u32_max"
  shows "protect_inv t" "with_deferred_verification t = Ok t' \<Longrightarrow> protect_inv t'"
proof -
  note n = new_nodes [OF new]
  note fresh = fresh_views [OF fresh_nodes_map [OF ty(1)]]
  have z: "scope_used (tb_tokens t) s = 0" for s
    by (simp add: n scope_used_def) (simp add: committed_def reserved_def default_ledger_def)
  have e: "tb_call_limits t = bm_empty" "tb_token_scopes t = bm_empty" "tb_owned_templates t = bm_empty"
    "\<not> led_overflowed (tb_tokens t)" "scope_limit (tb_tokens t) Run = Some (tl_tokens limits)"
    using new by (auto simp: task_budget_new_def and_then_eq_Ok default_ledger_def split: if_splits)
  have le: "vr_tokens (tl_verification limits) \<le> tl_tokens limits" "vr_attempts (tl_verification limits) \<le> tl_max_attempts limits"
    using n(3) by (auto simp: limits_valid_def)
  have g: "guarantees (t\<lparr>tb_deferred_verification := d\<rparr>)" for d
    using e le fresh n z
    by (auto simp: guarantees_def calls_protected_def scopes_protected_def run_protected_def Let_def all_used_def)
  have p: "protect_inv (t\<lparr>tb_deferred_verification := d\<rparr>)" for d
    using new_inv [OF new ty] new_covered [OF new] g [of d] n e
    by (simp add: protect_inv_def pending_priced_def templates_plain_def)
  show "with_deferred_verification t = Ok t' \<Longrightarrow> protect_inv t'"
    using p by (auto simp: with_deferred_verification_def split: if_splits)
  have "\<not> tb_deferred_verification t"
    using new by (auto simp: task_budget_new_def and_then_eq_Ok split: if_splits)
  then have "t = t\<lparr>tb_deferred_verification := False\<rparr>" by simp
  then show "protect_inv t" using p [of False] by metis
qed

lemma idle_nodes:
  assumes inv: "task_inv t" and e: "tb_reservations t = bm_empty" and a: "bm_get (tb_nodes t) n = Some a"
  shows "used a = 0"
proof -
  have "begun_total t = 0" "waiting t n = 0" using e by (simp_all add: begun_total_def waiting_def)
  then have "bm_sum (\<lambda>_. nd_begun) (tb_nodes t) = 0" "nd_prepared a = 0"
    using task_invD(5) [OF inv] task_invD(4) [OF inv a] by (simp_all add: node_ok_def)
  then show ?thesis using bm_sum_ge [OF a, of "\<lambda>_. nd_begun"] by (simp add: used_def)
qed

lemma call_limits_protect:
  assumes p: "protect_inv t" and ty: "calls_typed calls" and ok: "with_call_limits t calls = Ok t'"
  shows "protect_inv t'"
proof -
  have t': "t' = t\<lparr>tb_call_limits := calls\<rparr>" and e: "tb_reservations t = bm_empty"
    and c: "check_call_limits (bm_entries (tb_nodes t)) (bm_entries calls) = Ok ()"
    using ok by (auto simp: with_call_limits_def and_then_eq_Ok bm_is_empty_iff split: if_splits)
  have "call_use (tb_nodes t) k = bm_sum (\<lambda>n a. if within n k then ver a else 0) (tb_nodes t)" for k
    unfolding call_use_def
    by (rule bm_sum_cong) (simp add: owed_def idle_nodes [OF protect_invD(1) [OF p] e])
  then have "calls_protected t'"
    using check_call_limits_Ok [OF c] ty by (auto simp: t' calls_protected_def calls_typed_def bm_get_iff_entry)
  then show ?thesis
    using p by (auto simp: t' protect_inv_def guarantees_def scopes_protected_def run_protected_def Let_def
        pending_priced_def templates_plain_def all_used_def)
qed

lemma token_scopes_protect:
  assumes p: "protect_inv t" and ok: "with_token_scopes t scopes = Ok t'"
  shows "protect_inv t'"
proof -
  note inv = protect_invD(1) [OF p]
  have e: "tb_reservations t = bm_empty" and i: "install_token_scopes t scopes = Ok t'"
    using ok by (auto simp: with_token_scopes_def bm_is_empty_iff split: if_splits)
  obtain l where l: "install_scopes_from t (bm_entries scopes) (tb_tokens t) = Ok l"
    "t' = t\<lparr>tb_tokens := l, tb_captured_token_scopes := bm_extend (tb_captured_token_scopes t) (bm_entries scopes),
       tb_token_scopes := scopes\<rparr>"
    using i by (auto simp: install_token_scopes_def and_then_eq_Ok)
  note led = install_scopes_ledger [OF l(1)]
  have "scope_used l Run = scope_used (tb_tokens t) Run" "scope_limit l Run = scope_limit (tb_tokens t) Run"
    using led by (auto simp: scope_used_def)
  then have "guarantees t'" if "guarantees t"
    using that install_scopes_protected [OF inv i] led
    by (auto simp: guarantees_def calls_protected_def run_protected_def Let_def all_used_def l(2))
  then show ?thesis
    using p install_token_scopes_inv [OF inv i] e
    by (auto simp: protect_inv_def pending_priced_def templates_plain_def l(2))
qed

lemma templates_protect:
  assumes p: "protect_inv t" and ty: "templates_typed templates" and ok: "with_owned_templates t templates = Ok t'"
  shows "protect_inv t'"
proof -
  have "t' = t\<lparr>tb_owned_templates := templates\<rparr>"
    using ok by (auto simp: with_owned_templates_def split: if_splits option.splits)
  then show ?thesis
    using p with_owned_templates_Ok [OF ok ty, of t']
    by (auto simp: protect_inv_def guarantees_def calls_protected_def scopes_protected_def run_protected_def Let_def
        pending_priced_def all_used_def)
qed

subsection \<open>Runs that stay protected\<close>

text \<open>
  Protection starts when a budget is opened or a graph is installed. It survives every operation
  of a running graph; excluded are usage reported after settlement, recovery (both spend what was
  given back), experimental children, and releasing the last started verification.
\<close>

definition protection_start :: "TaskBudget \<Rightarrow> bool" where
  "protection_start t \<longleftrightarrow>
     (\<exists>limits allowances t0. task_budget_new limits allowances = Ok t0 \<and> allowances_typed allowances \<and>
        tl_max_attempts limits \<le> u32_max \<and> (t = t0 \<or> with_deferred_verification t0 = Ok t)) \<or>
     (\<exists>t0 allowances calls scopes templates now preparation. reach opened task_step t0 \<and> allowances_typed allowances \<and>
        templates_typed templates \<and> calls_typed calls \<and>
        install_graph_with_owned_templates t0 allowances calls scopes templates now preparation = (Ok (), t))"

definition late :: "TaskBudget \<Rightarrow> string \<Rightarrow> nat \<Rightarrow> bool" where
  "late t rid actual \<longleftrightarrow> (\<exists>h old. bm_get (tb_reservations t) rid = Some h \<and> h_settled h = Some old \<and> old < actual)"

inductive running_step :: "TaskBudget \<Rightarrow> TaskBudget \<Rightarrow> bool" where
  run_calls: "calls_typed calls \<Longrightarrow> with_call_limits t calls = Ok t' \<Longrightarrow> running_step t t'"
| run_scopes: "with_token_scopes t scopes = Ok t' \<Longrightarrow> running_step t t'"
| run_templates: "templates_typed templates \<Longrightarrow> with_owned_templates t templates = Ok t' \<Longrightarrow> running_step t t'"
| run_prepare: "running_step t (snd (prepare t node now))"
| run_begin: "running_step t (snd (begin_attempt t rid now))"
| run_release: "\<not> reopens t rid \<Longrightarrow> running_step t (snd (release_attempt t rid))"
| run_settle: "running_step t (snd (settle_exact t rid actual))"
| run_observe: "\<not> late t rid actual \<Longrightarrow> running_step t (snd (observe_attempt t rid actual))"
| run_retry: "running_step t (snd (allow_retry t node))"
| run_recovery: "running_step t (snd (install_recovery_allowances t allowances))"
| run_owned: "running_step t (snd (register_owned_children t parent children))"

inductive_cases running_stepE: "running_step t t'"

interpretation protection: invariant protection_start running_step protect_inv
proof unfold_locales
  fix t
  assume "protection_start t"
  then show "protect_inv t"
    unfolding protection_start_def
  proof (elim disjE exE conjE)
    fix t0 allowances calls scopes templates now preparation
    assume "reach opened task_step t0" "allowances_typed allowances" "templates_typed templates" "calls_typed calls"
      "install_graph_with_owned_templates t0 allowances calls scopes templates now preparation = (Ok (), t)"
    then show "protect_inv t"
      using bounded.reach_inv install_protect install_graph_cases by blast
  qed (auto intro: opened_protect)
next
  fix t t'
  assume p: "protect_inv t" and "running_step t t'"
  from this(2) show "protect_inv t'"
  proof cases
    case (run_observe rid actual)
    then show ?thesis using observe_protect [OF p, of rid actual] by (auto simp: late_def not_less)
  qed (use p in \<open>auto simp: install_recovery_allowances_def intro: call_limits_protect token_scopes_protect
      templates_protect prepare_protect begin_protect release_protect settle_protect retry_protect
      recovery_protect owned_protect\<close>)
qed


subsection \<open>Owed verification is admitted\<close>

lemma bump_counts:
  assumes "used a < ver a"
  shows "owed (bump n n a) + 1 = owed a" "taken (bump n n a) = taken a + 1"
  using assms by (simp_all add: owed_def taken_def)

lemma owed_sums:
  assumes a: "bm_get m n = Some a" and own: "used a < ver a"
  shows "vr_tokens (taken_reserve (bm_map (bump n) m)) = vr_tokens (taken_reserve m) + tok a"
    "vr_attempts (taken_reserve (bm_map (bump n) m)) = vr_attempts (taken_reserve m) + 1"
    "vr_wall_ms (taken_reserve (bm_map (bump n) m)) = vr_wall_ms (taken_reserve m) + wall a"
    "call_use (bm_map (bump n) m) c = call_use m c"
    "scope_owed (bm_map (bump n) m) sc + (if scope_contains sc n then tok a else 0) = scope_owed m sc"
proof -
  let ?b = "bump n n a"
  note u = bump_counts [OF own, of n]
  have map: "bm_map (bump n) m = bm_insert n ?b m" using bump_insert [OF a] by (simp add: bump_def)
  have o: "tok a * owed a = tok a * owed ?b + tok a" using u(1) by (metis distrib_left mult.right_neutral)
  note upd = bm_sum_insert_upd [OF a, of _ ?b]
  show "vr_tokens (taken_reserve (bm_map (bump n) m)) = vr_tokens (taken_reserve m) + tok a"
    "vr_attempts (taken_reserve (bm_map (bump n) m)) = vr_attempts (taken_reserve m) + 1"
    "vr_wall_ms (taken_reserve (bm_map (bump n) m)) = vr_wall_ms (taken_reserve m) + wall a"
    using upd [of "\<lambda>_ a. tok a * taken a"] upd [of "\<lambda>_. taken"] upd [of "\<lambda>_ a. wall a * taken a"] u(2)
    by (simp_all add: map taken_reserve_def distrib_left)
  show "call_use (bm_map (bump n) m) c = call_use m c"
    using upd [of "\<lambda>n a. if within n c then used a + owed a else 0"] u(1) by (auto simp: map call_use_def split: if_splits)
  show "scope_owed (bm_map (bump n) m) sc + (if scope_contains sc n then tok a else 0) = scope_owed m sc"
    using upd [of "\<lambda>n a. if scope_contains sc n then tok a * owed a else 0"] o by (auto simp: map scope_owed_def split: if_splits)
qed

lemma taken_le_covered:
  assumes "covered limits m"
  shows "vr_tokens (taken_reserve m) \<le> vr_tokens (tl_verification limits)"
    "vr_attempts (taken_reserve m) \<le> vr_attempts (tl_verification limits)"
    "vr_wall_ms (taken_reserve m) \<le> vr_wall_ms (tl_verification limits)"
proof -
  have le: "taken a \<le> ver a" for a by (simp add: taken_def)
  have "bm_sum (\<lambda>_ a. tok a * taken a) m \<le> bm_sum (\<lambda>_ a. tok a * ver a) m"
    "bm_sum (\<lambda>_. taken) m \<le> bm_sum (\<lambda>_. ver) m" "bm_sum (\<lambda>_ a. wall a * taken a) m \<le> bm_sum (\<lambda>_ a. wall a * ver a) m"
    by (rule bm_sum_mono, simp add: le mult_le_mono2)+
  then show "vr_tokens (taken_reserve m) \<le> vr_tokens (tl_verification limits)"
    "vr_attempts (taken_reserve m) \<le> vr_attempts (tl_verification limits)"
    "vr_wall_ms (taken_reserve m) \<le> vr_wall_ms (tl_verification limits)"
    using coveredD [OF assms] by (simp_all add: taken_reserve_def)
qed

lemma owed_reserve:
  assumes cov: "covered limits m" and a: "bm_get m n = Some a" and own: "used a < ver a"
  shows "tok a + vr_tokens (reserve_left limits False (bm_map (bump n) m)) \<le> vr_tokens (reserve_left limits False m)"
    "1 + vr_attempts (reserve_left limits False (bm_map (bump n) m)) \<le> vr_attempts (reserve_left limits False m)"
    "wall a + vr_wall_ms (reserve_left limits False (bm_map (bump n) m)) \<le> vr_wall_ms (reserve_left limits False m)"
proof -
  have ne: "still_owed m \<noteq> 0"
    using bm_sum_ge [OF a, of "\<lambda>_. owed"] own by (simp add: still_owed_def owed_def)
  note cov' = taken_le_covered [of limits "bm_map (bump n) m", unfolded bumped_covered, OF cov]
  show "tok a + vr_tokens (reserve_left limits False (bm_map (bump n) m)) \<le> vr_tokens (reserve_left limits False m)"
    "1 + vr_attempts (reserve_left limits False (bm_map (bump n) m)) \<le> vr_attempts (reserve_left limits False m)"
    "wall a + vr_wall_ms (reserve_left limits False (bm_map (bump n) m)) \<le> vr_wall_ms (reserve_left limits False m)"
    using ne cov' owed_sums [OF a own] by (auto simp: reserve_left_def less_reserve_def)
qed

lemma calls_admit_owed:
  assumes inv: "task_inv t" and a: "bm_get (tb_nodes t) n = Some a" "used a < ver a"
    and lim: "\<And>c lim. (c, lim) \<in> set xs \<Longrightarrow> lim \<le> u32_max \<and> call_use (tb_nodes t) c \<le> lim"
  shows "calls_admit t n xs = Ok ()"
  using lim
proof (induction xs)
  case (Cons x xs)
  obtain c lim where x: "x = (c, lim)" by (cases x)
  have b: "lim \<le> u32_max" "call_use (tb_nodes t) c \<le> lim" using Cons.prems [of c lim] x by simp_all
  have rest: "calls_admit t n xs = Ok ()" using Cons.prems by (intro Cons.IH) auto
  show ?case
  proof (cases "within n c")
    case True
    have eq: "1 + bm_sum (\<lambda>n' a. if within n' c then used a + owed (bump n n' a) else 0) (tb_nodes t) = call_use (tb_nodes t) c"
      using bumped_call_use [OF a(1) True] owed_sums(4) [OF a] by simp
    have "call_occupied n c (bm_entries (tb_nodes t)) 1 = Ok (call_use (tb_nodes t) c)"
      using call_occupied_eq [OF counted_nodes [OF inv], of 1 c n] b eq by (simp add: sum_entries uint_bounds)
    then show ?thesis using rest b x True by (simp add: not_less)
  qed (use rest x in simp)
qed simp

lemma reservation_scopes_owed:
  assumes inv: "task_inv t" and a: "bm_get (tb_nodes t) n = Some a" "used a < ver a" and nov: "\<not> led_overflowed (tb_tokens t)"
    and sc: "\<And>name sc. (name, sc) \<in> set xs \<Longrightarrow> scope_limit (tb_tokens t) (FanOut name) = Some (ts_tokens sc) \<and>
      ts_tokens sc \<le> u64_max \<and> scope_used (tb_tokens t) (FanOut name) + scope_owed (tb_nodes t) sc \<le> ts_tokens sc"
  shows "\<exists>scopes. reservation_scopes_from t n xs = Ok scopes"
  using sc
proof (induction xs)
  case (Cons x xs)
  obtain name sc where x: "x = (name, sc)" by (cases x)
  have s: "scope_limit (tb_tokens t) (FanOut name) = Some (ts_tokens sc)" "ts_tokens sc \<le> u64_max"
    "scope_used (tb_tokens t) (FanOut name) + scope_owed (tb_nodes t) sc \<le> ts_tokens sc"
    using Cons.prems [of name sc] x by simp_all
  obtain ss where ss: "reservation_scopes_from t n xs = Ok ss" using Cons by auto
  show ?case
  proof (cases "scope_contains sc n")
    case True
    have o: "scope_owed (bm_map (bump n) (tb_nodes t)) sc + tok a = scope_owed (tb_nodes t) sc"
      using owed_sums(5) [OF a, of sc] True by simp
    have "scope_verification_after t sc (Some n) = Ok (scope_owed (bm_map (bump n) (tb_nodes t)) sc)"
      using scope_owed_eq [OF counted_nodes [OF inv], of 0 sc n] o s
      by (simp add: scope_verification_after_def sum_entries scope_owed_def bm_sum_map cong: if_cong)
    then show ?thesis
      using ss x True a o s remaining_eq [OF nov s(1,2)] by (simp add: add_def checked_add_def)
  qed (use ss x in simp)
qed simp

lemma owed_admitted:
  assumes p: "protect_inv t" and run: "\<not> tb_breached t" "\<not> tb_deferred_verification t"
    and a: "bm_get (tb_nodes t) n = Some a" "used a < ver a" "ver a \<le> na_max_attempts (nd_allowance a)" "0 < tok a"
      "nd_recovered a \<le> nd_recovery_allowance a"
    and ids: "led_next (tb_tokens t) < u64_max"
    and time: "tb_last_time t \<le> now" "now < tl_deadline_unix_ms (tb_limits t)"
      "now + vr_wall_ms (reserve_left (tb_limits t) False (tb_nodes t)) \<le> tl_deadline_unix_ms (tb_limits t)"
  shows "\<exists>reservation t'. prepare t n now = (Ok reservation, t')"
proof -
  note inv = protect_invD(1) [OF p] and cov = protect_invD(2) [OF p]
  note g = protect_invD(4) [OF p run(1), unfolded guarantees_def]
  note lim = limits_bounds [OF task_invD(9,8) [OF inv]]
  let ?r = "reserve_left (tb_limits t) False (bm_map (bump n) (tb_nodes t))"
  note o = owed_reserve [OF cov a(1,2)]
  have run_lim: "scope_limit (tb_tokens t) Run = Some (tl_tokens (tb_limits t))"
    "vr_tokens (reserve_left (tb_limits t) False (tb_nodes t)) \<le> tl_tokens (tb_limits t) - scope_used (tb_tokens t) Run"
    "all_used t + vr_attempts (reserve_left (tb_limits t) False (tb_nodes t)) \<le> tl_max_attempts (tb_limits t)"
    using g run(2) by (auto simp: run_protected_def Let_def)
  have pr: "protected_after t n = Ok ?r"
    using protected_after_eq [OF inv cov, of n] a run(2) by simp
  have calls: "calls_admit t n (bm_entries (tb_call_limits t)) = Ok ()"
    by (rule calls_admit_owed [OF inv a(1,2)]) (use g in \<open>auto simp: calls_protected_def bm_get_iff_entry\<close>)
  obtain scopes where rs: "reservation_scopes_from t n (bm_entries (tb_token_scopes t)) = Ok scopes"
    using reservation_scopes_owed [OF inv a(1,2), of "bm_entries (tb_token_scopes t)"] g
    by (auto simp: scopes_protected_def bm_get_iff_entry)
  have rem: "(case remaining (tb_tokens t) Run of None \<Rightarrow> 0 | Some r \<Rightarrow> r) = tl_tokens (tb_limits t) - scope_used (tb_tokens t) Run"
    using remaining_eq [OF _ run_lim(1) lim(4)] g by simp
  have adm: "admissible t n now a ?r scopes"
    unfolding admissible_def reservation_scopes_def rem
    using run(1) time a calls rs pr o run_lim(2,3) lim(4,5) by simp
  have "scope_admits (tb_tokens t) (tok a) s" if "s \<in> set scopes" for s
  proof (cases s)
    case (FanOut name)
    then have "FanOut name \<in> set scopes" using that by simp
    then obtain sc where sc: "bm_get (tb_token_scopes t) name = Some sc" "scope_contains sc n"
      using reservation_scopes_Ok(1) [OF inv a(1) rs, of name] by (auto simp: bm_get_iff_entry)
    then have "scope_limit (tb_tokens t) s = Some (ts_tokens sc)" "ts_tokens sc \<le> u64_max"
      "scope_used (tb_tokens t) s + tok a \<le> ts_tokens sc"
      using g owed_sums(5) [OF a(1,2), of sc] FanOut by (fastforce simp: scopes_protected_def)+
    then show ?thesis by (auto simp: scope_admits_def scope_limit_def scope_used_def uint_bounds)
  next
    case Run
    have "scope_used (tb_tokens t) Run + tok a \<le> tl_tokens (tb_limits t)" using o(1) run_lim(2) a(4) by linarith
    then show ?thesis
      using run_lim(1) lim(4) Run by (auto simp: scope_admits_def scope_limit_def scope_used_def uint_bounds)
  qed
  then have res: "reserve_admitted (tb_tokens t) scopes (tok a)"
    using g ids by (simp add: reserve_admitted_def)
  show ?thesis
    using inv by (cases rule: prepare_cases [of t n now]) (use adm res in auto)
qed

end
