(* ===== verification/TaskProperties.thy ===== *)
theory TaskProperties
  imports TaskProtection
begin

text \<open>
  What the Task budget promises its callers, on top of \<open>TaskAccounting\<close> and \<open>TaskProtection\<close>, with
  two sample Tasks on which the promises are exercised.
\<close>

subsection \<open>A sample Task\<close>

text \<open>
  Two verifiers of one Attempt and ten tokens each, a worker of 180 tokens, a limit of 200 tokens
  with 100 reserved for verification. The states of a run are spelled with the prepared counts of
  the three nodes, the reservations, and the reserved tokens.
\<close>

definition sample_limits :: TaskLimits where
  "sample_limits = \<lparr>tl_tokens = 200, tl_max_attempts = 10, tl_deadline_unix_ms = 1000,
     tl_verification = \<lparr>vr_tokens = 100, vr_attempts = 4, vr_wall_ms = 200\<rparr>\<rparr>"

definition sample_verifier :: NodeAllowance where
  "sample_verifier = \<lparr>na_tokens_per_attempt = 10, na_wall_ms_per_attempt = 50, na_max_attempts = 3, na_verification_attempts = 1\<rparr>"

definition sample_worker :: NodeAllowance where
  "sample_worker = \<lparr>na_tokens_per_attempt = 180, na_wall_ms_per_attempt = 50, na_max_attempts = 3, na_verification_attempts = 0\<rparr>"

definition sample_allowances :: "(string, NodeAllowance) bmap" where
  "sample_allowances = bm_insert ''a'' sample_verifier (bm_insert ''b'' sample_verifier (bm_insert ''w'' sample_worker bm_empty))"

definition sample_account :: "NodeAllowance \<Rightarrow> nat \<Rightarrow> NodeAccount" where
  "sample_account al p = \<lparr>nd_allowance = al, nd_begun = 0, nd_prepared = p, nd_recovered = 0, nd_recovery_allowance = 1\<rparr>"

definition sample_state :: "nat \<Rightarrow> nat \<Rightarrow> nat \<Rightarrow> (string, Held) bmap \<Rightarrow> (string, Outstanding) bmap \<Rightarrow> nat \<Rightarrow> nat \<Rightarrow> nat \<Rightarrow> TaskBudget" where
  "sample_state pa pb pw res outs held issued time =
     \<lparr>tb_limits = sample_limits,
      tb_tokens = \<lparr>led_accounts = bm_insert Run \<lparr>acct_limit = Some 200, acct_committed = 0, acct_reserved = held\<rparr> bm_empty,
        led_outstanding = outs, led_next = issued, led_overflowed = False\<rparr>,
      tb_nodes = bm_insert ''a'' (sample_account sample_verifier pa) (bm_insert ''b'' (sample_account sample_verifier pb)
        (bm_insert ''w'' (sample_account sample_worker pw) bm_empty)),
      tb_reservations = res, tb_last_time = time, tb_breached = False, tb_call_limits = bm_empty, tb_token_scopes = bm_empty,
      tb_captured_token_scopes = bm_empty, tb_retired_attempts = 0, tb_retired_recovered = 0,
      tb_deferred_verification = False, tb_owned_templates = bm_empty, tb_owned_children = bm_empty\<rparr>"

definition sample_reserve :: "string \<Rightarrow> nat \<Rightarrow> Reservation" where
  "sample_reserve rid amount = \<lparr>res_id = rid, res_amount = amount, res_scopes = [Run]\<rparr>"

definition sample_held :: "string \<Rightarrow> string \<Rightarrow> nat \<Rightarrow> nat \<Rightarrow> Held" where
  "sample_held rid node amount deadline =
     \<lparr>h_public = \<lparr>tr_id = rid, tr_node = node, tr_tokens = amount, tr_deadline_unix_ms = deadline\<rparr>,
      h_tokens = sample_reserve rid amount, h_begun = False, h_settled = None, h_released = False, h_recovered = False\<rparr>"

abbreviation sample_out :: "string \<Rightarrow> nat \<Rightarrow> Outstanding" where
  "sample_out rid amount \<equiv> \<lparr>out_reservation = sample_reserve rid amount, out_observed = 0\<rparr>"

lemma sample_names [simp]: "is_name ''a''" "is_name ''b''" "is_name ''w''"
  by (simp_all add: is_name_def is_ascii_alphanumeric_def is_ascii_digit_def is_ascii_lowercase_def
      is_ascii_uppercase_def less_eq_char_def)

lemma sample_order [simp]: "''a'' < ''b''" "''b'' < ''w''" "''a'' < ''w''"
  by (simp_all add: less_char_def)

lemma digit_Suc_Suc [simp]: "digit (Suc (Suc 0)) = CHR ''2''"
  by (simp add: digit_simps flip: numeral_2_eq_2)

lemmas sample_eval = sample_state_def sample_limits_def sample_verifier_def sample_worker_def sample_account_def
  sample_held_def sample_reserve_def add_def checked_mul_def chargeable_def used_u64_def bm_values_def
  reservation_scopes_def bm_eq_entries group_def ledger_eval

lemma sample_new: "task_budget_new sample_limits sample_allowances = Ok (sample_state 0 0 0 bm_empty bm_empty 0 0 0)"
  by (simp add: task_budget_new_def sample_allowances_def sample_eval limits_valid_def safe_number_def
      SAFE_INTEGER_MAX_def new_node_def DEFAULT_RECOVERY_ATTEMPTS_def)

lemma sample_step_a:
  "prepare (sample_state 0 0 0 bm_empty bm_empty 0 0 0) ''a'' 1
     = (Ok (h_public (sample_held ''reservation:1'' ''a'' 10 51)),
        sample_state 1 0 0 (bm_insert ''reservation:1'' (sample_held ''reservation:1'' ''a'' 10 51) bm_empty)
          (bm_insert ''reservation:1'' (sample_out ''reservation:1'' 10) bm_empty) 10 1 1)"
  by (simp add: prepare_def prepare_guards_def protected_after_def sample_eval)


lemma sample_step_b:
  "prepare (sample_state 1 0 0 res outs 10 1 1) ''b'' 2
     = (Ok (h_public (sample_held ''reservation:2'' ''b'' 10 52)),
        sample_state 1 1 0 (bm_insert ''reservation:2'' (sample_held ''reservation:2'' ''b'' 10 52) res)
          (bm_insert ''reservation:2'' (sample_out ''reservation:2'' 10) outs) 20 2 2)"
  by (simp add: prepare_def prepare_guards_def protected_after_def sample_eval)


lemma sum_u64_panics:
  "(\<And>x. x \<in> set xs \<Longrightarrow> f x = Ok 0 \<or> f x = Panic) \<Longrightarrow> (\<exists>x \<in> set xs. f x = Panic) \<Longrightarrow> acc \<le> u64_max \<Longrightarrow> sum_u64 f xs acc = Panic"
  by (induction xs arbitrary: acc) (auto simp: and_then_eq_Panic checked_add_def)

definition plan_limits :: TaskLimits where
  "plan_limits = \<lparr>tl_tokens = 100, tl_max_attempts = 5, tl_deadline_unix_ms = 1000, tl_verification = no_reserve\<rparr>"

definition plan_worker :: NodeAllowance where
  "plan_worker = \<lparr>na_tokens_per_attempt = 10, na_wall_ms_per_attempt = 50, na_max_attempts = 2, na_verification_attempts = 0\<rparr>"

definition plan_state :: "nat \<Rightarrow> nat \<Rightarrow> (string, Held) bmap \<Rightarrow> (string, Outstanding) bmap \<Rightarrow> nat \<Rightarrow> nat \<Rightarrow> nat \<Rightarrow> nat \<Rightarrow> TaskBudget" where
  "plan_state b p res outs spent held issued time =
     \<lparr>tb_limits = plan_limits,
      tb_tokens = \<lparr>led_accounts = bm_insert Run \<lparr>acct_limit = Some 100, acct_committed = spent, acct_reserved = held\<rparr> bm_empty,
        led_outstanding = outs, led_next = issued, led_overflowed = False\<rparr>,
      tb_nodes = bm_insert ''w'' \<lparr>nd_allowance = plan_worker, nd_begun = b, nd_prepared = p, nd_recovered = 0, nd_recovery_allowance = 1\<rparr> bm_empty,
      tb_reservations = res, tb_last_time = time, tb_breached = False, tb_call_limits = bm_empty, tb_token_scopes = bm_empty,
      tb_captured_token_scopes = bm_empty, tb_retired_attempts = 0, tb_retired_recovered = 0,
      tb_deferred_verification = True, tb_owned_templates = bm_empty, tb_owned_children = bm_empty\<rparr>"

lemmas plan_eval = plan_state_def plan_limits_def plan_worker_def sample_held_def sample_reserve_def add_def checked_mul_def
  chargeable_def used_u64_def bm_values_def reservation_scopes_def bm_eq_entries group_def ledger_eval

definition plan_held :: Held where
  "plan_held = sample_held ''reservation:1'' ''w'' 10 51"

lemma plan_steps:
  "\<exists>t. task_budget_new plan_limits (bm_insert ''w'' plan_worker bm_empty) = Ok t \<and>
     with_deferred_verification t = Ok (plan_state 0 0 bm_empty bm_empty 0 0 0 0)"
  "snd (prepare (plan_state 0 0 bm_empty bm_empty 0 0 0 0) ''w'' 1)
     = plan_state 0 1 (bm_insert ''reservation:1'' plan_held bm_empty)
         (bm_insert ''reservation:1'' (sample_out ''reservation:1'' 10) bm_empty) 0 10 1 1"
  "snd (begin_attempt (plan_state 0 1 (bm_insert ''reservation:1'' plan_held bm_empty) outs 0 10 1 1) ''reservation:1'' 2)
     = plan_state 1 0 (bm_insert ''reservation:1'' (plan_held\<lparr>h_begun := True\<rparr>) bm_empty) outs 0 10 1 2"
  "snd (settle_exact (plan_state 1 0 (bm_insert ''reservation:1'' (plan_held\<lparr>h_begun := True\<rparr>) bm_empty)
         (bm_insert ''reservation:1'' (sample_out ''reservation:1'' 10) bm_empty) 0 10 1 2) ''reservation:1'' 4)
     = plan_state 1 0 (bm_insert ''reservation:1'' (plan_held\<lparr>h_begun := True, h_settled := Some 4\<rparr>) bm_empty)
         bm_empty 4 0 1 2"
  by (simp_all add: task_budget_new_def with_deferred_verification_def prepare_def prepare_guards_def protected_after_def
      begin_attempt_def begin_refusal_def settle_exact_def observed_charge_exact_def plan_held_def
      limits_valid_def safe_number_def SAFE_INTEGER_MAX_def new_node_def DEFAULT_RECOVERY_ATTEMPTS_def bm_is_empty_def
      drop_key_def plan_eval)


abbreviation plan_settled :: TaskBudget where
  "plan_settled \<equiv> plan_state 1 0 (bm_insert ''reservation:1'' (plan_held\<lparr>h_begun := True, h_settled := Some 4\<rparr>) bm_empty)
     bm_empty 4 0 1 2"

lemma reach_prepare: "snd (prepare t node now) = t' \<Longrightarrow> reach opened task_step t \<Longrightarrow> reach opened task_step t'"
  by (auto intro: reach_step task_step.step_prepare)

lemma reach_begin: "snd (begin_attempt t rid now) = t' \<Longrightarrow> reach opened task_step t \<Longrightarrow> reach opened task_step t'"
  by (auto intro: reach_step task_step.step_begin)

lemma reach_settle: "snd (settle_exact t rid actual) = t' \<Longrightarrow> reach opened task_step t \<Longrightarrow> reach opened task_step t'"
  by (auto intro: reach_step task_step.step_settle)

lemma plan_begun: "reach opened task_step (plan_state 1 0 (bm_insert ''reservation:1'' (plan_held\<lparr>h_begun := True\<rparr>) bm_empty)
    (bm_insert ''reservation:1'' (sample_out ''reservation:1'' 10) bm_empty) 0 10 1 2)"
proof -
  obtain t where t: "task_budget_new plan_limits (bm_insert ''w'' plan_worker bm_empty) = Ok t"
    "with_deferred_verification t = Ok (plan_state 0 0 bm_empty bm_empty 0 0 0 0)"
    using plan_steps(1) by blast
  have "opened t"
    unfolding opened_def
    by (intro exI conjI, rule t(1)) (auto simp: allowances_typed_def allowance_typed_def plan_worker_def plan_limits_def uint_bounds split: if_splits)
  then have "reach opened task_step (plan_state 0 0 bm_empty bm_empty 0 0 0 0)"
    by (blast intro: reach_init reach_step step_deferred [OF t(2)])
  then show ?thesis
    by (intro reach_begin [OF plan_steps(3)] reach_prepare [OF plan_steps(2)])
qed

lemma plan_reach: "reach opened task_step plan_settled"
  by (rule reach_settle [OF plan_steps(4) plan_begun])

lemma plan_remaining:
  "remaining_limits plan_settled = Ok (plan_limits\<lparr>tl_tokens := 96, tl_max_attempts := 4\<rparr>)"
  by (simp add: remaining_limits_def chargeable_attempts_def bm_values_def plan_state_def plan_limits_def chargeable_def
      ledger_eval)

lemma plan_next:
  "\<exists>n. task_budget_new (plan_limits\<lparr>tl_tokens := 96, tl_max_attempts := 4\<rparr>) (bm_insert ''w'' plan_worker bm_empty) = Ok n \<and>
     with_call_limits n bm_empty = Ok (n\<lparr>tb_call_limits := bm_empty\<rparr>) \<and>
     with_owned_templates (n\<lparr>tb_call_limits := bm_empty\<rparr>) bm_empty = Ok (n\<lparr>tb_call_limits := bm_empty, tb_owned_templates := bm_empty\<rparr>)"
  by (simp add: task_budget_new_def plan_limits_def plan_worker_def limits_valid_def safe_number_def SAFE_INTEGER_MAX_def
      with_call_limits_def with_owned_templates_def bm_is_empty_def add_def checked_mul_def checked_add_def uint_bounds)

lemma plan_install:
  "fst (install_graph_with_owned_templates plan_settled (bm_insert ''w'' plan_worker bm_empty) bm_empty bm_empty bm_empty 5 False) = Ok ()"
proof -
  obtain n where n: "task_budget_new (plan_limits\<lparr>tl_tokens := 96, tl_max_attempts := 4\<rparr>) (bm_insert ''w'' plan_worker bm_empty) = Ok n"
    "with_call_limits n bm_empty = Ok (n\<lparr>tb_call_limits := bm_empty\<rparr>)"
    "with_owned_templates (n\<lparr>tb_call_limits := bm_empty\<rparr>) bm_empty = Ok (n\<lparr>tb_call_limits := bm_empty, tb_owned_templates := bm_empty\<rparr>)"
    using plan_next by blast
  have idle: "\<not> list_ex pending (bm_values (tb_reservations plan_settled))" "tb_deferred_verification plan_settled"
    "\<not> tb_breached plan_settled" "tb_last_time plan_settled = 2" "tb_limits plan_settled = plan_limits"
    by (simp_all add: plan_state_def bm_values_def pending_def)
  show ?thesis
    unfolding install_graph_with_owned_templates_def replacement_graph_def plan_remaining
      attempt_counts(3) [OF budget.reach_inv [OF plan_reach]]
    using idle n by (simp add: install_token_scopes_def) (simp add: plan_limits_def)
qed

lemma sample_protected: "reach protection_start running_step (sample_state 0 0 0 bm_empty bm_empty 0 0 0)"
proof (rule reach_init)
  have "allowances_typed sample_allowances" "tl_max_attempts sample_limits \<le> u32_max"
    by (auto simp: allowances_typed_def allowance_typed_def sample_allowances_def sample_verifier_def sample_worker_def
        sample_limits_def uint_bounds split: if_splits)
  then show "protection_start (sample_state 0 0 0 bm_empty bm_empty 0 0 0)"
    using sample_new unfolding protection_start_def by blast
qed

abbreviation sample_prepared :: TaskBudget where
  "sample_prepared \<equiv> sample_state 1 0 0 (bm_insert ''reservation:1'' (sample_held ''reservation:1'' ''a'' 10 51) bm_empty)
     (bm_insert ''reservation:1'' (sample_out ''reservation:1'' 10) bm_empty) 10 1 1"

lemma sample_protected_a: "reach protection_start running_step sample_prepared"
  using reach_step [OF sample_protected run_prepare [of _ "''a''" 1]] sample_step_a by simp



lemma sample_opened_a: "reach opened task_step sample_prepared"
proof -
  have "allowances_typed sample_allowances" "tl_max_attempts sample_limits \<le> u32_max"
    by (auto simp: allowances_typed_def allowance_typed_def sample_allowances_def sample_verifier_def sample_worker_def
        sample_limits_def uint_bounds split: if_splits)
  then have "reach opened task_step (sample_state 0 0 0 bm_empty bm_empty 0 0 0)"
    using sample_new unfolding opened_def by (blast intro: reach_init)
  from reach_step [OF this task_step.step_prepare [of _ "''a''" 1]] sample_step_a show ?thesis by simp
qed

lemma owed_within_reserve:
  assumes cov: "covered limits m"
  shows "bm_sum (\<lambda>_ a. tok a * owed a) m \<le> vr_tokens (reserve_left limits d m)"
    "bm_sum (\<lambda>_. owed) m \<le> vr_attempts (reserve_left limits d m)"
proof -
  have split: "bm_sum (\<lambda>_ a. tok a * ver a) m = bm_sum (\<lambda>_ a. tok a * taken a) m + bm_sum (\<lambda>_ a. tok a * owed a) m"
    "bm_sum (\<lambda>_. ver) m = bm_sum (\<lambda>_. taken) m + bm_sum (\<lambda>_. owed) m"
    by (simp_all flip: bm_sum_add distrib_left add: taken_plus_owed)
  have "bm_sum (\<lambda>_ a. tok a * owed a) m = 0" if "still_owed m = 0"
  proof (rule bm_sum_0)
    fix n a
    assume "bm_get m n = Some a"
    then show "tok a * owed a = 0" using bm_sum_ge [of m n a "\<lambda>_. owed"] that by (simp add: still_owed_def)
  qed
  then show "bm_sum (\<lambda>_ a. tok a * owed a) m \<le> vr_tokens (reserve_left limits d m)"
    "bm_sum (\<lambda>_. owed) m \<le> vr_attempts (reserve_left limits d m)"
    using coveredD(1,2) [OF cov] split
    by (auto simp: reserve_left_def less_reserve_def taken_reserve_def still_owed_def)
qed

lemma breached_step:
  assumes step: "task_step t t'" and inv: "task_inv t" and b: "tb_breached t"
  shows "tb_breached t'"
  using step
proof cases
  case (step_prepare node now)
  then show ?thesis using b by (simp add: prepare_def prepare_guards_def)
next
  case (step_install allowances calls scopes templates now preparation)
  then show ?thesis using b by (simp add: install_graph_with_owned_templates_def replacement_graph_def)
next
  case (step_release rid)
  then show ?thesis using b by (auto simp: release_attempt_def split: option.splits prod.splits res.splits)
next
  case (step_settle rid actual)
  then show ?thesis using b by (auto simp: settle_exact_def split: option.splits prod.splits res.splits)
next
  case (step_observe rid actual)
  then show ?thesis using b by (auto simp: observe_attempt_def Let_def split: option.splits prod.splits res.splits)
next
  case (step_invalidate now)
  then show ?thesis using b by (auto simp: invalidate_plan_def attempt_counts(3) [OF inv])
next
  case (step_scopes scopes)
  then show ?thesis using b install_scopes_frame(1) by (auto simp: with_token_scopes_def split: if_splits)
qed (use b in \<open>auto simp: begin_frame recover_frame retry_frame register_frame install_recovery_allowances_def recovery_frame
      with_call_limits_def with_owned_templates_def with_deferred_verification_def and_then_eq_Ok split: if_splits option.splits\<close>)














subsection \<open>Properties\<close>

text \<open>
  C2: verification that is still owed is admitted. The budgets are those that were opened or had a
  graph installed and were then driven by call limits, token scopes, owned templates and children,
  prepare, begin, settle, usage observed before settlement, retries, recovery allowances, and releases
  that do not reopen finished verification. Usage reported after a settlement, \<open>recover\<close>, experimental
  children, and the release of an unstarted verification Attempt once none is owed are not among these
  steps: the last of them can starve verification (see the property on released verification), and usage reported late spends tokens that
  settlement had already given back to other work. In such a budget that is neither breached nor still
  planning, \<open>prepare\<close> admits a verification Attempt its node is owed, provided the node's verification
  fits its Attempt limit, its allowance is positive and its recovery allowance is not exhausted, a
  reservation identity is left, the clock has not moved backwards, and the time protected for
  verification is left before the deadline.
\<close>

theorem owed_verification_is_admitted:
  assumes "reach protection_start running_step t" "\<not> tb_breached t" "\<not> tb_deferred_verification t"
    and "bm_get (tb_nodes t) node = Some a" "used a < na_verification_attempts (nd_allowance a)"
      "na_verification_attempts (nd_allowance a) \<le> na_max_attempts (nd_allowance a)"
      "0 < na_tokens_per_attempt (nd_allowance a)" "nd_recovered a \<le> nd_recovery_allowance a"
    and "led_next (tb_tokens t) < u64_max" "tb_last_time t \<le> now" "now < tl_deadline_unix_ms (tb_limits t)"
      "now + vr_wall_ms (reserve_left (tb_limits t) False (tb_nodes t)) \<le> tl_deadline_unix_ms (tb_limits t)"
  shows "\<exists>reservation t'. prepare t node now = (Ok reservation, t')"
  by (rule owed_admitted [OF protection.reach_inv [OF assms(1)] assms(2-)])

theorem owed_verification_is_admitted_witness:
  "\<exists>reservation t'. prepare sample_prepared ''b'' 2 = (Ok reservation, t')"
  by (rule owed_verification_is_admitted [OF sample_protected_a, where a = "sample_account sample_verifier 0"])
    (simp_all add: sample_state_def sample_account_def sample_verifier_def sample_limits_def used_def u64_max_def
      reserve_left_def still_owed_def bm_sum_def owed_def less_reserve_def taken_reserve_def)

text \<open>
  C3: the capacity verification is owed is kept. In every budget that the steps of the previous property reach
  (so without usage reported after settlement, \<open>recover\<close>, experimental children, and releases that
  reopen finished verification) and that is not breached, the tokens left cover every owed
  verification Attempt, the Attempts used and owed fit the Task's limit, and every call limit and
  every token scope still holds what its own nodes are owed.
\<close>

theorem verification_capacity_kept:
  assumes "reach protection_start running_step t" "\<not> tb_breached t"
  shows "bm_sum (\<lambda>_ a. na_tokens_per_attempt (nd_allowance a) * owed a) (tb_nodes t)
      \<le> (case remaining (tb_tokens t) Run of None \<Rightarrow> 0 | Some r \<Rightarrow> r) \<and>
    all_used t + bm_sum (\<lambda>_. owed) (tb_nodes t) \<le> tl_max_attempts (tb_limits t) \<and>
    (\<forall>scope lim. bm_get (tb_call_limits t) scope = Some lim \<longrightarrow> call_use (tb_nodes t) scope \<le> lim) \<and>
    (\<forall>name scope. bm_get (tb_token_scopes t) name = Some scope \<longrightarrow>
       committed (tb_tokens t) (FanOut name) + reserved (tb_tokens t) (FanOut name) + scope_owed (tb_nodes t) scope
         \<le> ts_tokens scope)"
proof -
  note p = protection.reach_inv [OF assms(1)]
  note inv = protect_invD(1) [OF p]
  note g = protect_invD(4) [OF p assms(2), unfolded guarantees_def]
  note r = owed_within_reserve [OF protect_invD(2) [OF p], of "tb_deferred_verification t"]
  have run: "scope_limit (tb_tokens t) Run = Some (tl_tokens (tb_limits t))"
    "vr_tokens (reserve_left (tb_limits t) (tb_deferred_verification t) (tb_nodes t)) \<le> tl_tokens (tb_limits t) - scope_used (tb_tokens t) Run"
    "all_used t + vr_attempts (reserve_left (tb_limits t) (tb_deferred_verification t) (tb_nodes t)) \<le> tl_max_attempts (tb_limits t)"
    using g by (auto simp: run_protected_def Let_def)
  have "(case remaining (tb_tokens t) Run of None \<Rightarrow> 0 | Some r \<Rightarrow> r) = tl_tokens (tb_limits t) - scope_used (tb_tokens t) Run"
    using remaining_eq [OF _ run(1)] g limits_bounds(4) [OF task_invD(9,8) [OF inv]] by simp
  then show ?thesis
    using r run g by (auto simp: calls_protected_def scopes_protected_def scope_used_def)
qed

theorem verification_capacity_kept_witness:
  "10 \<le> (case remaining (tb_tokens sample_prepared) Run of None \<Rightarrow> 0 | Some r \<Rightarrow> r)"
proof -
  have "\<not> tb_breached sample_prepared" by (simp add: sample_state_def)
  from verification_capacity_kept [OF sample_protected_a this] show ?thesis
    by (simp add: sample_state_def sample_account_def sample_verifier_def sample_worker_def bm_sum_def owed_def used_def)
qed

text \<open>
  C5: tokens are held exactly for the Attempts that are pending. In every budget a caller can
  reach, through any operation and across graph replacements, each scope's reserved total is the
  sum, over the reservations that were neither released nor settled and that name the scope, of
  what they reserved and have not yet spent; and the ledger's outstanding entries are exactly those
  reservations.
\<close>

theorem task_tokens_held_exactly:
  assumes "reach opened task_step t"
  shows "reserved (tb_tokens t) s = bm_sum (\<lambda>rid h. if pending h \<and> s \<in> set (res_scopes (h_tokens h))
      then tr_tokens (h_public h) - observed_charge_exact (tb_tokens t) (h_tokens h) else 0) (tb_reservations t) \<and>
    (bm_get (led_outstanding (tb_tokens t)) rid \<noteq> None \<longleftrightarrow> (\<exists>h. bm_get (tb_reservations t) rid = Some h \<and> pending h))"
proof -
  note inv = budget.reach_inv [OF assms]
  have out: "bm_get (led_outstanding (tb_tokens t)) r \<noteq> None \<longleftrightarrow> pending h" if "bm_get (tb_reservations t) r = Some h" for r h
    using task_invD(2) [OF inv that]
    by (cases "bm_get (led_outstanding (tb_tokens t)) r"; cases "pending h") (auto simp: held_ok_def)
  have "bm_sum (\<lambda>_. open_in s) (led_outstanding (tb_tokens t)) = bm_sum (\<lambda>rid h. if pending h \<and> s \<in> set (res_scopes (h_tokens h))
      then tr_tokens (h_public h) - observed_charge_exact (tb_tokens t) (h_tokens h) else 0) (tb_reservations t)"
  proof (rule bm_sum_reindex)
    fix r oh
    assume oh: "bm_get (led_outstanding (tb_tokens t)) r = Some oh"
    obtain h where h: "bm_get (tb_reservations t) r = Some h" using task_invD(3) [OF inv oh] by blast
    then have "pending h" using out [OF h] oh by simp
    then have "out_reservation oh = h_tokens h" "res_id (h_tokens h) = r" "tr_tokens (h_public h) = res_amount (h_tokens h)"
      using task_invD(2) [OF inv h] oh by (auto simp: held_ok_def)
    then show "\<exists>h. bm_get (tb_reservations t) r = Some h \<and> (if pending h \<and> s \<in> set (res_scopes (h_tokens h))
        then tr_tokens (h_public h) - observed_charge_exact (tb_tokens t) (h_tokens h) else 0) = open_in s oh"
      using h oh \<open>pending h\<close> by (auto simp: open_in_def observed_charge_exact_def)
  next
    fix r h
    assume "bm_get (tb_reservations t) r = Some h" "bm_get (led_outstanding (tb_tokens t)) r = None"
    then have "\<not> pending h" using out by blast
    then show "(if pending h \<and> s \<in> set (res_scopes (h_tokens h))
        then tr_tokens (h_public h) - observed_charge_exact (tb_tokens t) (h_tokens h) else 0) = 0" by simp
  qed
  moreover have "bm_get (led_outstanding (tb_tokens t)) rid \<noteq> None \<longleftrightarrow> (\<exists>h. bm_get (tb_reservations t) rid = Some h \<and> pending h)"
    using out task_invD(3) [OF inv, of rid] by blast
  ultimately show ?thesis using ledger_invD(1) [OF task_invD(1) [OF inv], of s] by simp
qed

theorem task_tokens_held_exactly_witness:
  "reserved (tb_tokens sample_prepared) Run = 10"
  using task_tokens_held_exactly [OF sample_opened_a, of Run "''reservation:1''"]
  by (simp add: sample_state_def sample_held_def sample_reserve_def bm_sum_def pending_def observed_charge_exact_def)



text \<open>
  C14: a breached budget dispatches nothing, for good. Once usage beyond a reservation, or a charge
  that cannot be represented, has breached the budget, it stays breached through every later
  operation, and every prepare, every begin and every graph installation is refused.
\<close>

theorem breach_stops_dispatch:
  assumes "reach opened task_step t" "tb_breached t" "task_step\<^sup>*\<^sup>* t t'"
  shows "tb_breached t' \<and> prepare t' node now = (Err BreachedOrBackwards, t') \<and>
    fst (begin_attempt t' rid now) \<noteq> Ok () \<and> snd (begin_attempt t' rid now) = t' \<and>
    install_graph_with_owned_templates t' allowances calls scopes templates now preparation = (Err CannotAdvance, t')"
proof -
  have breached: "tb_breached t'"
    using assms(3)
  proof (induction rule: rtranclp_induct)
    case (step y z)
    then show ?case using breached_step budget.steps_inv [OF budget.reach_inv [OF assms(1)]] by blast
  qed (rule assms(2))
  have refusal: "\<exists>reason. begin_refusal t' h now = Some reason" for h
    using breached by (auto simp: begin_refusal_def split: option.splits)
  have "fst (begin_attempt t' rid now) \<noteq> Ok () \<and> snd (begin_attempt t' rid now) = t'"
  proof (cases "bm_get (tb_reservations t') rid")
    case (Some h)
    then show ?thesis using refusal [of h] by (auto simp: begin_attempt_def)
  qed (simp add: begin_attempt_def)
  then show ?thesis
    using breached by (simp add: prepare_def prepare_guards_def install_graph_with_owned_templates_def replacement_graph_def)
qed

lemma plan_breached:
  "tb_breached (snd (settle_exact (plan_state 1 0 (bm_insert ''reservation:1'' (plan_held\<lparr>h_begun := True\<rparr>) bm_empty)
     (bm_insert ''reservation:1'' (sample_out ''reservation:1'' 10) bm_empty) 0 10 1 2) ''reservation:1'' 40))"
  by (simp add: settle_exact_def observed_charge_exact_def plan_held_def drop_key_def plan_eval)

theorem breach_stops_dispatch_witness:
  "\<exists>t. tb_breached t \<and> prepare t ''w'' 9 = (Err BreachedOrBackwards, t)"
  using breach_stops_dispatch [OF reach_settle [OF refl plan_begun] plan_breached rtranclp.rtrancl_refl, of "''w''" 9]
  by blast

text \<open>
  C15: preparing an Attempt is all or nothing. In every reachable budget \<open>prepare\<close> either refuses
  and changes nothing, or returns a reservation under an identity never used before, for exactly
  the node's tokens and with a deadline inside the Task's; it reserves those tokens in the Run
  scope, spends nothing, counts one more Attempt, leaves every other node and reservation alone,
  and has checked that tokens, Attempts and time still owed to verification remain beside it.
\<close>

theorem prepare_all_or_nothing:
  assumes "reach opened task_step t" "prepare t node now = (r, t')"
  shows "(\<exists>e. r = Err e \<and> t' = t) \<or>
    (\<exists>a p public. r = Ok public \<and> bm_get (tb_nodes t) node = Some a \<and> protected_after t node = Ok p \<and>
       tr_node public = node \<and> tr_tokens public = na_tokens_per_attempt (nd_allowance a) \<and>
       tr_deadline_unix_ms public = now + na_wall_ms_per_attempt (nd_allowance a) \<and>
       tr_deadline_unix_ms public + vr_wall_ms p \<le> tl_deadline_unix_ms (tb_limits t) \<and>
       bm_get (tb_reservations t) (tr_id public) = None \<and>
       (\<exists>h. bm_get (tb_reservations t') (tr_id public) = Some h \<and> h_public h = public \<and> pending h \<and> \<not> h_begun h) \<and>
       (\<forall>rid. rid \<noteq> tr_id public \<longrightarrow> bm_get (tb_reservations t') rid = bm_get (tb_reservations t) rid) \<and>
       tb_nodes t' = bm_insert node (a\<lparr>nd_prepared := nd_prepared a + 1\<rparr>) (tb_nodes t) \<and>
       reserved_tokens t' = reserved_tokens t + tr_tokens public \<and> committed_tokens t' = committed_tokens t \<and>
       tr_tokens public + vr_tokens p \<le> (case remaining (tb_tokens t) Run of None \<Rightarrow> 0 | Some x \<Rightarrow> x) \<and>
       all_used t' = all_used t + 1 \<and> all_used t' + vr_attempts p \<le> tl_max_attempts (tb_limits t))"
proof -
  note inv = budget.reach_inv [OF assms(1)]
  show ?thesis
    using inv
  proof (cases rule: prepare_cases [of t node now])
    case (prepared a p scopes)
    let ?h = "new_held t node (now + na_wall_ms_per_attempt (nd_allowance a)) (na_tokens_per_attempt (nd_allowance a)) scopes"
    have adm: "bm_get (tb_nodes t) node = Some a" "reservation_scopes_from t node (bm_entries (tb_token_scopes t)) = Ok scopes"
      using prepared(1) by (simp_all add: admissible_def reservation_scopes_def)
    have r: "r = Ok (h_public ?h)" "t' = after_prepare t node now a scopes" using prepared(3) assms(2) by simp_all
    have h: "h_public ?h = \<lparr>tr_id = reservation_id (led_next (tb_tokens t) + 1), tr_node = node,
        tr_tokens = na_tokens_per_attempt (nd_allowance a), tr_deadline_unix_ms = now + na_wall_ms_per_attempt (nd_allowance a)\<rparr>"
      "pending ?h" "\<not> h_begun ?h"
      by (simp_all add: new_held_def Let_def granted_def pending_def)
    have "all_used t' = all_used t + 1"
      using bm_sum_insert_upd [OF adm(1), of "\<lambda>_. used" "a\<lparr>nd_prepared := nd_prepared a + 1\<rparr>"]
      by (simp add: r(2) after_prepare_def all_used_def used_def)
    moreover have "reserved_tokens t' = reserved_tokens t + na_tokens_per_attempt (nd_allowance a)" "committed_tokens t' = committed_tokens t"
      using scopes_have_Run [OF adm(2)]
      by (simp_all add: reserved_tokens_def committed_tokens_def r(2) after_prepare_def after_reserve_def
          committed_account reserved_account account_update_accounts)
    ultimately show ?thesis
      using prepared(1) fresh_held [OF inv] h
      by (intro disjI2 exI [of _ a] exI [of _ p] exI [of _ "h_public ?h"])
        (auto simp: r admissible_def after_prepare_def)
  qed (use assms(2) in auto)
qed

theorem prepare_all_or_nothing_witness:
  "\<exists>t'. prepare sample_prepared ''b'' 2 = (Ok (h_public (sample_held ''reservation:2'' ''b'' 10 52)), t') \<and>
     all_used t' = all_used sample_prepared + 1"
  using prepare_all_or_nothing [OF sample_opened_a sample_step_b] sample_step_b by auto

text \<open>
  usage reported after settlement only raises the charge. For a settled Attempt, an
  observation not above its settlement changes no account; a higher one commits exactly the
  difference in every scope of the reservation and reserves nothing, and becomes the new
  settlement; one whose total does not fit 128 bits is refused, changes no account and breaches
  the budget. The budget is breached exactly when it was, or the usage exceeds the reservation.
\<close>

theorem late_usage_only_raises:
  assumes "reach opened task_step t" "bm_get (tb_reservations t) rid = Some h" "h_settled h = Some old"
    and "observe_attempt t rid actual = (r, t')"
  shows "if actual \<le> old then r = Ok () \<and> tb_tokens t' = tb_tokens t \<and> tb_reservations t' = tb_reservations t
    else if \<forall>s \<in> set (res_scopes (h_tokens h)). committed (tb_tokens t) s + (actual - old) \<le> u128_max then
      r = Ok () \<and> h_settled (the (bm_get (tb_reservations t') rid)) = Some actual \<and>
      (\<forall>s. committed (tb_tokens t') s = committed (tb_tokens t) s +
         (if s \<in> set (res_scopes (h_tokens h)) then actual - old else 0)) \<and>
      (\<forall>s. reserved (tb_tokens t') s = reserved (tb_tokens t) s) \<and>
      tb_breached t' = (tb_breached t \<or> tr_tokens (h_public h) < actual)
    else r = Err ObservedOverflow \<and> tb_tokens t' = tb_tokens t \<and> tb_breached t'"
proof -
  note inv = budget.reach_inv [OF assms(1)]
  have h: "h_begun h" "\<not> h_released h" "tr_tokens (h_public h) = res_amount (h_tokens h)"
    using task_invD(2) [OF inv assms(2)] assms(3) by (auto simp: held_ok_def)
  have fits: "late_charge b d ss l = None \<longleftrightarrow> \<not> (\<forall>s \<in> set ss. committed b s + d \<le> u128_max)" for b d ss l
    by (induction ss arbitrary: l) (auto simp: checked_add_def)
  show ?thesis
  proof (cases "late_charge (tb_tokens t) (actual - old) (res_scopes (h_tokens h)) (tb_tokens t)")
    case None
    then have no: "\<not> (\<forall>s \<in> set (res_scopes (h_tokens h)). committed (tb_tokens t) s + (actual - old) \<le> u128_max)"
      using fits by blast
    show ?thesis
      unfolding if_not_P [OF no] using assms(2-4) h None by (auto simp: observe_attempt_def Let_def split: if_splits)
  next
    case (Some l)
    then have yes: "\<forall>s \<in> set (res_scopes (h_tokens h)). committed (tb_tokens t) s + (actual - old) \<le> u128_max"
      using fits by (metis option.distinct(1))
    show ?thesis
      unfolding if_P [OF yes] using assms(2-4) h Some late_charge_views [OF Some] by (auto simp: observe_attempt_def Let_def split: if_splits)
  qed
qed

theorem late_usage_only_raises_witness:
  "\<exists>t'. observe_attempt plan_settled ''reservation:1'' 9 = (Ok (), t') \<and> committed (tb_tokens t') Run = 9"
proof -
  have h: "bm_get (tb_reservations plan_settled) ''reservation:1'' = Some (plan_held\<lparr>h_begun := True, h_settled := Some 4\<rparr>)"
    "h_settled (plan_held\<lparr>h_begun := True, h_settled := Some 4\<rparr>) = Some 4"
    "res_scopes (h_tokens (plan_held\<lparr>h_begun := True, h_settled := Some 4\<rparr>)) = [Run]"
    "committed (tb_tokens plan_settled) Run = 4"
    by (simp_all add: plan_state_def plan_held_def sample_held_def sample_reserve_def committed_def)
  obtain r t' where o: "observe_attempt plan_settled ''reservation:1'' 9 = (r, t')" by force
  show ?thesis
    using late_usage_only_raises [OF plan_reach h(1,2) o] h(3,4) o by (simp add: u128_max_def)
qed

text \<open>
  C36: recovering an Attempt of a replaced graph corrupts the Attempt count. When a graph is
  replaced by one that reuses a node's name, \<open>recover\<close> accepts a settled Attempt of the old graph,
  counts it against the new account, which has begun nothing, and every later count of the
  Attempts (as \<open>prepare\<close>, \<open>remaining_limits\<close> and a further replacement do) underflows.
\<close>

theorem stale_recovery_underflows:
  assumes "reach opened task_step t" "allowances_typed allowances"
    and "install_graph_with_owned_templates t allowances calls scopes templates now preparation = (Ok (), t1)"
    and "bm_get (tb_reservations t) rid = Some h" "h_settled h \<noteq> None" "\<not> h_recovered h"
    and "bm_get allowances (tr_node (h_public h)) \<noteq> None"
  shows "\<exists>t2. recover t1 rid = (Ok (), t2) \<and> (chargeable_attempts t2 :: (TaskError, nat) res) = Panic \<and>
    (recovery t2 (tr_node (h_public h)) :: (TaskError, NodeRecovery option) res) = Panic"
proof -
  note inv = budget.reach_inv [OF assms(1)]
  have "replacement_graph t allowances calls scopes templates now preparation = Ok t1"
    using install_graph_cases [OF assms(3)] by auto
  then have "install_token_scopes (replaced t allowances calls templates now preparation) scopes = Ok t1"
    using replacement_graph_Ok [OF inv] by metis
  then have t1: "tb_nodes t1 = bm_map (\<lambda>_. new_node) allowances" "tb_reservations t1 = tb_reservations t"
    by (auto simp: install_token_scopes_def and_then_eq_Ok replaced_def)
  let ?n = "tr_node (h_public h)"
  obtain al where al: "bm_get allowances ?n = Some al" using assms(7) by auto
  let ?a = "(new_node al)\<lparr>nd_recovered := 1\<rparr>"
  let ?t2 = "t1\<lparr>tb_nodes := bm_insert ?n ?a (tb_nodes t1), tb_reservations := bm_insert rid (h\<lparr>h_recovered := True\<rparr>) (tb_reservations t1)\<rparr>"
  have "h_begun h" "\<not> h_released h" using task_invD(2) [OF inv assms(4)] assms(5) by (auto simp: held_ok_def)
  then have rec: "recover t1 rid = (Ok (), ?t2)"
    using assms(4-6) al by (simp add: recover_def t1 checked_add_def uint_bounds)
  have bad: "(chargeable ?a :: (TaskError, nat) res) = Panic" by (simp add: chargeable_def checked_sub_def)
  have "(chargeable a :: (TaskError, nat) res) = Ok 0 \<or> (chargeable a :: (TaskError, nat) res) = Panic" if "a \<in> set (bm_values (tb_nodes ?t2))" for a
    using that bad by (auto simp: set_bm_values ran_def t1 chargeable_def checked_sub_def split: if_splits)
  moreover have "\<exists>a \<in> set (bm_values (tb_nodes ?t2)). (chargeable a :: (TaskError, nat) res) = Panic"
    using bad by (intro bexI [of _ ?a]) (auto simp: set_bm_values ran_def)
  ultimately have "sum_u64 chargeable (bm_values (tb_nodes ?t2)) 0 = (Panic :: (TaskError, nat) res)"
    by (intro sum_u64_panics) auto
  then have "(chargeable_attempts ?t2 :: (TaskError, nat) res) = Panic" by (simp add: chargeable_attempts_def)
  moreover have "(recovery ?t2 ?n :: (TaskError, NodeRecovery option) res) = Panic"
    using bad by (simp add: recovery_def)
  ultimately show ?thesis using rec by blast
qed

theorem stale_recovery_underflows_witness:
  "\<exists>t1 t2. recover t1 ''reservation:1'' = (Ok (), t2) \<and> (chargeable_attempts t2 :: (TaskError, nat) res) = Panic"
proof -
  obtain t1 where t1: "install_graph_with_owned_templates plan_settled (bm_insert ''w'' plan_worker bm_empty)
      bm_empty bm_empty bm_empty 5 False = (Ok (), t1)"
    using plan_install by (metis prod.collapse)
  have ty: "allowances_typed (bm_insert ''w'' plan_worker bm_empty)"
    by (auto simp: allowances_typed_def allowance_typed_def plan_worker_def uint_bounds split: if_splits)
  have h: "bm_get (tb_reservations plan_settled) ''reservation:1'' = Some (plan_held\<lparr>h_begun := True, h_settled := Some 4\<rparr>)"
    by (simp add: plan_state_def)
  show ?thesis
    using stale_recovery_underflows [OF plan_reach ty t1 h] by (auto simp: plan_held_def sample_held_def)
qed



end
