(* ===== verification/Plan.thy ===== *)
theory Plan
  imports CoreTypes
begin

text \<open>
  The typed pipeline graph of \<^verbatim>\<open>crates/review-graph/src/plan.rs\<close>: nodes with named typed ports, edges
  between ports, the checks \<open>Pipeline::plan\<close> makes before anything runs, the deterministic
  topological order (Kahn's algorithm, lowest identifier first) and the gates a node depends on.

  \<open>well_formed\<close> and \<open>precedes\<close> state declaratively what planning promises; the lemmas show that
  \<open>plan\<close> accepts exactly the well-formed acyclic pipelines and that the order it returns is
  determined by the node identifiers and the dependency relation alone.
\<close>

subsection \<open>Data\<close>

record Port =
  port_node :: string
  port_name :: string

record Edge =
  edge_from :: Port
  edge_to :: Port

record PortContract =
  pc_name :: string
  pc_artifact_type :: string
  pc_cardinality :: PortCardinality
  pc_optional :: bool
  pc_snapshot_affinity :: SnapshotAffinity

datatype NodeKind = Task | Generation | Gate | Reviewer | Slicer | Scatter | Gather | Ledger

record Node =
  node_id :: string
  node_kind :: NodeKind
  node_inputs :: "PortContract list"
  node_outputs :: "PortContract list"
  node_gated_by :: "string option"

record Pipeline =
  pl_nodes :: "Node list"
  pl_edges :: "Edge list"

datatype PlanError =
    DuplicateNode string
  | UnknownNode string string
  | UnknownPort string Port
  | DuplicatePort string string
  | InvalidArtifactType Port string
  | TypeMismatch string string string
  | CardinalityMismatch string PortCardinality PortCardinality
  | SnapshotAffinityMismatch string SnapshotAffinity SnapshotAffinity
  | OptionalityMismatch string
  | MultipleWriters Port
  | UnwiredInput Port
  | Cycle "string list"
  | UnknownGate string string

record Planned =
  nodes :: "(string, Node) bmap"
  edges :: "Edge list"
  order :: "string list"

definition new_port :: "string \<Rightarrow> string \<Rightarrow> Port" where
  "new_port n p = \<lparr>port_node = n, port_name = p\<rparr>"

definition new_contract :: "string \<Rightarrow> string \<Rightarrow> PortContract" where
  "new_contract n t = \<lparr>pc_name = n, pc_artifact_type = t, pc_cardinality = One,
     pc_optional = False, pc_snapshot_affinity = SameSubject\<rparr>"

definition with_cardinality :: "PortContract \<Rightarrow> PortCardinality \<Rightarrow> PortContract" where
  "with_cardinality c k = c\<lparr>pc_cardinality := k\<rparr>"

definition optional :: "PortContract \<Rightarrow> PortContract" where
  "optional c = c\<lparr>pc_optional := True\<rparr>"

definition with_snapshot_affinity :: "PortContract \<Rightarrow> SnapshotAffinity \<Rightarrow> PortContract" where
  "with_snapshot_affinity c a = c\<lparr>pc_snapshot_affinity := a\<rparr>"

definition new_graph_node :: "string \<Rightarrow> NodeKind \<Rightarrow> Node" where
  "new_graph_node n k = \<lparr>node_id = n, node_kind = k, node_inputs = [], node_outputs = [], node_gated_by = None\<rparr>"

definition accepting_contracts :: "Node \<Rightarrow> PortContract list \<Rightarrow> Node" where
  "accepting_contracts n ports = n\<lparr>node_inputs := ports\<rparr>"

definition emitting_contracts :: "Node \<Rightarrow> PortContract list \<Rightarrow> Node" where
  "emitting_contracts n ports = n\<lparr>node_outputs := ports\<rparr>"

definition gated_by :: "Node \<Rightarrow> string \<Rightarrow> Node" where
  "gated_by n gate = n\<lparr>node_gated_by := Some gate\<rparr>"

definition add_node :: "Pipeline \<Rightarrow> Node \<Rightarrow> Pipeline" where
  "add_node p n = p\<lparr>pl_nodes := pl_nodes p @ [n]\<rparr>"

definition add_edge :: "Pipeline \<Rightarrow> Port \<Rightarrow> Port \<Rightarrow> Pipeline" where
  "add_edge p f t = p\<lparr>pl_edges := pl_edges p @ [\<lparr>edge_from = f, edge_to = t\<rparr>]\<rparr>"

subsection \<open>The text of a planning error\<close>

fun cardinality_debug :: "PortCardinality \<Rightarrow> string" where
  "cardinality_debug One = ''One''"
| "cardinality_debug Many = ''Many''"

fun affinity_debug :: "SnapshotAffinity \<Rightarrow> string" where
  "affinity_debug SameSubject = ''SameSubject''"
| "affinity_debug Unbound = ''Unbound''"
| "affinity_debug Any = ''Any''"

fun join :: "string \<Rightarrow> string list \<Rightarrow> string" where
  "join sep [] = []"
| "join sep [x] = x"
| "join sep (x # y # xs) = x @ sep @ join sep (y # xs)"

fun plan_error_text :: "PlanError \<Rightarrow> string" where
  "plan_error_text (DuplicateNode i) = ''duplicate node id: '' @ i"
| "plan_error_text (UnknownNode e n) = ''edge '' @ e @ '' names an unknown node: '' @ n"
| "plan_error_text (UnknownPort e p) = ''edge '' @ e @ '' names port '' @ port_node p @ ''.'' @ port_name p
     @ '' which that node does not declare''"
| "plan_error_text (DuplicatePort n p) = ''node '' @ n @ '' declares port '' @ p @ '' more than once''"
| "plan_error_text (InvalidArtifactType p t) = ''port '' @ port_node p @ ''.'' @ port_name p
     @ '' has invalid versioned artifact type '' @ t"
| "plan_error_text (TypeMismatch e p a) = ''edge '' @ e @ '' carries '' @ p @ '', but its input accepts '' @ a"
| "plan_error_text (CardinalityMismatch e p a) = ''edge '' @ e @ '' has incompatible cardinality ''
     @ cardinality_debug p @ '' -> '' @ cardinality_debug a"
| "plan_error_text (SnapshotAffinityMismatch e p a) = ''edge '' @ e @ '' has incompatible snapshot affinity ''
     @ affinity_debug p @ '' -> '' @ affinity_debug a"
| "plan_error_text (OptionalityMismatch e) = ''edge '' @ e @ '' feeds a required input from an optional output''"
| "plan_error_text (MultipleWriters p) = ''single-valued input '' @ port_node p @ ''.'' @ port_name p
     @ '' has more than one writer''"
| "plan_error_text (UnwiredInput p) = ''input '' @ port_node p @ ''.'' @ port_name p
     @ '' has nothing wired to it; a node that silently receives nothing produces a confident review of an empty input''"
| "plan_error_text (Cycle ns) = ''cycle: '' @ join '' -> '' ns"
| "plan_error_text (UnknownGate n g) = ''node '' @ n @ '' is gated by unknown gate '' @ g"

subsection \<open>Validation\<close>

fun collect_nodes :: "Node list \<Rightarrow> (string, Node) bmap \<Rightarrow> (PlanError, (string, Node) bmap) res" where
  "collect_nodes [] m = Ok m"
| "collect_nodes (n # ns) m =
     (if bm_contains m (node_id n) then Err (DuplicateNode (node_id n))
      else collect_nodes ns (bm_insert (node_id n) n m))"

fun check_contracts :: "string \<Rightarrow> string set \<Rightarrow> PortContract list \<Rightarrow> (PlanError, unit) res" where
  "check_contracts i names [] = Ok ()"
| "check_contracts i names (c # cs) =
     (if pc_name c \<in> names then Err (DuplicatePort i (pc_name c))
      else if \<not> is_artifact_type (pc_artifact_type c)
        then Err (InvalidArtifactType (new_port i (pc_name c)) (pc_artifact_type c))
      else check_contracts i (insert (pc_name c) names) cs)"

definition check_ports :: "Node \<Rightarrow> (PlanError, unit) res" where
  "check_ports n = each (check_contracts (node_id n) {}) [node_inputs n, node_outputs n]"

definition edge_label :: "Edge \<Rightarrow> string" where
  "edge_label e = port_node (edge_from e) @ ''.'' @ port_name (edge_from e) @ '' -> ''
     @ port_node (edge_to e) @ ''.'' @ port_name (edge_to e)"

definition check_endpoint ::
  "(string, Node) bmap \<Rightarrow> string \<Rightarrow> Port \<Rightarrow> (Node \<Rightarrow> PortContract list) \<Rightarrow> (PlanError, unit) res" where
  "check_endpoint ns label port declared =
     (case bm_get ns (port_node port) of
        None \<Rightarrow> Err (UnknownNode label (port_node port))
      | Some spec \<Rightarrow>
          if list_ex (\<lambda>c. pc_name c = port_name port) (declared spec) then Ok ()
          else Err (UnknownPort label port))"

definition find_port :: "PortContract list \<Rightarrow> string \<Rightarrow> PortContract option" where
  "find_port ps p = List.find (\<lambda>c. pc_name c = p) ps"

definition check_edge :: "(string, Node) bmap \<Rightarrow> Edge \<Rightarrow> (PlanError, unit) res" where
  "check_edge ns e =
     (let label = edge_label e in
      and_then (check_endpoint ns label (edge_from e) node_outputs) (\<lambda>_.
      and_then (check_endpoint ns label (edge_to e) node_inputs) (\<lambda>_.
      and_then (expect (bm_get ns (port_node (edge_from e)))) (\<lambda>source.
      and_then (expect (find_port (node_outputs source) (port_name (edge_from e)))) (\<lambda>produced.
      and_then (expect (bm_get ns (port_node (edge_to e)))) (\<lambda>target.
      and_then (expect (find_port (node_inputs target) (port_name (edge_to e)))) (\<lambda>accepted.
        if pc_artifact_type produced \<noteq> pc_artifact_type accepted
          then Err (TypeMismatch label (pc_artifact_type produced) (pc_artifact_type accepted))
        else if pc_cardinality produced = Many \<and> pc_cardinality accepted = One
          then Err (CardinalityMismatch label (pc_cardinality produced) (pc_cardinality accepted))
        else if pc_snapshot_affinity accepted \<noteq> Any
              \<and> pc_snapshot_affinity produced \<noteq> pc_snapshot_affinity accepted
          then Err (SnapshotAffinityMismatch label (pc_snapshot_affinity produced) (pc_snapshot_affinity accepted))
        else if pc_optional produced \<and> \<not> pc_optional accepted then Err (OptionalityMismatch label)
        else Ok ())))))))"

definition writers :: "Edge list \<Rightarrow> string \<Rightarrow> string \<Rightarrow> nat" where
  "writers es n p = length (filter (\<lambda>e. port_node (edge_to e) = n \<and> port_name (edge_to e) = p) es)"

definition check_input :: "Edge list \<Rightarrow> string \<Rightarrow> PortContract \<Rightarrow> (PlanError, unit) res" where
  "check_input es n c =
     (if writers es n (pc_name c) = 0 \<and> \<not> pc_optional c then Err (UnwiredInput (new_port n (pc_name c)))
      else if 1 < writers es n (pc_name c) \<and> pc_cardinality c = One
        then Err (MultipleWriters (new_port n (pc_name c)))
      else Ok ())"

definition check_wiring :: "(string, Node) bmap \<Rightarrow> Edge list \<Rightarrow> Node \<Rightarrow> (PlanError, unit) res" where
  "check_wiring ns es n =
     and_then (each (check_input es (node_id n)) (node_inputs n)) (\<lambda>_.
       case node_gated_by n of
         None \<Rightarrow> Ok ()
       | Some gate \<Rightarrow> if bm_contains ns gate then Ok () else Err (UnknownGate (node_id n) gate))"

subsection \<open>The execution order\<close>

definition add_incoming :: "string \<Rightarrow> string \<Rightarrow> (string, string set) bmap \<Rightarrow> (string, string set) bmap" where
  "add_incoming k d m = bm_insert k (insert d (case bm_get m k of None \<Rightarrow> {} | Some s \<Rightarrow> s)) m"

definition incoming :: "(string, Node) bmap \<Rightarrow> Edge list \<Rightarrow> (string, string set) bmap" where
  "incoming ns es =
     fold (\<lambda>n m. case node_gated_by n of None \<Rightarrow> m | Some gate \<Rightarrow> add_incoming (node_id n) gate m)
       (bm_values ns)
       (fold (\<lambda>e. add_incoming (port_node (edge_to e)) (port_node (edge_from e))) es
         (bm_map (\<lambda>_ _. {}) ns))"

function topo_loop :: "(string, string set) bmap \<Rightarrow> string list \<Rightarrow> (PlanError, string list) res" where
  "topo_loop remaining placed =
     (if bm_is_empty remaining then Ok placed
      else (case map fst (filter (\<lambda>e. snd e = {}) (bm_entries remaining)) of
              [] \<Rightarrow> Err (Cycle (sort (bm_keys remaining)))
            | next # _ \<Rightarrow> topo_loop (bm_map (\<lambda>_ deps. deps - {next}) (bm_remove next remaining)) (placed @ [next])))"
  by pat_completeness auto

definition topological_order :: "(string, Node) bmap \<Rightarrow> Edge list \<Rightarrow> (PlanError, string list) res" where
  "topological_order ns es = topo_loop (incoming ns es) []"

definition plan :: "Pipeline \<Rightarrow> (PlanError, Planned) res" where
  "plan p =
     and_then (collect_nodes (pl_nodes p) bm_empty) (\<lambda>ns.
     and_then (each check_ports (bm_values ns)) (\<lambda>_.
     and_then (each (check_edge ns) (pl_edges p)) (\<lambda>_.
     and_then (each (check_wiring ns (pl_edges p)) (bm_values ns)) (\<lambda>_.
     and_then (topological_order ns (pl_edges p)) (\<lambda>ord.
       Ok \<lparr>nodes = ns, edges = pl_edges p, order = ord\<rparr>)))))"

subsection \<open>Queries of a plan\<close>

definition dependencies_of :: "Planned \<Rightarrow> string \<Rightarrow> Edge list" where
  "dependencies_of q n = filter (\<lambda>e. port_node (edge_to e) = n) (edges q)"

text \<open>The depth-first walk over ancestors; the top of the stack is the head of the list.\<close>

function gates_loop :: "Planned \<Rightarrow> string set \<Rightarrow> string list \<Rightarrow> string set \<Rightarrow> string set" where
  "gates_loop q seen [] gates = gates"
| "gates_loop q seen (current # stack) gates =
     (if current \<in> seen then gates_loop q seen stack gates
      else gates_loop q (insert current seen)
        (rev (map (\<lambda>e. port_node (edge_from e)) (dependencies_of q current)) @ stack)
        (case bm_get (nodes q) current of
           None \<Rightarrow> gates
         | Some spec \<Rightarrow> (case node_gated_by spec of None \<Rightarrow> gates | Some gate \<Rightarrow> insert gate gates)))"
  by pat_completeness auto

definition gates_for :: "Planned \<Rightarrow> string \<Rightarrow> string set" where
  "gates_for q n = gates_loop q {} [n] {}"

termination topo_loop
proof (relation "measure (\<lambda>(r, _). card (dom (bm_get r)))")
  fix r :: "(string, string set) bmap" and p :: "string list" and n ns
  assume "map fst (filter (\<lambda>e. snd e = {}) (bm_entries r)) = n # ns"
  then have "n \<in> set (map fst (filter (\<lambda>e. snd e = {}) (bm_entries r)))" by simp
  then have "(n, {}) \<in> set (bm_entries r)" by auto
  then have "n \<in> dom (bm_get r)" unfolding bm_get_iff_entry [symmetric] by blast
  moreover have "dom (bm_get (bm_map (\<lambda>_ deps. deps - {n}) (bm_remove n r))) = dom (bm_get r) - {n}"
    by (auto split: if_splits)
  ultimately show "((bm_map (\<lambda>_ deps. deps - {n}) (bm_remove n r), p @ [n]), r, p)
      \<in> measure (\<lambda>(r, _). card (dom (bm_get r)))"
    by (simp add: card_Diff1_less del: card_Diff_insert)
qed simp

declare topo_loop.simps [simp del]

definition sources_of :: "Planned \<Rightarrow> string set" where
  "sources_of q = (\<lambda>e. port_node (edge_from e)) ` set (edges q)"

lemma dependencies_sources:
  "(\<lambda>e. port_node (edge_from e)) ` set (dependencies_of q n) \<subseteq> sources_of q"
  by (auto simp: dependencies_of_def sources_of_def)

termination gates_loop
proof (relation "measures [\<lambda>(q, seen, stack, _). card ((sources_of q \<union> set stack) - seen), \<lambda>(_, _, stack, _). length stack]",
    goal_cases)
  case 1
  then show ?case by simp
next
  case (2 q seen current stack gates)
  then have "(sources_of q \<union> set (current # stack)) - seen = (sources_of q \<union> set stack) - seen" by auto
  then show ?case by simp
next
  case (3 q seen current stack gates)
  let ?new = "rev (map (\<lambda>e. port_node (edge_from e)) (dependencies_of q current)) @ stack"
  have "(sources_of q \<union> set ?new) - insert current seen \<subset> (sources_of q \<union> set (current # stack)) - seen"
    using 3 dependencies_sources [of q current] by auto
  moreover have "finite ((sources_of q \<union> set (current # stack)) - seen)" by (simp add: sources_of_def)
  ultimately show ?case by (simp add: psubset_card_mono)
qed

subsection \<open>What planning promises\<close>

text \<open>The declarative contract: ports, edges, wiring, gates, and the dependency relation.\<close>

definition ports_ok :: "PortContract list \<Rightarrow> bool" where
  "ports_ok cs = (distinct (map pc_name cs) \<and> (\<forall>c \<in> set cs. is_artifact_type (pc_artifact_type c)))"

definition compatible :: "PortContract \<Rightarrow> PortContract \<Rightarrow> bool" where
  "compatible produced accepted =
     (pc_artifact_type produced = pc_artifact_type accepted
      \<and> (pc_cardinality produced = Many \<longrightarrow> pc_cardinality accepted = Many)
      \<and> (pc_snapshot_affinity accepted = Any \<or> pc_snapshot_affinity produced = pc_snapshot_affinity accepted)
      \<and> (pc_optional produced \<longrightarrow> pc_optional accepted))"

definition edge_typed :: "Node list \<Rightarrow> Edge \<Rightarrow> bool" where
  "edge_typed ns e =
     (\<exists>source \<in> set ns. \<exists>target \<in> set ns. \<exists>produced \<in> set (node_outputs source). \<exists>accepted \<in> set (node_inputs target).
        node_id source = port_node (edge_from e) \<and> node_id target = port_node (edge_to e)
        \<and> pc_name produced = port_name (edge_from e) \<and> pc_name accepted = port_name (edge_to e)
        \<and> compatible produced accepted)"

definition wired :: "Edge list \<Rightarrow> Node \<Rightarrow> bool" where
  "wired es n = (\<forall>c \<in> set (node_inputs n).
     (pc_optional c \<or> writers es (node_id n) (pc_name c) \<noteq> 0)
     \<and> (pc_cardinality c = Many \<or> writers es (node_id n) (pc_name c) \<le> 1))"

definition well_formed :: "Pipeline \<Rightarrow> bool" where
  "well_formed p =
     (distinct (map node_id (pl_nodes p))
      \<and> (\<forall>n \<in> set (pl_nodes p). ports_ok (node_inputs n) \<and> ports_ok (node_outputs n) \<and> wired (pl_edges p) n
           \<and> (\<forall>gate. node_gated_by n = Some gate \<longrightarrow> gate \<in> node_id ` set (pl_nodes p)))
      \<and> (\<forall>e \<in> set (pl_edges p). edge_typed (pl_nodes p) e))"

definition precedes :: "Pipeline \<Rightarrow> (string \<times> string) set" where
  "precedes p = {(port_node (edge_from e), port_node (edge_to e)) | e. e \<in> set (pl_edges p)}
     \<union> {(gate, node_id n) | gate n. n \<in> set (pl_nodes p) \<and> node_gated_by n = Some gate}"

subsection \<open>Validation accepts exactly the well-formed pipelines\<close>

lemma collect_nodes_Ok:
  "collect_nodes ns m = Ok m' \<longleftrightarrow>
     distinct (map node_id ns) \<and> node_id ` set ns \<inter> dom (bm_get m) = {}
     \<and> m' = bm_extend m (map (\<lambda>n. (node_id n, n)) ns)"
proof (induction ns m rule: collect_nodes.induct)
  case (2 n ns m)
  have "node_id ` set ns \<inter> dom (bm_get (bm_insert (node_id n) n m)) = {}
      \<longleftrightarrow> node_id n \<notin> node_id ` set ns \<and> node_id ` set ns \<inter> dom (bm_get m) = {}"
    by (simp add: Int_insert_right del: bm_get_insert)
  with 2 have "node_id n \<notin> dom (bm_get m) \<Longrightarrow> ?case"
    by (simp add: bm_extend_def Int_insert_left conj_ac del: bm_get_insert)
  moreover have "node_id n \<in> dom (bm_get m) \<Longrightarrow> ?case" by auto
  ultimately show ?case by blast
qed (auto simp: bm_extend_def)

lemma collect_nodes_not_Panic: "collect_nodes ns m \<noteq> Panic"
  by (induction ns m rule: collect_nodes.induct) auto

lemma check_contracts_Ok:
  "check_contracts i names cs = Ok () \<longleftrightarrow> ports_ok cs \<and> pc_name ` set cs \<inter> names = {}"
  by (induction i names cs rule: check_contracts.induct) (auto simp: ports_ok_def)

lemma check_contracts_not_Panic: "check_contracts i names cs \<noteq> Panic"
  by (induction i names cs rule: check_contracts.induct) auto

lemma check_ports_Ok: "check_ports n = Ok () \<longleftrightarrow> ports_ok (node_inputs n) \<and> ports_ok (node_outputs n)"
  by (simp add: check_ports_def check_contracts_Ok and_then_eq_Ok)

lemma check_wiring_Ok:
  "check_wiring ns es n = Ok () \<longleftrightarrow>
     wired es n \<and> (\<forall>gate. node_gated_by n = Some gate \<longrightarrow> bm_contains ns gate)"
  by (auto simp: check_wiring_def check_input_def wired_def and_then_eq_Ok
      split: option.splits if_splits intro: PortCardinality.exhaust)

lemma find_port_Some:
  "find_port ps p = Some c \<Longrightarrow> c \<in> set ps \<and> pc_name c = p"
  by (auto simp: find_port_def find_Some_iff)

lemma find_port_unique:
  "distinct (map pc_name ps) \<Longrightarrow> find_port ps p = Some c \<longleftrightarrow> c \<in> set ps \<and> pc_name c = p"
  by (induction ps) (auto simp: find_port_def)

lemma find_port_declared: "list_ex (\<lambda>c. pc_name c = p) ps \<longleftrightarrow> (\<exists>c. find_port ps p = Some c)"
  by (induction ps) (auto simp: find_port_def)

lemma check_endpoint_Ok:
  "check_endpoint ns label port declared = Ok () \<longleftrightarrow>
     (\<exists>spec c. bm_get ns (port_node port) = Some spec \<and> find_port (declared spec) (port_name port) = Some c)"
  by (auto simp: check_endpoint_def find_port_declared split: option.splits)

lemma check_endpoint_not_Panic: "check_endpoint ns label port declared \<noteq> Panic"
  by (simp add: check_endpoint_def split: option.splits)

lemma check_edge_Ok:
  "check_edge ns e = Ok () \<longleftrightarrow>
     (\<exists>source target produced accepted. bm_get ns (port_node (edge_from e)) = Some source
        \<and> bm_get ns (port_node (edge_to e)) = Some target
        \<and> find_port (node_outputs source) (port_name (edge_from e)) = Some produced
        \<and> find_port (node_inputs target) (port_name (edge_to e)) = Some accepted
        \<and> compatible produced accepted)"
proof -
  have many: "c = Many \<longleftrightarrow> c \<noteq> One" for c by (cases c) auto
  show ?thesis
    by (auto simp: check_edge_def check_endpoint_Ok Let_def and_then_eq_Ok compatible_def expect_def many
        split: option.splits if_splits)
qed

lemma check_edge_not_Panic: "check_edge ns e \<noteq> Panic"
  by (auto simp: check_edge_def Let_def and_then_eq_Panic check_endpoint_not_Panic check_endpoint_Ok expect_def
      split: option.splits)


definition node_map :: "Node list \<Rightarrow> (string, Node) bmap" where
  "node_map ns = bm_of_list (map (\<lambda>n. (node_id n, n)) ns)"

lemma bm_get_node_map:
  assumes "distinct (map node_id ns)"
  shows "bm_get (node_map ns) k = Some n \<longleftrightarrow> n \<in> set ns \<and> node_id n = k"
proof -
  have "distinct (map fst (map (\<lambda>n. (node_id n, n)) ns))" using assms by (simp add: comp_def)
  then have "bm_get (node_map ns) = map_of (map (\<lambda>n. (node_id n, n)) ns)"
    by (simp add: node_map_def bm_get_extend map_of_rev fun_eq_iff map_add_def split: option.splits)
  then show ?thesis
    using assms by (auto simp: map_of_eq_Some_iff comp_def)
qed

lemma dom_node_map: "distinct (map node_id ns) \<Longrightarrow> dom (bm_get (node_map ns)) = node_id ` set ns"
  by (auto simp: bm_get_node_map)

lemma values_node_map: "distinct (map node_id ns) \<Longrightarrow> set (bm_values (node_map ns)) = set ns"
  by (auto simp: set_bm_values ran_def bm_get_node_map)

lemma check_edge_typed:
  assumes "distinct (map node_id ns)" "\<forall>n \<in> set ns. ports_ok (node_inputs n) \<and> ports_ok (node_outputs n)"
  shows "check_edge (node_map ns) e = Ok () \<longleftrightarrow> edge_typed ns e"
proof -
  have out: "bm_get (node_map ns) k = Some n \<and> find_port (node_outputs n) p = Some c
      \<longleftrightarrow> n \<in> set ns \<and> node_id n = k \<and> c \<in> set (node_outputs n) \<and> pc_name c = p" for k n p c
    using assms by (auto simp: bm_get_node_map find_port_unique ports_ok_def)
  have inp: "bm_get (node_map ns) k = Some n \<and> find_port (node_inputs n) p = Some c
      \<longleftrightarrow> n \<in> set ns \<and> node_id n = k \<and> c \<in> set (node_inputs n) \<and> pc_name c = p" for k n p c
    using assms by (auto simp: bm_get_node_map find_port_unique ports_ok_def)
  show ?thesis
  proof
    assume "check_edge (node_map ns) e = Ok ()"
    then obtain source target produced accepted where
      "bm_get (node_map ns) (port_node (edge_from e)) = Some source"
      "find_port (node_outputs source) (port_name (edge_from e)) = Some produced"
      "bm_get (node_map ns) (port_node (edge_to e)) = Some target"
      "find_port (node_inputs target) (port_name (edge_to e)) = Some accepted"
      "compatible produced accepted"
      unfolding check_edge_Ok by blast
    then have "source \<in> set ns \<and> node_id source = port_node (edge_from e)
        \<and> produced \<in> set (node_outputs source) \<and> pc_name produced = port_name (edge_from e)"
      "target \<in> set ns \<and> node_id target = port_node (edge_to e)
        \<and> accepted \<in> set (node_inputs target) \<and> pc_name accepted = port_name (edge_to e)"
      "compatible produced accepted"
      using out [of "port_node (edge_from e)" source "port_name (edge_from e)" produced]
        inp [of "port_node (edge_to e)" target "port_name (edge_to e)" accepted] by simp_all
    then show "edge_typed ns e"
      unfolding edge_typed_def by blast
  next
    assume "edge_typed ns e"
    then obtain source target produced accepted where
      *: "source \<in> set ns" "target \<in> set ns" "produced \<in> set (node_outputs source)"
      "accepted \<in> set (node_inputs target)"
      "node_id source = port_node (edge_from e)" "node_id target = port_node (edge_to e)"
      "pc_name produced = port_name (edge_from e)" "pc_name accepted = port_name (edge_to e)"
      "compatible produced accepted"
      unfolding edge_typed_def by blast
    then show "check_edge (node_map ns) e = Ok ()"
      unfolding check_edge_Ok
      using out [of "port_node (edge_from e)" source "port_name (edge_from e)" produced]
        inp [of "port_node (edge_to e)" target "port_name (edge_to e)" accepted]
      by (intro exI [of _ source] exI [of _ target] exI [of _ produced] exI [of _ accepted]) simp
  qed
qed

lemma plan_Ok:
  "plan p = Ok q \<longleftrightarrow> well_formed p \<and> nodes q = node_map (pl_nodes p) \<and> edges q = pl_edges p
     \<and> topological_order (node_map (pl_nodes p)) (pl_edges p) = Ok (order q)"
    (is "_ \<longleftrightarrow> ?rhs")
proof (cases "distinct (map node_id (pl_nodes p))
    \<and> (\<forall>n \<in> set (pl_nodes p). ports_ok (node_inputs n) \<and> ports_ok (node_outputs n))")
  case True
  then show ?thesis
    by (auto simp: plan_def and_then_eq_Ok collect_nodes_Ok well_formed_def check_ports_Ok check_wiring_Ok
        values_node_map dom_node_map check_edge_typed simp flip: node_map_def)
next
  case False
  then show ?thesis
    by (auto simp: plan_def and_then_eq_Ok collect_nodes_Ok well_formed_def check_ports_Ok
        values_node_map simp flip: node_map_def)
qed

subsection \<open>The order is the canonical topological order\<close>

definition deps_of :: "(string \<times> string) set \<Rightarrow> string \<Rightarrow> string set" where
  "deps_of R k = {d. (d, k) \<in> R}"

text \<open>The identifiers that may come next once \<open>placed\<close> are placed.\<close>

definition ready :: "string set \<Rightarrow> (string \<times> string) set \<Rightarrow> string set \<Rightarrow> string set" where
  "ready K R placed = {k \<in> K. k \<notin> placed \<and> deps_of R k \<subseteq> placed}"

text \<open>Every element is the least of those ready when it is placed.\<close>

definition canonical :: "string set \<Rightarrow> (string \<times> string) set \<Rightarrow> string list \<Rightarrow> bool" where
  "canonical K R xs = (distinct xs \<and> set xs \<subseteq> K \<and>
     (\<forall>i < length xs. xs ! i \<in> ready K R (set (take i xs)) \<and> (\<forall>k \<in> ready K R (set (take i xs)). xs ! i \<le> k)))"

text \<open>What \<open>remaining\<close> holds when \<open>placed\<close> are placed.\<close>

definition residual :: "string set \<Rightarrow> (string \<times> string) set \<Rightarrow> string list \<Rightarrow> (string, string set) bmap \<Rightarrow> bool" where
  "residual K R placed m =
     (\<forall>k. bm_get m k = (if k \<in> K \<and> k \<notin> set placed then Some (deps_of R k - set placed) else None))"

lemma residual_next:
  "residual K R placed m \<Longrightarrow>
   residual K R (placed @ [n]) (bm_map (\<lambda>_ deps. deps - {n}) (bm_remove n m))"
  by (auto simp: residual_def)

lemma residual_ready:
  assumes "residual K R placed m"
  shows "set (map fst (filter (\<lambda>e. snd e = {}) (bm_entries m))) = ready K R (set placed)"
proof -
  have "set (map fst (filter (\<lambda>e. snd e = {}) (bm_entries m))) = {k. bm_get m k = Some {}}"
    by (force simp: bm_get_iff_entry)
  then show ?thesis using assms by (auto simp: residual_def ready_def split: if_splits)
qed

lemma ascending_filter: "ascending xs \<Longrightarrow> ascending (filter P xs)"
  by (induction xs) auto

lemma residual_first:
  assumes "residual K R placed m" "map fst (filter (\<lambda>e. snd e = {}) (bm_entries m)) = n # ns"
  shows "n \<in> ready K R (set placed)" "\<forall>k \<in> ready K R (set placed). n \<le> k"
proof -
  let ?xs = "map fst (filter (\<lambda>e. snd e = {}) (bm_entries m))"
  have "sorted ?xs"
    by (rule strict_sorted_imp_sorted [OF ascending_filter [OF bm_entries_ascending]])
  then show "n \<in> ready K R (set placed)" "\<forall>k \<in> ready K R (set placed). n \<le> k"
    unfolding residual_ready [OF assms(1), symmetric] assms(2) by auto
qed

lemma canonical_snoc:
  assumes "canonical K R placed" "n \<in> ready K R (set placed)" "\<forall>k \<in> ready K R (set placed). n \<le> k"
  shows "canonical K R (placed @ [n])"
  unfolding canonical_def
proof (intro conjI allI impI ballI)
  fix i
  assume "i < length (placed @ [n])"
  then consider "i < length placed" | "i = length placed" by force
  then have "(placed @ [n]) ! i \<in> ready K R (set (take i (placed @ [n])))
      \<and> (\<forall>k \<in> ready K R (set (take i (placed @ [n]))). (placed @ [n]) ! i \<le> k)"
    using assms by cases (auto simp: canonical_def nth_append)
  then show "(placed @ [n]) ! i \<in> ready K R (set (take i (placed @ [n])))"
    "\<And>k. k \<in> ready K R (set (take i (placed @ [n]))) \<Longrightarrow> (placed @ [n]) ! i \<le> k"
    by blast+
qed (use assms in \<open>auto simp: canonical_def ready_def\<close>)

lemma topo_loop_Ok:
  assumes "residual K R placed m" "canonical K R placed" "topo_loop m placed = Ok xs"
  shows "canonical K R xs \<and> set xs = K"
  using assms
proof (induction m placed rule: topo_loop.induct)
  case (1 m placed)
  show ?case
  proof (cases "bm_is_empty m")
    case True
    then have "m = bm_empty" by (simp add: bm_is_empty_iff)
    then have "K \<subseteq> set placed" using "1.prems"(1) by (auto simp: residual_def split: if_splits)
    then show ?thesis using 1 True by (auto simp: topo_loop.simps canonical_def)
  next
    case False
    then obtain n ns where n: "map fst (filter (\<lambda>e. snd e = {}) (bm_entries m)) = n # ns"
      using "1.prems"(3) by (cases "map fst (filter (\<lambda>e. snd e = {}) (bm_entries m))")
        (simp_all add: topo_loop.simps [of m])
    show ?thesis
    proof (rule "1.IH" [OF False n])
      show "canonical K R (placed @ [n])"
        using canonical_snoc "1.prems" residual_first [OF "1.prems"(1) n] by blast
    qed (use "1.prems" False n in \<open>simp_all add: residual_next topo_loop.simps [of m]\<close>)
  qed
qed

lemma topo_loop_Err:
  assumes "residual K R placed m" "set placed \<subseteq> K" "topo_loop m placed = Err e"
  shows "\<exists>xs. e = Cycle xs \<and> sorted xs \<and> distinct xs \<and> xs \<noteq> [] \<and> set xs \<subseteq> K \<and>
    (\<forall>k \<in> set xs. \<exists>d \<in> deps_of R k. d \<notin> K - set xs)"
  using assms
proof (induction m placed rule: topo_loop.induct)
  case (1 m placed)
  have ne: "\<not> bm_is_empty m" using "1.prems"(3) by (auto simp: topo_loop.simps [of m])
  show ?case
  proof (cases "map fst (filter (\<lambda>e. snd e = {}) (bm_entries m))")
    case Nil
    then have "ready K R (set placed) = {}" using residual_ready [OF "1.prems"(1)] by simp
    moreover have keys: "set (bm_keys m) = K - set placed"
      using "1.prems"(1) by (auto simp: set_bm_keys residual_def split: if_splits)
    ultimately have "\<forall>k \<in> set (bm_keys m). \<exists>d \<in> deps_of R k. d \<notin> K - set (bm_keys m)"
      using "1.prems"(2) by (auto simp: ready_def)
    moreover have "bm_keys m \<noteq> []" using ne by (simp add: bm_keys_def bm_is_empty_def)
    ultimately show ?thesis
      using keys "1.prems"(3) Nil ne bm_keys_distinct [of m]
      by (intro exI [of _ "sort (bm_keys m)"]) (auto simp: topo_loop.simps [of m] simp flip: set_empty)
  next
    case (Cons n ns)
    show ?thesis
    proof (rule "1.IH" [OF ne Cons])
      show "set (placed @ [n]) \<subseteq> K" using "1.prems"(2) residual_first [OF "1.prems"(1) Cons] by (auto simp: ready_def)
    qed (use "1.prems" ne Cons in \<open>simp_all add: residual_next topo_loop.simps [of m]\<close>)
  qed
qed

lemma topo_loop_not_Panic: "topo_loop m placed \<noteq> Panic"
proof (induction m placed rule: topo_loop.induct)
  case (1 m placed)
  then show ?case by (auto simp: topo_loop.simps [of m] split: list.splits)
qed

lemma get_add_incoming:
  "bm_get (add_incoming k d m) j =
     (if j = k then Some (insert d (case bm_get m k of None \<Rightarrow> {} | Some s \<Rightarrow> s)) else bm_get m j)"
  by (simp add: add_incoming_def)

lemma incoming_edges:
  assumes "\<forall>e \<in> set es. port_node (edge_to e) \<in> dom (bm_get m)"
  shows "bm_get (fold (\<lambda>e. add_incoming (port_node (edge_to e)) (port_node (edge_from e))) es m) k
    = map_option (\<lambda>s. s \<union> {port_node (edge_from e) | e. e \<in> set es \<and> port_node (edge_to e) = k}) (bm_get m k)"
  using assms
proof (induction es arbitrary: m)
  case (Cons e es)
  have "\<forall>e' \<in> set es. port_node (edge_to e') \<in> dom (bm_get (add_incoming (port_node (edge_to e)) (port_node (edge_from e)) m))"
    using Cons.prems by (auto simp: get_add_incoming dom_def)
  from Cons.IH [OF this] show ?case
    using Cons.prems by (cases "bm_get m k") (auto simp: get_add_incoming split: option.splits)
qed (simp add: option.map_ident)

lemma incoming_gates:
  assumes "\<forall>n \<in> set ns. node_id n \<in> dom (bm_get m)"
  shows "bm_get (fold (\<lambda>n m. case node_gated_by n of None \<Rightarrow> m | Some gate \<Rightarrow> add_incoming (node_id n) gate m) ns m) k
    = map_option (\<lambda>s. s \<union> {gate | gate n. n \<in> set ns \<and> node_id n = k \<and> node_gated_by n = Some gate}) (bm_get m k)"
  using assms
proof (induction ns arbitrary: m)
  case (Cons n ns)
  let ?m = "case node_gated_by n of None \<Rightarrow> m | Some gate \<Rightarrow> add_incoming (node_id n) gate m"
  have "\<forall>n' \<in> set ns. node_id n' \<in> dom (bm_get ?m)"
    using Cons.prems by (auto simp: get_add_incoming dom_def split: option.splits)
  from Cons.IH [OF this] show ?case
    using Cons.prems by (cases "bm_get m k") (auto simp: get_add_incoming split: option.splits)
qed (simp add: option.map_ident)

lemma edge_typed_ends:
  "edge_typed ns e \<Longrightarrow> port_node (edge_from e) \<in> node_id ` set ns \<and> port_node (edge_to e) \<in> node_id ` set ns"
  unfolding edge_typed_def by force

lemma precedes_nodes:
  "well_formed p \<Longrightarrow> precedes p \<subseteq> (node_id ` set (pl_nodes p)) \<times> (node_id ` set (pl_nodes p))"
  unfolding well_formed_def precedes_def by (auto dest!: edge_typed_ends)

lemma residual_incoming:
  assumes "well_formed p"
  shows "residual (node_id ` set (pl_nodes p)) (precedes p) [] (incoming (node_map (pl_nodes p)) (pl_edges p))"
  unfolding residual_def
proof
  fix k
  let ?ns = "node_map (pl_nodes p)"
  let ?es = "fold (\<lambda>e. add_incoming (port_node (edge_to e)) (port_node (edge_from e))) (pl_edges p) (bm_map (\<lambda>_ _. {}) ?ns)"
  have d: "distinct (map node_id (pl_nodes p))" using assms by (simp add: well_formed_def)
  have dom0: "dom (bm_get (bm_map (\<lambda>_ _. {}) ?ns)) = node_id ` set (pl_nodes p)"
    using dom_node_map [OF d] by (auto simp: dom_def)
  have e: "bm_get ?es j = map_option (\<lambda>s. s \<union> {port_node (edge_from e) | e. e \<in> set (pl_edges p) \<and> port_node (edge_to e) = j})
      (bm_get (bm_map (\<lambda>_ _. {}) ?ns) j)" for j
    by (rule incoming_edges) (use assms dom0 edge_typed_ends in \<open>auto simp: well_formed_def\<close>)
  then have "dom (bm_get ?es) = dom (bm_get (bm_map (\<lambda>_ _. {}) ?ns))" by (auto simp: dom_def)
  then have "dom (bm_get ?es) = node_id ` set (pl_nodes p)" using dom0 by (rule trans)
  then have g: "bm_get (incoming ?ns (pl_edges p)) k
      = map_option (\<lambda>s. s \<union> {gate | gate n. n \<in> set (pl_nodes p) \<and> node_id n = k \<and> node_gated_by n = Some gate}) (bm_get ?es k)"
    unfolding incoming_def by (subst incoming_gates) (auto simp: values_node_map [OF d])
  have "bm_get (bm_map (\<lambda>_ _. {}) ?ns) k = (if k \<in> node_id ` set (pl_nodes p) then Some {} else None)"
    using dom_node_map [OF d] by (auto simp: dom_def split: if_splits)
  then show "bm_get (incoming ?ns (pl_edges p)) k
    = (if k \<in> node_id ` set (pl_nodes p) \<and> k \<notin> set [] then Some (deps_of (precedes p) k - set []) else None)"
    unfolding g e by (auto simp: deps_of_def precedes_def)
qed

lemma canonical_Nil [simp]: "canonical K R []"
  by (simp add: canonical_def)

lemmas topological_cases = topo_loop_Ok [OF residual_incoming canonical_Nil] topo_loop_Err [OF residual_incoming]

lemma canonical_unique:
  assumes "canonical K R xs" "canonical K R ys" "set xs = K" "set ys = K"
  shows "xs = ys"
proof -
  have len: "length xs = length ys"
    using assms by (metis canonical_def distinct_card)
  have "i \<le> length xs \<Longrightarrow> take i xs = take i ys" for i
  proof (induction i)
    case (Suc i)
    then have same: "take i xs = take i ys" and i: "i < length xs" by auto
    have "xs ! i = ys ! i"
    proof (rule order_antisym)
      show "xs ! i \<le> ys ! i" "ys ! i \<le> xs ! i"
        using assms(1,2) i len same unfolding canonical_def by metis+
    qed
    then show ?case using i same len by (simp add: take_Suc_conv_app_nth)
  qed simp
  from this [of "length xs"] len show ?thesis by simp
qed

lemma canonical_topological:
  assumes "canonical K R xs" "(d, xs ! i) \<in> R" "i < length xs"
  shows "\<exists>j < i. xs ! j = d"
proof -
  have "xs ! i \<in> ready K R (set (take i xs))" using assms by (simp add: canonical_def)
  then have "d \<in> set (take i xs)" using assms(2) by (auto simp: ready_def deps_of_def)
  then show ?thesis using assms(3) by (auto simp: in_set_conv_nth)
qed

lemma canonical_acyclic:
  assumes "canonical K R xs" "R \<subseteq> set xs \<times> set xs"
  shows "acyclic R"
proof -
  let ?pos = "\<lambda>x. LEAST i. i < length xs \<and> xs ! i = x"
  have pos: "i < length xs \<Longrightarrow> ?pos (xs ! i) = i" for i
    using assms(1) by (intro Least_equality) (auto simp: canonical_def nth_eq_iff_index_eq)
  have "R \<subseteq> measure ?pos"
  proof safe
    fix a b
    assume ab: "(a, b) \<in> R"
    then obtain i where i: "i < length xs" "xs ! i = b" using assms(2) by (fastforce simp: in_set_conv_nth)
    then obtain j where "j < i" "xs ! j = a" using canonical_topological [OF assms(1)] ab by metis
    then have "?pos a = j" "?pos b = i" using pos [of j] pos [of i] i by auto
    then show "(a, b) \<in> measure ?pos" using \<open>j < i\<close> by simp
  qed
  then show ?thesis by (meson acyclic_subset wf_acyclic wf_measure)
qed

lemma acyclic_source:
  assumes "acyclic R" "finite C" "C \<noteq> {}"
  shows "\<exists>k \<in> C. \<forall>d \<in> C. (d, k) \<notin> R"
proof -
  have "wf (R \<inter> C \<times> C)"
    by (rule finite_acyclic_wf) (use assms in \<open>auto intro: acyclic_subset\<close>)
  then obtain k where "k \<in> C" "\<forall>d. (d, k) \<in> R \<inter> C \<times> C \<longrightarrow> d \<notin> C"
    using assms(3) by (metis wf_eq_minimal ex_in_conv)
  then show ?thesis by blast
qed

lemma topological_order_Ok:
  assumes "well_formed p"
  shows "(\<exists>xs. topological_order (node_map (pl_nodes p)) (pl_edges p) = Ok xs) \<longleftrightarrow> acyclic (precedes p)"
proof
  assume "\<exists>xs. topological_order (node_map (pl_nodes p)) (pl_edges p) = Ok xs"
  then obtain xs where "topo_loop (incoming (node_map (pl_nodes p)) (pl_edges p)) [] = Ok xs"
    by (auto simp: topological_order_def)
  from topological_cases(1) [OF assms this] precedes_nodes [OF assms]
  show "acyclic (precedes p)"
    using canonical_acyclic [of "node_id ` set (pl_nodes p)" "precedes p" xs] by simp
next
  assume ac: "acyclic (precedes p)"
  have "topo_loop (incoming (node_map (pl_nodes p)) (pl_edges p)) [] \<noteq> Err e" for e
  proof
    assume "topo_loop (incoming (node_map (pl_nodes p)) (pl_edges p)) [] = Err e"
    from topological_cases(2) [OF assms _ this] obtain xs where xs: "xs \<noteq> []"
      "set xs \<subseteq> node_id ` set (pl_nodes p)"
      "\<forall>k \<in> set xs. \<exists>d \<in> deps_of (precedes p) k. d \<notin> node_id ` set (pl_nodes p) - set xs" by auto
    obtain k where "k \<in> set xs" "\<forall>d \<in> set xs. (d, k) \<notin> precedes p"
      using acyclic_source [OF ac, of "set xs"] xs(1) by auto
    then show False using xs(3) precedes_nodes [OF assms] by (auto simp: deps_of_def)
  qed
  then show "\<exists>xs. topological_order (node_map (pl_nodes p)) (pl_edges p) = Ok xs"
    unfolding topological_order_def using topo_loop_not_Panic by (metis res.exhaust)
qed


subsection \<open>The gates of a node\<close>

definition upstream :: "Planned \<Rightarrow> (string \<times> string) set" where
  "upstream q = {(port_node (edge_to e), port_node (edge_from e)) | e. e \<in> set (edges q)}"

definition gates_of :: "Planned \<Rightarrow> string set \<Rightarrow> string set" where
  "gates_of q ns = {gate. \<exists>n \<in> ns. \<exists>spec. bm_get (nodes q) n = Some spec \<and> node_gated_by spec = Some gate}"

lemma closed_reach:
  assumes "\<forall>n \<in> seen. upstream q `` {n} \<subseteq> seen \<union> S" "a \<in> seen" "(a, b) \<in> (upstream q)\<^sup>*"
  shows "b \<in> seen \<union> (upstream q)\<^sup>* `` S"
  using assms(3)
proof (induction rule: rtrancl_induct)
  case (step y z)
  then show ?case
    using assms(1) by (auto intro: rtrancl_into_rtrancl)
qed (use assms(2) in simp)

lemma gates_loop_exact:
  assumes "\<forall>n \<in> seen. upstream q `` {n} \<subseteq> seen \<union> set stack" "gates = gates_of q seen"
  shows "gates_loop q seen stack gates = gates_of q (seen \<union> (upstream q)\<^sup>* `` set stack)"
  using assms
proof (induction q seen stack gates rule: gates_loop.induct)
  case (2 q seen current stack gates)
  show ?case
  proof (cases "current \<in> seen")
    case True
    have closed: "\<forall>n \<in> seen. upstream q `` {n} \<subseteq> seen \<union> set stack"
      using "2.prems"(1) True by auto
    have "seen \<union> (upstream q)\<^sup>* `` set (current # stack) = seen \<union> (upstream q)\<^sup>* `` set stack"
      using closed_reach [OF closed True] by auto
    then show ?thesis using "2.IH"(1) [OF True closed "2.prems"(2)] True by simp
  next
    case False
    let ?push = "rev (map (\<lambda>e. port_node (edge_from e)) (dependencies_of q current)) @ stack"
    let ?gates = "case bm_get (nodes q) current of None \<Rightarrow> gates
         | Some spec \<Rightarrow> (case node_gated_by spec of None \<Rightarrow> gates | Some gate \<Rightarrow> insert gate gates)"
    have push: "set ?push = upstream q `` {current} \<union> set stack"
      by (auto simp: upstream_def dependencies_of_def)
    have closed: "\<forall>n \<in> insert current seen. upstream q `` {n} \<subseteq> insert current seen \<union> set ?push"
      unfolding push using "2.prems"(1) by auto
    have gates: "?gates = gates_of q (insert current seen)"
      using "2.prems"(2) by (auto simp: gates_of_def split: option.splits)
    have "insert current seen \<union> (upstream q)\<^sup>* `` set ?push = seen \<union> (upstream q)\<^sup>* `` set (current # stack)"
      unfolding push by (auto intro: converse_rtrancl_into_rtrancl elim: converse_rtranclE)
    then show ?thesis using "2.IH"(2) [OF False closed gates] False by simp
  qed
qed (simp add: gates_of_def)

subsection \<open>The planner contract\<close>

text \<open>
  What a scheduler relies on of a plan: node identifiers agree with their keys, the order lists
  every node once, an edge's source comes before its target, and an edge arrives on a declared
  input port.
\<close>

locale planner =
  fixes planned :: "Planned \<Rightarrow> bool"
  assumes order_distinct: "planned q \<Longrightarrow> distinct (order q)"
    and order_nodes: "planned q \<Longrightarrow> set (order q) = dom (bm_get (nodes q))"
    and node_keys: "planned q \<Longrightarrow> bm_get (nodes q) k = Some n \<Longrightarrow> node_id n = k"
    and edge_order: "planned q \<Longrightarrow> e \<in> set (edges q) \<Longrightarrow> i < length (order q) \<Longrightarrow> order q ! i = port_node (edge_to e)
        \<Longrightarrow> \<exists>j < i. order q ! j = port_node (edge_from e)"
    and edge_port: "planned q \<Longrightarrow> e \<in> set (edges q) \<Longrightarrow> bm_get (nodes q) (port_node (edge_to e)) = Some n
        \<Longrightarrow> port_name (edge_to e) \<in> pc_name ` set (node_inputs n)"
begin

lemma dependency_known:
  assumes "planned q" "k \<in> dom (bm_get (nodes q))" "e \<in> set (dependencies_of q k)"
  shows "port_node (edge_from e) \<in> dom (bm_get (nodes q))"
proof -
  obtain i where i: "i < length (order q)" "order q ! i = k"
    using assms(2) order_nodes [OF assms(1)] by (metis in_set_conv_nth)
  have e: "e \<in> set (edges q)" "port_node (edge_to e) = k" using assms(3) by (auto simp: dependencies_of_def)
  obtain j where "j < i" "order q ! j = port_node (edge_from e)"
    using edge_order [OF assms(1) e(1) i(1)] i(2) e(2) by auto
  then show ?thesis using order_nodes [OF assms(1)] i(1) nth_mem [of j "order q"] by force
qed

lemma dependencies_resolved_by_order:
  assumes "planned q" "k \<in> set (order q)" "D \<subseteq> set (order q)" "k \<notin> D"
    and "\<And>n. n \<in> set (order q) \<Longrightarrow> n \<notin> D \<Longrightarrow> \<exists>e \<in> set (dependencies_of q n). port_node (edge_from e) \<notin> D"
  shows False
proof -
  let ?P = "\<lambda>i. i < length (order q) \<and> order q ! i \<notin> D"
  obtain i where "?P i" using assms(2,4) by (auto simp: in_set_conv_nth)
  then have least: "?P (LEAST i. ?P i)" by (rule LeastI)
  let ?i = "LEAST i. ?P i"
  obtain e where e: "e \<in> set (dependencies_of q (order q ! ?i))" "port_node (edge_from e) \<notin> D"
    using assms(5) least by (meson nth_mem)
  then obtain j where "j < ?i" "order q ! j = port_node (edge_from e)"
    using edge_order [OF assms(1), of e ?i] least by (auto simp: dependencies_of_def)
  then show False using e(2) least not_less_Least [of j ?P] by auto
qed

end

definition is_plan :: "Planned \<Rightarrow> bool" where
  "is_plan q = (\<exists>p. plan p = Ok q)"

lemma plan_order:
  assumes "plan p = Ok q"
  shows "canonical (node_id ` set (pl_nodes p)) (precedes p) (order q) \<and> set (order q) = node_id ` set (pl_nodes p)"
  using assms topological_cases(1) [of p "order q"] by (auto simp: plan_Ok topological_order_def)

interpretation planned: planner is_plan
proof (unfold_locales, unfold is_plan_def, goal_cases)
  case (1 q)
  then show ?case using plan_order by (auto simp: canonical_def)
next
  case (2 q)
  then obtain p where p: "plan p = Ok q" by blast
  then have "dom (bm_get (nodes q)) = node_id ` set (pl_nodes p)"
    unfolding plan_Ok well_formed_def by (simp add: dom_node_map)
  then show ?case using plan_order [OF p] by simp
next
  case (3 q k n)
  then show ?case by (auto simp: plan_Ok bm_get_node_map well_formed_def)
next
  case (4 q e i)
  then obtain p where p: "plan p = Ok q" by blast
  then have "(port_node (edge_from e), order q ! i) \<in> precedes p" using 4 by (auto simp: plan_Ok precedes_def)
  from canonical_topological [OF conjunct1 [OF plan_order [OF p]] this] show ?case using 4 by simp
next
  case (5 q e n)
  then obtain p where p: "plan p = Ok q" by blast
  then have wf: "well_formed p" and e: "edge_typed (pl_nodes p) e" using 5 by (auto simp: plan_Ok well_formed_def)
  then obtain target where t: "target \<in> set (pl_nodes p)" "node_id target = port_node (edge_to e)"
    "port_name (edge_to e) \<in> pc_name ` set (node_inputs target)" unfolding edge_typed_def by force
  have "bm_get (nodes q) (port_node (edge_to e)) = Some target"
    using p t wf by (auto simp: plan_Ok bm_get_node_map well_formed_def)
  then show ?case using 5 t by simp
qed

lemma plan_not_Panic: "plan p \<noteq> Panic"
proof -
  have "check_ports n \<noteq> Panic" for n
    by (auto simp: check_ports_def and_then_eq_Panic check_contracts_not_Panic)
  moreover have "check_wiring ns es n \<noteq> Panic" for ns es n
    by (auto simp: check_wiring_def and_then_eq_Panic check_input_def dest!: each_Panic split: option.splits if_splits)
  ultimately show ?thesis
    using check_edge_not_Panic topo_loop_not_Panic
    by (auto simp: plan_def and_then_eq_Panic collect_nodes_not_Panic topological_order_def dest!: each_Panic)
qed

lemma checks_not_Cycle:
  "collect_nodes ns m \<noteq> Err (Cycle c)" "check_ports n \<noteq> Err (Cycle c)" "check_edge nm e \<noteq> Err (Cycle c)"
  "check_wiring nm es n \<noteq> Err (Cycle c)"
proof -
  have "check_contracts i names cs \<noteq> Err (Cycle c)" for i names cs
    by (induction i names cs rule: check_contracts.induct) auto
  then show "check_ports n \<noteq> Err (Cycle c)" by (auto simp: check_ports_def and_then_eq_Err)
  show "collect_nodes ns m \<noteq> Err (Cycle c)" by (induction ns m rule: collect_nodes.induct) auto
  show "check_edge nm e \<noteq> Err (Cycle c)"
    by (auto simp: check_edge_def Let_def and_then_eq_Err check_endpoint_def expect_def
        split: option.splits if_splits)
  show "check_wiring nm es n \<noteq> Err (Cycle c)"
    by (auto simp: check_wiring_def and_then_eq_Err check_input_def dest!: each_Err split: option.splits if_splits)
qed

lemma plan_Cycle:
  assumes "plan p = Err (Cycle c)"
  shows "well_formed p" "topological_order (node_map (pl_nodes p)) (pl_edges p) = Err (Cycle c)"
proof -
  have d: "distinct (map node_id (pl_nodes p))"
    and ports: "\<forall>n \<in> set (bm_values (node_map (pl_nodes p))). check_ports n = Ok ()"
    and es: "\<forall>e \<in> set (pl_edges p). check_edge (node_map (pl_nodes p)) e = Ok ()"
    and ws: "\<forall>n \<in> set (bm_values (node_map (pl_nodes p))). check_wiring (node_map (pl_nodes p)) (pl_edges p) n = Ok ()"
    and "topological_order (node_map (pl_nodes p)) (pl_edges p) = Err (Cycle c)"
    using assms checks_not_Cycle
    by (auto simp: plan_def and_then_eq_Err collect_nodes_Ok simp flip: node_map_def dest!: each_Err)
  then show "topological_order (node_map (pl_nodes p)) (pl_edges p) = Err (Cycle c)" by simp
  have ports': "\<forall>n \<in> set (pl_nodes p). ports_ok (node_inputs n) \<and> ports_ok (node_outputs n)"
    using ports by (simp add: check_ports_Ok values_node_map [OF d])
  show "well_formed p"
    unfolding well_formed_def
    using d ports' es ws
    by (auto simp: check_edge_typed [OF d ports'] check_wiring_Ok values_node_map [OF d] dom_node_map [OF d])
qed

subsection \<open>A sample pipeline\<close>

definition sample_contract :: "string \<Rightarrow> PortContract" where
  "sample_contract p = new_contract p ''af/Report@1''"

text \<open>A gated reviewer feeding a ledger, declared out of order.\<close>

definition sample_pipeline :: Pipeline where
  "sample_pipeline =
     \<lparr>pl_nodes =
       [accepting_contracts (new_graph_node ''ledger'' Ledger) [sample_contract ''reports''],
        gated_by (emitting_contracts (new_graph_node ''reviewer'' Reviewer) [sample_contract ''report'']) ''tests'',
        new_graph_node ''tests'' Gate],
      pl_edges = [\<lparr>edge_from = new_port ''reviewer'' ''report'', edge_to = new_port ''ledger'' ''reports''\<rparr>]\<rparr>"

definition sample_plan :: Planned where
  "sample_plan =
     \<lparr>nodes = node_map (pl_nodes sample_pipeline), edges = pl_edges sample_pipeline,
      order = [''tests'', ''reviewer'', ''ledger'']\<rparr>"

lemma sample_planned: "plan sample_pipeline = Ok sample_plan"
  by code_simp


text \<open>The same pipeline with its nodes declared in another order, and one whose gate waits for the gated node.\<close>

definition shuffled_pipeline :: Pipeline where
  "shuffled_pipeline = sample_pipeline\<lparr>pl_nodes := rev (pl_nodes sample_pipeline)\<rparr>"

lemma shuffled_planned: "plan shuffled_pipeline = Ok sample_plan"
  by code_simp

definition cyclic_pipeline :: Pipeline where
  "cyclic_pipeline =
     \<lparr>pl_nodes =
       [gated_by (emitting_contracts (new_graph_node ''a'' Reviewer) [sample_contract ''report'']) ''b'',
        accepting_contracts (new_graph_node ''b'' Gate) [sample_contract ''report'']],
      pl_edges = [\<lparr>edge_from = new_port ''a'' ''report'', edge_to = new_port ''b'' ''report''\<rparr>]\<rparr>"

lemma cyclic_refused: "plan cyclic_pipeline = Err (Cycle [''a'', ''b''])"
  by code_simp

text \<open>The residual list also names nodes that only depend on a cycle.\<close>

definition downstream_pipeline :: Pipeline where
  "downstream_pipeline = cyclic_pipeline\<lparr>pl_nodes := gated_by (new_graph_node ''c'' Gather) ''a'' # pl_nodes cyclic_pipeline\<rparr>"

lemma cycle_names_bystander: "plan downstream_pipeline = Err (Cycle [''a'', ''b'', ''c''])"
  by code_simp

subsection \<open>Properties\<close>

text \<open>
  C9: Planning never panics, and it accepts exactly the pipelines that are well formed (unique node
  identifiers, unique ports of valid artifact types, every edge between declared ports of matching
  type, cardinality, affinity and optionality, every required input wired, no second writer of a
  single-valued input, every gate known) and whose edges and gates have no cycle.
\<close>

theorem plan_accepts_exactly:
  "plan p \<noteq> Panic \<and> ((\<exists>q. plan p = Ok q) \<longleftrightarrow> well_formed p \<and> acyclic (precedes p))"
proof -
  have "(\<exists>q. plan p = Ok q) \<longleftrightarrow>
      well_formed p \<and> (\<exists>xs. topological_order (node_map (pl_nodes p)) (pl_edges p) = Ok xs)"
    unfolding plan_Ok by (metis Planned.select_convs)
  then show ?thesis using topological_order_Ok plan_not_Panic by blast
qed

text \<open>
  C22: The order of a plan lists every node exactly once, places the source of every edge and the
  gate of every gated node before the node that depends on it, and at every position holds the
  least identifier among the nodes whose dependencies are all placed.
\<close>

theorem plan_order_canonical:
  assumes "plan p = Ok q"
  shows "distinct (order q) \<and> set (order q) = node_id ` set (pl_nodes p)
    \<and> (\<forall>i d. i < length (order q) \<and> (d, order q ! i) \<in> precedes p \<longrightarrow> (\<exists>j < i. order q ! j = d))
    \<and> (\<forall>i k. i < length (order q) \<and> k \<in> ready (node_id ` set (pl_nodes p)) (precedes p) (set (take i (order q)))
         \<longrightarrow> order q ! i \<le> k)"
proof -
  have *: "canonical (node_id ` set (pl_nodes p)) (precedes p) (order q)" "set (order q) = node_id ` set (pl_nodes p)"
    using plan_order [OF assms] by blast+
  show ?thesis
    using canonical_topological [OF *(1)] * unfolding canonical_def by blast
qed

theorem plan_order_canonical_witness:
  "plan sample_pipeline = Ok sample_plan \<and> distinct (order sample_plan)
    \<and> set (order sample_plan) = node_id ` set (pl_nodes sample_pipeline)"
  using plan_order_canonical [OF sample_planned] sample_planned by blast

text \<open>
  The plan is a function of the pipeline alone: two pipelines that declare the same nodes and
  the same edges, in any order and with any repetition of an edge, are planned in the same order.
\<close>

theorem plan_order_declaration_independent:
  assumes "plan p = Ok q" "plan p' = Ok q'"
    and "set (pl_nodes p) = set (pl_nodes p')" "set (pl_edges p) = set (pl_edges p')"
  shows "nodes q = nodes q' \<and> order q = order q'"
proof
  have wf: "distinct (map node_id (pl_nodes p))" "distinct (map node_id (pl_nodes p'))"
    using assms(1,2) by (auto simp: plan_Ok well_formed_def)
  have "bm_get (node_map (pl_nodes p)) k = bm_get (node_map (pl_nodes p')) k" for k
    using bm_get_node_map [OF wf(1), of k] bm_get_node_map [OF wf(2), of k] assms(3)
    by (cases "bm_get (node_map (pl_nodes p)) k"; cases "bm_get (node_map (pl_nodes p')) k") auto
  then show "nodes q = nodes q'" using assms(1,2) by (auto simp: plan_Ok intro: bm_eqI)
  have "precedes p = precedes p'" using assms(3,4) by (simp add: precedes_def)
  then show "order q = order q'"
    using canonical_unique plan_order [OF assms(1)] plan_order [OF assms(2)] assms(3) by metis
qed

theorem plan_order_declaration_independent_witness:
  "plan sample_pipeline = Ok sample_plan \<and> plan shuffled_pipeline = Ok sample_plan
    \<and> order sample_plan = order sample_plan \<and> hd (pl_nodes sample_pipeline) \<noteq> hd (pl_nodes shuffled_pipeline)"
  using plan_order_declaration_independent [OF sample_planned shuffled_planned] sample_planned shuffled_planned
  by (simp add: shuffled_pipeline_def sample_pipeline_def accepting_contracts_def new_graph_node_def)

text \<open>
  A reported cycle names, sorted and without repetition, nodes of the pipeline each of which
  depends on another reported node; the report is only made of a cyclic pipeline.
\<close>

theorem plan_cycle_reported:
  assumes "plan p = Err (Cycle c)"
  shows "c \<noteq> [] \<and> sorted c \<and> distinct c \<and> set c \<subseteq> node_id ` set (pl_nodes p)
    \<and> (\<forall>k \<in> set c. \<exists>d \<in> set c. (d, k) \<in> precedes p) \<and> \<not> acyclic (precedes p)"
proof -
  note wf = plan_Cycle(1) [OF assms]
  have "topo_loop (incoming (node_map (pl_nodes p)) (pl_edges p)) [] = Err (Cycle c)"
    using plan_Cycle(2) [OF assms] by (simp add: topological_order_def)
  from topological_cases(2) [OF wf _ this] have c: "c \<noteq> []" "sorted c" "distinct c"
    "set c \<subseteq> node_id ` set (pl_nodes p)"
    "\<forall>k \<in> set c. \<exists>d \<in> deps_of (precedes p) k. d \<notin> node_id ` set (pl_nodes p) - set c" by auto
  then have dep: "\<forall>k \<in> set c. \<exists>d \<in> set c. (d, k) \<in> precedes p"
    using precedes_nodes [OF wf] by (force simp: deps_of_def)
  moreover have "\<not> acyclic (precedes p)"
    using acyclic_source [of "precedes p" "set c"] dep c(1) by auto
  ultimately show ?thesis using c by blast
qed

theorem plan_cycle_reported_witness:
  "set [''a'', ''b''] \<subseteq> node_id ` set (pl_nodes cyclic_pipeline) \<and> sorted [''a'', ''b''] \<and> \<not> acyclic (precedes cyclic_pipeline)"
  using plan_cycle_reported [OF cyclic_refused] by blast

text \<open>
  The gates of a node are exactly those declared by the node itself or by a node it is
  reachable from along edges.
\<close>

theorem gates_for_exact:
  "gates_for q n = {gate. \<exists>m spec. (n, m) \<in> (upstream q)\<^sup>* \<and> bm_get (nodes q) m = Some spec
     \<and> node_gated_by spec = Some gate}"
  using gates_loop_exact [of "{}" q "[n]" "{}"] by (auto simp: gates_for_def gates_of_def)

end
