(* ===== verification/Schedule.thy ===== *)
theory Schedule
  imports Plan "HOL-Library.Product_Lexorder"
begin

text \<open>
  The scheduler of \<^verbatim>\<open>crates/review-graph/src/schedule.rs\<close>.

  \<^item> \<open>Dispatch\<close> is the trait the caller implements, a record of functions and a parameter of the
    model. A dispatcher may answer differently over time: the loop consults \<open>d i\<close> in its
    \<open>i\<close>-th iteration, and within one iteration no question about a node is put twice.
  \<^item> \<open>RunState\<close> holds the local variables of \<open>Scheduler::run\<close>; \<open>in_flight\<close> maps a running node to
    what its worker captured.
  \<^item> \<open>visit\<close> is the body of the scan, \<open>scan\<close> the scan over a snapshot of the order, \<open>finish_wave\<close>
    the barrier that receives every running worker and admits the results in plan order, and
    \<open>run\<close> the loop. The order in which workers report is a parameter (\<open>timing\<close>).
\<close>

subsection \<open>Data\<close>

type_synonym ArtifactMap = "(string, string list) bmap"

record OwnedChildDispatch =
  oc_node :: Node
  oc_inputs :: ArtifactMap

datatype NodeFailureClass = RunBudgetExhausted

datatype SuppressionReason = BranchNotSelected | UpstreamMissing

datatype NodeOutcome =
    Completed ArtifactMap
  | Failed string "NodeFailureClass option"
  | Suppressed SuppressionReason

record Dispatch =
  coordinates_owned_children :: "Node \<Rightarrow> bool"
  owned_child_parallelism :: "Node \<Rightarrow> nat option"
  expand_owned_children :: "Node \<Rightarrow> ArtifactMap \<Rightarrow> (string, OwnedChildDispatch list) res"
  complete_owned_children :: "Node \<Rightarrow> ArtifactMap \<Rightarrow> (string \<times> NodeOutcome) list \<Rightarrow> (string, ArtifactMap) res"
  requires_successful_predecessors :: "Node \<Rightarrow> bool"
  task_node_selected :: "Node \<Rightarrow> ArtifactMap \<Rightarrow> (string, bool) res"
  record_invocation :: "Node \<Rightarrow> ArtifactMap \<Rightarrow> (string, unit) res"
  dispatch_run :: "Node \<Rightarrow> ArtifactMap \<Rightarrow> (string, ArtifactMap) res"
  record_outputs :: "Node \<Rightarrow> ArtifactMap \<Rightarrow> (string, unit) res"
  failure_class :: "string \<Rightarrow> NodeFailureClass option"

text \<open>The trait's default methods around a given \<open>run\<close>.\<close>

definition default_dispatch :: "(Node \<Rightarrow> ArtifactMap \<Rightarrow> (string, ArtifactMap) res) \<Rightarrow> Dispatch" where
  "default_dispatch r =
     \<lparr>coordinates_owned_children = (\<lambda>_. False),
      owned_child_parallelism = (\<lambda>_. None),
      expand_owned_children = (\<lambda>_ _. Err ''Owned-child expansion is not installed''),
      complete_owned_children = (\<lambda>_ _ _. Err ''Owned-child completion is not installed''),
      requires_successful_predecessors = (\<lambda>n. node_kind n \<noteq> Task),
      task_node_selected = (\<lambda>_ _. Ok True),
      record_invocation = (\<lambda>_ _. Ok ()),
      dispatch_run = r,
      record_outputs = (\<lambda>_ _. Ok ()),
      failure_class = (\<lambda>_. None)\<rparr>"

record RunReport =
  rr_outcomes :: "(string \<times> NodeOutcome) list"
  blocked_gates :: "string set"

definition report_outcome :: "RunReport \<Rightarrow> string \<Rightarrow> NodeOutcome option" where
  "report_outcome r n = map_option snd (List.find (\<lambda>(i, _). i = n) (rr_outcomes r))"

fun is_completed :: "NodeOutcome \<Rightarrow> bool" where
  "is_completed (Completed _) = True"
| "is_completed _ = False"

definition report_complete :: "RunReport \<Rightarrow> bool" where
  "report_complete r = list_all (\<lambda>(_, o'). is_completed o') (rr_outcomes r)"

record Scheduler =
  sc_plan :: Planned
  max_parallel :: nat
  scope_limits :: "(string, nat) bmap"
  first :: "string set"

definition new_scheduler :: "Planned \<Rightarrow> nat \<Rightarrow> Scheduler" where
  "new_scheduler q n = \<lparr>sc_plan = q, max_parallel = max n 1, scope_limits = bm_empty, first = {}\<rparr>"

definition with_first :: "Scheduler \<Rightarrow> string set \<Rightarrow> (string, Scheduler) res" where
  "with_first s f =
     (if \<exists>i \<in> f. \<not> bm_contains (nodes (sc_plan s)) i \<or> dependencies_of (sc_plan s) i \<noteq> []
      then Err ''A node that runs first must exist and depend on nothing''
      else Ok (s\<lparr>first := f\<rparr>))"

definition with_scope_limits :: "Scheduler \<Rightarrow> (string, nat) bmap \<Rightarrow> (string, Scheduler) res" where
  "with_scope_limits s limits =
     (if list_ex (\<lambda>(scope, limit). limit = 0 \<or> \<not> dotted scope) (bm_entries limits)
      then Err ''Invalid Pipeline scope concurrency bound''
      else Ok (s\<lparr>scope_limits := limits\<rparr>))"

record RunState =
  outputs :: "(string \<times> string, string list) bmap"
  outcomes :: "(string, NodeOutcome) bmap"
  unusable :: "string set"
  in_flight :: "(string, Node \<times> ArtifactMap) bmap"
  run_nodes :: "(string, Node) bmap"
  run_order :: "string list"
  child_inputs :: "(string, ArtifactMap) bmap"
  owners :: "(string, ArtifactMap \<times> string list) bmap"
  child_limits :: "(string, string \<times> nat) bmap"
  coordinated :: "(string, (string, ArtifactMap) res) bmap"
  progressed :: bool

subsection \<open>Contracts of outputs and of owned children\<close>

definition validate_outputs :: "Node \<Rightarrow> ArtifactMap \<Rightarrow> (string, unit) res" where
  "validate_outputs n produced =
     and_then (each (\<lambda>name. if list_ex (\<lambda>p. pc_name p = name) (node_outputs n) then Ok ()
         else Err (''node produced undeclared output port '' @ node_id n @ ''.'' @ name)) (bm_keys produced)) (\<lambda>_.
       each (\<lambda>p. let count = (case bm_get produced (pc_name p) of None \<Rightarrow> 0 | Some xs \<Rightarrow> length xs) in
         if \<not> pc_optional p \<and> count = 0
           then Err (''node produced no artifacts for required output port '' @ node_id n @ ''.'' @ pc_name p)
         else if pc_cardinality p = One \<and> 1 < count
           then Err (''node produced '' @ show_nat count @ '' artifacts for single-valued output port ''
             @ node_id n @ ''.'' @ pc_name p)
         else Ok ()) (node_outputs n))"

fun ports_malformed :: "string set \<Rightarrow> PortContract list \<Rightarrow> bool" where
  "ports_malformed names [] = False"
| "ports_malformed names (p # ps) =
     (\<not> is_name (pc_name p) \<or> \<not> is_artifact_type (pc_artifact_type p) \<or> pc_name p \<in> names
      \<or> ports_malformed (insert (pc_name p) names) ps)"

definition child_malformed :: "Node \<Rightarrow> (string, Node) bmap \<Rightarrow> string set \<Rightarrow> OwnedChildDispatch \<Rightarrow> bool" where
  "child_malformed parent ns seen child =
     (let n = oc_node child in
      (case strip_prefix (node_id parent @ ''.'') (node_id n) of None \<Rightarrow> True | Some suffix \<Rightarrow> \<not> is_name suffix)
      \<or> bm_contains ns (node_id n)
      \<or> node_id n \<in> seen
      \<or> node_gated_by n \<noteq> None
      \<or> \<not> (node_kind n = Task \<or> node_kind n = Reviewer)
      \<or> length (bm_entries (oc_inputs child)) \<noteq> length (node_inputs n)
      \<or> list_ex (\<lambda>p. case bm_get (oc_inputs child) (pc_name p) of
             None \<Rightarrow> True
           | Some vs \<Rightarrow> (\<not> pc_optional p \<and> vs = []) \<or> (pc_cardinality p = One \<and> 1 < length vs)) (node_inputs n)
      \<or> list_ex (ports_malformed {}) [node_inputs n, node_outputs n])"

fun expansion_valid :: "Node \<Rightarrow> (string, Node) bmap \<Rightarrow> string set \<Rightarrow> OwnedChildDispatch list \<Rightarrow> bool" where
  "expansion_valid parent ns seen [] = True"
| "expansion_valid parent ns seen (c # cs) =
     (\<not> child_malformed parent ns seen c \<and> expansion_valid parent ns (insert (node_id (oc_node c)) seen) cs)"

definition validate_owned_expansion ::
  "Node \<Rightarrow> OwnedChildDispatch list \<Rightarrow> (string, Node) bmap \<Rightarrow> (string, unit) res" where
  "validate_owned_expansion parent children ns =
     (if expansion_valid parent ns {} children then Ok ()
      else Err (''Invalid owned-child dispatch for '' @ node_id parent))"

subsection \<open>One step of the scan\<close>

definition suppress :: "string \<Rightarrow> SuppressionReason \<Rightarrow> RunState \<Rightarrow> RunState" where
  "suppress i reason st = st\<lparr>outcomes := bm_insert i (Suppressed reason) (outcomes st),
     unusable := insert i (unusable st), progressed := True\<rparr>"

definition fail_node :: "string \<Rightarrow> string \<Rightarrow> NodeFailureClass option \<Rightarrow> RunState \<Rightarrow> RunState" where
  "fail_node i error cls st = st\<lparr>outcomes := bm_insert i (Failed error cls) (outcomes st),
     unusable := insert i (unusable st), progressed := True\<rparr>"

definition coordinate :: "string \<Rightarrow> (string, ArtifactMap) res \<Rightarrow> RunState \<Rightarrow> RunState" where
  "coordinate i r st = st\<lparr>coordinated := bm_insert i r (coordinated st), progressed := True\<rparr>"

definition scope_holds :: "string \<Rightarrow> string \<Rightarrow> bool" where
  "scope_holds scope i = (case strip_prefix scope i of None \<Rightarrow> False | Some tail \<Rightarrow> starts_with tail CHR ''.'')"

definition parallel_full :: "Scheduler \<Rightarrow> RunState \<Rightarrow> bool" where
  "parallel_full s st = (max_parallel s \<le> length (bm_keys (in_flight st)))"

definition scope_full :: "Scheduler \<Rightarrow> string \<Rightarrow> RunState \<Rightarrow> bool" where
  "scope_full s i st = list_ex (\<lambda>(scope, limit). scope_holds scope i
     \<and> limit \<le> length (filter (scope_holds scope) (bm_keys (in_flight st)))) (bm_entries (scope_limits s))"

definition owned_by :: "RunState \<Rightarrow> string \<Rightarrow> string \<Rightarrow> bool" where
  "owned_by st owner i = (case bm_get (child_limits st) i of None \<Rightarrow> False | Some (other, _) \<Rightarrow> other = owner)"

definition owner_full :: "string \<Rightarrow> RunState \<Rightarrow> bool" where
  "owner_full i st =
     (case bm_get (child_limits st) i of
        None \<Rightarrow> False
      | Some (owner, limit) \<Rightarrow> limit \<le> length (filter (owned_by st owner) (bm_keys (in_flight st))))"

text \<open>The inputs a node receives: what the edges resolved to, by input port.\<close>

fun deliver ::
  "(string \<times> string, string list) bmap \<Rightarrow> Edge list \<Rightarrow> ArtifactMap \<Rightarrow> (string, ArtifactMap) res" where
  "deliver outs [] inputs = Ok inputs"
| "deliver outs (e # es) inputs =
     (case bm_get outs (port_node (edge_from e), port_name (edge_from e)) of
        None \<Rightarrow> deliver outs es inputs
      | Some artifacts \<Rightarrow>
          and_then (expect (bm_get inputs (port_name (edge_to e)))) (\<lambda>present.
            deliver outs es (bm_insert (port_name (edge_to e)) (present @ artifacts) inputs)))"

definition resolve_inputs :: "Node \<Rightarrow> string \<Rightarrow> Edge list \<Rightarrow> RunState \<Rightarrow> (string, ArtifactMap) res" where
  "resolve_inputs n i dependencies st =
     deliver (outputs st) dependencies
       (case bm_get (child_inputs st) i of
          Some inputs \<Rightarrow> inputs
        | None \<Rightarrow> bm_of_list (map (\<lambda>p. (pc_name p, [])) (node_inputs n)))"

fun inputs_missing :: "PortContract list \<Rightarrow> ArtifactMap \<Rightarrow> (string, bool) res" where
  "inputs_missing [] inputs = Ok False"
| "inputs_missing (p # ps) inputs =
     and_then (expect (bm_get inputs (pc_name p))) (\<lambda>xs.
       if (\<not> pc_optional p \<and> length xs = 0) \<or> (pc_cardinality p = One \<and> 1 < length xs) then Ok True
       else inputs_missing ps inputs)"

text \<open>Registering the children of an owner: they follow it in the order.\<close>

fun splice_after :: "string \<Rightarrow> string list \<Rightarrow> string list \<Rightarrow> string list option" where
  "splice_after i new [] = None"
| "splice_after i new (x # xs) =
     (if x = i then Some (x # new @ xs) else map_option (Cons x) (splice_after i new xs))"

definition register_child :: "string \<Rightarrow> nat option \<Rightarrow> OwnedChildDispatch \<Rightarrow> RunState \<Rightarrow> RunState" where
  "register_child owner limit c st =
     (let i = node_id (oc_node c) in
      st\<lparr>child_limits := (case limit of None \<Rightarrow> child_limits st
           | Some l \<Rightarrow> bm_insert i (owner, max l 1) (child_limits st)),
         child_inputs := bm_insert i (oc_inputs c) (child_inputs st),
         run_nodes := bm_insert i (oc_node c) (run_nodes st)\<rparr>)"

definition register_children ::
  "string \<Rightarrow> ArtifactMap \<Rightarrow> nat option \<Rightarrow> OwnedChildDispatch list \<Rightarrow> RunState \<Rightarrow> (string, RunState) res" where
  "register_children owner inputs limit children st =
     (let ids = map (\<lambda>c. node_id (oc_node c)) children in
      and_then (expect (splice_after owner ids (run_order st))) (\<lambda>ord.
        let st' = fold (register_child owner limit) children (st\<lparr>run_order := ord\<rparr>) in
        Ok (st'\<lparr>owners := bm_insert owner (inputs, ids) (owners st'), progressed := True\<rparr>)))"

definition expand_owner :: "Dispatch \<Rightarrow> string \<Rightarrow> Node \<Rightarrow> ArtifactMap \<Rightarrow> RunState \<Rightarrow> (string, RunState) res" where
  "expand_owner d i n inputs st =
     (case and_then (catch_unwind (''owned expansion panicked for node '' @ node_id n)
              (expand_owned_children d n inputs)) (\<lambda>children.
            and_then (validate_owned_expansion n children (run_nodes st)) (\<lambda>_. Ok children)) of
        Ok children \<Rightarrow> register_children i inputs (owned_child_parallelism d n) children st
      | Err error \<Rightarrow> Ok (coordinate i (Err error) st)
      | Panic \<Rightarrow> Panic)"

text \<open>From the recorded invocation to the running worker.\<close>

definition launch :: "Dispatch \<Rightarrow> bool \<Rightarrow> string \<Rightarrow> Node \<Rightarrow> ArtifactMap \<Rightarrow> RunState \<Rightarrow> (string, RunState) res" where
  "launch d coordinates i n inputs st =
     (case record_invocation d n inputs of
        Panic \<Rightarrow> Panic
      | Err error \<Rightarrow> Ok (fail_node i error (failure_class d i) st)
      | Ok _ \<Rightarrow>
          if coordinates then expand_owner d i n inputs st
          else Ok (st\<lparr>in_flight := bm_insert i (n, inputs) (in_flight st), progressed := True\<rparr>))"

definition select_branch :: "Dispatch \<Rightarrow> bool \<Rightarrow> string \<Rightarrow> Node \<Rightarrow> ArtifactMap \<Rightarrow> RunState \<Rightarrow> (string, RunState) res" where
  "select_branch d coordinates i n inputs st =
     (if node_kind n \<noteq> Task then launch d coordinates i n (bm_map (\<lambda>_ artifacts. sort artifacts) inputs) st
      else (case task_node_selected d n inputs of
              Panic \<Rightarrow> Panic
            | Ok False \<Rightarrow> Ok (suppress i BranchNotSelected st)
            | Err error \<Rightarrow> Ok (fail_node i error (failure_class d i) st)
            | Ok True \<Rightarrow>
                and_then (inputs_missing (node_inputs n) inputs) (\<lambda>missing.
                  if missing then Ok (suppress i UpstreamMissing st)
                  else launch d coordinates i n inputs st)))"

definition visit_node :: "Scheduler \<Rightarrow> Dispatch \<Rightarrow> string \<Rightarrow> Node \<Rightarrow> RunState \<Rightarrow> (string, RunState) res" where
  "visit_node s d i n st =
     (let is_child = bm_contains (child_inputs st) i;
          coordinates = \<not> is_child \<and> coordinates_owned_children d n;
          dependencies = (if is_child then [] else dependencies_of (sc_plan s) i)
      in if requires_successful_predecessors d n
            \<and> list_ex (\<lambda>e. port_node (edge_from e) \<in> unusable st) dependencies
           then Ok (suppress i UpstreamMissing st)
         else if \<not> list_all (\<lambda>e. bm_contains (outcomes st) (port_node (edge_from e))) dependencies then Ok st
         else if \<not> coordinates \<and> parallel_full s st then Ok st
         else if \<not> coordinates \<and> scope_full s i st then Ok st
         else if \<not> coordinates \<and> owner_full i st then Ok st
         else and_then (resolve_inputs n i dependencies st) (\<lambda>inputs. select_branch d coordinates i n inputs st))"

definition visit_owner :: "Dispatch \<Rightarrow> string \<Rightarrow> Node \<Rightarrow> ArtifactMap \<Rightarrow> string list \<Rightarrow> RunState \<Rightarrow> (string, RunState) res" where
  "visit_owner d i n inputs children st =
     (if list_all (bm_contains (outcomes st)) children
      then and_then (traverse (\<lambda>c. and_then (expect (bm_get (outcomes st) c)) (\<lambda>o'. Ok (c, o'))) children) (\<lambda>terminal.
        Ok (coordinate i (catch_unwind (''owned completion panicked for node '' @ node_id n)
          (complete_owned_children d n inputs terminal)) st))
      else Ok st)"

definition visit :: "Scheduler \<Rightarrow> Dispatch \<Rightarrow> string \<Rightarrow> RunState \<Rightarrow> (string, RunState) res" where
  "visit s d i st =
     (if bm_contains (outcomes st) i \<or> bm_contains (in_flight st) i then Ok st
      else and_then (expect (bm_get (run_nodes st) i)) (\<lambda>n.
        case bm_get (owners st) i of
          Some (inputs, children) \<Rightarrow> visit_owner d i n inputs children st
        | None \<Rightarrow>
            if i \<notin> first s \<and> (\<exists>f \<in> first s. \<not> bm_contains (outcomes st) f) then Ok st
            else if i \<notin> first s \<and> (\<exists>f \<in> first s. f \<in> unusable st) then Ok (suppress i UpstreamMissing st)
            else visit_node s d i n st))"

fun scan :: "Scheduler \<Rightarrow> Dispatch \<Rightarrow> string list \<Rightarrow> RunState \<Rightarrow> (string, RunState) res" where
  "scan s d [] st = Ok st"
| "scan s d (i # is) st = and_then (visit s d i st) (scan s d is)"

subsection \<open>The barrier after a scan\<close>

text \<open>What a worker sends: its node's identifier and its result.\<close>

definition worker :: "Dispatch \<Rightarrow> Node \<times> ArtifactMap \<Rightarrow> string \<times> (string, ArtifactMap) res" where
  "worker d job = (node_id (fst job),
     catch_unwind (''dispatch panicked for node '' @ node_id (fst job)) (dispatch_run d (fst job) (snd job)))"

fun receive ::
  "Dispatch \<Rightarrow> string list \<Rightarrow> (string, Node \<times> ArtifactMap) bmap \<Rightarrow> (string, (string, ArtifactMap) res) bmap
     \<Rightarrow> (string, (string, ArtifactMap) res) bmap" where
  "receive d [] jobs completions = completions"
| "receive d (i # is) jobs completions =
     receive d is jobs
       (case bm_get jobs i of
          None \<Rightarrow> completions
        | Some job \<Rightarrow> bm_insert (fst (worker d job)) (snd (worker d job)) completions)"

definition reject_node :: "string \<Rightarrow> string \<Rightarrow> NodeFailureClass option \<Rightarrow> RunState \<Rightarrow> RunState" where
  "reject_node i error cls st = st\<lparr>outcomes := bm_insert i (Failed error cls) (outcomes st),
     unusable := insert i (unusable st)\<rparr>"

definition admit_output :: "string \<Rightarrow> ArtifactMap \<Rightarrow> RunState \<Rightarrow> RunState" where
  "admit_output i produced st =
     st\<lparr>outputs := bm_extend (outputs st) (map (\<lambda>(port, artifacts). ((i, port), artifacts)) (bm_entries produced)),
        outcomes := bm_insert i (Completed produced) (outcomes st)\<rparr>"

definition admit_one :: "Dispatch \<Rightarrow> string \<Rightarrow> Node \<Rightarrow> (string, ArtifactMap) res \<Rightarrow> RunState \<Rightarrow> (string, RunState) res" where
  "admit_one d i n result st =
     (case result of
        Ok produced \<Rightarrow>
          (case validate_outputs n produced of
             Panic \<Rightarrow> Panic
           | Err error \<Rightarrow> Ok (reject_node i error None st)
           | Ok _ \<Rightarrow>
               (case record_outputs d n produced of
                  Panic \<Rightarrow> Panic
                | Err error \<Rightarrow> Ok (reject_node i error None st)
                | Ok _ \<Rightarrow> Ok (admit_output i produced st)))
      | Err error \<Rightarrow> Ok (reject_node i error (failure_class d i) st)
      | Panic \<Rightarrow> Panic)"

fun admit_wave ::
  "Dispatch \<Rightarrow> string list \<Rightarrow> (string, (string, ArtifactMap) res) bmap \<Rightarrow> RunState \<Rightarrow> (string, RunState) res" where
  "admit_wave d [] completions st = Ok st"
| "admit_wave d (i # is) completions st =
     and_then (expect (bm_get completions i)) (\<lambda>result.
     and_then (expect (bm_get (run_nodes st) i)) (\<lambda>n.
     and_then (admit_one d i n result st) (\<lambda>st'.
       admit_wave d is (bm_remove i completions) st')))"

definition finish_wave ::
  "Dispatch \<Rightarrow> (string list \<Rightarrow> string list) \<Rightarrow> RunState \<Rightarrow> (string, RunState) res" where
  "finish_wave d arrival st =
     (let wave = set (bm_keys (in_flight st)) \<union> set (bm_keys (coordinated st));
          completions = receive d (arrival (bm_keys (in_flight st))) (in_flight st) (coordinated st)
      in admit_wave d (filter (\<lambda>i. i \<in> wave) (run_order st)) completions
           (st\<lparr>in_flight := bm_empty, coordinated := bm_empty\<rparr>))"

subsection \<open>The loop\<close>

definition start_scan :: "RunState \<Rightarrow> RunState" where
  "start_scan st = st\<lparr>coordinated := bm_empty, progressed := False\<rparr>"

partial_function (option) run_loop ::
  "Scheduler \<Rightarrow> (nat \<Rightarrow> Dispatch) \<Rightarrow> (nat \<Rightarrow> string list \<Rightarrow> string list) \<Rightarrow> nat \<Rightarrow> RunState
     \<Rightarrow> (string, RunState) res option" where
  "run_loop s d timing k st =
     (case scan s (d k) (run_order st) (start_scan st) of
        Panic \<Rightarrow> Some Panic
      | Err e \<Rightarrow> Some (Err e)
      | Ok st1 \<Rightarrow>
          if bm_is_empty (in_flight st1) \<and> bm_is_empty (coordinated st1)
          then if progressed st1 then run_loop s d timing (k + 1) st1 else Some (Ok st1)
          else (case finish_wave (d k) (timing k) st1 of
                  Panic \<Rightarrow> Some Panic
                | Err e \<Rightarrow> Some (Err e)
                | Ok st2 \<Rightarrow> run_loop s d timing (k + 1) st2))"

declare run_loop.simps [code]

definition initial_state :: "Scheduler \<Rightarrow> RunState" where
  "initial_state s =
     \<lparr>outputs = bm_empty, outcomes = bm_empty, unusable = {}, in_flight = bm_empty,
      run_nodes = nodes (sc_plan s),
      run_order = filter (\<lambda>i. i \<in> first s) (order (sc_plan s)) @ filter (\<lambda>i. i \<notin> first s) (order (sc_plan s)),
      child_inputs = bm_empty, owners = bm_empty, child_limits = bm_empty, coordinated = bm_empty,
      progressed = False\<rparr>"

fun report_entries :: "string list \<Rightarrow> (string, NodeOutcome) bmap \<Rightarrow> (string, (string \<times> NodeOutcome) list) res" where
  "report_entries [] m = Ok []"
| "report_entries (i # is) m =
     and_then (expect (bm_get m i)) (\<lambda>o'.
     and_then (report_entries is (bm_remove i m)) (\<lambda>rest. Ok ((i, o') # rest)))"

definition run ::
  "Scheduler \<Rightarrow> (nat \<Rightarrow> Dispatch) \<Rightarrow> (nat \<Rightarrow> string list \<Rightarrow> string list) \<Rightarrow> (string, RunReport) res option" where
  "run s d timing =
     map_option (\<lambda>r. and_then r (\<lambda>st.
       and_then (report_entries (order (sc_plan s)) (outcomes st)) (\<lambda>entries.
         Ok \<lparr>rr_outcomes = entries, blocked_gates = {}\<rparr>)))
       (run_loop s d timing 0 (initial_state s))"

end
