(* ===== verification/ScheduleSteps.thy ===== *)
theory ScheduleSteps
  imports Schedule
begin

text \<open>
  The scheduler as a transition system. \<open>visited\<close> lists what one visit of the scan can do and
  under which conditions; \<open>sched_step\<close> is a visit, a barrier or the start of a scan, under any
  dispatcher and any arrival order. The invariants of the run state are proved over these steps.
\<close>

subsection \<open>What one visit can do\<close>

text \<open>
  The scan visits a node that has no outcome and is not running. \<open>released\<close>: the nodes that run
  first have all completed (or it is one of them). \<open>cleared\<close>: every upstream node has an outcome,
  and a usable one where the node requires it.
\<close>

definition open_node :: "RunState \<Rightarrow> string \<Rightarrow> Node \<Rightarrow> bool" where
  "open_node st i n = (bm_get (outcomes st) i = None \<and> bm_get (in_flight st) i = None \<and> bm_get (run_nodes st) i = Some n)"

definition dependencies :: "Scheduler \<Rightarrow> RunState \<Rightarrow> string \<Rightarrow> Edge list" where
  "dependencies s st i = (if bm_contains (child_inputs st) i then [] else dependencies_of (sc_plan s) i)"

definition released :: "Scheduler \<Rightarrow> RunState \<Rightarrow> string \<Rightarrow> bool" where
  "released s st i = (i \<in> first s \<or> (\<forall>f \<in> first s. f \<in> dom (bm_get (outcomes st)) \<and> f \<notin> unusable st))"

definition cleared :: "Scheduler \<Rightarrow> Dispatch \<Rightarrow> RunState \<Rightarrow> string \<Rightarrow> Node \<Rightarrow> bool" where
  "cleared s d st i n = (\<forall>e \<in> set (dependencies s st i). port_node (edge_from e) \<in> dom (bm_get (outcomes st))
     \<and> (requires_successful_predecessors d n \<longrightarrow> port_node (edge_from e) \<notin> unusable st))"

definition arrange :: "Node \<Rightarrow> ArtifactMap \<Rightarrow> ArtifactMap" where
  "arrange n inputs = (if node_kind n = Task then inputs else bm_map (\<lambda>_ artifacts. sort artifacts) inputs)"

inductive visited :: "Scheduler \<Rightarrow> Dispatch \<Rightarrow> string \<Rightarrow> RunState \<Rightarrow> RunState \<Rightarrow> bool"
  for s :: Scheduler and d :: Dispatch and i :: string and st :: RunState where
  idle: "visited s d i st st"
| barred: "open_node st i n \<Longrightarrow> bm_get (owners st) i = None \<Longrightarrow> i \<notin> first s \<Longrightarrow> f \<in> first s \<Longrightarrow> f \<in> unusable st
    \<Longrightarrow> visited s d i st (suppress i UpstreamMissing st)"
| upstream_lost: "open_node st i n \<Longrightarrow> bm_get (owners st) i = None \<Longrightarrow> released s st i
    \<Longrightarrow> requires_successful_predecessors d n \<Longrightarrow> e \<in> set (dependencies s st i) \<Longrightarrow> port_node (edge_from e) \<in> unusable st
    \<Longrightarrow> visited s d i st (suppress i UpstreamMissing st)"
| input_missing: "open_node st i n \<Longrightarrow> bm_get (owners st) i = None \<Longrightarrow> released s st i \<Longrightarrow> cleared s d st i n
    \<Longrightarrow> node_kind n = Task \<Longrightarrow> visited s d i st (suppress i UpstreamMissing st)"
| unselected: "open_node st i n \<Longrightarrow> bm_get (owners st) i = None \<Longrightarrow> released s st i \<Longrightarrow> cleared s d st i n
    \<Longrightarrow> node_kind n = Task \<Longrightarrow> visited s d i st (suppress i BranchNotSelected st)"
| failed: "open_node st i n \<Longrightarrow> bm_get (owners st) i = None \<Longrightarrow> released s st i \<Longrightarrow> cleared s d st i n
    \<Longrightarrow> visited s d i st (fail_node i error cls st)"
| spawned: "open_node st i n \<Longrightarrow> bm_get (owners st) i = None \<Longrightarrow> released s st i \<Longrightarrow> cleared s d st i n
    \<Longrightarrow> \<not> parallel_full s st \<Longrightarrow> \<not> scope_full s i st \<Longrightarrow> \<not> owner_full i st
    \<Longrightarrow> resolve_inputs n i (dependencies s st i) st = Ok inputs
    \<Longrightarrow> visited s d i st (st\<lparr>in_flight := bm_insert i (n, arrange n inputs) (in_flight st), progressed := True\<rparr>)"
| registered: "open_node st i n \<Longrightarrow> bm_get (owners st) i = None \<Longrightarrow> released s st i \<Longrightarrow> cleared s d st i n
    \<Longrightarrow> \<not> bm_contains (child_inputs st) i \<Longrightarrow> coordinates_owned_children d n
    \<Longrightarrow> expansion_valid n (run_nodes st) {} children
    \<Longrightarrow> register_children i inputs limit children st = Ok st' \<Longrightarrow> visited s d i st st'"
| refused: "open_node st i n \<Longrightarrow> bm_get (owners st) i = None \<Longrightarrow> released s st i \<Longrightarrow> cleared s d st i n
    \<Longrightarrow> visited s d i st (coordinate i (Err error) st)"
| gathered: "open_node st i n \<Longrightarrow> bm_get (owners st) i = Some (inputs, children) \<Longrightarrow> r \<noteq> Panic
    \<Longrightarrow> visited s d i st (coordinate i r st)"

lemma launch_visited:
  assumes "launch d coordinates i n (arrange n inputs) st = Ok st'" "open_node st i n"
    "bm_get (owners st) i = None" "released s st i" "cleared s d st i n"
    and c: "coordinates = (\<not> bm_contains (child_inputs st) i \<and> coordinates_owned_children d n)"
    and "\<not> coordinates \<Longrightarrow> \<not> parallel_full s st \<and> \<not> scope_full s i st \<and> \<not> owner_full i st"
    and "resolve_inputs n i (dependencies s st i) st = Ok inputs"
  shows "visited s d i st st'"
proof (cases "record_invocation d n (arrange n inputs)")
  case (Ok u)
  show ?thesis
  proof (cases coordinates)
    case True
    then have "expand_owner d i n (arrange n inputs) st = Ok st'" using assms(1) Ok by (simp add: launch_def)
    then show ?thesis
      using assms True by (auto simp: expand_owner_def validate_owned_expansion_def and_then_eq_Ok and_then_eq_Err
          split: res.splits if_splits intro: visited.intros)
  next
    case False
    then have "st' = st\<lparr>in_flight := bm_insert i (n, arrange n inputs) (in_flight st), progressed := True\<rparr>"
      using assms(1) Ok by (simp add: launch_def)
    then show ?thesis using spawned assms(2-5,7,8) False by blast
  qed
qed (use assms in \<open>auto simp: launch_def intro: failed\<close>)

lemma select_branch_visited:
  assumes "select_branch d coordinates i n inputs st = Ok st'" "open_node st i n"
    "bm_get (owners st) i = None" "released s st i" "cleared s d st i n"
    and "coordinates = (\<not> bm_contains (child_inputs st) i \<and> coordinates_owned_children d n)"
    and "\<not> coordinates \<Longrightarrow> \<not> parallel_full s st \<and> \<not> scope_full s i st \<and> \<not> owner_full i st"
    and "resolve_inputs n i (dependencies s st i) st = Ok inputs"
  shows "visited s d i st st'"
proof -
  note launch = launch_visited [OF _ assms(2-)]
  show ?thesis
  proof (cases "node_kind n = Task")
    case True
    then have "arrange n inputs = inputs" by (simp add: arrange_def)
    then show ?thesis
      using assms(1-5) True launch
      by (auto simp: select_branch_def and_then_eq_Ok split: res.splits bool.splits if_splits intro: visited.intros)
  next
    case False
    then show ?thesis using assms(1) launch by (simp add: select_branch_def arrange_def)
  qed
qed

lemma traverse_not_Panic:
  "list_all (bm_contains m) cs \<Longrightarrow>
   traverse (\<lambda>c. and_then (expect (bm_get m c)) (\<lambda>v. Ok (c, v))) cs = (Ok (map (\<lambda>c. (c, the (bm_get m c))) cs) :: ('e, _) res)"
  by (rule traverse_Ok) (auto simp: list_all_iff)

lemma visit_node_eq:
  "visit_node s d i n st =
     (if requires_successful_predecessors d n
         \<and> list_ex (\<lambda>e. port_node (edge_from e) \<in> unusable st) (dependencies s st i)
      then Ok (suppress i UpstreamMissing st)
      else if \<not> list_all (\<lambda>e. bm_contains (outcomes st) (port_node (edge_from e))) (dependencies s st i)
         \<or> \<not> (\<not> bm_contains (child_inputs st) i \<and> coordinates_owned_children d n)
           \<and> (parallel_full s st \<or> scope_full s i st \<or> owner_full i st)
      then Ok st
      else and_then (resolve_inputs n i (dependencies s st i) st)
        (\<lambda>inputs. select_branch d (\<not> bm_contains (child_inputs st) i \<and> coordinates_owned_children d n) i n inputs st))"
  by (simp add: visit_node_def dependencies_def Let_def)

lemma visit_node_visited:
  assumes start: "open_node st i n" "bm_get (owners st) i = None" and r: "released s st i"
    and v: "visit_node s d i n st = Ok st'"
  shows "visited s d i st st'"
proof -
  let ?c = "\<not> bm_contains (child_inputs st) i \<and> coordinates_owned_children d n"
  let ?lost = "requires_successful_predecessors d n
    \<and> list_ex (\<lambda>e. port_node (edge_from e) \<in> unusable st) (dependencies s st i)"
  let ?all = "list_all (\<lambda>e. bm_contains (outcomes st) (port_node (edge_from e))) (dependencies s st i)"
  let ?full = "\<not> ?c \<and> (parallel_full s st \<or> scope_full s i st \<or> owner_full i st)"
  note eq = visit_node_eq [of s d i n st]
  consider (lost) ?lost | (wait) "\<not> ?lost" "\<not> ?all \<or> ?full" | (go) "\<not> ?lost" ?all "\<not> ?full" by blast
  then show ?thesis
  proof cases
    case lost
    then have "st' = suppress i UpstreamMissing st" using v unfolding eq by simp
    then show ?thesis using lost upstream_lost [OF start r] by (auto simp: list_ex_iff)
  next
    case wait
    then have "st' = st" using v unfolding eq if_not_P [OF wait(1)] if_P [OF wait(2)] by simp
    then show ?thesis by (simp add: idle)
  next
    case go
    then have "and_then (resolve_inputs n i (dependencies s st i) st) (\<lambda>inputs. select_branch d ?c i n inputs st) = Ok st'"
      using v unfolding eq by (simp only: if_False if_True simp_thms)
    then obtain inputs where "resolve_inputs n i (dependencies s st i) st = Ok inputs"
      "select_branch d ?c i n inputs st = Ok st'" unfolding and_then_eq_Ok by blast
    moreover have "cleared s d st i n"
      using go unfolding cleared_def by (simp add: list_ex_iff list_all_iff)
    ultimately show ?thesis using select_branch_visited [OF _ start r] go by blast
  qed
qed

lemma visit_visited:
  assumes "visit s d i st = Ok st'"
  shows "visited s d i st st'"
proof (cases "bm_contains (outcomes st) i \<or> bm_contains (in_flight st) i")
  case False
  then have "bm_get (outcomes st) i = None" "bm_get (in_flight st) i = None" by (simp_all add: domIff)
  moreover obtain n where "bm_get (run_nodes st) i = Some n"
    using assms False by (cases "bm_get (run_nodes st) i") (simp_all add: visit_def)
  ultimately have n: "open_node st i n" by (simp add: open_node_def)
  then have run: "bm_get (run_nodes st) i = Some n" by (simp add: open_node_def)
  show ?thesis
  proof (cases "bm_get (owners st) i")
    case (Some oc)
    then obtain inputs children where o: "bm_get (owners st) i = Some (inputs, children)" by (cases oc) auto
    show ?thesis
    proof (cases "list_all (bm_contains (outcomes st)) children")
      case True
      then have "st' = coordinate i (catch_unwind (''owned completion panicked for node '' @ node_id n)
          (complete_owned_children d n inputs (map (\<lambda>c. (c, the (bm_get (outcomes st) c))) children))) st"
        using assms False run o by (simp add: visit_def visit_owner_def traverse_not_Panic)
      then show ?thesis using gathered [OF n o catch_unwind_not_Panic] by simp
    next
      case b: False
      then show ?thesis using assms False run o by (auto simp: visit_def visit_owner_def intro: idle)
    qed
  next
    case None
    note start = n None
    let ?wait = "i \<notin> first s \<and> (\<exists>f \<in> first s. \<not> bm_contains (outcomes st) f)"
    let ?bar = "i \<notin> first s \<and> (\<exists>f \<in> first s. f \<in> unusable st)"
    have eq: "visit s d i st = (if ?wait then Ok st else if ?bar then Ok (suppress i UpstreamMissing st)
        else visit_node s d i n st)"
      using False run None by (simp add: visit_def)
    consider (wait) ?wait | (bar) "\<not> ?wait" ?bar | (go) "\<not> ?wait" "\<not> ?bar" by blast
    then show ?thesis
    proof cases
      case wait
      then have "st' = st" using assms unfolding eq by simp
      then show ?thesis by (simp add: idle)
    next
      case bar
      then have "st' = suppress i UpstreamMissing st" using assms unfolding eq by simp
      then show ?thesis using bar barred [OF start] by blast
    next
      case go
      then have "released s st i" unfolding released_def bm_contains_iff by blast
      moreover have "visit_node s d i n st = Ok st'"
        using assms unfolding eq if_not_P [OF go(1)] if_not_P [OF go(2)] .
      ultimately show ?thesis by (rule visit_node_visited [OF start])
    qed
  qed
qed (use assms in \<open>auto simp: visit_def intro: idle\<close>)

subsection \<open>Registering children\<close>

abbreviation child_ids :: "OwnedChildDispatch list \<Rightarrow> string list" where
  "child_ids cs \<equiv> map (\<lambda>c. node_id (oc_node c)) cs"

lemma expansion_valid_iff:
  "expansion_valid parent ns seen cs \<longleftrightarrow>
     distinct (child_ids cs) \<and> (\<forall>c \<in> set cs. node_id (oc_node c) \<notin> seen \<and> \<not> child_malformed parent ns {} c)"
proof (induction cs arbitrary: seen)
  case (Cons c cs)
  have "child_malformed parent ns seen c \<longleftrightarrow> node_id (oc_node c) \<in> seen \<or> child_malformed parent ns {} c"
    by (auto simp: child_malformed_def Let_def)
  moreover have "x \<in> set cs \<Longrightarrow> node_id (oc_node x) = node_id (oc_node c) \<Longrightarrow> node_id (oc_node c) \<in> set (child_ids cs)" for x
    by (metis (no_types, lifting) image_eqI list.set_map)
  ultimately show ?case unfolding expansion_valid.simps Cons by auto
qed simp

lemma well_formed_child:
  assumes "\<not> child_malformed parent ns {} c"
  shows "bm_get ns (node_id (oc_node c)) = None" "pc_name ` set (node_inputs (oc_node c)) \<subseteq> dom (bm_get (oc_inputs c))"
  using assms by (auto simp: child_malformed_def Let_def list_ex_iff domIff split: option.splits)

lemma splice_after_Some:
  "splice_after i new xs = Some ys \<Longrightarrow> set ys = set xs \<union> set new \<and>
    (distinct ys \<longleftrightarrow> distinct xs \<and> distinct new \<and> set xs \<inter> set new = {})"
proof (induction i new xs arbitrary: ys rule: splice_after.induct)
  case (2 i new x xs)
  then show ?case by (cases "x = i") auto
qed simp

lemma splice_after_defined: "i \<in> set xs \<Longrightarrow> \<exists>ys. splice_after i new xs = Some ys"
  by (induction i new xs rule: splice_after.induct) auto

lemma fold_register_child:
  "fold (register_child owner limit) cs st =
     st\<lparr>child_limits := (case limit of None \<Rightarrow> child_limits st
          | Some l \<Rightarrow> bm_extend (child_limits st) (map (\<lambda>i. (i, (owner, max l 1))) (child_ids cs))),
        child_inputs := bm_extend (child_inputs st) (map (\<lambda>c. (node_id (oc_node c), oc_inputs c)) cs),
        run_nodes := bm_extend (run_nodes st) (map (\<lambda>c. (node_id (oc_node c), oc_node c)) cs)\<rparr>"
  by (induction cs arbitrary: st) (simp_all add: register_child_def Let_def bm_extend_def split: option.splits)

lemma register_children_Ok:
  "register_children owner inputs limit cs st = Ok st' \<longleftrightarrow>
     (\<exists>ord. splice_after owner (child_ids cs) (run_order st) = Some ord \<and>
       st' = st\<lparr>run_order := ord,
         child_limits := (case limit of None \<Rightarrow> child_limits st
          | Some l \<Rightarrow> bm_extend (child_limits st) (map (\<lambda>i. (i, (owner, max l 1))) (child_ids cs))),
         child_inputs := bm_extend (child_inputs st) (map (\<lambda>c. (node_id (oc_node c), oc_inputs c)) cs),
         run_nodes := bm_extend (run_nodes st) (map (\<lambda>c. (node_id (oc_node c), oc_node c)) cs),
         owners := bm_insert owner (inputs, child_ids cs) (owners st), progressed := True\<rparr>)"
  by (auto simp: register_children_def Let_def fold_register_child expect_def split: option.splits)

lemma bm_get_extend_children:
  assumes "distinct (child_ids cs)"
  shows "bm_get (bm_extend m (map (\<lambda>c. (node_id (oc_node c), f c)) cs)) k = Some v \<longleftrightarrow>
    (\<exists>c \<in> set cs. node_id (oc_node c) = k \<and> f c = v) \<or> k \<notin> set (child_ids cs) \<and> bm_get m k = Some v"
proof -
  have d: "distinct (map fst (map (\<lambda>c. (node_id (oc_node c), f c)) cs))" using assms by (simp add: comp_def)
  then have "bm_get (bm_extend m (map (\<lambda>c. (node_id (oc_node c), f c)) cs))
      = bm_get m ++ map_of (map (\<lambda>c. (node_id (oc_node c), f c)) cs)"
    by (simp add: bm_get_extend map_of_rev)
  moreover have "map_of (map (\<lambda>c. (node_id (oc_node c), f c)) cs) k = Some v
      \<longleftrightarrow> (\<exists>c \<in> set cs. node_id (oc_node c) = k \<and> f c = v)" for v
    using d by (auto simp: map_of_eq_Some_iff)
  moreover have "map_of (map (\<lambda>c. (node_id (oc_node c), f c)) cs) k = None \<longleftrightarrow> k \<notin> set (child_ids cs)"
    by (force simp: map_of_eq_None_iff)
  ultimately show ?thesis by (auto simp: map_add_Some_iff)
qed

lemma dom_extend_children:
  "dom (bm_get (bm_extend m (map (\<lambda>c. (node_id (oc_node c), f c)) cs))) = set (child_ids cs) \<union> dom (bm_get m)"
  by (auto simp: bm_get_extend dom_map_of_conv_image_fst) force

subsection \<open>The shape of the run state\<close>

text \<open>The graph the run has grown: the planned nodes, the registered children and their owners.\<close>

definition nodes_inv :: "Scheduler \<Rightarrow> RunState \<Rightarrow> bool" where
  "nodes_inv s st =
     (distinct (run_order st) \<and> set (run_order st) = dom (bm_get (run_nodes st))
      \<and> (\<forall>k n. bm_get (run_nodes st) k = Some n \<longrightarrow> node_id n = k)
      \<and> (\<forall>k n. bm_get (nodes (sc_plan s)) k = Some n \<longrightarrow> bm_get (run_nodes st) k = Some n))"

definition children_inv :: "Scheduler \<Rightarrow> RunState \<Rightarrow> bool" where
  "children_inv s st =
     (dom (bm_get (child_inputs st)) = dom (bm_get (run_nodes st)) - dom (bm_get (nodes (sc_plan s)))
      \<and> (\<forall>k n m. bm_get (child_inputs st) k = Some m \<longrightarrow> bm_get (run_nodes st) k = Some n
           \<longrightarrow> pc_name ` set (node_inputs n) \<subseteq> dom (bm_get m))
      \<and> (\<forall>k ins cs. bm_get (owners st) k = Some (ins, cs)
           \<longrightarrow> k \<in> dom (bm_get (nodes (sc_plan s))) \<and> set cs \<subseteq> dom (bm_get (child_inputs st))))"

definition limits_inv :: "RunState \<Rightarrow> bool" where
  "limits_inv st =
     ((\<forall>k ow l. bm_get (child_limits st) k = Some (ow, l)
           \<longrightarrow> 0 < l \<and> k \<in> dom (bm_get (child_inputs st)) \<and> ow \<in> dom (bm_get (owners st)))
      \<and> (\<forall>k k' ow l l'. bm_get (child_limits st) k = Some (ow, l) \<longrightarrow> bm_get (child_limits st) k' = Some (ow, l') \<longrightarrow> l = l'))"

definition graph_inv :: "Scheduler \<Rightarrow> RunState \<Rightarrow> bool" where
  "graph_inv s st = (nodes_inv s st \<and> children_inv s st \<and> limits_inv st)"

lemmas graph_defs = graph_inv_def nodes_inv_def children_inv_def limits_inv_def

text \<open>Outcomes belong to nodes, and what is running or coordinated has none yet.\<close>

definition jobs_inv :: "RunState \<Rightarrow> bool" where
  "jobs_inv st =
     (dom (bm_get (outcomes st)) \<subseteq> dom (bm_get (run_nodes st))
      \<and> (\<forall>k n m. bm_get (in_flight st) k = Some (n, m)
           \<longrightarrow> bm_get (run_nodes st) k = Some n \<and> bm_get (outcomes st) k = None)
      \<and> (\<forall>k r. bm_get (coordinated st) k = Some r
           \<longrightarrow> r \<noteq> Panic \<and> k \<in> dom (bm_get (run_nodes st)) \<and> bm_get (outcomes st) k = None))"

lemma nodes_invD:
  assumes "nodes_inv s st"
  shows "distinct (run_order st)" "set (run_order st) = dom (bm_get (run_nodes st))"
    "\<And>k n. bm_get (run_nodes st) k = Some n \<Longrightarrow> node_id n = k"
    "\<And>k n. bm_get (nodes (sc_plan s)) k = Some n \<Longrightarrow> bm_get (run_nodes st) k = Some n"
  using assms unfolding nodes_inv_def by simp_all

lemma children_invD:
  assumes "children_inv s st"
  shows "dom (bm_get (child_inputs st)) = dom (bm_get (run_nodes st)) - dom (bm_get (nodes (sc_plan s)))"
    "\<And>k n m. bm_get (child_inputs st) k = Some m \<Longrightarrow> bm_get (run_nodes st) k = Some n
       \<Longrightarrow> pc_name ` set (node_inputs n) \<subseteq> dom (bm_get m)"
    "\<And>k ins cs. bm_get (owners st) k = Some (ins, cs) \<Longrightarrow> k \<in> dom (bm_get (nodes (sc_plan s)))"
    "\<And>k ins cs. bm_get (owners st) k = Some (ins, cs) \<Longrightarrow> set cs \<subseteq> dom (bm_get (child_inputs st))"
  using assms unfolding children_inv_def by (elim conjE, iprover)+

lemma limits_invD:
  assumes "limits_inv st"
  shows "\<And>k ow l. bm_get (child_limits st) k = Some (ow, l) \<Longrightarrow> 0 < l"
    "\<And>k ow l. bm_get (child_limits st) k = Some (ow, l) \<Longrightarrow> k \<in> dom (bm_get (child_inputs st))"
    "\<And>k ow l. bm_get (child_limits st) k = Some (ow, l) \<Longrightarrow> ow \<in> dom (bm_get (owners st))"
    "\<And>k k' ow l l'. bm_get (child_limits st) k = Some (ow, l) \<Longrightarrow> bm_get (child_limits st) k' = Some (ow, l') \<Longrightarrow> l = l'"
  using assms unfolding limits_inv_def by (elim conjE, iprover)+

lemma graph_inv_parts:
  assumes "graph_inv s st"
  shows "nodes_inv s st" "children_inv s st" "limits_inv st"
  using assms by (simp_all add: graph_inv_def)

lemmas graph_invD = nodes_invD [OF graph_inv_parts(1)] children_invD [OF graph_inv_parts(2)] limits_invD [OF graph_inv_parts(3)]

lemma jobs_invD:
  assumes "jobs_inv st"
  shows "dom (bm_get (outcomes st)) \<subseteq> dom (bm_get (run_nodes st))"
    "\<And>k n m. bm_get (in_flight st) k = Some (n, m) \<Longrightarrow> bm_get (run_nodes st) k = Some n"
    "\<And>k n m. bm_get (in_flight st) k = Some (n, m) \<Longrightarrow> bm_get (outcomes st) k = None"
    "\<And>k r. bm_get (coordinated st) k = Some r \<Longrightarrow> r \<noteq> Panic"
    "\<And>k r. bm_get (coordinated st) k = Some r \<Longrightarrow> k \<in> dom (bm_get (run_nodes st))"
    "\<And>k r. bm_get (coordinated st) k = Some r \<Longrightarrow> bm_get (outcomes st) k = None"
  using assms unfolding jobs_inv_def by - (elim conjE, iprover)+

lemma graph_frame [simp]:
  "graph_inv s (st\<lparr>outcomes := a\<rparr>) = graph_inv s st" "graph_inv s (st\<lparr>unusable := b\<rparr>) = graph_inv s st"
  "graph_inv s (st\<lparr>in_flight := c\<rparr>) = graph_inv s st" "graph_inv s (st\<lparr>coordinated := e\<rparr>) = graph_inv s st"
  "graph_inv s (st\<lparr>progressed := f\<rparr>) = graph_inv s st" "graph_inv s (st\<lparr>outputs := g\<rparr>) = graph_inv s st"
  by (simp_all add: graph_defs)

lemma jobs_frame [simp]:
  "jobs_inv (st\<lparr>unusable := b\<rparr>) = jobs_inv st" "jobs_inv (st\<lparr>progressed := f\<rparr>) = jobs_inv st"
  "jobs_inv (st\<lparr>outputs := g\<rparr>) = jobs_inv st"
  by (simp_all add: jobs_inv_def)

text \<open>What registration changes.\<close>

lemma registration:
  assumes inv: "graph_inv s st" and e: "expansion_valid n (run_nodes st) {} cs"
    and r: "register_children i inputs limit cs st = Ok st'"
  shows "k \<in> set (child_ids cs) \<Longrightarrow> bm_get (run_nodes st) k = None"
    "distinct (run_order st')" "set (run_order st') = dom (bm_get (run_nodes st'))"
    "bm_get (run_nodes st') k = Some m \<longleftrightarrow>
      (\<exists>c \<in> set cs. node_id (oc_node c) = k \<and> oc_node c = m) \<or> bm_get (run_nodes st) k = Some m"
    "bm_get (child_inputs st') k = Some m' \<longleftrightarrow>
      (\<exists>c \<in> set cs. node_id (oc_node c) = k \<and> oc_inputs c = m') \<or> bm_get (child_inputs st) k = Some m'"
    "bm_get (child_limits st') k = Some l \<Longrightarrow> k \<in> set (child_ids cs) \<and> (\<exists>l'. limit = Some l' \<and> l = (i, max l' 1))
      \<or> k \<notin> set (child_ids cs) \<and> bm_get (child_limits st) k = Some l"
    "owners st' = bm_insert i (inputs, child_ids cs) (owners st)"
    "outcomes st' = outcomes st" "unusable st' = unusable st" "in_flight st' = in_flight st"
    "coordinated st' = coordinated st" "outputs st' = outputs st" "progressed st'"
proof -
  have d: "distinct (child_ids cs)" and fresh: "\<And>c. c \<in> set cs \<Longrightarrow> \<not> child_malformed n (run_nodes st) {} c"
    using e by (auto simp: expansion_valid_iff)
  show new: "k \<in> set (child_ids cs) \<Longrightarrow> bm_get (run_nodes st) k = None" for k
    using well_formed_child(1) fresh by auto
  note I = graph_invD [OF inv]
  have new': "k \<in> set (child_ids cs) \<Longrightarrow> bm_get (child_inputs st) k = None" for k
    using new [of k] I(5) by (auto simp: domIff)
  obtain ord where ord: "splice_after i (child_ids cs) (run_order st) = Some ord" and
    st': "st' = st\<lparr>run_order := ord,
         child_limits := (case limit of None \<Rightarrow> child_limits st
          | Some l \<Rightarrow> bm_extend (child_limits st) (map (\<lambda>i'. (i', (i, max l 1))) (child_ids cs))),
         child_inputs := bm_extend (child_inputs st) (map (\<lambda>c. (node_id (oc_node c), oc_inputs c)) cs),
         run_nodes := bm_extend (run_nodes st) (map (\<lambda>c. (node_id (oc_node c), oc_node c)) cs),
         owners := bm_insert i (inputs, child_ids cs) (owners st), progressed := True\<rparr>"
    using r unfolding register_children_Ok by blast
  have disj: "set (run_order st) \<inter> set (child_ids cs) = {}" using I(2) new by (auto simp: domIff)
  show "distinct (run_order st')" using splice_after_Some [OF ord] I(1) d disj by (simp add: st')
  show "set (run_order st') = dom (bm_get (run_nodes st'))"
    using splice_after_Some [OF ord] I(2) by (auto simp: st' dom_extend_children)
  show "bm_get (run_nodes st') k = Some m \<longleftrightarrow>
      (\<exists>c \<in> set cs. node_id (oc_node c) = k \<and> oc_node c = m) \<or> bm_get (run_nodes st) k = Some m"
    using new [of k] by (auto simp: st' bm_get_extend_children [OF d])
  show "bm_get (child_inputs st') k = Some m' \<longleftrightarrow>
      (\<exists>c \<in> set cs. node_id (oc_node c) = k \<and> oc_inputs c = m') \<or> bm_get (child_inputs st) k = Some m'"
    using new' [of k] by (auto simp: st' bm_get_extend_children [OF d])
  show "k \<in> set (child_ids cs) \<and> (\<exists>l'. limit = Some l' \<and> l = (i, max l' 1))
      \<or> k \<notin> set (child_ids cs) \<and> bm_get (child_limits st) k = Some l" if l: "bm_get (child_limits st') k = Some l"
  proof (cases limit)
    case None
    then have "bm_get (child_limits st) k = Some (fst l, snd l)" using l by (simp add: st')
    then show ?thesis using I(10) [of k "fst l" "snd l"] new' [of k] by auto
  next
    case (Some l')
    have "bm_get (bm_extend (child_limits st) (map (\<lambda>c. (node_id (oc_node c), (i, max l' 1))) cs)) k = Some l"
      using l Some by (simp add: st' comp_def)
    then show ?thesis using Some unfolding bm_get_extend_children [OF d] by auto
  qed
qed (use r in \<open>auto simp: register_children_Ok\<close>)

lemma graph_registered:
  assumes inv: "graph_inv s st" and i: "open_node st i n" "\<not> bm_contains (child_inputs st) i" "bm_get (owners st) i = None"
    and e: "expansion_valid n (run_nodes st) {} cs" and r: "register_children i inputs limit cs st = Ok st'"
  shows "graph_inv s st'"
proof -
  note I = graph_invD [OF inv] and R = registration [OF inv e r]
  have d: "distinct (child_ids cs)" and fresh: "\<And>c. c \<in> set cs \<Longrightarrow> \<not> child_malformed n (run_nodes st) {} c"
    using e by (auto simp: expansion_valid_iff)
  have plan: "i \<in> dom (bm_get (nodes (sc_plan s)))" using i I(5) by (auto simp: open_node_def)
  have disj: "set (child_ids cs) \<inter> dom (bm_get (nodes (sc_plan s))) = {}" using R(1) I(4) by fastforce
  have new: "k \<in> set (child_ids cs) \<Longrightarrow> bm_get (child_inputs st) k = None" for k
    using R(1) [of k] I(5) by (auto simp: domIff)
  have dom': "dom (bm_get (run_nodes st')) = set (child_ids cs) \<union> dom (bm_get (run_nodes st))"
    "dom (bm_get (child_inputs st')) = set (child_ids cs) \<union> dom (bm_get (child_inputs st))"
    by (auto simp: dom_def R(4,5))
  have ports: "pc_name ` set (node_inputs n') \<subseteq> dom (bm_get m)"
    if m: "bm_get (child_inputs st') k = Some m" and n': "bm_get (run_nodes st') k = Some n'" for k n' m
  proof (cases "k \<in> set (child_ids cs)")
    case True
    then obtain c where "c \<in> set cs" "node_id (oc_node c) = k" by auto
    moreover have "oc_inputs c = m" "oc_node c = n'"
      using m n' new [OF True] R(1) [OF True] d calculation by (auto simp: R(4,5) distinct_map dest: inj_onD)
    ultimately show ?thesis using well_formed_child(2) [OF fresh] by blast
  next
    case False
    then have "bm_get (child_inputs st) k = Some m" "bm_get (run_nodes st) k = Some n'"
      using m n' by (auto simp: R(4,5))
    then show ?thesis by (rule I(6))
  qed
  have limits: "(k \<in> set (child_ids cs) \<and> ow = i \<and> limit \<noteq> None \<and> l = max (the limit) 1)
      \<or> (bm_get (child_limits st) k = Some (ow, l) \<and> ow \<noteq> i)"
    if l: "bm_get (child_limits st') k = Some (ow, l)" for k ow l
    using R(6) [OF l] I(11) [of k ow l] i(3) by (auto simp: domIff)
  show ?thesis
    unfolding graph_defs
  proof (intro conjI allI impI)
    show "distinct (run_order st')" "set (run_order st') = dom (bm_get (run_nodes st'))" by (fact R)+
    show "dom (bm_get (child_inputs st')) = dom (bm_get (run_nodes st')) - dom (bm_get (nodes (sc_plan s)))"
      using dom' I(5) disj by auto
    fix k n'
    show "bm_get (run_nodes st') k = Some n' \<Longrightarrow> node_id n' = k" using R(4) I(3) by auto
    show "bm_get (nodes (sc_plan s)) k = Some n' \<Longrightarrow> bm_get (run_nodes st') k = Some n'" using R(4) I(4) by blast
  next
    fix k n' m
    assume "bm_get (child_inputs st') k = Some m" "bm_get (run_nodes st') k = Some n'"
    then show "pc_name ` set (node_inputs n') \<subseteq> dom (bm_get m)" by (rule ports)
  next
    fix k ins cs'
    assume "bm_get (owners st') k = Some (ins, cs')"
    then have "k = i \<and> cs' = child_ids cs \<or> bm_get (owners st) k = Some (ins, cs')"
      by (auto simp: R(7) split: if_splits)
    then show "k \<in> dom (bm_get (nodes (sc_plan s)))" "set cs' \<subseteq> dom (bm_get (child_inputs st'))"
      using plan I(7) [of k ins cs'] I(8) [of k ins cs'] dom'(2) by blast+
  next
    fix k ow l
    assume l: "bm_get (child_limits st') k = Some (ow, l)"
    show "0 < l" "k \<in> dom (bm_get (child_inputs st'))" "ow \<in> dom (bm_get (owners st'))"
      using limits [OF l] I(9-11) [of k ow l] dom'(2) by (auto simp: R(7))
    fix k' l'
    assume l': "bm_get (child_limits st') k' = Some (ow, l')"
    show "l = l'" using limits [OF l] limits [OF l'] I(12) [of k ow l k' l'] by auto
  qed
qed

lemmas visit_effects = suppress_def fail_node_def coordinate_def

lemma graph_visited: "visited s d i st st' \<Longrightarrow> graph_inv s st \<Longrightarrow> graph_inv s st'"
  by (induction rule: visited.cases) (auto simp: visit_effects intro: graph_registered)

lemma jobs_registered:
  assumes "graph_inv s st" "jobs_inv st" "expansion_valid n (run_nodes st) {} cs"
    "register_children i inputs limit cs st = Ok st'"
  shows "jobs_inv st'"
proof -
  note R = registration [OF assms(1,3,4)] and J = jobs_invD [OF assms(2)]
  have sub: "dom (bm_get (run_nodes st)) \<subseteq> dom (bm_get (run_nodes st'))" by (auto simp: dom_def R(4))
  show ?thesis
    unfolding jobs_inv_def R(8-11)
  proof (intro conjI allI impI)
    show "dom (bm_get (outcomes st)) \<subseteq> dom (bm_get (run_nodes st'))" using J(1) sub by blast
    fix k n' m
    assume "bm_get (in_flight st) k = Some (n', m)"
    from J(2,3) [OF this] show "bm_get (run_nodes st') k = Some n'" "bm_get (outcomes st) k = None" by (simp_all add: R(4))
  next
    fix k r
    assume "bm_get (coordinated st) k = Some r"
    from J(4-6) [OF this] show "r \<noteq> Panic" "k \<in> dom (bm_get (run_nodes st'))" "bm_get (outcomes st) k = None" using sub by auto
  qed
qed

lemma jobs_visited:
  assumes "visited s d i st st'" "graph_inv s st" "jobs_inv st" "bm_get (coordinated st) i = None"
  shows "jobs_inv st'"
  using assms
proof (cases rule: visited.cases)
  case (registered n cs inputs limit)
  then show ?thesis using assms jobs_registered by blast
qed (auto simp: visit_effects jobs_inv_def open_node_def)

subsection \<open>Artifacts\<close>

text \<open>
  A node is unusable exactly when it resolved without completing; the published outputs are exactly
  those of the completed nodes, and each respects its node's contract.
\<close>

definition artifact_inv :: "RunState \<Rightarrow> bool" where
  "artifact_inv st =
     (unusable st = {k. \<exists>o'. bm_get (outcomes st) k = Some o' \<and> \<not> is_completed o'}
      \<and> (\<forall>k p. bm_get (outputs st) (k, p) =
           (case bm_get (outcomes st) k of Some (Completed produced) \<Rightarrow> bm_get produced p | _ \<Rightarrow> None))
      \<and> (\<forall>k n produced. bm_get (outcomes st) k = Some (Completed produced) \<longrightarrow> bm_get (run_nodes st) k = Some n
           \<longrightarrow> validate_outputs n produced = Ok ()))"

lemma artifact_invD:
  assumes "artifact_inv st"
  shows "unusable st = {k. \<exists>o'. bm_get (outcomes st) k = Some o' \<and> \<not> is_completed o'}"
    "\<And>k p. bm_get (outputs st) (k, p) =
       (case bm_get (outcomes st) k of Some (Completed produced) \<Rightarrow> bm_get produced p | _ \<Rightarrow> None)"
    "\<And>k n produced. bm_get (outcomes st) k = Some (Completed produced) \<Longrightarrow> bm_get (run_nodes st) k = Some n
       \<Longrightarrow> validate_outputs n produced = Ok ()"
  using assms unfolding artifact_inv_def by - (elim conjE, iprover)+

lemma artifact_frame [simp]:
  "artifact_inv (st\<lparr>in_flight := c\<rparr>) = artifact_inv st" "artifact_inv (st\<lparr>coordinated := e\<rparr>) = artifact_inv st"
  "artifact_inv (st\<lparr>progressed := f\<rparr>) = artifact_inv st"
  by (simp_all add: artifact_inv_def)

lemma artifact_unresolved:
  assumes "artifact_inv st" "bm_get (outcomes st) i = None" "\<not> is_completed o'"
  shows "artifact_inv (st\<lparr>outcomes := bm_insert i o' (outcomes st), unusable := insert i (unusable st)\<rparr>)"
  using assms by (auto simp: artifact_inv_def split: option.splits NodeOutcome.splits)

lemma map_of_tagged: "map_of (map (\<lambda>(p, v). ((i, p), v)) xs) (k, p) = (if k = i then map_of xs p else None)"
  by (induction xs) auto

lemma artifact_completed:
  assumes "artifact_inv st" "bm_get (outcomes st) i = None" "bm_get (run_nodes st) i = Some n" "validate_outputs n produced = Ok ()"
  shows "artifact_inv (admit_output i produced st)"
proof -
  note A = artifact_invD [OF assms(1)]
  have "bm_get (bm_extend (outputs st) (map (\<lambda>(port, artifacts). ((i, port), artifacts)) (bm_entries produced))) (k, p)
      = (if k = i then bm_get produced p else bm_get (outputs st) (k, p))" for k p
  proof -
    let ?xs = "map (\<lambda>(port, artifacts). ((i, port), artifacts)) (bm_entries produced)"
    have "distinct (map fst ?xs)"
      using bm_keys_distinct [of produced] by (auto simp: bm_keys_def distinct_map inj_on_def comp_def case_prod_beta)
    moreover have "map_of ?xs (k, p) = (if k = i then bm_get produced p else None)"
      unfolding bm_get_def by (rule map_of_tagged)
    ultimately show ?thesis
      using A(2) [of i p] assms(2) by (simp add: bm_get_extend map_of_rev map_add_def split: option.splits)
  qed
  then show ?thesis
    using A assms(2-) by (auto simp: artifact_inv_def admit_output_def split: option.splits NodeOutcome.splits)
qed

lemma artifact_visited:
  assumes "visited s d i st st'" "graph_inv s st" "jobs_inv st" "artifact_inv st"
  shows "artifact_inv st'"
  using assms
proof (cases rule: visited.cases)
  case (registered n cs inputs limit)
  note R = registration [OF assms(2) registered(7,8)]
  have "bm_get (run_nodes st') k = Some m \<Longrightarrow> k \<in> dom (bm_get (outcomes st)) \<Longrightarrow> bm_get (run_nodes st) k = Some m" for k m
    using R(1) [of k] jobs_invD(1) [OF assms(3)] by (auto simp: R(4) domIff)
  then show ?thesis using artifact_invD [OF assms(4)] unfolding artifact_inv_def R(8,9,12) by blast
qed (auto simp: visit_effects open_node_def artifact_unresolved)

subsection \<open>Capacity\<close>

definition running :: "RunState \<Rightarrow> (string \<Rightarrow> bool) \<Rightarrow> nat" where
  "running st P = length (filter P (bm_keys (in_flight st)))"

text \<open>No more workers run than the scheduler, a scope or an owner allows.\<close>

definition capacity_inv :: "Scheduler \<Rightarrow> RunState \<Rightarrow> bool" where
  "capacity_inv s st =
     (running st (\<lambda>_. True) \<le> max_parallel s
      \<and> (\<forall>scope limit. bm_get (scope_limits s) scope = Some limit \<longrightarrow> running st (scope_holds scope) \<le> limit)
      \<and> (\<forall>k ow l. bm_get (child_limits st) k = Some (ow, l) \<longrightarrow> running st (owned_by st ow) \<le> l))"

lemma running_card: "running st P = card {k \<in> dom (bm_get (in_flight st)). P k}"
proof -
  have "running st P = card (set (filter P (bm_keys (in_flight st))))"
    unfolding running_def by (rule distinct_card [symmetric]) (simp add: bm_keys_distinct)
  also have "set (filter P (bm_keys (in_flight st))) = {k \<in> dom (bm_get (in_flight st)). P k}"
    by (auto simp: set_bm_keys)
  finally show ?thesis .
qed

lemma running_spawn:
  assumes "bm_get (in_flight st) i = None"
  shows "running (st\<lparr>in_flight := bm_insert i job (in_flight st), progressed := f\<rparr>) P
    = running st P + (if P i then 1 else 0)"
proof -
  let ?S = "{k \<in> dom (bm_get (in_flight st)). P k}"
  have new: "finite ?S" "i \<notin> ?S" using assms by auto
  have "running (st\<lparr>in_flight := bm_insert i job (in_flight st), progressed := f\<rparr>) P
      = card {k \<in> insert i (dom (bm_get (in_flight st))). P k}"
    using dom_bm_insert [of i job "in_flight st"] by (simp add: running_card del: dom_bm_insert)
  also have "{k \<in> insert i (dom (bm_get (in_flight st))). P k} = (if P i then insert i ?S else ?S)"
    by (rule set_eqI) (simp only: mem_Collect_eq insert_iff split: if_split, blast)
  also have "card \<dots> = card ?S + (if P i then 1 else 0)" using card_insert_disjoint [OF new] by simp
  finally show ?thesis unfolding running_card .
qed

lemma owned_by_frame [simp]:
  "owned_by (st\<lparr>in_flight := a\<rparr>) = owned_by st" "owned_by (st\<lparr>progressed := f\<rparr>) = owned_by st"
  "owned_by (st\<lparr>outcomes := b\<rparr>) = owned_by st" "owned_by (st\<lparr>unusable := u\<rparr>) = owned_by st"
  "owned_by (st\<lparr>coordinated := c\<rparr>) = owned_by st" "owned_by (st\<lparr>outputs := g\<rparr>) = owned_by st"
  by (simp_all add: owned_by_def fun_eq_iff)

lemma capacity_frame [simp]:
  "capacity_inv s (st\<lparr>outcomes := a\<rparr>) = capacity_inv s st" "capacity_inv s (st\<lparr>unusable := b\<rparr>) = capacity_inv s st"
  "capacity_inv s (st\<lparr>coordinated := e\<rparr>) = capacity_inv s st" "capacity_inv s (st\<lparr>progressed := f\<rparr>) = capacity_inv s st"
  "capacity_inv s (st\<lparr>outputs := g\<rparr>) = capacity_inv s st"
  by (simp_all add: capacity_inv_def running_def)

lemma capacity_idle:
  "capacity_inv s st \<Longrightarrow> capacity_inv s (st\<lparr>in_flight := bm_empty, coordinated := c\<rparr>)"
  by (simp add: capacity_inv_def running_def bm_keys_def)

lemma capacity_spawned:
  assumes inv: "graph_inv s st" "capacity_inv s st" and "bm_get (in_flight st) i = None"
    and full: "\<not> parallel_full s st" "\<not> scope_full s i st" "\<not> owner_full i st"
  shows "capacity_inv s (st\<lparr>in_flight := bm_insert i job (in_flight st), progressed := True\<rparr>)"
proof -
  have "running st (\<lambda>_. True) < max_parallel s" using full(1) by (simp add: parallel_full_def running_def)
  moreover have "running st (scope_holds scope) < limit"
    if "bm_get (scope_limits s) scope = Some limit" "scope_holds scope i" for scope limit
    using full(2) that by (force simp: scope_full_def running_def list_ex_iff bm_get_iff_entry)
  moreover have "running st (owned_by st ow) < l"
    if l: "bm_get (child_limits st) k = Some (ow, l)" and own: "owned_by st ow i" for k ow l
  proof -
    obtain l' where "bm_get (child_limits st) i = Some (ow, l')"
      using own by (auto simp: owned_by_def split: option.splits)
    moreover have "l = l'" using graph_invD(12) [OF inv(1) l calculation] .
    ultimately show ?thesis using full(3) by (simp add: owner_full_def running_def)
  qed
  ultimately show ?thesis
    using inv(2) unfolding capacity_inv_def running_spawn [OF assms(3)]
    by (auto simp: Suc_le_eq)
qed

lemma registration_limits:
  assumes "register_children i inputs limit cs st = Ok st'" "k \<notin> set (child_ids cs)"
  shows "bm_get (child_limits st') k = bm_get (child_limits st) k"
proof -
  have "map_of (rev (map (\<lambda>i'. (i', (i, max l 1))) (child_ids cs))) k = None" for l :: nat
    using assms(2) by (force simp: map_of_eq_None_iff)
  then show ?thesis
    using assms(1) by (auto simp: register_children_Ok bm_get_extend map_add_def split: option.splits)
qed

lemma capacity_registered:
  assumes inv: "graph_inv s st" "jobs_inv st" "capacity_inv s st" and "bm_get (owners st) i = None"
    and e: "expansion_valid n (run_nodes st) {} cs" and r: "register_children i inputs limit cs st = Ok st'"
  shows "capacity_inv s st'"
proof -
  note R = registration [OF inv(1) e r]
  have keep: "bm_get (child_limits st') k = bm_get (child_limits st) k" if "k \<in> dom (bm_get (in_flight st))" for k
    using registration_limits [OF r] that R(1) [of k] jobs_invD(2) [OF inv(2)] by force
  then have same: "running st' (owned_by st' ow) = running st (owned_by st ow)" for ow
    unfolding running_card R(10) owned_by_def by (intro arg_cong [of _ _ card] Collect_cong conj_cong refl) simp
  have run: "running st' P = running st P" for P by (simp add: running_def R(10))
  have "running st (owned_by st ow) \<le> l" if l: "bm_get (child_limits st') k = Some (ow, l)" for k ow l
  proof (cases "k \<in> set (child_ids cs)")
    case True
    then have "ow = i" using R(6) [OF l] by auto
    then have "\<not> owned_by st ow j" for j
      using graph_invD(11) [OF inv(1), of j i] assms(4) by (auto simp: owned_by_def split: option.splits)
    then show ?thesis by (simp add: running_def)
  next
    case False
    then show ?thesis using l inv(3) registration_limits [OF r False] by (auto simp: capacity_inv_def)
  qed
  then show ?thesis using inv(3) unfolding capacity_inv_def same unfolding run by blast
qed

lemma capacity_visited:
  assumes "visited s d i st st'" "graph_inv s st" "jobs_inv st" "capacity_inv s st"
  shows "capacity_inv s st'"
  using assms
proof (cases rule: visited.cases)
  case (registered n cs inputs limit)
  then show ?thesis using assms capacity_registered by blast
next
  case (spawned n inputs)
  then show ?thesis using assms capacity_spawned by (simp add: open_node_def)
qed (auto simp: visit_effects)

subsection \<open>Inputs\<close>

text \<open>What an edge delivers: the artifacts its source published on the port, if it completed.\<close>

definition delivered :: "RunState \<Rightarrow> Edge \<Rightarrow> string list" where
  "delivered st e = (case bm_get (outcomes st) (port_node (edge_from e)) of
     Some (Completed produced) \<Rightarrow> (case bm_get produced (port_name (edge_from e)) of Some xs \<Rightarrow> xs | None \<Rightarrow> [])
   | _ \<Rightarrow> [])"

definition arriving :: "Scheduler \<Rightarrow> RunState \<Rightarrow> string \<Rightarrow> string \<Rightarrow> string list" where
  "arriving s st k p = concat (map (delivered st) (filter (\<lambda>e. port_name (edge_to e) = p) (dependencies_of (sc_plan s) k)))"

definition port_order :: "Node \<Rightarrow> string list \<Rightarrow> string list" where
  "port_order n xs = (if node_kind n = Task then xs else sort xs)"

definition inputs_exact :: "Scheduler \<Rightarrow> RunState \<Rightarrow> string \<Rightarrow> Node \<Rightarrow> ArtifactMap \<Rightarrow> bool" where
  "inputs_exact s st k n m =
     (case bm_get (child_inputs st) k of
        Some given \<Rightarrow> m = arrange n given
      | None \<Rightarrow> (\<forall>e \<in> set (dependencies_of (sc_plan s) k). port_node (edge_from e) \<in> dom (bm_get (outcomes st)))
          \<and> (\<forall>p. bm_get m p = (if p \<in> pc_name ` set (node_inputs n) then Some (port_order n (arriving s st k p)) else None)))"

definition input_inv :: "Scheduler \<Rightarrow> RunState \<Rightarrow> bool" where
  "input_inv s st = (\<forall>k n m. bm_get (in_flight st) k = Some (n, m) \<longrightarrow> inputs_exact s st k n m)"

lemma deliver_Ok:
  "deliver outs es inputs = Ok m \<Longrightarrow> bm_get m p = map_option (\<lambda>xs. xs @ concat (map (\<lambda>e.
     case bm_get outs (port_node (edge_from e), port_name (edge_from e)) of None \<Rightarrow> [] | Some ys \<Rightarrow> ys)
       (filter (\<lambda>e. port_name (edge_to e) = p) es))) (bm_get inputs p)"
proof (induction outs es inputs rule: deliver.induct)
  case (1 outs inputs)
  then show ?case by (simp add: option.map_ident)
next
  case (2 outs e es inputs)
  show ?case
  proof (cases "bm_get outs (port_node (edge_from e), port_name (edge_from e))")
    case None
    then show ?thesis using 2 by (simp cong: if_cong)
  next
    case (Some ys)
    then obtain present where "bm_get inputs (port_name (edge_to e)) = Some present"
      using "2.prems" by (cases "bm_get inputs (port_name (edge_to e))") auto
    then show ?thesis using 2 Some by (auto simp: option.map_comp comp_def)
  qed
qed

lemma deliver_defined:
  assumes "\<And>e. e \<in> set es \<Longrightarrow> port_name (edge_to e) \<in> dom (bm_get inputs)"
  shows "\<exists>m. deliver outs es inputs = Ok m"
  using assms
proof (induction es arbitrary: inputs)
  case (Cons e es)
  obtain present where "bm_get inputs (port_name (edge_to e)) = Some present" using Cons.prems by fastforce
  moreover have "\<exists>m. deliver outs es (bm_insert (port_name (edge_to e)) ys inputs) = Ok m" for ys
    by (rule Cons.IH) (use Cons.prems in \<open>simp only: dom_bm_insert, auto\<close>)
  ultimately show ?case using Cons by (auto split: option.splits)
qed simp

lemma bm_get_ports: "bm_get (bm_of_list (map (\<lambda>p. (pc_name p, [] :: string list)) ps)) k = (if k \<in> pc_name ` set ps then Some [] else None)"
proof -
  have "map_of (rev (map (\<lambda>p. (pc_name p, [] :: string list)) ps)) k = (if k \<in> pc_name ` set ps then Some [] else None)"
    by (induction ps rule: rev_induct) auto
  then show ?thesis by (auto simp: bm_get_extend map_add_def)
qed

lemma resolve_inputs_exact:
  assumes art: "artifact_inv st" and r: "resolve_inputs n i (dependencies s st i) st = Ok inputs"
    and c: "\<forall>e \<in> set (dependencies s st i). port_node (edge_from e) \<in> dom (bm_get (outcomes st))"
  shows "inputs_exact s st i n (arrange n inputs)"
proof (cases "bm_get (child_inputs st) i")
  case (Some given)
  then have "inputs = given" using r by (simp add: resolve_inputs_def dependencies_def domIff)
  then show ?thesis using Some by (simp add: inputs_exact_def)
next
  case None
  then have deps: "dependencies s st i = dependencies_of (sc_plan s) i" by (simp add: dependencies_def domIff)
  have out: "(case bm_get (outputs st) (port_node (edge_from e), port_name (edge_from e)) of None \<Rightarrow> [] | Some ys \<Rightarrow> ys) = delivered st e" for e
    unfolding artifact_invD(2) [OF art] delivered_def by (auto split: option.splits NodeOutcome.splits)
  have "bm_get inputs p = (if p \<in> pc_name ` set (node_inputs n) then Some (arriving s st i p) else None)" for p
    using deliver_Ok [of "outputs st" _ _ inputs p] r None
    by (simp add: resolve_inputs_def deps out arriving_def bm_get_ports)
  then show ?thesis using c deps None by (auto simp: inputs_exact_def arrange_def port_order_def)
qed

text \<open>Nothing a worker received changes when another node resolves or is registered.\<close>

definition extends :: "RunState \<Rightarrow> RunState \<Rightarrow> bool" where
  "extends st st' = (\<forall>k o'. bm_get (outcomes st) k = Some o' \<longrightarrow> bm_get (outcomes st') k = Some o')"

lemma extendsD: "extends st st' \<Longrightarrow> bm_get (outcomes st) k = Some o' \<Longrightarrow> bm_get (outcomes st') k = Some o'"
  by (simp add: extends_def)

lemma inputs_exact_extends:
  assumes "inputs_exact s st k n m" "extends st st'" "bm_get (child_inputs st') k = bm_get (child_inputs st) k"
  shows "inputs_exact s st' k n m"
proof (cases "bm_get (child_inputs st) k")
  case None
  then have res: "\<And>e. e \<in> set (dependencies_of (sc_plan s) k) \<Longrightarrow> port_node (edge_from e) \<in> dom (bm_get (outcomes st))"
    using assms(1) by (simp add: inputs_exact_def)
  have same: "bm_get (outcomes st') (port_node (edge_from e)) = bm_get (outcomes st) (port_node (edge_from e))"
    if "e \<in> set (dependencies_of (sc_plan s) k)" for e
    using res [OF that] extendsD [OF assms(2)] by auto
  then have "arriving s st' k p = arriving s st k p" for p
    unfolding arriving_def by (intro arg_cong [of _ _ concat] map_cong) (auto simp: delivered_def)
  moreover have "port_node (edge_from e) \<in> dom (bm_get (outcomes st'))" if "e \<in> set (dependencies_of (sc_plan s) k)" for e
    using res [OF that] same [OF that] by (simp add: domIff)
  ultimately show ?thesis using assms(1,3) None by (simp add: inputs_exact_def)
qed (use assms in \<open>simp add: inputs_exact_def\<close>)

lemma visited_extends:
  assumes "visited s d i st st'"
  shows "extends st st'"
  using assms by (cases rule: visited.cases)
    (auto simp: extends_def visit_effects open_node_def register_children_Ok)

lemma visited_child_inputs:
  assumes "visited s d i st st'" "graph_inv s st" "bm_get (run_nodes st) k = Some n"
  shows "bm_get (child_inputs st') k = bm_get (child_inputs st) k"
  using assms(1)
proof (cases rule: visited.cases)
  case (registered n' cs inputs limit)
  note R = registration [OF assms(2) registered(7,8)]
  have "k \<notin> set (child_ids cs)" using R(1) [of k] assms(3) by auto
  then have "bm_get (child_inputs st') k = Some m \<longleftrightarrow> bm_get (child_inputs st) k = Some m" for m
    using R(5) [of k m] by auto
  then show ?thesis by (metis option.exhaust)
qed (auto simp: visit_effects)

lemma input_visited:
  assumes v: "visited s d i st st'" and inv: "graph_inv s st" "jobs_inv st" "artifact_inv st" "input_inv s st"
  shows "input_inv s st'"
  unfolding input_inv_def
proof (intro allI impI)
  fix k n m
  assume k: "bm_get (in_flight st') k = Some (n, m)"
  have keep: "inputs_exact s st' k n m" if "bm_get (in_flight st) k = Some (n, m)"
    using inputs_exact_extends visited_extends [OF v] visited_child_inputs [OF v inv(1)] jobs_invD(2) [OF inv(2) that]
      inv(4) that unfolding input_inv_def by blast
  show "inputs_exact s st' k n m"
    using v
  proof (cases rule: visited.cases)
    case (spawned n' inputs)
    have "inputs_exact s st i n' (arrange n' inputs)"
      by (rule resolve_inputs_exact [OF inv(3) spawned(9)]) (use spawned(5) in \<open>simp add: cleared_def\<close>)
    then have "inputs_exact s st' i n' (arrange n' inputs)"
      using inputs_exact_extends visited_extends [OF v] spawned(1) by simp
    then show ?thesis using k keep spawned(1) by (auto split: if_splits)
  next
    case (registered n' cs inputs limit)
    then show ?thesis using k keep by (auto simp: register_children_Ok)
  qed (use k keep in \<open>auto simp: visit_effects\<close>)
qed

subsection \<open>Who may start and who is suppressed\<close>

definition completed :: "RunState \<Rightarrow> string \<Rightarrow> bool" where
  "completed st k = (\<exists>produced. bm_get (outcomes st) k = Some (Completed produced))"

definition lost :: "RunState \<Rightarrow> string \<Rightarrow> bool" where
  "lost st k = (\<exists>o'. bm_get (outcomes st) k = Some o' \<and> \<not> is_completed o')"

definition may_start :: "Scheduler \<Rightarrow> (Node \<Rightarrow> bool) \<Rightarrow> RunState \<Rightarrow> string \<Rightarrow> Node \<Rightarrow> bool" where
  "may_start s req st k n =
     ((k \<notin> first s \<longrightarrow> (\<forall>f \<in> first s. completed st f))
      \<and> (k \<in> dom (bm_get (nodes (sc_plan s))) \<longrightarrow> req n
           \<longrightarrow> (\<forall>e \<in> set (dependencies_of (sc_plan s) k). completed st (port_node (edge_from e)))))"

definition started :: "RunState \<Rightarrow> string \<Rightarrow> bool" where
  "started st k = (k \<in> dom (bm_get (in_flight st)) \<or> k \<in> dom (bm_get (owners st)) \<or> k \<in> dom (bm_get (coordinated st))
     \<or> (\<exists>o'. bm_get (outcomes st) k = Some o' \<and> o' \<noteq> Suppressed UpstreamMissing))"

definition justified :: "Scheduler \<Rightarrow> RunState \<Rightarrow> string \<Rightarrow> Node \<Rightarrow> bool" where
  "justified s st k n =
     (node_kind n = Task
      \<or> (bm_get (outcomes st) k \<noteq> Some (Suppressed BranchNotSelected)
         \<and> (bm_get (outcomes st) k = Some (Suppressed UpstreamMissing)
            \<longrightarrow> (k \<notin> first s \<and> (\<exists>f \<in> first s. lost st f))
              \<or> (\<exists>e \<in> set (dependencies_of (sc_plan s) k). lost st (port_node (edge_from e))))))"

definition verdict_inv :: "Scheduler \<Rightarrow> (Node \<Rightarrow> bool) \<Rightarrow> RunState \<Rightarrow> bool" where
  "verdict_inv s req st = (\<forall>k n. bm_get (run_nodes st) k = Some n
     \<longrightarrow> (started st k \<longrightarrow> may_start s req st k n) \<and> justified s st k n)"

lemma may_start_extends: "may_start s req st k n \<Longrightarrow> extends st st' \<Longrightarrow> may_start s req st' k n"
  unfolding may_start_def completed_def by (metis extendsD)

lemma justified_extends:
  assumes "justified s st k n" "extends st st'" "bm_get (outcomes st') k = bm_get (outcomes st) k"
  shows "justified s st' k n"
proof -
  have "lost st j \<Longrightarrow> lost st' j" for j using extendsD [OF assms(2)] by (auto simp: lost_def)
  then show ?thesis using assms(1,3) unfolding justified_def by metis
qed

lemma artifact_lost: "artifact_inv st \<Longrightarrow> k \<in> unusable st \<longleftrightarrow> lost st k"
  by (simp add: artifact_invD(1) lost_def)

lemma artifact_completed_iff:
  assumes "artifact_inv st"
  shows "k \<in> dom (bm_get (outcomes st)) \<Longrightarrow> k \<notin> unusable st \<Longrightarrow> completed st k"
proof -
  assume k: "k \<in> dom (bm_get (outcomes st))" "k \<notin> unusable st"
  then obtain o' where "bm_get (outcomes st) k = Some o'" by auto
  then show ?thesis using k(2) by (cases o') (auto simp: artifact_invD(1) [OF assms] completed_def)
qed

lemma released_cleared_may_start:
  assumes "artifact_inv st" "graph_inv s st" "released s st i" "cleared s d st i n"
    and req: "req n \<Longrightarrow> requires_successful_predecessors d n"
  shows "may_start s req st i n"
proof -
  have "dependencies s st i = dependencies_of (sc_plan s) i" if "i \<in> dom (bm_get (nodes (sc_plan s)))"
    using that graph_invD(5) [OF assms(2)] by (auto simp: dependencies_def)
  then show ?thesis
    using assms(3-) artifact_completed_iff [OF assms(1)]
    unfolding may_start_def released_def cleared_def by metis
qed

lemma verdict_outcome:
  assumes inv: "verdict_inv s req st" and i: "bm_get (outcomes st) i = None" "bm_get (run_nodes st) i = Some n"
    and st': "st' = st\<lparr>outcomes := bm_insert i o' (outcomes st), unusable := u, progressed := f\<rparr>"
    and ok: "o' = Suppressed UpstreamMissing \<or> may_start s req st i n" and just: "justified s st' i n"
  shows "verdict_inv s req st'"
  unfolding verdict_inv_def
proof (intro allI impI conjI)
  fix k n'
  assume n': "bm_get (run_nodes st') k = Some n'"
  have e: "extends st st'" using i by (auto simp: extends_def st')
  have old: "started st k \<Longrightarrow> may_start s req st k n'" "justified s st k n'"
    using inv n' by (auto simp: verdict_inv_def st')
  show "may_start s req st' k n'" if "started st' k"
  proof (rule may_start_extends [OF _ e])
    have "started st k \<or> k = i \<and> o' \<noteq> Suppressed UpstreamMissing"
      using that by (auto simp: started_def st' split: if_splits)
    then show "may_start s req st k n'" using old ok i n' by (auto simp: st')
  qed
  show "justified s st' k n'"
  proof (cases "k = i")
    case True
    then show ?thesis using just i n' by (simp add: st')
  next
    case False
    then show ?thesis using justified_extends [OF old(2) e] by (simp add: st')
  qed
qed

text \<open>Steps that only start nodes.\<close>

lemma verdict_start:
  assumes inv: "verdict_inv s req st" and same: "outcomes st' = outcomes st"
    and starts: "\<And>k. started st' k \<Longrightarrow> started st k \<or> k = i"
    and nodes: "\<And>k n. bm_get (run_nodes st') k = Some n \<Longrightarrow> bm_get (run_nodes st) k = Some n
        \<or> bm_get (outcomes st) k = None \<and> \<not> started st' k"
    and i: "bm_get (run_nodes st) i = Some n" "may_start s req st i n"
  shows "verdict_inv s req st'"
  unfolding verdict_inv_def
proof (intro allI impI conjI)
  fix k n'
  assume k: "bm_get (run_nodes st') k = Some n'"
  have e: "extends st st'" by (simp add: extends_def same)
  show "may_start s req st' k n'" if "started st' k"
    using nodes [OF k] starts [OF that] inv i that may_start_extends [OF _ e]
    unfolding verdict_inv_def by (metis option.inject)
  show "justified s st' k n'"
  proof (cases "bm_get (run_nodes st) k = Some n'")
    case True
    then show ?thesis using inv justified_extends [OF _ e] same unfolding verdict_inv_def by metis
  next
    case False
    then show ?thesis using nodes [OF k] same by (auto simp: justified_def)
  qed
qed

lemma started_known:
  assumes "graph_inv s st" "jobs_inv st" "started st k"
  shows "k \<in> dom (bm_get (run_nodes st))"
  using assms(3) unfolding started_def
proof (elim disjE)
  assume "k \<in> dom (bm_get (in_flight st))"
  then show ?thesis using jobs_invD(2) [OF assms(2)] by fastforce
next
  assume "k \<in> dom (bm_get (owners st))"
  then obtain ins cs where "bm_get (owners st) k = Some (ins, cs)" by auto
  then show ?thesis using graph_invD(7) [OF assms(1)] graph_invD(4) [OF assms(1)] by blast
next
  assume "k \<in> dom (bm_get (coordinated st))"
  then show ?thesis using jobs_invD(5) [OF assms(2)] by blast
next
  assume "\<exists>o'. bm_get (outcomes st) k = Some o' \<and> o' \<noteq> Suppressed UpstreamMissing"
  then show ?thesis using jobs_invD(1) [OF assms(2)] by blast
qed

lemma verdict_visited:
  assumes v: "visited s d i st st'"
    and inv: "graph_inv s st" "jobs_inv st" "artifact_inv st" "verdict_inv s req st"
    and req: "\<And>n. req n \<Longrightarrow> requires_successful_predecessors d n"
  shows "verdict_inv s req st'"
proof -
  have start: "may_start s req st i n" if "released s st i" "cleared s d st i n" for n
    using released_cleared_may_start [OF inv(3,1) that req] .
  have deps: "e \<in> set (dependencies s st i) \<Longrightarrow> e \<in> set (dependencies_of (sc_plan s) i)" for e
    by (auto simp: dependencies_def split: if_splits)
  show ?thesis
    using v
  proof (cases rule: visited.cases)
    case (barred n f)
    have "lost st' f" using barred artifact_lost [OF inv(3)] by (auto simp: lost_def suppress_def)
    then show ?thesis
      using barred by (intro verdict_outcome [OF inv(4)]) (auto simp: open_node_def suppress_def justified_def)
  next
    case (upstream_lost n e)
    have "lost st' (port_node (edge_from e))"
      using upstream_lost artifact_lost [OF inv(3)] by (auto simp: lost_def suppress_def)
    then show ?thesis
      using upstream_lost deps by (intro verdict_outcome [OF inv(4)]) (auto simp: open_node_def suppress_def justified_def)
  next
    case (input_missing n)
    then show ?thesis by (intro verdict_outcome [OF inv(4)]) (auto simp: open_node_def suppress_def justified_def)
  next
    case (unselected n)
    then show ?thesis using start
      by (intro verdict_outcome [OF inv(4)]) (auto simp: open_node_def suppress_def justified_def)
  next
    case (failed n error cls)
    then show ?thesis using start
      by (intro verdict_outcome [OF inv(4)]) (auto simp: open_node_def fail_node_def justified_def)
  next
    case (spawned n inputs)
    then show ?thesis using start
      by (intro verdict_start [OF inv(4), where i = i]) (auto simp: open_node_def started_def split: if_splits)
  next
    case (refused n error)
    then show ?thesis using start
      by (intro verdict_start [OF inv(4), where i = i]) (auto simp: open_node_def started_def coordinate_def split: if_splits)
  next
    case (gathered n inputs children r)
    have "started st i" using gathered by (auto simp: started_def)
    then have "may_start s req st i n" using inv(4) gathered by (simp add: verdict_inv_def open_node_def)
    then show ?thesis using gathered
      by (intro verdict_start [OF inv(4), where i = i]) (auto simp: open_node_def started_def coordinate_def split: if_splits)
  next
    case (registered n cs inputs limit)
    note R = registration [OF inv(1) registered(7,8)]
    have starts: "started st' k \<Longrightarrow> started st k \<or> k = i" for k
      by (auto simp: started_def R(7-11) split: if_splits)
    show ?thesis
    proof (rule verdict_start [OF inv(4) R(8) starts])
      show "bm_get (run_nodes st) i = Some n" using registered by (simp add: open_node_def)
      show "may_start s req st i n" using start registered by blast
      fix k m
      assume m: "bm_get (run_nodes st') k = Some m"
      show "bm_get (run_nodes st) k = Some m \<or> bm_get (outcomes st) k = None \<and> \<not> started st' k"
      proof (cases "k \<in> set (child_ids cs)")
        case True
        then have "k \<notin> dom (bm_get (run_nodes st))" using R(1) by auto
        then show ?thesis using jobs_invD(1) [OF inv(2)] started_known [OF inv(1,2), of k] starts [of k] registered by (auto simp: open_node_def)
      next
        case False
        then show ?thesis using m by (auto simp: R(4))
      qed
    qed
  qed (use inv in simp)
qed

subsection \<open>The barrier\<close>

definition sched_inv :: "Scheduler \<Rightarrow> (Node \<Rightarrow> bool) \<Rightarrow> RunState \<Rightarrow> bool" where
  "sched_inv s req st = (graph_inv s st \<and> jobs_inv st \<and> artifact_inv st \<and> capacity_inv s st
     \<and> input_inv s st \<and> verdict_inv s req st)"

lemma sched_invD:
  assumes "sched_inv s req st"
  shows "graph_inv s st" "jobs_inv st" "artifact_inv st" "capacity_inv s st" "input_inv s st" "verdict_inv s req st"
  using assms by (simp_all add: sched_inv_def)

lemma sched_inv_visited:
  assumes "visited s d i st st'" "sched_inv s req st" "bm_get (coordinated st) i = None"
    and "\<And>n. req n \<Longrightarrow> requires_successful_predecessors d n"
  shows "sched_inv s req st'"
  using assms(2,3) graph_visited [OF assms(1)] jobs_visited [OF assms(1)] artifact_visited [OF assms(1)]
    capacity_visited [OF assms(1)] input_visited [OF assms(1)] verdict_visited [OF assms(1) _ _ _ _ assms(4)]
  unfolding sched_inv_def by simp

text \<open>Between scans nothing runs.\<close>

definition idle_state :: "RunState \<Rightarrow> bool" where
  "idle_state st = (in_flight st = bm_empty \<and> coordinated st = bm_empty)"

lemma start_scan_simps [simp]:
  "outcomes (start_scan st) = outcomes st" "child_inputs (start_scan st) = child_inputs st"
  "run_nodes (start_scan st) = run_nodes st" "run_order (start_scan st) = run_order st"
  "owners (start_scan st) = owners st" "in_flight (start_scan st) = in_flight st"
  "coordinated (start_scan st) = bm_empty" "\<not> progressed (start_scan st)"
  by (simp_all add: start_scan_def)

lemma sched_inv_clear:
  assumes "sched_inv s req st"
  shows "sched_inv s req (st\<lparr>in_flight := bm_empty, coordinated := bm_empty\<rparr>)"
    "sched_inv s req (start_scan st)"
proof -
  have v: "verdict_inv s req (st\<lparr>in_flight := bm_empty, coordinated := bm_empty\<rparr>)"
    "verdict_inv s req (start_scan st)"
    using assms unfolding sched_inv_def verdict_inv_def
    by (auto simp: started_def may_start_def completed_def justified_def lost_def start_scan_def)
  show "sched_inv s req (st\<lparr>in_flight := bm_empty, coordinated := bm_empty\<rparr>)"
    using assms v(1) capacity_idle unfolding sched_inv_def by (auto simp: jobs_inv_def input_inv_def)
  have "delivered (start_scan st) = delivered st" by (simp add: fun_eq_iff delivered_def start_scan_def)
  then have "arriving s (start_scan st) = arriving s st" by (intro ext) (simp add: arriving_def)
  then have "inputs_exact s (start_scan st) k n m = inputs_exact s st k n m" for k n m
    by (simp add: inputs_exact_def split: option.split)
  then show "sched_inv s req (start_scan st)"
    using assms v(2) unfolding sched_inv_def by (auto simp: jobs_inv_def input_inv_def start_scan_def)
qed

lemma admit_one_cases:
  assumes "admit_one d i n result st = Ok st'"
  obtains error cls where "st' = reject_node i error cls st"
  | produced where "validate_outputs n produced = Ok ()" "st' = admit_output i produced st"
  using assms by (auto simp: admit_one_def split: res.splits)

lemmas admission_defs = reject_node_def admit_output_def

lemma admit_one_inv:
  assumes "admit_one d i n result st = Ok st'" "sched_inv s req st" "idle_state st"
    and i: "bm_get (outcomes st) i = None" "bm_get (run_nodes st) i = Some n" "may_start s req st i n"
  shows "sched_inv s req st' \<and> idle_state st' \<and> extends st st' \<and> run_nodes st' = run_nodes st \<and> owners st' = owners st
    \<and> (\<exists>o'. outcomes st' = bm_insert i o' (outcomes st))"
  using assms(1)
proof (cases rule: admit_one_cases)
  case (1 error cls)
  let ?o = "Failed error cls" and ?u = "insert i (unusable st)"
  have "verdict_inv s req (st\<lparr>outcomes := bm_insert i ?o (outcomes st), unusable := ?u, progressed := progressed st\<rparr>)"
    by (rule verdict_outcome [OF sched_invD(6) [OF assms(2)] i(1,2) refl disjI2 [OF i(3)]]) (simp add: justified_def)
  moreover have "artifact_inv (st\<lparr>outcomes := bm_insert i ?o (outcomes st), unusable := ?u\<rparr>)"
    by (rule artifact_unresolved [OF sched_invD(3) [OF assms(2)] i(1)]) simp
  ultimately show ?thesis
    using sched_invD(1,2,4,5) [OF assms(2)] assms(3) i
    by (auto simp: 1 sched_inv_def idle_state_def reject_node_def extends_def jobs_inv_def input_inv_def)
next
  case (2 produced)
  let ?st = "st\<lparr>outcomes := bm_insert i (Completed produced) (outcomes st), unusable := unusable st, progressed := progressed st\<rparr>"
  have "verdict_inv s req ?st"
    by (rule verdict_outcome [OF sched_invD(6) [OF assms(2)] i(1,2) refl disjI2 [OF i(3)]]) (simp add: justified_def)
  moreover have "verdict_inv s req st' = verdict_inv s req ?st"
    by (simp add: 2 admit_output_def verdict_inv_def started_def may_start_def completed_def justified_def lost_def)
  moreover have "artifact_inv st'" using artifact_completed [OF sched_invD(3) [OF assms(2)] i(1,2) 2(1)] by (simp add: 2)
  ultimately show ?thesis
    using sched_invD(1,2,4,5) [OF assms(2)] assms(3) i
    by (auto simp: 2(2) sched_inv_def idle_state_def admit_output_def extends_def jobs_inv_def input_inv_def)
qed

lemma admit_wave_inv:
  assumes "admit_wave d ids completions st = Ok st'" "sched_inv s req st" "idle_state st" "distinct ids"
    and "\<forall>k \<in> set ids. bm_get (outcomes st) k = None \<and> (\<forall>n. bm_get (run_nodes st) k = Some n \<longrightarrow> may_start s req st k n)"
  shows "sched_inv s req st' \<and> idle_state st' \<and> extends st st' \<and> run_nodes st' = run_nodes st \<and> owners st' = owners st
    \<and> dom (bm_get (outcomes st')) = set ids \<union> dom (bm_get (outcomes st))"
  using assms
proof (induction ids arbitrary: completions st)
  case Nil
  then show ?case by (simp add: extends_def)
next
  case (Cons i ids)
  obtain result n st1 where r: "bm_get completions i = Some result" "bm_get (run_nodes st) i = Some n"
    "admit_one d i n result st = Ok st1" "admit_wave d ids (bm_remove i completions) st1 = Ok st'"
    using Cons.prems(1) by (auto simp: and_then_eq_Ok expect_def split: option.splits)
  have one: "sched_inv s req st1" "idle_state st1" "extends st st1" "run_nodes st1 = run_nodes st"
    "owners st1 = owners st" "\<exists>o'. outcomes st1 = bm_insert i o' (outcomes st)"
    using admit_one_inv [OF r(3) Cons.prems(2,3) _ r(2)] Cons.prems(5) r(2) by auto
  have "\<forall>k \<in> set ids. bm_get (outcomes st1) k = None \<and> (\<forall>n. bm_get (run_nodes st1) k = Some n \<longrightarrow> may_start s req st1 k n)"
    using Cons.prems(4,5) one(4,6) may_start_extends [OF _ one(3)] by auto
  from Cons.IH [OF r(4) one(1,2) _ this] Cons.prems(4)
  have IH: "sched_inv s req st' \<and> idle_state st' \<and> extends st1 st' \<and> run_nodes st' = run_nodes st1
      \<and> owners st' = owners st1 \<and> dom (bm_get (outcomes st')) = set ids \<union> dom (bm_get (outcomes st1))" by auto
  have "dom (bm_get (outcomes st1)) = insert i (dom (bm_get (outcomes st)))" using one(6) by (auto split: if_splits)
  then show ?case using IH one(3-5) by (auto simp: extends_def)
qed

lemma finish_wave_inv:
  assumes f: "finish_wave d arrival st = Ok st'" and inv: "sched_inv s req st"
  shows "sched_inv s req st' \<and> idle_state st' \<and> extends st st' \<and> run_nodes st' = run_nodes st \<and> owners st' = owners st
    \<and> dom (bm_get (outcomes st')) = dom (bm_get (in_flight st)) \<union> dom (bm_get (coordinated st)) \<union> dom (bm_get (outcomes st))"
proof -
  let ?st = "st\<lparr>in_flight := bm_empty, coordinated := bm_empty\<rparr>"
  let ?wave = "dom (bm_get (in_flight st)) \<union> dom (bm_get (coordinated st))"
  let ?ids = "filter (\<lambda>i. i \<in> ?wave) (run_order st)"
  have g: "graph_inv s st" "jobs_inv st" "verdict_inv s req st" using inv by (auto simp: sched_inv_def)
  have "?wave \<subseteq> dom (bm_get (run_nodes st))" using started_known [OF g(1,2)] unfolding started_def by blast
  then have wave: "set ?ids = ?wave" using graph_invD(2) [OF g(1)] by (auto simp only: set_filter)
  have free: "bm_get (outcomes st) k = None" if "k \<in> ?wave" for k
    using that jobs_invD(3,6) [OF g(2)] by fastforce
  have start: "may_start s req ?st k n" if "k \<in> ?wave" "bm_get (run_nodes st) k = Some n" for k n
  proof -
    have "started st k" using that(1) unfolding started_def by blast
    then have "may_start s req st k n" using g(3) that(2) by (simp add: verdict_inv_def)
    then show ?thesis by (simp add: may_start_def completed_def)
  qed
  have "admit_wave d ?ids (receive d (arrival (bm_keys (in_flight st))) (in_flight st) (coordinated st)) ?st = Ok st'"
    using f by (simp add: finish_wave_def set_bm_keys)
  from admit_wave_inv [OF this sched_inv_clear(1) [OF inv]] graph_invD(1) [OF g(1)] wave free start
  show ?thesis by (auto simp: idle_state_def extends_def)
qed

subsection \<open>The transition system\<close>

text \<open>Every node for which \<open>req\<close> holds is one whose dispatcher requires successful predecessors.\<close>

inductive sched_step :: "Scheduler \<Rightarrow> (Node \<Rightarrow> bool) \<Rightarrow> RunState \<Rightarrow> RunState \<Rightarrow> bool"
  for s :: Scheduler and req :: "Node \<Rightarrow> bool" where
  begin_scan: "sched_step s req st (start_scan st)"
| visit_one: "visit s d i st = Ok st' \<Longrightarrow> bm_get (coordinated st) i = None
    \<Longrightarrow> \<forall>n. req n \<longrightarrow> requires_successful_predecessors d n \<Longrightarrow> sched_step s req st st'"
| end_wave: "finish_wave d arrival st = Ok st' \<Longrightarrow> sched_step s req st st'"

definition starts_run :: "Scheduler \<Rightarrow> RunState \<Rightarrow> bool" where
  "starts_run s st = (is_plan (sc_plan s) \<and> st = initial_state s)"

lemma initial_inv:
  assumes "is_plan (sc_plan s)"
  shows "sched_inv s req (initial_state s)"
proof -
  let ?q = "sc_plan s"
  have "distinct (run_order (initial_state s))" "set (run_order (initial_state s)) = dom (bm_get (nodes ?q))"
    using planned.order_distinct [OF assms] planned.order_nodes [OF assms] by (auto simp: initial_state_def)
  then have "graph_inv s (initial_state s)"
    using planned.node_keys [OF assms] by (auto simp: graph_defs initial_state_def)
  then show ?thesis
    by (simp add: sched_inv_def initial_state_def jobs_inv_def artifact_inv_def capacity_inv_def running_def bm_keys_def
        input_inv_def verdict_inv_def started_def justified_def)
qed

interpretation scheduling: invariant "starts_run s" "sched_step s req" "sched_inv s req" for s req
proof
  show "starts_run s st \<Longrightarrow> sched_inv s req st" for st by (auto simp: starts_run_def initial_inv)
  show "sched_inv s req st \<Longrightarrow> sched_step s req st st' \<Longrightarrow> sched_inv s req st'" for st st'
    by (erule sched_step.cases)
      (auto simp: sched_inv_clear finish_wave_inv dest!: visit_visited intro: sched_inv_visited)
qed

lemma visited_coordinated:
  assumes "visited s d i st st'" "k \<noteq> i"
  shows "bm_get (coordinated st') k = bm_get (coordinated st) k"
  using assms by (cases rule: visited.cases) (auto simp: visit_effects register_children_Ok)

lemma scan_steps:
  assumes "scan s d ids st = Ok st'" "distinct ids" "\<forall>i \<in> set ids. bm_get (coordinated st) i = None"
    and req: "\<forall>n. req n \<longrightarrow> requires_successful_predecessors d n"
  shows "(sched_step s req)\<^sup>*\<^sup>* st st'"
  using assms(1-3)
proof (induction ids arbitrary: st)
  case (Cons i ids)
  then obtain st1 where v: "visit s d i st = Ok st1" "scan s d ids st1 = Ok st'" by (auto simp: and_then_eq_Ok)
  have "\<forall>j \<in> set ids. bm_get (coordinated st1) j = None"
    using visited_coordinated [OF visit_visited [OF v(1)]] Cons.prems(2,3) by (metis distinct.simps(2) list.set_intros(2))
  then have "(sched_step s req)\<^sup>*\<^sup>* st1 st'" using Cons v by simp
  moreover have "sched_step s req st st1" using v(1) Cons.prems(3) req by (auto intro: visit_one)
  ultimately show ?case by (rule converse_rtranclp_into_rtranclp [rotated])
qed simp

text \<open>A loop that returns has gone through such steps, and its last scan changed nothing.\<close>

definition loop_steps ::
  "(Node \<Rightarrow> bool) \<Rightarrow> Scheduler \<Rightarrow> (nat \<Rightarrow> Dispatch) \<Rightarrow> RunState \<Rightarrow> (string, RunState) res \<Rightarrow> bool" where
  "loop_steps req s d st r = (\<forall>st'. r = Ok st' \<longrightarrow> sched_inv s req st
     \<longrightarrow> (\<forall>i n. req n \<longrightarrow> requires_successful_predecessors (d i) n) \<longrightarrow> (sched_step s req)\<^sup>*\<^sup>* st st')"

lemma loop_stepsD:
  "loop_steps req s d st r \<Longrightarrow> r = Ok st' \<Longrightarrow> sched_inv s req st
     \<Longrightarrow> \<forall>i n. req n \<longrightarrow> requires_successful_predecessors (d i) n \<Longrightarrow> (sched_step s req)\<^sup>*\<^sup>* st st'"
  by (simp add: loop_steps_def)

lemma loop_steps_body:
  assumes IH: "\<And>s d timing k st r. loop s d timing k st = Some r \<Longrightarrow> loop_steps req s d st r"
    and body: "(case scan s (d k) (run_order st) (start_scan st) of
        Panic \<Rightarrow> Some Panic
      | Err e \<Rightarrow> Some (Err e)
      | Ok st1 \<Rightarrow>
          if bm_is_empty (in_flight st1) \<and> bm_is_empty (coordinated st1)
          then if progressed st1 then loop s d timing (k + 1) st1 else Some (Ok st1)
          else (case finish_wave (d k) (timing k) st1 of
                  Panic \<Rightarrow> Some Panic
                | Err e \<Rightarrow> Some (Err e)
                | Ok st2 \<Rightarrow> loop s d timing (k + 1) st2)) = Some r"
  shows "loop_steps req s d st r"
  unfolding loop_steps_def
proof (intro allI impI)
  fix st'
  assume r: "r = Ok st'" and inv: "sched_inv s req st" and req: "\<forall>i n. req n \<longrightarrow> requires_successful_predecessors (d i) n"
  obtain st1 where scan: "scan s (d k) (run_order st) (start_scan st) = Ok st1"
    using body r by (auto split: res.splits)
  have "(sched_step s req)\<^sup>*\<^sup>* (start_scan st) st1"
    using scan_steps [OF scan] graph_invD(1) [OF sched_invD(1) [OF inv]] req by simp
  then have one: "(sched_step s req)\<^sup>*\<^sup>* st st1"
    using begin_scan [of s req st] by (metis converse_rtranclp_into_rtranclp)
  have inv1: "sched_inv s req st1" using scheduling.steps_inv [OF inv one] .
  show "(sched_step s req)\<^sup>*\<^sup>* st st'"
  proof (cases "bm_is_empty (in_flight st1) \<and> bm_is_empty (coordinated st1)")
    case True
    show ?thesis
    proof (cases "progressed st1")
      case p: True
      then have "loop s d timing (k + 1) st1 = Some r" using body scan True by simp
      from loop_stepsD [OF IH [OF this] r inv1 req] one show ?thesis by simp
    next
      case False
      then show ?thesis using body r scan True one by simp
    qed
  next
    case False
    then obtain st2 where w: "finish_wave (d k) (timing k) st1 = Ok st2" "loop s d timing (k + 1) st2 = Some r"
      using body r scan by (auto split: res.splits)
    have two: "sched_step s req st1 st2" using w(1) by (rule end_wave)
    from loop_stepsD [OF IH [OF w(2)] r scheduling.inv_step [OF inv1 two] req] one two show ?thesis by simp
  qed
qed

lemma run_loop_steps: "run_loop s d timing k st = Some r \<Longrightarrow> loop_steps req s d st r"
  by (rule run_loop.raw_induct [where P = "\<lambda>s d timing k st r. loop_steps req s d st r"])
    (rule loop_steps_body, assumption+)

end
