(* ===== verification/ScheduleRun.thy ===== *)
theory ScheduleRun
  imports ScheduleSteps
begin

text \<open>
  The scheduler loop returns. No visit or barrier panics on a planned pipeline; a scan that changes
  nothing leaves no node unresolved; every other iteration registers an owner or resolves a node,
  which bounds their number although the children are only known at run time. A first node that
  coordinates children is never resolved. The arrival order of the workers has no effect.
\<close>

subsection \<open>Configured schedulers\<close>

inductive configured :: "Scheduler \<Rightarrow> bool" where
  new: "is_plan q \<Longrightarrow> configured (new_scheduler q n)"
| first_nodes: "configured s \<Longrightarrow> with_first s f = Ok s' \<Longrightarrow> configured s'"
| scopes: "configured s \<Longrightarrow> with_scope_limits s l = Ok s' \<Longrightarrow> configured s'"

lemma configuredD:
  assumes "configured s"
  shows "is_plan (sc_plan s)" "0 < max_parallel s"
    "\<And>scope limit. bm_get (scope_limits s) scope = Some limit \<Longrightarrow> 0 < limit"
    "\<And>f. f \<in> first s \<Longrightarrow> f \<in> dom (bm_get (nodes (sc_plan s))) \<and> dependencies_of (sc_plan s) f = []"
proof -
  have "is_plan (sc_plan s) \<and> 0 < max_parallel s
    \<and> (\<forall>scope limit. bm_get (scope_limits s) scope = Some limit \<longrightarrow> 0 < limit)
    \<and> (\<forall>f \<in> first s. f \<in> dom (bm_get (nodes (sc_plan s))) \<and> dependencies_of (sc_plan s) f = [])"
    using assms
  proof induction
    case (first_nodes s f s')
    then show ?case by (auto simp: with_first_def split: if_splits)
  next
    case (scopes s l s')
    then show ?case
      by (fastforce simp: with_scope_limits_def list_ex_iff bm_get_iff_entry split: if_splits)
  qed (simp add: new_scheduler_def)
  then show "is_plan (sc_plan s)" "0 < max_parallel s"
    "\<And>scope limit. bm_get (scope_limits s) scope = Some limit \<Longrightarrow> 0 < limit"
    "\<And>f. f \<in> first s \<Longrightarrow> f \<in> dom (bm_get (nodes (sc_plan s))) \<and> dependencies_of (sc_plan s) f = []"
    by blast+
qed

text \<open>The hooks called outside \<open>catch_unwind\<close> return.\<close>

definition hooks_return :: "Dispatch \<Rightarrow> bool" where
  "hooks_return d = (\<forall>n m. task_node_selected d n m \<noteq> Panic \<and> record_invocation d n m \<noteq> Panic \<and> record_outputs d n m \<noteq> Panic)"

subsection \<open>No visit panics\<close>

lemma launch_defined:
  assumes "hooks_return d" "i \<in> set (run_order st)"
  shows "\<exists>st'. launch d c i n inputs st = Ok st'"
proof -
  have "record_invocation d n inputs \<noteq> Panic" using assms(1) by (simp add: hooks_return_def)
  moreover have "\<exists>st'. expand_owner d i n inputs st = Ok st'"
  proof -
    let ?e = "and_then (catch_unwind (''owned expansion panicked for node '' @ node_id n) (expand_owned_children d n inputs))
      (\<lambda>children. and_then (validate_owned_expansion n children (run_nodes st)) (\<lambda>_. Ok children))"
    have "?e \<noteq> Panic" by (auto simp: and_then_eq_Panic validate_owned_expansion_def)
    moreover have "\<exists>st'. register_children i inputs l cs st = Ok st'" for l cs
      using splice_after_defined [OF assms(2), of "child_ids cs"] by (auto simp: register_children_Ok)
    ultimately show ?thesis unfolding expand_owner_def by (cases ?e) auto
  qed
  ultimately show ?thesis by (auto simp: launch_def split: res.splits)
qed

lemma inputs_missing_defined:
  "pc_name ` set ps \<subseteq> dom (bm_get inputs) \<Longrightarrow> \<exists>b. inputs_missing ps inputs = Ok b"
  by (induction ps) auto

lemma select_branch_defined:
  assumes "hooks_return d" "i \<in> set (run_order st)" "pc_name ` set (node_inputs n) \<subseteq> dom (bm_get inputs)"
  shows "\<exists>st'. select_branch d c i n inputs st = Ok st'"
proof (cases "node_kind n = Task")
  case True
  obtain b where "inputs_missing (node_inputs n) inputs = Ok b" using inputs_missing_defined [OF assms(3)] by blast
  moreover have "task_node_selected d n inputs \<noteq> Panic" using assms(1) by (simp add: hooks_return_def)
  ultimately show ?thesis
    using True launch_defined [OF assms(1,2)] by (auto simp: select_branch_def split: res.splits bool.splits)
next
  case False
  then show ?thesis using launch_defined [OF assms(1,2)] by (simp add: select_branch_def)
qed

lemma resolve_inputs_defined:
  assumes plan: "is_plan (sc_plan s)" and inv: "graph_inv s st" and n: "bm_get (run_nodes st) i = Some n"
  shows "\<exists>m. resolve_inputs n i (dependencies s st i) st = Ok m \<and> pc_name ` set (node_inputs n) \<subseteq> dom (bm_get m)"
proof -
  let ?base = "case bm_get (child_inputs st) i of Some m \<Rightarrow> m | None \<Rightarrow> bm_of_list (map (\<lambda>p. (pc_name p, [])) (node_inputs n))"
  have ports: "pc_name ` set (node_inputs n) \<subseteq> dom (bm_get ?base)"
    using graph_invD(6) [OF inv _ n] by (cases "bm_get (child_inputs st) i") (auto simp: bm_get_ports)
  have "port_name (edge_to e) \<in> dom (bm_get ?base)" if e: "e \<in> set (dependencies s st i)" for e
  proof -
    have c: "i \<notin> dom (bm_get (child_inputs st))" "e \<in> set (edges (sc_plan s))" "port_node (edge_to e) = i"
      using e by (auto simp: dependencies_def dependencies_of_def split: if_splits)
    then obtain n' where "bm_get (nodes (sc_plan s)) i = Some n'" using graph_invD(5) [OF inv] n by auto
    moreover then have "n' = n" using graph_invD(4) [OF inv] n by fastforce
    ultimately show ?thesis using planned.edge_port [OF plan c(2)] c(3) ports by auto
  qed
  then obtain m where m: "deliver (outputs st) (dependencies s st i) ?base = Ok m" using deliver_defined by blast
  have "dom (bm_get m) = dom (bm_get ?base)" using deliver_Ok [OF m] by (auto simp: dom_def)
  then show ?thesis using m ports by (auto simp: resolve_inputs_def)
qed

lemma visit_defined:
  assumes "is_plan (sc_plan s)" "graph_inv s st" "hooks_return d" "i \<in> set (run_order st)"
  shows "\<exists>st'. visit s d i st = Ok st'"
proof -
  obtain n where n: "bm_get (run_nodes st) i = Some n" using assms(4) graph_invD(2) [OF assms(2)] by auto
  obtain m where m: "resolve_inputs n i (dependencies s st i) st = Ok m" "pc_name ` set (node_inputs n) \<subseteq> dom (bm_get m)"
    using resolve_inputs_defined [OF assms(1,2) n] by blast
  have "\<exists>st'. visit_node s d i n st = Ok st'"
    using select_branch_defined [OF assms(3,4) m(2)] unfolding visit_node_eq m(1) and_then.simps by simp
  moreover have "\<exists>st'. visit_owner d i n inputs children st = Ok st'" for inputs children
    by (simp add: visit_owner_def traverse_not_Panic)
  ultimately show ?thesis using n by (simp add: visit_def split: option.split)
qed

subsection \<open>Progress\<close>

text \<open>How far a state has come from an earlier one in the same scan.\<close>

definition grown :: "RunState \<Rightarrow> RunState \<Rightarrow> bool" where
  "grown st st' =
     (dom (bm_get (owners st)) \<subseteq> dom (bm_get (owners st'))
      \<and> dom (bm_get (outcomes st)) \<subseteq> dom (bm_get (outcomes st'))
      \<and> (dom (bm_get (owners st)) = dom (bm_get (owners st')) \<longrightarrow> run_nodes st' = run_nodes st)
      \<and> (progressed st' \<longrightarrow> progressed st \<or> dom (bm_get (owners st)) \<noteq> dom (bm_get (owners st'))
           \<or> dom (bm_get (outcomes st)) \<noteq> dom (bm_get (outcomes st')) \<or> \<not> idle_state st')
      \<and> (\<not> idle_state st \<longrightarrow> \<not> idle_state st')
      \<and> set (run_order st) \<subseteq> set (run_order st'))"

lemma bm_insert_not_empty [simp]: "bm_insert k v m \<noteq> bm_empty"
  by (metis bm_get_empty bm_get_insert option.distinct(1))

lemma visited_grown:
  assumes "visited s d i st st'"
  shows "grown st st'"
  using assms
proof (cases rule: visited.cases)
  case (registered n cs inputs limit)
  have "dom (bm_get (owners st')) = insert i (dom (bm_get (owners st)))" "i \<notin> dom (bm_get (owners st))"
    "outcomes st' = outcomes st" "in_flight st' = in_flight st" "coordinated st' = coordinated st"
    "set (run_order st) \<subseteq> set (run_order st')"
    using registered splice_after_Some by (auto simp: register_children_Ok domIff split: if_splits)
  then show ?thesis by (auto simp: grown_def idle_state_def)
qed (auto simp: grown_def visit_effects open_node_def idle_state_def)

lemma grown_trans: "grown st st1 \<Longrightarrow> grown st1 st2 \<Longrightarrow> grown st st2"
  unfolding grown_def by (elim conjE, intro conjI) (simp | metis subset_antisym subset_trans)+

lemma scan_grown: "scan s d ids st = Ok st' \<Longrightarrow> grown st st'"
proof (induction ids arbitrary: st)
  case (Cons i ids)
  then obtain st1 where "visit s d i st = Ok st1" "scan s d ids st1 = Ok st'" by (auto simp: and_then_eq_Ok)
  then show ?case using Cons.IH visited_grown [OF visit_visited] grown_trans by blast
qed (simp add: grown_def)

lemma visited_progress:
  assumes "visited s d i st st'"
  shows "st' = st \<or> progressed st'" "progressed st \<Longrightarrow> progressed st'"
  using assms by (auto elim!: visited.cases simp: visit_effects register_children_Ok)

text \<open>A scan without progress left the state alone, at every node.\<close>

lemma scan_quiet:
  assumes "scan s d ids st = Ok st'" "\<not> progressed st'"
  shows "st' = st \<and> (\<forall>i \<in> set ids. visit s d i st = Ok st)"
  using assms
proof (induction ids arbitrary: st)
  case (Cons i ids)
  then obtain st1 where v: "visit s d i st = Ok st1" "scan s d ids st1 = Ok st'" by (auto simp: and_then_eq_Ok)
  have IH: "st' = st1" "\<forall>i \<in> set ids. visit s d i st1 = Ok st1" using Cons.IH [OF v(2) Cons.prems(2)] by auto
  then have "st1 = st" using visited_progress(1) [OF visit_visited [OF v(1)]] Cons.prems(2) by auto
  then show ?case using IH v(1) by auto
qed simp

lemma scan_defined:
  assumes "is_plan (sc_plan s)" "sched_inv s (\<lambda>_. False) st" "hooks_return d" "set ids \<subseteq> set (run_order st)"
    "distinct ids" "\<forall>i \<in> set ids. bm_get (coordinated st) i = None"
  shows "\<exists>st'. scan s d ids st = Ok st'"
  using assms(2,4-)
proof (induction ids arbitrary: st)
  case (Cons i ids)
  obtain st1 where v: "visit s d i st = Ok st1"
    using visit_defined [OF assms(1) sched_invD(1) [OF Cons.prems(1)] assms(3)] Cons.prems(2) by auto
  note vis = visit_visited [OF v]
  have "sched_inv s (\<lambda>_. False) st1" using sched_inv_visited [OF vis Cons.prems(1)] Cons.prems(4) by simp
  moreover have "set ids \<subseteq> set (run_order st1)" using visited_grown [OF vis] Cons.prems(2) by (auto simp: grown_def)
  moreover have "\<forall>j \<in> set ids. bm_get (coordinated st1) j = None"
    using visited_coordinated [OF vis] Cons.prems(3,4) by (metis distinct.simps(2) list.set_intros(2))
  ultimately have "\<exists>st'. scan s d ids st1 = Ok st'" using Cons.IH Cons.prems(3) by simp
  then show ?case using v by simp
qed simp

subsection \<open>No barrier panics\<close>

lemma receive_get:
  assumes "\<And>k job. bm_get jobs k = Some job \<Longrightarrow> node_id (fst job) = k"
  shows "bm_get (receive d ids jobs completions) k =
    (if k \<in> set ids \<and> k \<in> dom (bm_get jobs) then Some (snd (worker d (the (bm_get jobs k)))) else bm_get completions k)"
proof (induction ids arbitrary: completions)
  case (Cons i ids)
  show ?case
  proof (cases "bm_get jobs i")
    case None
    then show ?thesis using Cons by (auto simp: domIff)
  next
    case (Some job)
    then show ?thesis using Cons assms [OF Some] by (auto simp: worker_def domIff)
  qed
qed simp

lemma receive_order:
  assumes "\<And>k job. bm_get jobs k = Some job \<Longrightarrow> node_id (fst job) = k" "set ids = set ids'"
  shows "receive d ids jobs completions = receive d ids' jobs completions"
  using assms by (intro bm_eqI) (simp add: receive_get)

lemma admit_one_defined:
  assumes "hooks_return d" "result \<noteq> Panic"
  shows "\<exists>st'. admit_one d i n result st = Ok st'"
proof -
  have "validate_outputs n produced \<noteq> Panic" for produced
    by (auto simp: validate_outputs_def and_then_eq_Panic Let_def dest!: each_Panic split: if_splits)
  moreover have "record_outputs d n produced \<noteq> Panic" for produced using assms(1) by (simp add: hooks_return_def)
  ultimately show ?thesis using assms(2) by (auto simp: admit_one_def split: res.splits)
qed

lemma admit_wave_defined:
  assumes "hooks_return d" "distinct ids"
    "\<forall>i \<in> set ids. i \<in> dom (bm_get (run_nodes st)) \<and> i \<in> dom (bm_get completions) \<and> bm_get completions i \<noteq> Some Panic"
  shows "\<exists>st'. admit_wave d ids completions st = Ok st'"
  using assms(2-)
proof (induction ids arbitrary: completions st)
  case (Cons i ids)
  obtain result n where r: "bm_get completions i = Some result" "result \<noteq> Panic" "bm_get (run_nodes st) i = Some n"
    using Cons.prems(2) by auto
  obtain st1 where a: "admit_one d i n result st = Ok st1" using admit_one_defined [OF assms(1) r(2)] by blast
  have "run_nodes st1 = run_nodes st" using a by (cases rule: admit_one_cases) (auto simp: admission_defs)
  then have "\<exists>st'. admit_wave d ids (bm_remove i completions) st1 = Ok st'"
    using Cons.prems by (intro Cons.IH) (auto split: if_splits)
  then show ?case using r a by simp
qed simp

lemma finish_wave_defined:
  assumes inv: "sched_inv s req st" and h: "hooks_return d" and a: "\<And>xs. set (arrival xs) = set xs"
  shows "\<exists>st'. finish_wave d arrival st = Ok st'"
proof -
  let ?wave = "dom (bm_get (in_flight st)) \<union> dom (bm_get (coordinated st))"
  let ?done = "receive d (arrival (bm_keys (in_flight st))) (in_flight st) (coordinated st)"
  note g = sched_invD(1,2) [OF inv]
  have jobs: "node_id (fst job) = k" if "bm_get (in_flight st) k = Some job" for k job
    using that jobs_invD(2) [OF g(2), of k "fst job" "snd job"] graph_invD(3) [OF g(1)] by simp
  have get: "bm_get ?done k = (if k \<in> dom (bm_get (in_flight st)) then Some (snd (worker d (the (bm_get (in_flight st) k))))
      else bm_get (coordinated st) k)" for k
    using receive_get [of "in_flight st", OF jobs] by (simp add: a set_bm_keys)
  have "?wave \<subseteq> dom (bm_get (run_nodes st))" using started_known [OF g] unfolding started_def by blast
  moreover have "k \<in> dom (bm_get ?done) \<and> bm_get ?done k \<noteq> Some Panic" if "k \<in> ?wave" for k
    using that jobs_invD(4) [OF g(2), of k] unfolding get domIff by (auto simp: worker_def)
  ultimately have "\<exists>st'. admit_wave d (filter (\<lambda>i. i \<in> ?wave) (run_order st)) ?done
      (st\<lparr>in_flight := bm_empty, coordinated := bm_empty\<rparr>) = Ok st'"
    using graph_invD(1) [OF g(1)] by (intro admit_wave_defined [OF h]) auto
  then show ?thesis by (simp add: finish_wave_def set_bm_keys)
qed

subsection \<open>A quiet scan has resolved every node\<close>

lemma launch_progress: "launch d c i n inputs st = Ok st' \<Longrightarrow> progressed st'"
  by (auto simp: launch_def expand_owner_def visit_effects register_children_Ok split: res.splits if_splits)

lemma select_branch_progress: "select_branch d c i n inputs st = Ok st' \<Longrightarrow> progressed st'"
  by (auto simp: select_branch_def and_then_eq_Ok suppress_def fail_node_def
      split: res.splits bool.splits if_splits dest: launch_progress)

lemma not_full:
  assumes "configured s" "in_flight st = bm_empty" "graph_inv s st"
  shows "\<not> parallel_full s st" "\<not> scope_full s i st" "\<not> owner_full i st"
proof -
  have keys: "bm_keys (in_flight st) = []" by (simp add: assms(2) bm_keys_def)
  show "\<not> parallel_full s st" using configuredD(2) [OF assms(1)] by (simp add: parallel_full_def keys)
  show "\<not> scope_full s i st" using configuredD(3) [OF assms(1)] by (auto simp: scope_full_def keys list_ex_iff bm_get_iff_entry)
  show "\<not> owner_full i st" using graph_invD(9) [OF assms(3)] by (fastforce simp: owner_full_def keys split: option.splits)
qed

lemma effects_progressed: "progressed (suppress i reason st)" "progressed (coordinate i r st)"
  by (simp_all add: suppress_def coordinate_def)

lemma visit_waits:
  assumes cfg: "configured s" and q: "visit s d i st = Ok st" "\<not> progressed st" "in_flight st = bm_empty" "graph_inv s st"
    and i: "bm_get (outcomes st) i = None" "bm_get (run_nodes st) i = Some n"
  shows "(\<exists>ins cs. bm_get (owners st) i = Some (ins, cs) \<and> \<not> set cs \<subseteq> dom (bm_get (outcomes st)))
    \<or> i \<notin> first s \<and> \<not> first s \<subseteq> dom (bm_get (outcomes st))
    \<or> (\<exists>e \<in> set (dependencies s st i). port_node (edge_from e) \<notin> dom (bm_get (outcomes st)))"
proof (cases "bm_get (owners st) i")
  case (Some oc)
  then obtain ins cs where o: "bm_get (owners st) i = Some (ins, cs)" by (cases oc) auto
  have "\<not> list_all (bm_contains (outcomes st)) cs"
  proof
    assume all: "list_all (bm_contains (outcomes st)) cs"
    have "visit s d i st = visit_owner d i n ins cs st" using i o q(3) by (simp add: visit_def domIff)
    then obtain r where "visit s d i st = Ok (coordinate i r st)"
      using all by (simp add: visit_owner_def traverse_not_Panic)
    then have "st = coordinate i r st" using q(1) by simp
    then have "progressed st" using effects_progressed(2) by metis
    then show False using q(2) by simp
  qed
  then show ?thesis using o by (auto simp: list_all_iff)
next
  case None
  have "False" if first: "i \<in> first s \<or> first s \<subseteq> dom (bm_get (outcomes st))"
    and deps: "\<forall>e \<in> set (dependencies s st i). port_node (edge_from e) \<in> dom (bm_get (outcomes st))"
  proof -
    have "visit s d i st = (if i \<notin> first s \<and> (\<exists>f \<in> first s. f \<in> unusable st) then Ok (suppress i UpstreamMissing st)
        else visit_node s d i n st)"
      using first i None q(3) by (auto simp: visit_def domIff)
    moreover have "progressed st'" if "visit_node s d i n st = Ok st'" for st'
      using that deps not_full [OF cfg q(3,4)] unfolding visit_node_eq
      by (auto simp: list_all_iff and_then_eq_Ok suppress_def split: if_splits dest: select_branch_progress)
    ultimately have "progressed st"
      using q(1) effects_progressed(1) by (metis res.inject(1))
    then show False using q(2) by simp
  qed
  then show ?thesis by blast
qed


text \<open>No node that runs first coordinates children.\<close>

definition first_inv :: "Scheduler \<Rightarrow> RunState \<Rightarrow> bool" where
  "first_inv s st = (\<forall>f \<in> first s. bm_get (owners st) f = None)"

lemma first_visited:
  assumes "visited s d i st st'" "graph_inv s st" "first_inv s st"
    and "\<And>n. node_id n \<in> first s \<Longrightarrow> \<not> coordinates_owned_children d n"
  shows "first_inv s st'"
  using assms(1)
proof (cases rule: visited.cases)
  case (registered n cs inputs limit)
  then have "i \<notin> first s" using assms(4) [of n] graph_invD(3) [OF assms(2), of i n] by (auto simp: open_node_def)
  then show ?thesis using assms(3) registered(8) by (auto simp: first_inv_def register_children_Ok)
qed (use assms(3) in \<open>auto simp: first_inv_def visit_effects\<close>)

lemma quiet_resolved:
  assumes cfg: "configured s" and inv: "sched_inv s req st" "first_inv s st" "in_flight st = bm_empty" "\<not> progressed st"
    and quiet: "\<And>i. i \<in> set (run_order st) \<Longrightarrow> visit s d i st = Ok st"
  shows "dom (bm_get (outcomes st)) = dom (bm_get (run_nodes st))"
proof (rule subset_antisym)
  let ?R = "dom (bm_get (outcomes st))" and ?plan = "dom (bm_get (nodes (sc_plan s)))"
  note g = sched_invD(1,2) [OF inv(1)]
  show "?R \<subseteq> dom (bm_get (run_nodes st))" using jobs_invD(1) [OF g(2)] .
  have wait: "(\<exists>ins cs. bm_get (owners st) i = Some (ins, cs) \<and> \<not> set cs \<subseteq> ?R)
    \<or> i \<notin> first s \<and> \<not> first s \<subseteq> ?R
    \<or> (\<exists>e \<in> set (dependencies s st i). port_node (edge_from e) \<notin> ?R)"
    if i: "i \<in> dom (bm_get (run_nodes st))" "i \<notin> ?R" for i
  proof -
    obtain n where "bm_get (outcomes st) i = None" "bm_get (run_nodes st) i = Some n" using i by auto
    then show ?thesis using visit_waits [OF cfg quiet inv(4,3) g(1)] graph_invD(2) [OF g(1)] by blast
  qed
  have first: "first s \<subseteq> ?R"
  proof
    fix f
    assume f: "f \<in> first s"
    then have "f \<in> dom (bm_get (run_nodes st))" "dependencies s st f = []"
      using configuredD(4) [OF cfg f] graph_invD(4,5) [OF g(1)] by (auto simp: dependencies_def)
    then show "f \<in> ?R" using wait [of f] f inv(2) by (auto simp: first_inv_def)
  qed
  have children: "dom (bm_get (child_inputs st)) \<subseteq> ?R"
  proof
    fix i
    assume i: "i \<in> dom (bm_get (child_inputs st))"
    then have "i \<in> dom (bm_get (run_nodes st))" "dependencies s st i = []" "i \<notin> ?plan"
      using graph_invD(5) [OF g(1)] by (auto simp: dependencies_def)
    moreover have "bm_get (owners st) i \<noteq> Some (ins, cs)" for ins cs
      using graph_invD(7) [OF g(1), of i ins cs] calculation(3) by blast
    ultimately show "i \<in> ?R" using wait [of i] first by auto
  qed
  have "k \<in> ?R" if k: "k \<in> ?plan" for k
  proof (rule ccontr)
    assume "k \<notin> ?R"
    moreover have "\<exists>e \<in> set (dependencies_of (sc_plan s) n). port_node (edge_from e) \<notin> ?R \<inter> ?plan"
      if "n \<in> set (order (sc_plan s))" "n \<notin> ?R \<inter> ?plan" for n
    proof -
      have n: "n \<in> ?plan" "n \<notin> ?R" using that planned.order_nodes [OF configuredD(1) [OF cfg]] by auto
      then have "n \<in> dom (bm_get (run_nodes st))" using graph_invD(4) [OF g(1)] by blast
      moreover have "set cs \<subseteq> ?R" if "bm_get (owners st) n = Some (ins, cs)" for ins cs
        using graph_invD(8) [OF g(1) that] children by blast
      ultimately show ?thesis using wait [of n] n first by (fastforce simp: dependencies_def split: if_splits)
    qed
    ultimately show False
      using planned.dependencies_resolved_by_order [OF configuredD(1) [OF cfg], of k "?R \<inter> ?plan"]
        planned.order_nodes [OF configuredD(1) [OF cfg]] k by blast
  qed
  then show "dom (bm_get (run_nodes st)) \<subseteq> ?R"
    using children graph_invD(5) [OF g(1)] by blast
qed


subsection \<open>The loop returns\<close>

definition todo :: "Scheduler \<Rightarrow> (RunState \<Rightarrow> nat) list" where
  "todo s = [\<lambda>st. card (dom (bm_get (nodes (sc_plan s))) - dom (bm_get (owners st))),
     \<lambda>st. card (dom (bm_get (run_nodes st)) - dom (bm_get (outcomes st)))]"

lemma diff_psubset: "A \<subset> B \<Longrightarrow> B \<subseteq> C \<Longrightarrow> C - B \<subset> C - A"
  by blast

lemma chain_psubset: "A \<subseteq> B \<Longrightarrow> B \<subseteq> C \<Longrightarrow> A \<noteq> B \<or> B \<noteq> C \<Longrightarrow> A \<subset> C"
  by blast

lemma todo_owner:
  assumes "graph_inv s st'" "dom (bm_get (owners st)) \<subset> dom (bm_get (owners st'))"
  shows "(st', st) \<in> measures (todo s)"
proof -
  have "dom (bm_get (owners st')) \<subseteq> dom (bm_get (nodes (sc_plan s)))" using graph_invD(7) [OF assms(1)] by fastforce
  then have "dom (bm_get (nodes (sc_plan s))) - dom (bm_get (owners st')) \<subset> dom (bm_get (nodes (sc_plan s))) - dom (bm_get (owners st))"
    by (rule diff_psubset [OF assms(2)])
  then show ?thesis unfolding todo_def by (simp add: psubset_card_mono)
qed

lemma todo_outcome:
  assumes "jobs_inv st'" "dom (bm_get (owners st)) = dom (bm_get (owners st'))" "run_nodes st' = run_nodes st"
    "dom (bm_get (outcomes st)) \<subset> dom (bm_get (outcomes st'))"
  shows "(st', st) \<in> measures (todo s)"
proof -
  have "dom (bm_get (run_nodes st')) - dom (bm_get (outcomes st')) \<subset> dom (bm_get (run_nodes st)) - dom (bm_get (outcomes st))"
    using diff_psubset [OF assms(4) jobs_invD(1) [OF assms(1)]] assms(3) by simp
  then show ?thesis using assms(2) unfolding todo_def by (simp add: psubset_card_mono)
qed

lemma iteration_smaller:
  assumes inv: "sched_inv s req st'" and g: "grown st st1" "\<not> progressed st" "progressed st1"
    and w: "dom (bm_get (owners st')) = dom (bm_get (owners st1))" "run_nodes st' = run_nodes st1"
      "dom (bm_get (outcomes st1)) \<subseteq> dom (bm_get (outcomes st'))"
      "\<not> idle_state st1 \<Longrightarrow> dom (bm_get (outcomes st1)) \<noteq> dom (bm_get (outcomes st'))"
  shows "(st', st) \<in> measures (todo s)"
proof (cases "dom (bm_get (owners st)) = dom (bm_get (owners st1))")
  case True
  then have "run_nodes st' = run_nodes st" using g(1) w(2) by (simp add: grown_def)
  moreover have "dom (bm_get (outcomes st)) \<subset> dom (bm_get (outcomes st'))"
    by (rule chain_psubset [OF _ w(3)]) (use g w(4) True in \<open>auto simp: grown_def\<close>)
  ultimately show ?thesis using todo_outcome [OF sched_invD(2) [OF inv]] True w(1) by simp
next
  case False
  then have "dom (bm_get (owners st)) \<subset> dom (bm_get (owners st'))" using g(1) w(1) by (simp add: grown_def psubset_eq)
  then show ?thesis by (rule todo_owner [OF sched_invD(1) [OF inv]])
qed


text \<open>What every visit keeps, a scan keeps.\<close>

lemma scan_keeps:
  assumes "scan s d ids st = Ok st'" "distinct ids" "\<forall>i \<in> set ids. bm_get (coordinated st) i = None"
    "sched_inv s (\<lambda>_. False) st" "I st"
    and "\<And>i st st'. visit s d i st = Ok st' \<Longrightarrow> sched_inv s (\<lambda>_. False) st \<Longrightarrow> I st \<Longrightarrow> I st'"
  shows "I st'"
  using assms(1-5)
proof (induction ids arbitrary: st)
  case (Cons i ids)
  then obtain st1 where v: "visit s d i st = Ok st1" "scan s d ids st1 = Ok st'" by (auto simp: and_then_eq_Ok)
  note vis = visit_visited [OF v(1)]
  have "\<forall>j \<in> set ids. bm_get (coordinated st1) j = None"
    using visited_coordinated [OF vis] Cons.prems(2,3) by (metis distinct.simps(2) list.set_intros(2))
  moreover have "sched_inv s (\<lambda>_. False) st1" using sched_inv_visited [OF vis Cons.prems(4)] Cons.prems(3) by simp
  moreover have "I st1" using assms(6) [OF v(1) Cons.prems(4,5)] .
  ultimately show ?case using Cons.IH [OF v(2)] Cons.prems(2) by simp
qed simp

text \<open>
  The loop ends, whatever the dispatcher answers, in a state the last scan left alone; what visits and
  barriers keep holds there.
\<close>

definition at_rest :: "Scheduler \<Rightarrow> (nat \<Rightarrow> Dispatch) \<Rightarrow> RunState \<Rightarrow> bool" where
  "at_rest s d st = (sched_inv s (\<lambda>_. False) st \<and> in_flight st = bm_empty \<and> \<not> progressed st
     \<and> (\<exists>k. \<forall>i \<in> set (run_order st). visit s (d k) i st = Ok st))"

lemma run_loop_ends:
  assumes cfg: "configured s" and hooks: "\<And>k. hooks_return (d k)" and timing: "\<And>k xs. set (timing k xs) = set xs"
    and keeps: "\<And>st. I st \<Longrightarrow> I (start_scan st)"
      "\<And>k i st st'. visit s (d k) i st = Ok st' \<Longrightarrow> sched_inv s (\<lambda>_. False) st \<Longrightarrow> I st \<Longrightarrow> I st'"
      "\<And>k st st'. finish_wave (d k) (timing k) st = Ok st' \<Longrightarrow> sched_inv s (\<lambda>_. False) st \<Longrightarrow> I st \<Longrightarrow> I st'"
    and st: "sched_inv s (\<lambda>_. False) st" "I st" "idle_state st"
  shows "\<exists>st'. run_loop s d timing k st = Some (Ok st') \<and> I st' \<and> at_rest s d st'"
  using wf_measures [of "todo s"] st
proof (induction st arbitrary: k rule: wf_induct_rule)
  case (less st)
  note inv = less.prems(1)
  let ?st = "start_scan st"
  have ids: "distinct (run_order st)" using graph_invD(1) [OF sched_invD(1) [OF inv]] .
  have inv0: "sched_inv s (\<lambda>_. False) ?st" using sched_inv_clear(2) [OF inv] .
  obtain st1 where scan: "scan s (d k) (run_order st) ?st = Ok st1"
    using scan_defined [OF configuredD(1) [OF cfg] inv0 hooks] ids by auto
  have inv1: "sched_inv s (\<lambda>_. False) st1"
    using scheduling.steps_inv [OF inv0 scan_steps [OF scan]] ids by simp
  have f1: "I st1"
    using scan_keeps [where I = I, OF scan ids _ inv0 keeps(1) [OF less.prems(2)] keeps(2)] by simp
  have g: "grown ?st st1" using scan_grown [OF scan] .
  have smaller: "(st2, ?st) \<in> measures (todo s) \<Longrightarrow> (st2, st) \<in> measures (todo s)" for st2 by (simp add: todo_def)
  have body: "run_loop s d timing k st =
      (if idle_state st1 then if progressed st1 then run_loop s d timing (k + 1) st1 else Some (Ok st1)
       else (case finish_wave (d k) (timing k) st1 of
               Panic \<Rightarrow> Some Panic | Err e \<Rightarrow> Some (Err e) | Ok st2 \<Rightarrow> run_loop s d timing (k + 1) st2))"
    by (subst run_loop.simps) (simp add: scan idle_state_def bm_is_empty_iff)
  consider (quiet) "idle_state st1" "\<not> progressed st1" | (again) "idle_state st1" "progressed st1" | (wave) "\<not> idle_state st1" by blast
  then show ?case
  proof cases
    case quiet
    have "st1 = ?st" "\<forall>i \<in> set (run_order st). visit s (d k) i ?st = Ok ?st"
      using scan_quiet [OF scan quiet(2)] by auto
    then have "at_rest s d st1" using inv1 quiet by (auto simp: at_rest_def idle_state_def)
    then show ?thesis using body quiet f1 by simp
  next
    case again
    have "(st1, ?st) \<in> measures (todo s)"
      by (rule iteration_smaller [OF inv1 g]) (use again in auto)
    from less.IH [OF smaller [OF this] inv1 f1 again(1)] show ?thesis using body again by simp
  next
    case wave
    obtain st2 where w: "finish_wave (d k) (timing k) st1 = Ok st2"
      using finish_wave_defined [OF inv1 hooks [of k], of "timing k"] timing by blast
    note W = finish_wave_inv [OF w inv1]
    have "progressed st1"
    proof (rule ccontr)
      assume "\<not> progressed st1"
      then have "st1 = ?st" using scan_quiet [OF scan] by simp
      then show False using wave less.prems(3) by (simp add: idle_state_def)
    qed
    have "(st2, ?st) \<in> measures (todo s)"
    proof (rule iteration_smaller [OF _ g _ \<open>progressed st1\<close>])
      have "dom (bm_get (in_flight st1)) \<union> dom (bm_get (coordinated st1)) \<noteq> {}"
        using wave by (auto simp: idle_state_def intro!: bm_eqI)
      moreover have "dom (bm_get (outcomes st1)) \<inter> (dom (bm_get (in_flight st1)) \<union> dom (bm_get (coordinated st1))) = {}"
        using jobs_invD(3,6) [OF sched_invD(2) [OF inv1]] by fastforce
      ultimately show "dom (bm_get (outcomes st1)) \<noteq> dom (bm_get (outcomes st2))" using W by blast
    qed (use W in auto)
    then show ?thesis using less.IH [OF smaller] W keeps(3) [OF w inv1 f1] body wave w by simp
  qed
qed

definition returns_resolved :: "Scheduler \<Rightarrow> (string, RunState) res option \<Rightarrow> bool" where
  "returns_resolved s r = (\<exists>st. r = Some (Ok st) \<and> dom (bm_get (nodes (sc_plan s))) \<subseteq> dom (bm_get (outcomes st)))"

lemma run_loop_returns:
  assumes cfg: "configured s" and hooks: "\<And>k. hooks_return (d k)" and timing: "\<And>k xs. set (timing k xs) = set xs"
    and first: "\<And>k n. node_id n \<in> first s \<Longrightarrow> \<not> coordinates_owned_children (d k) n"
    and st: "sched_inv s (\<lambda>_. False) st" "first_inv s st" "idle_state st"
  shows "returns_resolved s (run_loop s d timing k st)"
proof -
  have "\<exists>st'. run_loop s d timing k st = Some (Ok st') \<and> first_inv s st' \<and> at_rest s d st'"
    using cfg hooks timing
  proof (rule run_loop_ends [where I = "first_inv s", OF _ _ _ _ _ _ st])
    show "first_inv s st'" if "visit s (d k) i st = Ok st'" "sched_inv s (\<lambda>_. False) st" "first_inv s st" for k i st st'
      using first_visited [OF visit_visited [OF that(1)] sched_invD(1) [OF that(2)] that(3) first] .
    show "first_inv s st'" if "finish_wave (d k) (timing k) st = Ok st'" "sched_inv s (\<lambda>_. False) st" "first_inv s st" for k st st'
      using finish_wave_inv [OF that(1,2)] that(3) by (simp add: first_inv_def)
  qed (simp_all add: first_inv_def)
  then obtain st' k' where r: "run_loop s d timing k st = Some (Ok st')" "first_inv s st'" "sched_inv s (\<lambda>_. False) st'"
    "in_flight st' = bm_empty" "\<not> progressed st'" "\<And>i. i \<in> set (run_order st') \<Longrightarrow> visit s (d k') i st' = Ok st'"
    by (auto simp: at_rest_def)
  have "dom (bm_get (outcomes st')) = dom (bm_get (run_nodes st'))" using quiet_resolved [OF cfg r(3,2,4,5)] r(6) .
  then show ?thesis
    using graph_invD(4) [OF sched_invD(1) [OF r(3)]] r(1) by (auto simp: returns_resolved_def)
qed

subsection \<open>A first node that coordinates children\<close>

text \<open>
  The owner waits for a child that is not among the first nodes, and the child waits for the owner.
  Until the owner has registered its children, no other node has registered any.
\<close>

definition unresolved :: "RunState \<Rightarrow> string \<Rightarrow> bool" where
  "unresolved st k = (bm_get (outcomes st) k = None \<and> bm_get (in_flight st) k = None \<and> bm_get (coordinated st) k = None)"

definition deadlocked :: "Scheduler \<Rightarrow> string \<Rightarrow> RunState \<Rightarrow> bool" where
  "deadlocked s f st =
     (unresolved st f \<and>
      (case bm_get (owners st) f of
         None \<Rightarrow> run_nodes st = nodes (sc_plan s)
       | Some (_, cs) \<Rightarrow> \<exists>c \<in> set cs. c \<notin> first s \<and> c \<noteq> f \<and> unresolved st c \<and> bm_get (owners st) c = None))"

lemma unresolved_effects:
  assumes "k \<noteq> i"
  shows "unresolved (suppress i reason st) k = unresolved st k" "unresolved (fail_node i error cls st) k = unresolved st k"
    "unresolved (coordinate i r st) k = unresolved st k"
    "unresolved (st\<lparr>in_flight := bm_insert i job (in_flight st), progressed := True\<rparr>) k = unresolved st k"
  using assms by (simp_all add: unresolved_def visit_effects)

text \<open>What the dispatcher answers for the coordinating node: it is dispatched, and its children are valid.\<close>

definition always_expands :: "Scheduler \<Rightarrow> Dispatch \<Rightarrow> Node \<Rightarrow> bool" where
  "always_expands s d n =
     (coordinates_owned_children d n \<and> (\<forall>inputs. record_invocation d n inputs = Ok ()) \<and>
      (node_kind n = Task \<longrightarrow> list_all pc_optional (node_inputs n) \<and> (\<forall>inputs. task_node_selected d n inputs = Ok True)) \<and>
      (\<forall>inputs. \<exists>children. expand_owned_children d n inputs = Ok children \<and> children \<noteq> [] \<and>
         validate_owned_expansion n children (nodes (sc_plan s)) = Ok ()))"

lemma no_inputs_missing:
  "list_all pc_optional ps \<Longrightarrow> (\<And>p. p \<in> set ps \<Longrightarrow> bm_get m (pc_name p) = Some []) \<Longrightarrow> inputs_missing ps m = Ok False"
  by (induction ps) auto

lemma owner_registers:
  assumes cfg: "configured s" and f: "f \<in> first s" "bm_get (nodes (sc_plan s)) f = Some n" and e: "always_expands s d n"
    and inv: "sched_inv s req st" and lock: "unresolved st f" "bm_get (owners st) f = None" "run_nodes st = nodes (sc_plan s)"
    and v: "visit s d f st = Ok st'"
  shows "\<exists>inputs limit children. children \<noteq> [] \<and> expansion_valid n (nodes (sc_plan s)) {} children \<and>
    register_children f inputs limit children st = Ok st'"
proof -
  note g = sched_invD(1) [OF inv]
  have own: "\<not> bm_contains (child_inputs st) f" "dependencies s st f = []"
    using graph_invD(5) [OF g] f(2) configuredD(4) [OF cfg f(1)] by (auto simp: dependencies_def)
  let ?base = "bm_of_list (map (\<lambda>p. (pc_name p, [] :: string list)) (node_inputs n))"
  have base: "resolve_inputs n f [] st = Ok ?base"
    using own(1) by (auto simp: resolve_inputs_def domIff split: option.splits)
  have "visit s d f st = select_branch d True f n ?base st"
    using lock f e own base by (simp add: visit_def visit_node_eq unresolved_def domIff always_expands_def)
  also have "\<dots> = launch d True f n (arrange n ?base) st"
  proof (cases "node_kind n = Task")
    case True
    have "inputs_missing (node_inputs n) ?base = Ok False"
      using e True by (intro no_inputs_missing) (auto simp: always_expands_def bm_get_ports)
    then show ?thesis using e True by (simp add: select_branch_def always_expands_def arrange_def)
  qed (simp add: select_branch_def arrange_def)
  finally have "expand_owner d f n (arrange n ?base) st = Ok st'"
    using v e by (simp add: launch_def always_expands_def)
  moreover obtain children where c: "expand_owned_children d n (arrange n ?base) = Ok children" "children \<noteq> []"
    "validate_owned_expansion n children (nodes (sc_plan s)) = Ok ()"
    using e unfolding always_expands_def by blast
  ultimately show ?thesis
    using lock(3) by (auto simp: expand_owner_def validate_owned_expansion_def split: if_splits)
qed

lemma deadlocked_registered:
  assumes cfg: "configured s" and f: "bm_get (nodes (sc_plan s)) f = Some n"
    and inv: "sched_inv s req st" and lock: "unresolved st f" "run_nodes st = nodes (sc_plan s)"
    and reg: "children \<noteq> []" "expansion_valid n (nodes (sc_plan s)) {} children" "register_children f inputs limit children st = Ok st'"
  shows "deadlocked s f st'"
proof -
  note g = sched_invD(1,2) [OF inv]
  obtain c where c: "c \<in> set children" using reg(1) by (cases children) auto
  let ?c = "node_id (oc_node c)"
  have new: "bm_get (nodes (sc_plan s)) ?c = None"
    using reg(2) c well_formed_child(1) by (auto simp: expansion_valid_iff)
  then have "?c \<notin> first s" "?c \<noteq> f" using configuredD(4) [OF cfg] f by auto
  moreover have "unresolved st ?c"
  proof -
    have out: "?c \<notin> dom (bm_get (run_nodes st))" using new lock(2) by auto
    then have "?c \<notin> dom (bm_get (outcomes st))" "?c \<notin> dom (bm_get (coordinated st))"
      using jobs_invD(1) [OF g(2)] jobs_invD(5) [OF g(2), of ?c] by blast+
    moreover have "bm_get (in_flight st) ?c = None"
      using out jobs_invD(2) [OF g(2), of ?c] by (cases "bm_get (in_flight st) ?c") auto
    ultimately show ?thesis by (simp add: unresolved_def domIff)
  qed
  moreover have "bm_get (owners st) ?c = None"
    using graph_invD(7) [OF g(1), of ?c] new by (cases "bm_get (owners st) ?c") auto
  ultimately show ?thesis
    using reg(3) c lock(1) by (auto simp: deadlocked_def register_children_Ok unresolved_def intro!: bexI [of _ c])
qed

lemma deadlocked_visit:
  assumes cfg: "configured s" and f: "f \<in> first s" "bm_get (nodes (sc_plan s)) f = Some n" and e: "always_expands s d n"
    and alone: "\<And>m. node_id m \<in> first s \<Longrightarrow> node_id m \<noteq> f \<Longrightarrow> \<not> coordinates_owned_children d m"
    and v: "visit s d i st = Ok st'" and inv: "sched_inv s req st" and lock: "deadlocked s f st"
  shows "deadlocked s f st'"
proof (cases "i = f \<and> bm_get (owners st) f = None")
  case True
  then show ?thesis
    using owner_registers [OF cfg f e inv] deadlocked_registered [OF cfg f(2) inv] v lock by (force simp: deadlocked_def)
next
  case False
  note g = sched_invD(1) [OF inv]
  have fo: "bm_get (outcomes st) f = None" using lock by (simp add: deadlocked_def unresolved_def)
  have still: "st' = st" if "k = i" "k \<notin> first s" "bm_get (owners st) k = None" for k
    using v that f(1) fo graph_invD(2) [OF g]
    by (auto simp: visit_def domIff and_then_eq_Ok split: if_splits)
  have owner: "st' = st" if i: "i = f"
  proof -
    obtain ins cs c where "bm_get (owners st) f = Some (ins, cs)" "c \<in> set cs" "bm_get (outcomes st) c = None"
      using lock False i by (cases "bm_get (owners st) f") (auto simp: deadlocked_def unresolved_def)
    then show ?thesis using v i by (auto simp: visit_def visit_owner_def and_then_eq_Ok list_all_iff domIff split: if_splits)
  qed
  have none: False if "open_node st i m" "released s st i" "coordinates_owned_children d m" "i \<noteq> f" for m
    using that alone [of m] graph_invD(3) [OF g, of i m] f(1) fo by (auto simp: released_def open_node_def)
  show ?thesis
  proof (cases "i = f \<or> i \<notin> first s \<and> bm_get (owners st) i = None")
    case True
    then show ?thesis using owner still lock by metis
  next
    case go: False
    have frame: "run_nodes st' = run_nodes st \<and> owners st' = owners st \<and> (\<forall>k. k \<noteq> i \<longrightarrow> unresolved st' k = unresolved st k)"
      using visit_visited [OF v]
    proof (cases rule: visited.cases)
      case (registered m cs inputs limit)
      then show ?thesis using none go by blast
    qed (simp_all add: unresolved_effects, simp_all add: visit_effects)
    have "c \<noteq> i" if "c \<notin> first s" "bm_get (owners st) c = None" for c using that go by auto
    then show ?thesis using lock frame go unfolding deadlocked_def by (auto split: option.splits)
  qed
qed

lemma deadlocked_wave:
  assumes "finish_wave d arrival st = Ok st'" "sched_inv s req st" "deadlocked s f st"
  shows "deadlocked s f st'"
proof -
  note W = finish_wave_inv [OF assms(1,2)]
  have "unresolved st' k" if "unresolved st k" for k
  proof -
    have "k \<notin> dom (bm_get (outcomes st'))" using W that unfolding unresolved_def by blast
    then have "bm_get (outcomes st') k = None" by (simp add: domIff)
    then show ?thesis using W by (simp add: unresolved_def idle_state_def)
  qed
  then show ?thesis using assms(3) W unfolding deadlocked_def by (auto split: option.splits)
qed

lemma coordinating_first_unresolved:
  assumes cfg: "configured s" and hooks: "\<And>k. hooks_return (d k)" and timing: "\<And>k xs. set (timing k xs) = set xs"
    and f: "f \<in> first s" "bm_get (nodes (sc_plan s)) f = Some n" and e: "\<And>k. always_expands s (d k) n"
    and alone: "\<And>k m. node_id m \<in> first s \<Longrightarrow> node_id m \<noteq> f \<Longrightarrow> \<not> coordinates_owned_children (d k) m"
  shows "\<exists>st. run_loop s d timing 0 (initial_state s) = Some (Ok st) \<and> bm_get (outcomes st) f = None"
proof -
  have "\<exists>st. run_loop s d timing 0 (initial_state s) = Some (Ok st) \<and> deadlocked s f st \<and> at_rest s d st"
    using cfg hooks timing
  proof (rule run_loop_ends [where I = "deadlocked s f"])
    show "sched_inv s (\<lambda>_. False) (initial_state s)" by (rule initial_inv [OF configuredD(1) [OF cfg]])
    show "deadlocked s f (initial_state s)" "idle_state (initial_state s)"
      by (simp_all add: deadlocked_def unresolved_def initial_state_def idle_state_def)
    show "deadlocked s f (start_scan st)" if "deadlocked s f st" for st
      using that by (auto simp: deadlocked_def unresolved_def split: option.splits)
  qed (use deadlocked_visit [OF cfg f e alone] deadlocked_wave in blast)+
  then show ?thesis by (auto simp: deadlocked_def unresolved_def)
qed

subsection \<open>The arrival order has no effect\<close>

lemma finish_wave_order:
  assumes inv: "sched_inv s req st" and a: "\<And>xs. set (arrival xs) = set xs" "\<And>xs. set (arrival' xs) = set xs"
  shows "finish_wave d arrival st = finish_wave d arrival' st"
proof -
  note g = sched_invD(1,2) [OF inv]
  have jobs: "node_id (fst job) = k" if "bm_get (in_flight st) k = Some job" for k job
    using that jobs_invD(2) [OF g(2), of k "fst job" "snd job"] graph_invD(3) [OF g(1)] by simp
  have "receive d (arrival (bm_keys (in_flight st))) (in_flight st) (coordinated st)
      = receive d (arrival' (bm_keys (in_flight st))) (in_flight st) (coordinated st)"
    by (rule receive_order [OF jobs]) (simp_all add: a)
  then show ?thesis by (simp add: finish_wave_def)
qed

definition loop_agrees ::
  "(nat \<Rightarrow> string list \<Rightarrow> string list) \<Rightarrow> Scheduler \<Rightarrow> (nat \<Rightarrow> Dispatch) \<Rightarrow> (nat \<Rightarrow> string list \<Rightarrow> string list)
     \<Rightarrow> nat \<Rightarrow> RunState \<Rightarrow> (string, RunState) res \<Rightarrow> bool" where
  "loop_agrees timing' s d timing k st r = (sched_inv s (\<lambda>_. False) st \<longrightarrow> (\<forall>k xs. set (timing k xs) = set xs)
     \<longrightarrow> (\<forall>k xs. set (timing' k xs) = set xs) \<longrightarrow> run_loop s d timing' k st = Some r)"

lemma loop_agrees_body:
  assumes IH: "\<And>s d timing k st r. loop s d timing k st = Some r \<Longrightarrow> loop_agrees timing' s d timing k st r"
    and body: "(case scan s (d k) (run_order st) (start_scan st) of
        Panic \<Rightarrow> Some Panic
      | Err e \<Rightarrow> Some (Err e)
      | Ok st1 \<Rightarrow>
          if bm_is_empty (in_flight st1) \<and> bm_is_empty (coordinated st1)
          then if progressed st1 then loop s d timing (k + 1) st1 else Some (Ok st1)
          else (case finish_wave (d k) (timing k) st1 of
                  Panic \<Rightarrow> Some Panic
                | Err e \<Rightarrow> Some (Err e)
                | Ok st2 \<Rightarrow> loop s d timing (k + 1) st2)) = Some r"
  shows "loop_agrees timing' s d timing k st r"
  unfolding loop_agrees_def
proof (intro impI)
  assume inv: "sched_inv s (\<lambda>_. False) st" and t: "\<forall>k xs. set (timing k xs) = set xs" "\<forall>k xs. set (timing' k xs) = set xs"
  have IH': "sched_inv s (\<lambda>_. False) st' \<Longrightarrow> loop s d timing k' st' = Some r \<Longrightarrow> run_loop s d timing' k' st' = Some r" for k' st'
    using IH t by (auto simp: loop_agrees_def)
  show "run_loop s d timing' k st = Some r"
  proof (cases "scan s (d k) (run_order st) (start_scan st)")
    case (Ok st1)
    have inv1: "sched_inv s (\<lambda>_. False) st1"
      using scheduling.steps_inv [OF sched_inv_clear(2) [OF inv] scan_steps [OF Ok]] graph_invD(1) [OF sched_invD(1) [OF inv]] by simp
    have "finish_wave (d k) (timing' k) st1 = finish_wave (d k) (timing k) st1"
      using finish_wave_order [OF inv1] t by blast
    moreover have "sched_inv s (\<lambda>_. False) st2" if "finish_wave (d k) (timing k) st1 = Ok st2" for st2
      using finish_wave_inv [OF that inv1] by blast
    ultimately show ?thesis
      using body IH' inv1 by (subst run_loop.simps) (auto simp: Ok split: if_splits res.splits)
  next
    case (Err e)
    then have "r = Err e" using body by simp
    then show ?thesis by (subst run_loop.simps) (simp add: Err)
  next
    case Panic
    then show ?thesis using body by (subst run_loop.simps) simp
  qed
qed

lemma run_loop_agrees:
  assumes "sched_inv s (\<lambda>_. False) st" "\<forall>k xs. set (timing k xs) = set xs" "\<forall>k xs. set (timing' k xs) = set xs"
  shows "run_loop s d timing k st = run_loop s d timing' k st"
proof -
  have "loop_agrees t' s d t k st r" if "run_loop s d t k st = Some r" for t t' r
    using that by (rule run_loop.raw_induct [where P = "loop_agrees t'", rotated]) (rule loop_agrees_body, assumption+)
  then have "run_loop s d timing k st = Some r \<longleftrightarrow> run_loop s d timing' k st = Some r" for r
    using assms unfolding loop_agrees_def by blast
  then show ?thesis by (metis option.exhaust)
qed

subsection \<open>The report\<close>

lemma report_entries_Ok:
  "distinct ids \<Longrightarrow> report_entries ids m = Ok es \<longleftrightarrow>
     set ids \<subseteq> dom (bm_get m) \<and> es = map (\<lambda>i. (i, the (bm_get m i))) ids"
proof (induction ids arbitrary: m es)
  case (Cons i ids)
  have "set ids \<subseteq> dom (bm_get (bm_remove i m)) \<longleftrightarrow> set ids \<subseteq> dom (bm_get m)" using Cons.prems by auto
  moreover have "map (\<lambda>j. (j, the (bm_get (bm_remove i m) j))) ids = map (\<lambda>j. (j, the (bm_get m j))) ids"
    using Cons.prems by auto
  ultimately show ?case
    using Cons.prems by (cases "bm_get m i") (auto simp: and_then_eq_Ok Cons.IH simp del: bm_get_remove)
qed auto

lemma run_Ok:
  assumes "is_plan (sc_plan s)"
  shows "run s d timing = Some (Ok rep) \<longleftrightarrow>
    (\<exists>st. run_loop s d timing 0 (initial_state s) = Some (Ok st)
      \<and> dom (bm_get (nodes (sc_plan s))) \<subseteq> dom (bm_get (outcomes st))
      \<and> rep = \<lparr>rr_outcomes = map (\<lambda>i. (i, the (bm_get (outcomes st) i))) (order (sc_plan s)), blocked_gates = {}\<rparr>)"
  unfolding run_def
  by (auto simp: and_then_eq_Ok report_entries_Ok [OF planned.order_distinct [OF assms]] planned.order_nodes [OF assms])

lemma report_entries_missing: "i \<in> set ids \<Longrightarrow> bm_get m i = None \<Longrightarrow> report_entries ids m = Panic"
proof (induction ids arbitrary: m)
  case (Cons j ids)
  then show ?case by (cases "bm_get m j") auto
qed simp

lemma find_map_pair: "List.find (\<lambda>(i, _). i = k) (map (\<lambda>i. (i, f i)) ids) = (if k \<in> set ids then Some (k, f k) else None)"
  by (induction ids) auto

lemma report_outcome_run:
  assumes "is_plan (sc_plan s)" "run s d timing = Some (Ok rep)" "\<forall>i n. req n \<longrightarrow> requires_successful_predecessors (d i) n"
  obtains st where "sched_inv s req st" "\<And>k. k \<in> dom (bm_get (nodes (sc_plan s))) \<Longrightarrow> report_outcome rep k = bm_get (outcomes st) k"
    "dom (bm_get (nodes (sc_plan s))) \<subseteq> dom (bm_get (outcomes st))"
proof -
  obtain st where st: "run_loop s d timing 0 (initial_state s) = Some (Ok st)"
    "dom (bm_get (nodes (sc_plan s))) \<subseteq> dom (bm_get (outcomes st))"
    "rep = \<lparr>rr_outcomes = map (\<lambda>i. (i, the (bm_get (outcomes st) i))) (order (sc_plan s)), blocked_gates = {}\<rparr>"
    using assms(2) unfolding run_Ok [OF assms(1)] by blast
  have "(sched_step s req)\<^sup>*\<^sup>* (initial_state s) st"
    using loop_stepsD [OF run_loop_steps [OF st(1)] refl initial_inv [OF assms(1)] assms(3)] .
  then have "sched_inv s req st" by (rule scheduling.steps_inv [OF initial_inv [OF assms(1)]])
  moreover have "report_outcome rep k = bm_get (outcomes st) k" if "k \<in> dom (bm_get (nodes (sc_plan s)))" for k
    using that st(2) by (auto simp: report_outcome_def st(3) find_map_pair planned.order_nodes [OF assms(1)])
  ultimately show thesis using st(2) that by blast
qed

end
