(* ===== verification/ScheduleProperties.thy ===== *)
theory ScheduleProperties
  imports ScheduleRun "HOL-Library.Multiset"
begin

text \<open>
  Properties of the scheduler: a run on a planned pipeline returns a report of every node while no
  first node coordinates children, and panics when one does; the report does not depend on the
  order in which workers finish; suppression is exactly a missing upstream or a missing first node; the concurrency
  bounds hold in every reachable state and workers receive exactly what their edges deliver.
\<close>

subsection \<open>Samples\<close>

definition sample_run :: "Node \<Rightarrow> ArtifactMap \<Rightarrow> (string, ArtifactMap) res" where
  "sample_run n inputs = Ok (bm_of_list (map (\<lambda>p. (pc_name p, [node_id n @ ''-artifact''])) (node_outputs n)))"

definition sample_dispatch :: "nat \<Rightarrow> Dispatch" where
  "sample_dispatch k = default_dispatch sample_run"

text \<open>A dispatcher under which the reviewer's worker panics.\<close>

definition failing_dispatch :: "nat \<Rightarrow> Dispatch" where
  "failing_dispatch k = default_dispatch (\<lambda>n inputs. if node_id n = ''reviewer'' then Panic else sample_run n inputs)"

definition sample_scheduler :: Scheduler where
  "sample_scheduler = (new_scheduler sample_plan 2)\<lparr>first := {''tests''}\<rparr>"

definition sample_report :: RunReport where
  "sample_report = \<lparr>rr_outcomes = [(''tests'', Completed bm_empty),
     (''reviewer'', Completed (bm_of_list [(''report'', [''reviewer-artifact''])])), (''ledger'', Completed bm_empty)],
     blocked_gates = {}\<rparr>"

definition failing_report :: RunReport where
  "failing_report = \<lparr>rr_outcomes = [(''tests'', Completed bm_empty),
     (''reviewer'', Failed ''dispatch panicked for node reviewer'' None), (''ledger'', Suppressed UpstreamMissing)],
     blocked_gates = {}\<rparr>"

lemma sample_is_plan: "is_plan sample_plan"
  unfolding is_plan_def using sample_planned by blast

lemma sample_configured: "configured sample_scheduler"
proof -
  have "with_first (new_scheduler sample_plan 2) {''tests''} = Ok sample_scheduler" by code_simp
  then show ?thesis using configured.first_nodes configured.new [OF sample_is_plan] by blast
qed

lemma sample_runs: "run sample_scheduler sample_dispatch (\<lambda>_ xs. xs) = Some (Ok sample_report)"
  by code_simp

lemma failing_runs: "run sample_scheduler failing_dispatch (\<lambda>_ xs. rev xs) = Some (Ok failing_report)"
  by code_simp

lemma default_hooks: "hooks_return (default_dispatch r)"
  by (simp add: hooks_return_def default_dispatch_def)

text \<open>The first worker has been spawned.\<close>

definition sample_running :: RunState where
  "sample_running = (start_scan (initial_state sample_scheduler))\<lparr>
     in_flight := bm_insert ''tests'' (new_graph_node ''tests'' Gate, bm_empty) bm_empty, progressed := True\<rparr>"

lemma sample_visit:
  "visit sample_scheduler (sample_dispatch 0) ''tests'' (start_scan (initial_state sample_scheduler)) = Ok sample_running"
  by code_simp

lemma sample_reached: "reach (starts_run sample_scheduler) (sched_step sample_scheduler (\<lambda>_. False)) sample_running"
proof -
  have "starts_run sample_scheduler (initial_state sample_scheduler)"
    using configuredD(1) [OF sample_configured] by (simp add: starts_run_def)
  then have "reach (starts_run sample_scheduler) (sched_step sample_scheduler (\<lambda>_. False)) (initial_state sample_scheduler)"
    by (rule reach_init)
  then have "reach (starts_run sample_scheduler) (sched_step sample_scheduler (\<lambda>_. False)) (start_scan (initial_state sample_scheduler))"
    by (rule reach_step) (rule begin_scan)
  then show ?thesis
    by (rule reach_step) (rule visit_one [OF sample_visit], simp_all)
qed

lemma sample_ledger:
  "bm_get (nodes (sc_plan sample_scheduler)) ''ledger'' =
     Some (accepting_contracts (new_graph_node ''ledger'' Ledger) [sample_contract ''reports''])"
  by code_simp

lemma sample_ledger_edges:
  "dependencies_of (sc_plan sample_scheduler) ''ledger'' =
     [\<lparr>edge_from = new_port ''reviewer'' ''report'', edge_to = new_port ''ledger'' ''reports''\<rparr>]"
  by code_simp

lemma sample_first: "first sample_scheduler = {''tests''}" "{''tests''} \<subseteq> dom (bm_get (nodes (sc_plan sample_scheduler)))"
proof -
  show "first sample_scheduler = {''tests''}" by (simp add: sample_scheduler_def)
  then show "{''tests''} \<subseteq> dom (bm_get (nodes (sc_plan sample_scheduler)))"
    using configuredD(4) [OF sample_configured] by simp
qed

text \<open>Whole scans and rounds of the sample run stay within the reachable states.\<close>

definition after_scan :: "RunState \<Rightarrow> RunState" where
  "after_scan st = (case scan sample_scheduler (sample_dispatch 0) (run_order st) (start_scan st) of Ok st' \<Rightarrow> st' | _ \<Rightarrow> st)"

definition after_round :: "RunState \<Rightarrow> RunState" where
  "after_round st = (case finish_wave (sample_dispatch 0) (\<lambda>xs. xs) (after_scan st) of Ok st' \<Rightarrow> st' | _ \<Rightarrow> after_scan st)"

abbreviation sample_reach :: "RunState \<Rightarrow> bool" where
  "sample_reach \<equiv> reach (starts_run sample_scheduler) (sched_step sample_scheduler (\<lambda>_. False))"

lemma reach_steps: "step\<^sup>*\<^sup>* st st' \<Longrightarrow> reach init step st \<Longrightarrow> reach init step st'"
  by (induction rule: rtranclp_induct) (auto intro: reach_step)

lemma reach_after_scan:
  assumes "sample_reach st"
  shows "sample_reach (after_scan st)"
proof (cases "scan sample_scheduler (sample_dispatch 0) (run_order st) (start_scan st)")
  case (Ok st')
  have "(sched_step sample_scheduler (\<lambda>_. False))\<^sup>*\<^sup>* (start_scan st) st'"
    using scan_steps [OF Ok] graph_invD(1) [OF sched_invD(1) [OF scheduling.reach_inv [OF assms]]] by simp
  moreover have "sample_reach (start_scan st)" using assms by (rule reach_step) (rule begin_scan)
  ultimately show ?thesis using reach_steps by (simp add: after_scan_def Ok)
qed (use assms in \<open>simp_all add: after_scan_def\<close>)

lemma reach_after_round:
  assumes "sample_reach st"
  shows "sample_reach (after_round st)"
proof (cases "finish_wave (sample_dispatch 0) (\<lambda>xs. xs) (after_scan st)")
  case (Ok st')
  have "sample_reach st'" using reach_after_scan [OF assms] by (rule reach_step) (rule end_wave [OF Ok])
  then show ?thesis by (simp add: after_round_def Ok)
qed (use reach_after_scan [OF assms] in \<open>simp_all add: after_round_def\<close>)

text \<open>After two rounds the ledger node runs on the reviewer's artifact.\<close>

definition sample_last_scan :: RunState where
  "sample_last_scan = after_scan (after_round (after_round (initial_state sample_scheduler)))"

definition sample_ledger_node :: Node where
  "sample_ledger_node = accepting_contracts (new_graph_node ''ledger'' Ledger) [sample_contract ''reports'']"

definition sample_ledger_inputs :: ArtifactMap where
  "sample_ledger_inputs = bm_of_list [(''reports'', [''reviewer-artifact''])]"

lemma sample_last_reached: "sample_reach sample_last_scan"
proof -
  have "sample_reach (initial_state sample_scheduler)"
    using configuredD(1) [OF sample_configured] by (intro reach_init) (simp add: starts_run_def)
  then show ?thesis unfolding sample_last_scan_def by (intro reach_after_scan reach_after_round)
qed

lemma sample_ledger_runs:
  "bm_get (in_flight sample_last_scan) ''ledger'' = Some (sample_ledger_node, sample_ledger_inputs)"
  by code_simp

text \<open>A dispatcher under which the node that runs first fails.\<close>

definition refusing_dispatch :: "nat \<Rightarrow> Dispatch" where
  "refusing_dispatch k = default_dispatch (\<lambda>n inputs. if node_id n = ''tests'' then Err ''refused'' else sample_run n inputs)"

definition refused_report :: RunReport where
  "refused_report = \<lparr>rr_outcomes = [(''tests'', Failed ''refused'' None),
     (''reviewer'', Suppressed UpstreamMissing), (''ledger'', Suppressed UpstreamMissing)], blocked_gates = {}\<rparr>"

lemma refused_runs: "run sample_scheduler refusing_dispatch (\<lambda>_ xs. xs) = Some (Ok refused_report)"
  by code_simp

text \<open>A dispatcher that lets the node that runs first coordinate a child.\<close>

definition coordinating_dispatch :: "nat \<Rightarrow> Dispatch" where
  "coordinating_dispatch k = (default_dispatch sample_run)\<lparr>
     coordinates_owned_children := (\<lambda>n. node_id n = ''tests''),
     expand_owned_children := (\<lambda>_ _. Ok [\<lparr>oc_node = new_graph_node ''tests.a'' Task, oc_inputs = bm_empty\<rparr>]),
     complete_owned_children := (\<lambda>_ _ _. Ok bm_empty)\<rparr>"

subsection \<open>Completed or lost\<close>

lemma lost_iff: "j \<in> dom (bm_get (outcomes st)) \<Longrightarrow> lost st j \<longleftrightarrow> \<not> completed st j"
  by (auto simp: lost_def completed_def elim: is_completed.elims)

lemma not_lost: "completed st j \<Longrightarrow> \<not> lost st j"
  by (auto simp: lost_def completed_def)

lemma validate_outputs_Ok:
  assumes "validate_outputs n produced = Ok ()"
  shows "dom (bm_get produced) \<subseteq> pc_name ` set (node_outputs n)
    \<and> (\<forall>p \<in> set (node_outputs n). (pc_optional p \<or> (\<exists>x xs. bm_get produced (pc_name p) = Some (x # xs)))
         \<and> (pc_cardinality p = One \<longrightarrow> (\<forall>xs. bm_get produced (pc_name p) = Some xs \<longrightarrow> length xs \<le> 1)))"
proof -
  let ?count = "\<lambda>p. case bm_get produced (pc_name p) of None \<Rightarrow> 0 | Some xs \<Rightarrow> length xs"
  have names: "\<forall>name \<in> dom (bm_get produced). \<exists>p \<in> set (node_outputs n). pc_name p = name"
    and counts: "\<forall>p \<in> set (node_outputs n). \<not> (\<not> pc_optional p \<and> ?count p = 0) \<and> \<not> (pc_cardinality p = One \<and> 1 < ?count p)"
    using assms by (auto simp: validate_outputs_def and_then_eq_Ok Let_def set_bm_keys list_ex_iff split: if_splits)
  have "(pc_optional p \<or> (\<exists>x xs. bm_get produced (pc_name p) = Some (x # xs)))
      \<and> (pc_cardinality p = One \<longrightarrow> (\<forall>xs. bm_get produced (pc_name p) = Some xs \<longrightarrow> length xs \<le> 1))"
    if "p \<in> set (node_outputs n)" for p
    using counts that by (auto simp: neq_Nil_conv split: option.splits)
  moreover have "dom (bm_get produced) \<subseteq> pc_name ` set (node_outputs n)" using names by (metis imageI subsetI)
  ultimately show ?thesis by simp
qed

subsection \<open>Properties\<close>

text \<open>
  C1: Every run of a configured scheduler returns, whatever the dispatcher answers in any iteration
  (failures, panics of \<open>run\<close>, \<open>expand\<close> and \<open>complete\<close>, any children registered at run time), and its
  report names every planned node exactly once, in plan order. It needs that the hooks called
  outside \<open>catch_unwind\<close> return, that each worker reports once, and that no node that runs first
  coordinates children.
\<close>

theorem run_reports_every_node:
  assumes "configured s" "\<And>k. hooks_return (d k)" "\<And>k xs. mset (timing k xs) = mset xs"
    and "\<And>k n. node_id n \<in> first s \<Longrightarrow> \<not> coordinates_owned_children (d k) n"
  shows "\<exists>rep. run s d timing = Some (Ok rep) \<and> map fst (rr_outcomes rep) = order (sc_plan s)"
proof -
  note plan = configuredD(1) [OF assms(1)]
  have t: "set (timing k xs) = set xs" for k xs using assms(3) by (metis set_mset_mset)
  have start: "first_inv s (initial_state s)" "idle_state (initial_state s)"
    by (simp_all add: first_inv_def idle_state_def initial_state_def)
  have "returns_resolved s (run_loop s d timing 0 (initial_state s))"
    by (rule run_loop_returns [OF assms(1,2) t assms(4) initial_inv [OF plan] start])
  then obtain st where "run_loop s d timing 0 (initial_state s) = Some (Ok st)"
    "dom (bm_get (nodes (sc_plan s))) \<subseteq> dom (bm_get (outcomes st))" by (auto simp: returns_resolved_def)
  then have "run s d timing = Some (Ok \<lparr>rr_outcomes = map (\<lambda>i. (i, the (bm_get (outcomes st) i))) (order (sc_plan s)), blocked_gates = {}\<rparr>)"
    using run_Ok [OF plan] by blast
  then show ?thesis by (auto simp: comp_def)
qed

theorem run_reports_every_node_witness:
  "\<exists>rep. run sample_scheduler failing_dispatch (\<lambda>_ xs. rev xs) = Some (Ok rep)
    \<and> map fst (rr_outcomes rep) = order (sc_plan sample_scheduler)"
proof (rule run_reports_every_node [OF sample_configured])
  show "hooks_return (failing_dispatch k)" for k by (simp add: failing_dispatch_def default_hooks)
  show "\<not> coordinates_owned_children (failing_dispatch k) n" for k n
    by (simp add: failing_dispatch_def default_dispatch_def)
qed simp

text \<open>
  C23: The result of a run, its non-termination and its panics included, does not depend on the order
  in which the workers of a wave report.
\<close>

theorem arrival_order_irrelevant:
  assumes "is_plan (sc_plan s)" "\<And>k xs. mset (timing k xs) = mset xs" "\<And>k xs. mset (timing' k xs) = mset xs"
  shows "run s d timing = run s d timing'"
proof -
  have "set (timing k xs) = set xs" "set (timing' k xs) = set xs" for k xs using assms(2,3) by (metis set_mset_mset)+
  then have "run_loop s d timing 0 (initial_state s) = run_loop s d timing' 0 (initial_state s)"
    by (intro run_loop_agrees [OF initial_inv [OF assms(1)]]) auto
  then show ?thesis by (simp add: run_def)
qed

theorem arrival_order_irrelevant_witness:
  "run sample_scheduler sample_dispatch (\<lambda>_ xs. xs) = run sample_scheduler sample_dispatch (\<lambda>_ xs. rev xs)"
  by (rule arrival_order_irrelevant [OF configuredD(1) [OF sample_configured]]) simp_all

text \<open>
  C18: In every report, a node that is not a Task operator and requires its predecessors is
  suppressed for a missing upstream exactly when one of the nodes it depends on, or one of the
  nodes that run first, did not complete. So nothing downstream of a failure is dispatched, and
  nothing else is suppressed.
\<close>

theorem suppressed_iff_upstream_missing:
  assumes "is_plan (sc_plan s)" "run s d timing = Some (Ok rep)" "bm_get (nodes (sc_plan s)) k = Some n"
    and "node_kind n \<noteq> Task" "\<And>i. requires_successful_predecessors (d i) n"
    and "first s \<subseteq> dom (bm_get (nodes (sc_plan s)))"
  shows "report_outcome rep k = Some (Suppressed UpstreamMissing) \<longleftrightarrow>
    (k \<notin> first s \<and> (\<exists>f \<in> first s. \<forall>produced. report_outcome rep f \<noteq> Some (Completed produced)))
    \<or> (\<exists>e \<in> set (dependencies_of (sc_plan s) k). \<forall>produced. report_outcome rep (port_node (edge_from e)) \<noteq> Some (Completed produced))"
proof -
  let ?q = "sc_plan s"
  obtain st where inv: "sched_inv s (\<lambda>m. m = n) st"
    and rep: "\<And>k. k \<in> dom (bm_get (nodes ?q)) \<Longrightarrow> report_outcome rep k = bm_get (outcomes st) k"
    and all: "dom (bm_get (nodes ?q)) \<subseteq> dom (bm_get (outcomes st))"
    by (rule report_outcome_run [OF assms(1,2), where req = "\<lambda>m. m = n"]) (use assms(5) in auto)
  have k: "k \<in> dom (bm_get (nodes ?q))" using assms(3) by blast
  have lost: "(\<forall>produced. report_outcome rep j \<noteq> Some (Completed produced)) \<longleftrightarrow> lost st j"
    if "j \<in> dom (bm_get (nodes ?q))" for j
    using lost_iff [of j st] that all rep [OF that] by (auto simp: completed_def)
  have verdict: "(started st k \<longrightarrow> may_start s (\<lambda>m. m = n) st k n) \<and> justified s st k n"
    using sched_invD(6) [OF inv] graph_invD(4) [OF sched_invD(1) [OF inv] assms(3)] by (simp add: verdict_inv_def)
  have "report_outcome rep k = Some (Suppressed UpstreamMissing) \<longleftrightarrow>
    (k \<notin> first s \<and> (\<exists>f \<in> first s. lost st f)) \<or> (\<exists>e \<in> set (dependencies_of ?q k). lost st (port_node (edge_from e)))"
  proof
    assume "report_outcome rep k = Some (Suppressed UpstreamMissing)"
    then show "(k \<notin> first s \<and> (\<exists>f \<in> first s. lost st f)) \<or> (\<exists>e \<in> set (dependencies_of ?q k). lost st (port_node (edge_from e)))"
      using verdict assms(4) rep [OF k] by (simp add: justified_def)
  next
    assume "(k \<notin> first s \<and> (\<exists>f \<in> first s. lost st f)) \<or> (\<exists>e \<in> set (dependencies_of ?q k). lost st (port_node (edge_from e)))"
    then have "\<not> may_start s (\<lambda>m. m = n) st k n" using k not_lost unfolding may_start_def by blast
    then have "\<not> started st k" using verdict by blast
    then show "report_outcome rep k = Some (Suppressed UpstreamMissing)"
      using k all rep [OF k] unfolding started_def by (metis domD subsetD)
  qed
  then show ?thesis using lost assms(6) planned.dependency_known [OF assms(1) k] by (metis (no_types, lifting) subsetD)
qed

theorem suppressed_iff_upstream_missing_witness:
  "report_outcome failing_report ''ledger'' = Some (Suppressed UpstreamMissing)
    \<and> (\<forall>produced. report_outcome failing_report ''reviewer'' \<noteq> Some (Completed produced))"
proof -
  have "report_outcome failing_report ''ledger'' = Some (Suppressed UpstreamMissing)
      \<longleftrightarrow> (''ledger'' \<notin> first sample_scheduler
        \<and> (\<exists>f \<in> first sample_scheduler. \<forall>produced. report_outcome failing_report f \<noteq> Some (Completed produced)))
      \<or> (\<exists>e \<in> set (dependencies_of (sc_plan sample_scheduler) ''ledger'').
          \<forall>produced. report_outcome failing_report (port_node (edge_from e)) \<noteq> Some (Completed produced))"
    by (rule suppressed_iff_upstream_missing [OF configuredD(1) [OF sample_configured] failing_runs sample_ledger])
      (use sample_first in \<open>simp_all add: failing_dispatch_def default_dispatch_def accepting_contracts_def new_graph_node_def\<close>)
  then show ?thesis by (simp add: sample_first sample_ledger_edges) (simp add: report_outcome_def failing_report_def)
qed

text \<open>
  When a node that runs first did not complete, every other node is suppressed as missing its
  upstream: none of them ran.
\<close>

theorem first_failure_suppresses_all:
  assumes "configured s" "run s d timing = Some (Ok rep)" "f \<in> first s" "\<forall>produced. report_outcome rep f \<noteq> Some (Completed produced)"
    and "k \<in> set (order (sc_plan s))" "k \<notin> first s"
  shows "report_outcome rep k = Some (Suppressed UpstreamMissing)"
proof -
  let ?q = "sc_plan s"
  note plan = configuredD(1) [OF assms(1)]
  obtain st where inv: "sched_inv s (\<lambda>_. False) st"
    and rep: "\<And>k. k \<in> dom (bm_get (nodes ?q)) \<Longrightarrow> report_outcome rep k = bm_get (outcomes st) k"
    and all: "dom (bm_get (nodes ?q)) \<subseteq> dom (bm_get (outcomes st))"
    by (rule report_outcome_run [OF plan assms(2), where req = "\<lambda>_. False"]) (use assms(5) in auto)
  have k: "k \<in> dom (bm_get (nodes ?q))" using assms(5) planned.order_nodes [OF plan] by simp
  then obtain n where "bm_get (run_nodes st) k = Some n"
    using graph_invD(4) [OF sched_invD(1) [OF inv]] by blast
  moreover have "\<not> completed st f" using assms(4) rep configuredD(4) [OF assms(1,3)] by (auto simp: completed_def)
  ultimately have "\<not> started st k"
    using sched_invD(6) [OF inv] assms(3,6) unfolding verdict_inv_def may_start_def by blast
  then show ?thesis using rep [OF k] k all unfolding started_def by (metis domD subsetD)
qed

theorem first_failure_suppresses_all_witness:
  "report_outcome refused_report ''reviewer'' = Some (Suppressed UpstreamMissing)"
proof (rule first_failure_suppresses_all [OF sample_configured refused_runs])
  show "''tests'' \<in> first sample_scheduler" by (simp add: sample_first)
  show "\<forall>produced. report_outcome refused_report ''tests'' \<noteq> Some (Completed produced)"
    by (simp add: report_outcome_def refused_report_def)
qed (simp_all add: sample_first sample_scheduler_def new_scheduler_def sample_plan_def)

text \<open>
  C21: In every state a run can reach, no more workers run than \<open>max_parallel\<close>, than the limit of any
  scope for the nodes of that scope, and than the limit an owner set for its children.
\<close>

theorem concurrency_bounds_hold:
  assumes "reach (starts_run s) (sched_step s req) st"
  shows "length (bm_keys (in_flight st)) \<le> max_parallel s
    \<and> (\<forall>scope limit. bm_get (scope_limits s) scope = Some limit
         \<longrightarrow> length (filter (scope_holds scope) (bm_keys (in_flight st))) \<le> limit)
    \<and> (\<forall>child owner limit. bm_get (child_limits st) child = Some (owner, limit)
         \<longrightarrow> length (filter (owned_by st owner) (bm_keys (in_flight st))) \<le> limit)"
  using sched_invD(4) [OF scheduling.reach_inv [OF assms]]
  unfolding capacity_inv_def running_def by simp

theorem concurrency_bounds_hold_witness:
  "bm_keys (in_flight sample_running) = [''tests''] \<and> length (bm_keys (in_flight sample_running)) \<le> max_parallel sample_scheduler"
  using concurrency_bounds_hold [OF sample_reached] by (simp add: sample_running_def bm_keys_def)

text \<open>
  C19: In every state a run can reach, a running planned node received on each declared input port, and
  on no other, exactly the artifacts its completed upstream nodes published on the connected ports:
  in edge order for a Task operator, sorted otherwise. All its upstream nodes have resolved.
\<close>

theorem workers_receive_exact_inputs:
  assumes "reach (starts_run s) (sched_step s req) st" "bm_get (in_flight st) k = Some (n, inputs)"
    and "bm_get (nodes (sc_plan s)) k = Some n"
  shows "(\<forall>e \<in> set (dependencies_of (sc_plan s) k). port_node (edge_from e) \<in> dom (bm_get (outcomes st)))
    \<and> (\<forall>p. bm_get inputs p =
         (if p \<in> pc_name ` set (node_inputs n) then Some (port_order n (arriving s st k p)) else None))"
proof -
  note inv = scheduling.reach_inv [OF assms(1)]
  have "bm_get (child_inputs st) k = None"
    using graph_invD(5) [OF sched_invD(1) [OF inv]] assms(3) by (auto simp: domIff)
  moreover have "inputs_exact s st k n inputs" using sched_invD(5) [OF inv] assms(2) unfolding input_inv_def by blast
  ultimately show ?thesis by (simp add: inputs_exact_def)
qed

theorem workers_receive_exact_inputs_witness:
  "bm_get sample_ledger_inputs ''reports'' = Some [''reviewer-artifact'']"
proof -
  have "bm_get sample_ledger_inputs ''reports'' =
      (if ''reports'' \<in> pc_name ` set (node_inputs sample_ledger_node)
       then Some (port_order sample_ledger_node (arriving sample_scheduler sample_last_scan ''ledger'' ''reports'')) else None)"
    using workers_receive_exact_inputs [OF sample_last_reached sample_ledger_runs] sample_ledger
    unfolding sample_ledger_node_def by blast
  moreover have "arriving sample_scheduler sample_last_scan ''ledger'' ''reports'' = [''reviewer-artifact'']" by code_simp
  moreover have "pc_name ` set (node_inputs sample_ledger_node) = {''reports''}" "node_kind sample_ledger_node = Ledger"
    by (simp_all add: sample_ledger_node_def accepting_contracts_def new_graph_node_def sample_contract_def new_contract_def)
  ultimately show ?thesis by (simp add: port_order_def)
qed

text \<open>
  C38: What a report calls completed respects the contract of its node: only declared output ports, at
  least one artifact on each required port and at most one on each single-valued port.
\<close>

theorem completed_outputs_respect_contract:
  assumes "is_plan (sc_plan s)" "run s d timing = Some (Ok rep)" "bm_get (nodes (sc_plan s)) k = Some n"
    and "report_outcome rep k = Some (Completed produced)"
  shows "dom (bm_get produced) \<subseteq> pc_name ` set (node_outputs n)
    \<and> (\<forall>p \<in> set (node_outputs n). (pc_optional p \<or> (\<exists>x xs. bm_get produced (pc_name p) = Some (x # xs)))
         \<and> (pc_cardinality p = One \<longrightarrow> (\<forall>xs. bm_get produced (pc_name p) = Some xs \<longrightarrow> length xs \<le> 1)))"
proof -
  obtain st where inv: "sched_inv s (\<lambda>_. False) st"
    and rep: "\<And>k. k \<in> dom (bm_get (nodes (sc_plan s))) \<Longrightarrow> report_outcome rep k = bm_get (outcomes st) k"
    and "dom (bm_get (nodes (sc_plan s))) \<subseteq> dom (bm_get (outcomes st))"
    by (rule report_outcome_run [OF assms(1,2), where req = "\<lambda>_. False"]) auto
  have "k \<in> dom (bm_get (nodes (sc_plan s)))" using assms(3) by blast
  then have "bm_get (outcomes st) k = Some (Completed produced)" using assms(4) rep by simp
  then have "validate_outputs n produced = Ok ()"
    using artifact_invD(3) [OF sched_invD(3) [OF inv]] graph_invD(4) [OF sched_invD(1) [OF inv] assms(3)] by blast
  then show ?thesis by (rule validate_outputs_Ok)
qed

theorem completed_outputs_respect_contract_witness:
  "dom (bm_get (bm_of_list [(''report'', [''reviewer-artifact''])])) \<subseteq> {''report''}"
proof -
  have n: "bm_get (nodes (sc_plan sample_scheduler)) ''reviewer'' =
      Some (gated_by (emitting_contracts (new_graph_node ''reviewer'' Reviewer) [sample_contract ''report'']) ''tests'')" by code_simp
  have "report_outcome sample_report ''reviewer'' = Some (Completed (bm_of_list [(''report'', [''reviewer-artifact''])]))"
    by (simp add: report_outcome_def sample_report_def)
  from completed_outputs_respect_contract [OF configuredD(1) [OF sample_configured] sample_runs n this]
  show ?thesis by (simp add: gated_by_def emitting_contracts_def new_graph_node_def sample_contract_def new_contract_def)
qed

text \<open>
  C39: a first node that coordinates owned children makes every run panic. Take any scheduler the
  setters accept and one of its first nodes for which the dispatcher always coordinates children: it
  selects and records the node, and expands it into a non-empty set of children that is valid beside
  the planned nodes, while no other first node coordinates children. Then, whatever else the dispatcher
  answers and in whatever order workers report, the loop ends and the report panics: the children are
  not among the first nodes, so they wait for every first node to resolve, while the owner waits for its
  children, and the report finds no outcome for the owner.
\<close>

theorem coordinating_first_node_panics:
  assumes "configured s" "\<And>k. hooks_return (d k)" "\<And>k xs. mset (timing k xs) = mset xs"
    and "f \<in> first s" "bm_get (nodes (sc_plan s)) f = Some n" "\<And>k. always_expands s (d k) n"
    and "\<And>k m. node_id m \<in> first s \<Longrightarrow> node_id m \<noteq> f \<Longrightarrow> \<not> coordinates_owned_children (d k) m"
  shows "run s d timing = Some Panic"
proof -
  have t: "set (timing k xs) = set xs" for k xs using assms(3) by (metis set_mset_mset)
  obtain st where st: "run_loop s d timing 0 (initial_state s) = Some (Ok st)" "bm_get (outcomes st) f = None"
    using coordinating_first_unresolved [where d = d and timing = timing, OF assms(1,2) t assms(4-6)] assms(7) by blast
  have "f \<in> set (order (sc_plan s))"
    using planned.order_nodes [OF configuredD(1) [OF assms(1)]] assms(5) by auto
  then show ?thesis using st report_entries_missing by (simp add: run_def)
qed

theorem coordinating_first_node_panics_witness:
  "with_first (new_scheduler sample_plan 2) {''tests''} = Ok sample_scheduler
    \<and> run sample_scheduler coordinating_dispatch (\<lambda>_ xs. xs) = Some Panic
    \<and> (\<exists>rep. run (new_scheduler sample_plan 2) coordinating_dispatch (\<lambda>_ xs. xs) = Some (Ok rep) \<and> report_complete rep)"
proof (intro conjI)
  show "with_first (new_scheduler sample_plan 2) {''tests''} = Ok sample_scheduler" by code_simp
  have n: "bm_get (nodes (sc_plan sample_scheduler)) ''tests'' = Some (new_graph_node ''tests'' Gate)" by code_simp
  have "validate_owned_expansion (new_graph_node ''tests'' Gate) [\<lparr>oc_node = new_graph_node ''tests.a'' Task, oc_inputs = bm_empty\<rparr>]
      (nodes (sc_plan sample_scheduler)) = Ok ()" by code_simp
  then have e: "always_expands sample_scheduler (coordinating_dispatch k) (new_graph_node ''tests'' Gate)" for k
    by (simp add: always_expands_def coordinating_dispatch_def default_dispatch_def new_graph_node_def)
  show "run sample_scheduler coordinating_dispatch (\<lambda>_ xs. xs) = Some Panic"
    by (rule coordinating_first_node_panics [OF sample_configured _ _ _ n e])
      (simp_all add: sample_first(1) coordinating_dispatch_def default_dispatch_def hooks_return_def)
  have "run (new_scheduler sample_plan 2) coordinating_dispatch (\<lambda>_ xs. xs) = Some (Ok sample_report)" by code_simp
  moreover have "report_complete sample_report" by code_simp
  ultimately show "\<exists>rep. run (new_scheduler sample_plan 2) coordinating_dispatch (\<lambda>_ xs. xs) = Some (Ok rep) \<and> report_complete rep"
    by blast
qed

end
