(* ===== verification/RepoPath.thy ===== *)
theory RepoPath
  imports CoreTypes
begin

text \<open>
  Repository paths of \<^verbatim>\<open>crates/review-core/src/path.rs\<close>: the lossless spelling of raw path bytes, its
  decoder, the canonical-path rule and the membership test of a Report location in a sorted set
  of changed paths. What the code uses of the standard library is defined first: well-formed
  UTF-8 (\<open>from_utf8\<close>), Unicode white space (\<open>trim\<close>) and the halving search of a sorted slice
  (\<open>binary_search\<close>). A \<open>str\<close> is the list of its UTF-8 bytes.

  The lemmas show that decoding recovers every byte sequence, that the halving search finds
  exactly the members of a sorted list, and that the membership test is a plain membership.
\<close>

subsection \<open>UTF-8 and white space\<close>

abbreviation byte :: "char \<Rightarrow> nat" where
  "byte c \<equiv> of_char c"

definition continuation :: "char \<Rightarrow> bool" where
  "continuation c = (128 \<le> byte c \<and> byte c < 192)"

text \<open>The width of the scalar value a byte sequence starts with, when it is well-formed.\<close>

definition scalar_width :: "string \<Rightarrow> nat option" where
  "scalar_width s = (case s of
     [] \<Rightarrow> None
   | a # t \<Rightarrow>
       if byte a < 128 then Some 1
       else (case t of
         [] \<Rightarrow> None
       | b # u \<Rightarrow>
           if 194 \<le> byte a \<and> byte a < 224 then (if continuation b then Some 2 else None)
           else (case u of
             [] \<Rightarrow> None
           | c # v \<Rightarrow>
               if 224 \<le> byte a \<and> byte a < 240
               then (if continuation b \<and> continuation c
                        \<and> (byte a = 224 \<longrightarrow> 160 \<le> byte b) \<and> (byte a = 237 \<longrightarrow> byte b < 160)
                     then Some 3 else None)
               else (case v of
                 [] \<Rightarrow> None
               | d # _ \<Rightarrow>
                   if 240 \<le> byte a \<and> byte a < 245 \<and> continuation b \<and> continuation c \<and> continuation d
                        \<and> (byte a = 240 \<longrightarrow> 144 \<le> byte b) \<and> (byte a = 244 \<longrightarrow> byte b < 144)
                   then Some 4 else None))))"

lemma scalar_width_pos: "scalar_width s = Some n \<Longrightarrow> 0 < n \<and> s \<noteq> []"
  by (auto simp: scalar_width_def split: list.splits if_splits)

function is_utf8 :: "string \<Rightarrow> bool" where
  "is_utf8 s =
     (s = [] \<or> (case scalar_width s of None \<Rightarrow> False | Some n \<Rightarrow> is_utf8 (drop n s)))"
  by pat_completeness auto
termination
  by (relation "measure length") (auto dest: scalar_width_pos)

declare is_utf8.simps [simp del]

definition from_utf8 :: "string \<Rightarrow> string option" where
  "from_utf8 bytes = (if is_utf8 bytes then Some bytes else None)"

text \<open>The Unicode characters with the \<open>White_Space\<close> property, in UTF-8.\<close>

definition white_space :: "string list" where
  "white_space =
     map (map char_of)
       ([[9], [10], [11], [12], [13], [32], [194, 133], [194, 160], [225, 154, 128]]
        @ map (\<lambda>k. [226, 128, 128 + k]) [0, 1, 2, 3, 4, 5, 6, 7, 8, 9, 10]
        @ [[226, 128, 168], [226, 128, 169], [226, 128, 175], [226, 129, 159], [227, 128, 128 :: nat]])"

function strip_front :: "string list \<Rightarrow> string \<Rightarrow> string" where
  "strip_front pats s =
     (case find (\<lambda>w. w \<noteq> [] \<and> take (length w) s = w) pats of
        None \<Rightarrow> s
      | Some w \<Rightarrow> strip_front pats (drop (length w) s))"
  by pat_completeness auto
termination
proof (relation "measure (\<lambda>(pats, s). length s)")
  fix pats :: "string list" and s w
  assume "find (\<lambda>w. w \<noteq> [] \<and> take (length w) s = w) pats = Some w"
  then have "w \<noteq> []" "take (length w) s = w" by (auto simp: find_Some_iff)
  then have "s \<noteq> []" by auto
  with \<open>w \<noteq> []\<close> show "((pats, drop (length w) s), pats, s) \<in> measure (\<lambda>(pats, s). length s)" by simp
qed simp

declare strip_front.simps [simp del]

definition trim :: "string \<Rightarrow> string" where
  "trim s = rev (strip_front (map rev white_space) (rev (strip_front white_space s)))"

definition blank :: "string \<Rightarrow> bool" where
  "blank s = (trim s = [])"

text \<open>
  A string between two ASCII bytes that are not white space is its own trimming; the test is the
  fast path when a concrete string is evaluated.
\<close>

fun plain_ascii :: "char \<Rightarrow> bool" where
  "plain_ascii (Char b0 b1 b2 b3 b4 b5 b6 b7) = (\<not> b7 \<and> (b6 \<or> b5 \<and> (b0 \<or> b1 \<or> b2 \<or> b3 \<or> b4)))"

lemma white_space_ends:
  "\<forall>w \<in> set white_space. w \<noteq> [] \<and> \<not> plain_ascii (hd w) \<and> \<not> plain_ascii (last w)"
  by (simp add: white_space_def char_of_def bit_iff_odd)

lemma strip_front_none:
  assumes "\<forall>w \<in> set pats. w \<noteq> [] \<longrightarrow> s \<noteq> [] \<longrightarrow> hd w \<noteq> hd s"
  shows "strip_front pats s = s"
proof -
  have "find (\<lambda>w. w \<noteq> [] \<and> take (length w) s = w) pats = None"
    using assms by (auto simp: find_None_iff) (metis hd_take length_greater_0_conv take_eq_Nil)
  then show ?thesis by (subst strip_front.simps) simp
qed

lemma trim_plain: "s \<noteq> [] \<Longrightarrow> plain_ascii (hd s) \<Longrightarrow> plain_ascii (last s) \<Longrightarrow> trim s = s"
proof -
  assume s: "s \<noteq> []" "plain_ascii (hd s)" "plain_ascii (last s)"
  have "strip_front white_space s = s" using s white_space_ends by (auto intro!: strip_front_none)
  moreover have "strip_front (map rev white_space) (rev s) = rev s"
    using s white_space_ends by (intro strip_front_none) (auto simp: hd_rev)
  ultimately show ?thesis by (simp add: trim_def)
qed

lemma trim_code [code]:
  "trim s =
     (if s \<noteq> [] \<and> plain_ascii (hd s) \<and> plain_ascii (last s) then s
      else rev (strip_front (map rev white_space) (rev (strip_front white_space s))))"
  using trim_plain [of s] by (auto simp: trim_def)

subsection \<open>Searching a sorted slice\<close>

text \<open>
  \<open>slice::binary_search\<close>: the window of \<open>size\<close> elements from \<open>base\<close> is halved until one is left;
  the index is returned when that element is equal to the target.
\<close>

function search_base :: "'a::linorder \<Rightarrow> 'a list \<Rightarrow> nat \<Rightarrow> nat \<Rightarrow> nat" where
  "search_base x xs base width =
     (if width \<le> 1 then base
      else let half = width div 2; mid = base + half
           in search_base x xs (if x < xs ! mid then base else mid) (width - half))"
  by pat_completeness auto
termination
  by (relation "measure (\<lambda>(x, xs, base, width). width)") auto

declare search_base.simps [simp del]

definition binary_search :: "'a::linorder \<Rightarrow> 'a list \<Rightarrow> nat option" where
  "binary_search x xs =
     (if xs = [] then None
      else let base = search_base x xs 0 (length xs) in if xs ! base = x then Some base else None)"

lemma search_base_window:
  assumes "sorted xs" "0 < width" "base + width \<le> length xs"
  shows "search_base x xs base width < length xs \<and>
    ((\<exists>i. base \<le> i \<and> i < base + width \<and> xs ! i = x) \<longrightarrow> xs ! search_base x xs base width = x)"
  using assms
proof (induction x xs base width rule: search_base.induct)
  case (1 x xs base width)
  show ?case
  proof (cases "width \<le> 1")
    case True
    then have "width = 1" using "1.prems" by simp
    then show ?thesis using "1.prems" by (auto simp: search_base.simps less_Suc_eq dest: antisym)
  next
    case False
    define mid where "mid = base + width div 2"
    define next_base where "next_base = (if x < xs ! mid then base else mid)"
    have step: "search_base x xs base width = search_base x xs next_base (width - width div 2)"
      using False by (subst search_base.simps) (simp add: Let_def mid_def next_base_def)
    have window: "next_base + (width - width div 2) \<le> length xs" and pos: "0 < width - width div 2"
      using False "1.prems" by (auto simp: next_base_def mid_def)
    have IH: "search_base x xs next_base (width - width div 2) < length xs \<and>
      ((\<exists>i. next_base \<le> i \<and> i < next_base + (width - width div 2) \<and> xs ! i = x) \<longrightarrow>
        xs ! search_base x xs next_base (width - width div 2) = x)"
      using "1.IH" [OF False refl refl "1.prems"(1)] pos window unfolding next_base_def mid_def by simp
    have keep: "\<exists>j. next_base \<le> j \<and> j < next_base + (width - width div 2) \<and> xs ! j = x"
      if i: "base \<le> i" "i < base + width" "xs ! i = x" for i
    proof (cases "x < xs ! mid")
      case True
      then have "i < mid"
        using i "1.prems" sorted_nth_mono [OF "1.prems"(1), of mid i] by (force simp: not_less [symmetric])
      then show ?thesis using i True by (intro exI [of _ i]) (auto simp: next_base_def mid_def)
    next
      case above: False
      show ?thesis
      proof (cases "mid \<le> i")
        case True
        then show ?thesis using i above by (intro exI [of _ i]) (auto simp: next_base_def mid_def)
      next
        case before: False
        then have "xs ! i \<le> xs ! mid"
          using "1.prems" False by (intro sorted_nth_mono [OF "1.prems"(1)]) (auto simp: mid_def)
        then have "xs ! mid = x" using above i by simp
        then show ?thesis using above pos by (intro exI [of _ mid]) (auto simp: next_base_def)
      qed
    qed
    show ?thesis unfolding step using IH keep by blast
  qed
qed

lemma binary_search_iff: "sorted xs \<Longrightarrow> binary_search x xs \<noteq> None \<longleftrightarrow> x \<in> set xs"
  using search_base_window [of xs "length xs" 0 x]
  by (auto simp: binary_search_def Let_def in_set_conv_nth)

subsection \<open>Path spelling\<close>

definition is_valid_repo_path :: "string \<Rightarrow> bool" where
  "is_valid_repo_path path =
     (path \<noteq> [] \<and> path = trim path \<and> \<not> starts_with path CHR ''/'' \<and> CHR 0x00 \<notin> set path \<and>
      list_all (\<lambda>component. component \<notin> {'''', ''.'', ''..''}) (split_on CHR ''/'' path))"

definition upper_hex :: "nat \<Rightarrow> char" where
  "upper_hex n = (if n < 10 then char_of (48 + n) else char_of (55 + n))"

definition plain_byte :: "char \<Rightarrow> bool" where
  "plain_byte b = (is_ascii_alphanumeric b \<or> b \<in> set ''/.-_+@'')"

definition encode_byte :: "char \<Rightarrow> string" where
  "encode_byte b =
     (if plain_byte b then [b]
      else [CHR ''%'', upper_hex (byte b div 16), upper_hex (byte b mod 16)])"

definition percent_encode :: "string \<Rightarrow> string" where
  "percent_encode bytes = foldl (\<lambda>encoded b. encoded @ encode_byte b) [] bytes"

definition encode_path :: "string \<Rightarrow> string" where
  "encode_path bytes =
     (case from_utf8 bytes of
        Some path \<Rightarrow> if CHR ''%'' \<notin> set path \<and> is_valid_repo_path path then path else percent_encode bytes
      | None \<Rightarrow> percent_encode bytes)"

definition hex_value :: "char \<Rightarrow> nat option" where
  "hex_value b =
     (if CHR ''0'' \<le> b \<and> b \<le> CHR ''9'' then Some (byte b - 48)
      else if CHR ''A'' \<le> b \<and> b \<le> CHR ''F'' then Some (byte b - 65 + 10)
      else if CHR ''a'' \<le> b \<and> b \<le> CHR ''f'' then Some (byte b - 97 + 10)
      else None)"

text \<open>The byte a percent sequence at the front of the input stands for.\<close>

definition escaped :: "string \<Rightarrow> char option" where
  "escaped s = (case s of
     p # h # l # _ \<Rightarrow>
       if p = CHR ''%''
       then (case (hex_value h, hex_value l) of (Some high, Some low) \<Rightarrow> Some (char_of (16 * high + low)) | _ \<Rightarrow> None)
       else None
   | _ \<Rightarrow> None)"

function decode_path :: "string \<Rightarrow> string" where
  "decode_path s =
     (case s of
        [] \<Rightarrow> []
      | b # t \<Rightarrow> (case escaped s of
            Some decoded \<Rightarrow> decoded # decode_path (drop 3 s)
          | None \<Rightarrow> b # decode_path t))"
  by pat_completeness auto
termination
  by (relation "measure length") auto

declare decode_path.simps [simp del]

definition contains_report_path :: "string list \<Rightarrow> string \<Rightarrow> bool" where
  "contains_report_path changed_paths report_path =
     (is_valid_repo_path report_path \<and>
      (binary_search report_path changed_paths \<noteq> None \<or>
       (let encoded = encode_path report_path
        in encoded \<noteq> report_path \<and> binary_search encoded changed_paths \<noteq> None)))"

subsection \<open>Decoding recovers the bytes\<close>

lemma of_char_less [simp]: "byte b < 256"
  by (cases b) simp

lemma hex_value_upper: "n < 16 \<Longrightarrow> hex_value (upper_hex n) = Some n"
  by (auto simp: hex_value_def upper_hex_def less_eq_char_def)

lemma percent_encode_Nil [simp]: "percent_encode [] = []"
  by (simp add: percent_encode_def)

lemma percent_encode_Cons [simp]: "percent_encode (b # bs) = encode_byte b @ percent_encode bs"
proof -
  have "foldl (\<lambda>e b. e @ encode_byte b) acc bs = acc @ foldl (\<lambda>e b. e @ encode_byte b) [] bs" for acc
    by (induction bs rule: rev_induct) simp_all
  from this [of "encode_byte b"] show ?thesis by (simp add: percent_encode_def)
qed

lemma plain_byte_not_percent: "plain_byte b \<Longrightarrow> b \<noteq> CHR ''%''"
  by (auto simp: plain_byte_def is_ascii_alphanumeric_def is_ascii_digit_def is_ascii_lowercase_def
      is_ascii_uppercase_def less_eq_char_def)

lemma decode_plain: "b \<noteq> CHR ''%'' \<Longrightarrow> decode_path (b # s) = b # decode_path s"
  by (subst decode_path.simps) (auto simp: escaped_def split: list.splits)

lemma decode_Nil [simp]: "decode_path [] = []"
  by (simp add: decode_path.simps)

lemma decode_encode_byte: "decode_path (encode_byte b @ s) = b # decode_path s"
proof (cases "plain_byte b")
  case True
  then show ?thesis by (simp add: encode_byte_def decode_plain plain_byte_not_percent)
next
  case False
  have "byte b div 16 < 16" using of_char_less [of b] by linarith
  then have "escaped (encode_byte b @ s) = Some b"
    using False by (simp add: escaped_def encode_byte_def hex_value_upper)
  then show ?thesis using False by (subst decode_path.simps) (simp add: encode_byte_def)
qed

lemma decode_percent_encode: "decode_path (percent_encode bs) = bs"
  by (induction bs) (simp_all add: decode_encode_byte)

lemma decode_verbatim: "CHR ''%'' \<notin> set s \<Longrightarrow> decode_path s = s"
  by (induction s) (auto simp: decode_plain)

lemma decode_encode: "decode_path (encode_path bs) = bs"
  by (auto simp: encode_path_def from_utf8_def decode_percent_encode decode_verbatim)

lemma encode_path_inject: "encode_path a = encode_path b \<longleftrightarrow> a = b"
  by (metis decode_encode)

lemma percent_encode_length: "length bs \<le> length (percent_encode bs)"
  by (induction bs) (simp_all add: encode_byte_def)

lemma percent_encode_id: "percent_encode bs = bs \<longleftrightarrow> list_all plain_byte bs"
proof (induction bs)
  case (Cons b bs)
  have "encode_byte b @ percent_encode bs \<noteq> b # bs" if "\<not> plain_byte b"
    using that percent_encode_length [of bs] by (auto simp: encode_byte_def dest!: arg_cong [of _ _ length])
  then show ?case using Cons by (auto simp: encode_byte_def)
qed simp

lemma encode_path_id:
  "encode_path bs = bs \<longleftrightarrow>
     (is_utf8 bs \<and> CHR ''%'' \<notin> set bs \<and> is_valid_repo_path bs) \<or> list_all plain_byte bs"
  by (auto simp: encode_path_def from_utf8_def percent_encode_id)

lemma contains_report_path_iff:
  "sorted changed_paths \<Longrightarrow>
   contains_report_path changed_paths p \<longleftrightarrow>
     is_valid_repo_path p \<and> (p \<in> set changed_paths \<or> encode_path p \<in> set changed_paths)"
  using binary_search_iff [of changed_paths p] binary_search_iff [of changed_paths "encode_path p"]
  by (simp only: contains_report_path_def Let_def) metis

text \<open>
  C40: Path spelling round trip. Decoding the spelling of any byte sequence, well-formed UTF-8 or
  not, yields exactly those bytes, so distinct repository paths never share a spelling; and the
  spelling is the byte sequence itself exactly for canonical UTF-8 paths without a percent sign
  and for sequences of bytes that need no escape.
\<close>

theorem encode_path_roundtrip:
  "decode_path (encode_path bytes) = bytes \<and>
   (encode_path bytes = encode_path bytes' \<longleftrightarrow> bytes = bytes') \<and>
   (encode_path bytes = bytes \<longleftrightarrow>
      (is_utf8 bytes \<and> CHR ''%'' \<notin> set bytes \<and> is_valid_repo_path bytes) \<or> list_all plain_byte bytes)"
  by (simp only: decode_encode encode_path_inject encode_path_id simp_thms)

end
