(* ===== verification/ReviewTypes.thy ===== *)
theory ReviewTypes
  imports Complex_Main RepoPath
begin

text \<open>
  The immutable records the Findings Ledger folds, with the validators that admit them: Reports
  (\<^verbatim>\<open>finding.rs\<close>), Demands and Evidence (\<^verbatim>\<open>demand.rs\<close>), Groupings (\<^verbatim>\<open>grouping.rs\<close>), Attestations,
  Verifications, Resolutions and Challenges (\<^verbatim>\<open>resolution.rs\<close>), the Campaign and Round payloads
  (\<^verbatim>\<open>campaign.rs\<close>), Subjects and Change Sets (\<^verbatim>\<open>subject.rs\<close>, \<^verbatim>\<open>change_set.rs\<close>) and the artifact
  envelope (\<^verbatim>\<open>envelope.rs\<close>), all of \<^verbatim>\<open>crates/review-core/src\<close>. A validator returns the source's
  error text. A JSON document is a \<open>Value\<close>; a finite binary64 number is a rational.
\<close>

subsection \<open>JSON documents and digests\<close>

datatype Number = PosInt nat | NegInt int | Float rat

datatype Value = JNull | JBool bool | JNumber Number | JString string | JArray "Value list"
  | JObject "(string \<times> Value) list"

definition value_get :: "Value \<Rightarrow> string \<Rightarrow> Value option" where
  "value_get v field = (case v of JObject entries \<Rightarrow> map_of entries field | _ \<Rightarrow> None)"

definition as_str :: "Value \<Rightarrow> string option" where
  "as_str v = (case v of JString s \<Rightarrow> Some s | _ \<Rightarrow> None)"

definition as_u64 :: "Value \<Rightarrow> nat option" where
  "as_u64 v = (case v of JNumber (PosInt n) \<Rightarrow> if n \<le> u64_max then Some n else None | _ \<Rightarrow> None)"

definition is_object :: "Value \<Rightarrow> bool" where
  "is_object v = (case v of JObject _ \<Rightarrow> True | _ \<Rightarrow> False)"

definition is_lower_hexdigit :: "char \<Rightarrow> bool" where
  "is_lower_hexdigit b = (is_ascii_digit b \<or> (CHR ''a'' \<le> b \<and> b \<le> CHR ''f''))"

definition is_digest :: "string \<Rightarrow> bool" where
  "is_digest v = (case strip_prefix ''sha256:'' v of
     None \<Rightarrow> False | Some hex \<Rightarrow> length hex = 64 \<and> list_all is_lower_hexdigit hex)"

definition is_some_and :: "'a option \<Rightarrow> ('a \<Rightarrow> bool) \<Rightarrow> bool" where
  "is_some_and x p = (case x of None \<Rightarrow> False | Some v \<Rightarrow> p v)"

lemma is_some_and_simps [simp]: "is_some_and None p = False" "is_some_and (Some v) p = p v"
  by (simp_all add: is_some_and_def)

lemma is_some_and_iff: "is_some_and x p \<longleftrightarrow> (\<exists>v. x = Some v \<and> p v)"
  by (cases x) simp_all

subsection \<open>Reports\<close>

datatype Severity = Minor | Major | Blocker

fun rank :: "Severity \<Rightarrow> nat" where
  "rank Minor = 1"
| "rank Major = 2"
| "rank Blocker = 3"

record Location =
  loc_path :: string
  loc_line :: "nat option"
  loc_end_line :: "nat option"

datatype RelationKind = Corroborates

datatype ClaimTargetKind = FindingTarget

record RelationTarget =
  target_kind :: ClaimTargetKind
  target_id :: string

record Relation =
  rel_kind :: RelationKind
  rel_target :: RelationTarget
  rel_reason :: "string option"

record FindingReport =
  fr_title :: string
  fr_severity :: Severity
  fr_locations :: "Location list"
  fr_body :: string
  fr_fix :: string
  fr_confidence :: rat
  fr_failure_trace :: "string option"
  fr_rule_id :: "string option"
  fr_occurrence_key :: "string option"
  fr_relations :: "Relation list"

definition first_byte :: "string \<Rightarrow> char option" where
  "first_byte s = (case s of [] \<Rightarrow> None | b # _ \<Rightarrow> Some b)"

definition valid_rule_id :: "string \<Rightarrow> bool" where
  "valid_rule_id rule =
     (case split_once CHR ''/'' rule of
        None \<Rightarrow> False
      | Some (namespace, rest) \<Rightarrow>
          (case rsplit_once CHR ''@'' rest of
             None \<Rightarrow> False
           | Some (name, version) \<Rightarrow>
               is_some_and (first_byte namespace) is_ascii_lowercase \<and>
               list_all (\<lambda>b. is_ascii_lowercase b \<or> is_ascii_digit b \<or> b = CHR ''.'') namespace \<and>
               is_some_and (first_byte name) (\<lambda>b. is_ascii_lowercase b \<or> is_ascii_digit b) \<and>
               list_all (\<lambda>b. is_ascii_lowercase b \<or> is_ascii_digit b \<or> b = CHR ''-'') name \<and>
               is_some_and (first_byte version) (\<lambda>b. CHR ''1'' \<le> b \<and> b \<le> CHR ''9'') \<and>
               list_all is_ascii_digit version))"

definition location_malformed :: "Location \<Rightarrow> bool" where
  "location_malformed l =
     (\<not> is_valid_repo_path (loc_path l) \<or> loc_line l = Some 0 \<or> loc_end_line l = Some 0)"

definition validate_report :: "FindingReport \<Rightarrow> (string, unit) res" where
  "validate_report r =
     (if blank (fr_title r) \<or> blank (fr_body r) \<or> blank (fr_fix r)
      then Err ''FindingReport@1 title, body, and fix must be non-empty''
      else if \<not> (0 \<le> fr_confidence r \<and> fr_confidence r \<le> 1)
      then Err ''FindingReport@1 confidence must be within 0.0..=1.0''
      else if is_some_and (fr_rule_id r) (\<lambda>rule. \<not> valid_rule_id rule)
      then Err ''FindingReport@1 rule_id is not a namespaced versioned rule''
      else if is_some_and (fr_occurrence_key r) (\<lambda>key. key = [])
          \<or> list_ex (\<lambda>relation. target_id (rel_target relation) = []) (fr_relations r)
      then Err ''FindingReport@1 claim identifiers must be non-empty''
      else (case find location_malformed (fr_locations r) of
          None \<Rightarrow> Ok ()
        | Some location \<Rightarrow>
            Err (''FindingReport@1 locations must use canonical repository-relative paths and positive lines, got `''
              @ loc_path location @ ''`'')))"

subsection \<open>Demands and Evidence\<close>

datatype DemandRequirement = Required | Advisory

datatype DemandStatus = DemandOpen | Satisfied | Stale | Waived

record DemandV1 =
  dm_demand_id :: string
  dm_claim :: string
  dm_why :: string
  dm_suggested_method :: string
  dm_source :: string
  dm_requirement :: DemandRequirement
  dm_round :: nat
  dm_subject_id :: string

definition validate_demand :: "DemandV1 \<Rightarrow> (string, unit) res" where
  "validate_demand d =
     (if \<not> is_digest (dm_demand_id d) \<or> blank (dm_claim d) \<or> blank (dm_why d)
         \<or> blank (dm_suggested_method d) \<or> blank (dm_source d) \<or> dm_round d = 0
         \<or> \<not> is_digest (dm_subject_id d)
      then Err ''Demand@1 contains invalid identity, content, or Subject authority''
      else Ok ())"

record EvidenceV1 =
  ev_demand_id :: string
  ev_subject_id :: string
  ev_content_artifact_id :: string
  ev_actor :: string

definition validate_evidence :: "EvidenceV1 \<Rightarrow> (string, unit) res" where
  "validate_evidence e =
     (if \<not> is_digest (ev_demand_id e) \<or> \<not> is_digest (ev_subject_id e)
         \<or> \<not> is_digest (ev_content_artifact_id e) \<or> blank (ev_actor e)
      then Err ''Evidence@1 contains invalid Demand, Subject, content, or actor''
      else Ok ())"

record EvidenceSatisfactionV1 =
  sa_demand_id :: string
  sa_evidence_id :: string
  sa_subject_id :: string
  sa_policy_revision :: string
  sa_reason :: string

definition validate_satisfaction :: "EvidenceSatisfactionV1 \<Rightarrow> (string, unit) res" where
  "validate_satisfaction s =
     (if \<not> is_digest (sa_demand_id s) \<or> \<not> is_digest (sa_evidence_id s)
         \<or> \<not> is_digest (sa_subject_id s) \<or> blank (sa_policy_revision s) \<or> blank (sa_reason s)
      then Err ''EvidenceSatisfaction@1 contains invalid authority or reason''
      else Ok ())"

record EvidenceReuseAdmissionV1 =
  re_demand_id :: string
  re_satisfaction_id :: string
  re_subject_id :: string
  re_actor :: string
  re_policy_revision :: string
  re_reason :: string

definition validate_reuse :: "EvidenceReuseAdmissionV1 \<Rightarrow> (string, unit) res" where
  "validate_reuse r =
     (if \<not> is_digest (re_demand_id r) \<or> \<not> is_digest (re_satisfaction_id r)
         \<or> \<not> is_digest (re_subject_id r) \<or> blank (re_actor r) \<or> blank (re_policy_revision r)
         \<or> blank (re_reason r)
      then Err ''EvidenceReuseAdmission@1 contains invalid authority or reason''
      else Ok ())"

record DemandWaiverV1 =
  wa_demand_id :: string
  wa_subject_id :: string
  wa_actor :: string
  wa_policy_revision :: string
  wa_reason :: string

definition validate_waiver :: "DemandWaiverV1 \<Rightarrow> (string, unit) res" where
  "validate_waiver w =
     (if \<not> is_digest (wa_demand_id w) \<or> \<not> is_digest (wa_subject_id w) \<or> blank (wa_actor w)
         \<or> blank (wa_policy_revision w) \<or> blank (wa_reason w)
      then Err ''DemandWaiver@1 contains invalid authority or reason''
      else Ok ())"

record DemandSetEntryV1 =
  de_demand_id :: string
  de_claim :: string
  de_why :: string
  de_suggested_method :: string
  de_source :: string
  de_requirement :: DemandRequirement
  de_status :: DemandStatus
  de_subject_id :: string
  de_evidence_ids :: "string list"
  de_satisfaction_ids :: "string list"
  de_waiver_ids :: "string list"

record RecordedArtifactPayloadV1 =
  rec_artifact_id :: string

definition validate_recorded :: "RecordedArtifactPayloadV1 \<Rightarrow> (string, unit) res" where
  "validate_recorded r =
     (if \<not> is_digest (rec_artifact_id r)
      then Err ''recorded artifact event contains an invalid artifact ID'' else Ok ())"

subsection \<open>Groupings\<close>

datatype FindingGroupingAction = Group | Ungroup

record FindingGroupingV1 =
  gr_from :: string
  gr_into :: string
  gr_action :: FindingGroupingAction
  gr_round :: nat

definition validate_grouping :: "FindingGroupingV1 \<Rightarrow> (string, unit) res" where
  "validate_grouping g =
     (if blank (gr_from g) \<or> blank (gr_into g) \<or> gr_from g = gr_into g \<or> gr_round g = 0
      then Err ''FindingGrouping@1 contains invalid Finding identities or Round''
      else Ok ())"

record FindingGroupingEventPayloadV1 =
  ge_from :: string
  ge_into :: string
  ge_grouping_artifact_id :: string

definition validate_grouping_event :: "FindingGroupingEventPayloadV1 \<Rightarrow> (string, unit) res" where
  "validate_grouping_event e =
     (if blank (ge_from e) \<or> blank (ge_into e) \<or> ge_from e = ge_into e
         \<or> \<not> is_digest (ge_grouping_artifact_id e)
      then Err ''Finding grouping event contains invalid identities or artifact ID''
      else Ok ())"

subsection \<open>Resolutions\<close>

datatype FindingResolutionOutcome = ResolvedFixed | ResolvedRejected | WontfixTracked

datatype ResolutionChallengeKind = NewEvidence | HigherSeverity | OutsideScope | Expired

record ChangedRegionV1 =
  cr_path :: string
  cr_start_line :: "nat option"
  cr_end_line :: "nat option"

definition validate_region :: "ChangedRegionV1 \<Rightarrow> (string, unit) res" where
  "validate_region r =
     (if \<not> is_valid_repo_path (cr_path r) \<or> cr_start_line r = Some 0 \<or> cr_end_line r = Some 0
         \<or> (case (cr_start_line r, cr_end_line r) of (Some first_line, Some last_line) \<Rightarrow> last_line < first_line | _ \<Rightarrow> False)
         \<or> (cr_start_line r = None) \<noteq> (cr_end_line r = None)
      then Err ''ChangeAttestation@1 contains an invalid changed region''
      else Ok ())"

record ChangeAttestationV1 =
  ca_finding_id :: string
  ca_expected_finding_view_id :: string
  ca_subject_id :: string
  ca_change_set_id :: "string option"
  ca_changed_regions :: "ChangedRegionV1 list"
  ca_actor :: string
  ca_reason :: string
  ca_evidence_ids :: "string list"

definition validate_attestation :: "ChangeAttestationV1 \<Rightarrow> (string, unit) res" where
  "validate_attestation a =
     (if blank (ca_finding_id a) \<or> \<not> is_digest (ca_expected_finding_view_id a)
         \<or> \<not> is_digest (ca_subject_id a) \<or> is_some_and (ca_change_set_id a) (\<lambda>d. \<not> is_digest d)
         \<or> ca_changed_regions a = []
         \<or> list_ex (\<lambda>region. \<not> is_ok (validate_region region)) (ca_changed_regions a)
         \<or> blank (ca_actor a) \<or> blank (ca_reason a) \<or> list_ex (\<lambda>d. \<not> is_digest d) (ca_evidence_ids a)
      then Err ''ChangeAttestation@1 contains invalid authority or scope''
      else Ok ())"

record FixVerificationV1 =
  fv_finding_id :: string
  fv_attestation_id :: string
  fv_expected_finding_view_id :: string
  fv_subject_id :: string
  fv_verifier :: string
  fv_policy_revision :: string
  fv_positive :: bool
  fv_reason :: string
  fv_evidence_ids :: "string list"

definition validate_verification :: "FixVerificationV1 \<Rightarrow> (string, unit) res" where
  "validate_verification v =
     (if blank (fv_finding_id v) \<or> \<not> is_digest (fv_attestation_id v)
         \<or> \<not> is_digest (fv_expected_finding_view_id v) \<or> \<not> is_digest (fv_subject_id v)
         \<or> blank (fv_verifier v) \<or> blank (fv_policy_revision v) \<or> blank (fv_reason v)
         \<or> list_ex (\<lambda>d. \<not> is_digest d) (fv_evidence_ids v)
      then Err ''FixVerification@1 contains invalid authority or evidence''
      else Ok ())"

record FindingResolutionV1 =
  rs_finding_id :: string
  rs_expected_finding_view_id :: string
  rs_subject_id :: string
  rs_outcome :: FindingResolutionOutcome
  rs_actor :: string
  rs_policy_revision :: string
  rs_reason :: string
  rs_evidence_ids :: "string list"
  rs_verification_id :: "string option"
  rs_max_accepted_severity :: "Severity option"
  rs_tracking_reference :: "string option"
  rs_expires_at_policy_time :: "nat option"

definition validate_resolution :: "FindingResolutionV1 \<Rightarrow> (string, unit) res" where
  "validate_resolution r =
     (if blank (rs_finding_id r) \<or> \<not> is_digest (rs_expected_finding_view_id r)
         \<or> \<not> is_digest (rs_subject_id r) \<or> blank (rs_actor r) \<or> blank (rs_policy_revision r)
         \<or> blank (rs_reason r) \<or> list_ex (\<lambda>d. \<not> is_digest d) (rs_evidence_ids r)
         \<or> is_some_and (rs_verification_id r) (\<lambda>d. \<not> is_digest d)
         \<or> is_some_and (rs_tracking_reference r) blank
      then Err ''FindingResolution@1 contains invalid authority or evidence''
      else (case rs_outcome r of
          ResolvedFixed \<Rightarrow>
            if rs_verification_id r = None \<or> rs_max_accepted_severity r \<noteq> None
               \<or> rs_tracking_reference r \<noteq> None \<or> rs_expires_at_policy_time r \<noteq> None
            then Err ''fixed Resolution requires only a FixVerification'' else Ok ()
        | ResolvedRejected \<Rightarrow>
            if rs_verification_id r \<noteq> None \<or> rs_max_accepted_severity r \<noteq> None
               \<or> rs_tracking_reference r \<noteq> None \<or> rs_expires_at_policy_time r \<noteq> None
            then Err ''rejected Resolution has invalid tracked-wontfix fields'' else Ok ()
        | WontfixTracked \<Rightarrow>
            if rs_verification_id r \<noteq> None \<or> rs_max_accepted_severity r = None
               \<or> rs_tracking_reference r = None
               \<or> (case rs_expires_at_policy_time r of None \<Rightarrow> True | Some time \<Rightarrow> time = 0)
            then Err ''wontfix-tracked Resolution requires ceiling, tracking, and expiry'' else Ok ()))"

record ResolutionChallengeV1 =
  ch_finding_id :: string
  ch_resolution_id :: string
  ch_subject_id :: string
  ch_kind :: ResolutionChallengeKind
  ch_actor :: string
  ch_reason :: string
  ch_evidence_ids :: "string list"

definition validate_challenge :: "ResolutionChallengeV1 \<Rightarrow> (string, unit) res" where
  "validate_challenge c =
     (if blank (ch_finding_id c) \<or> \<not> is_digest (ch_resolution_id c) \<or> \<not> is_digest (ch_subject_id c)
         \<or> blank (ch_actor c) \<or> blank (ch_reason c) \<or> list_ex (\<lambda>d. \<not> is_digest d) (ch_evidence_ids c)
      then Err ''ResolutionChallenge@1 contains invalid authority or evidence''
      else Ok ())"

record PolicyTimeV1 =
  pt_tick :: nat
  pt_actor :: string
  pt_reason :: string

definition validate_policy_time :: "PolicyTimeV1 \<Rightarrow> (string, unit) res" where
  "validate_policy_time p =
     (if pt_tick p = 0 \<or> blank (pt_actor p) \<or> blank (pt_reason p)
      then Err ''PolicyTime@1 contains invalid persisted policy time'' else Ok ())"

subsection \<open>Campaigns, Subjects and Change Sets\<close>

record CampaignOpenedPayloadV1 =
  co_campaign_manifest_id :: string
  co_authority_snapshot_id :: string

record RoundStartedPayloadV1 =
  rp_round :: nat
  rp_epoch :: nat
  rp_campaign_manifest_id :: string
  rp_subject_id :: string
  rp_prior_finding_set_id :: string
  rp_prior_demand_set_id :: string

definition validate_round_started :: "RoundStartedPayloadV1 \<Rightarrow> (string, unit) res" where
  "validate_round_started s =
     (if rp_round s = 0 \<or> rp_epoch s = 0
      then Err ''RoundStarted@1 requires positive round and epoch numbers''
      else if list_ex (\<lambda>d. \<not> is_digest d)
          [rp_campaign_manifest_id s, rp_subject_id s, rp_prior_finding_set_id s, rp_prior_demand_set_id s]
      then Err ''RoundStarted@1 contains an invalid artifact ID''
      else Ok ())"

datatype SubjectKind = SubjectDiff | SubjectWholeTree

record SubjectV1 =
  su_kind :: SubjectKind
  su_head_snapshot_id :: string
  su_base_snapshot_id :: "string option"
  su_change_set_id :: "string option"

definition validate_subject :: "SubjectV1 \<Rightarrow> (string, unit) res" where
  "validate_subject s =
     (if \<not> is_digest (su_head_snapshot_id s) then Err ''Subject@1 has an invalid head Snapshot ID''
      else (case su_kind s of
          SubjectWholeTree \<Rightarrow>
            if su_base_snapshot_id s \<noteq> None \<or> su_change_set_id s \<noteq> None
            then Err ''a whole-tree Subject forbids Base and Change Set IDs'' else Ok ()
        | SubjectDiff \<Rightarrow>
            if \<not> is_some_and (su_base_snapshot_id s) is_digest
               \<or> \<not> is_some_and (su_change_set_id s) is_digest
            then Err ''a diff Subject requires valid Base and Change Set IDs'' else Ok ()))"

record PathRenameV1 =
  rn_old_path :: string
  rn_new_path :: string
  rn_similarity :: nat

record ChangeSetV1 =
  cs_base_snapshot_id :: string
  cs_head_snapshot_id :: string
  cs_changed_paths :: "string list"
  cs_renames :: "PathRenameV1 list"
  cs_rename_detection_truncated :: bool
  cs_canonical_patch_base64 :: string
  cs_git_version :: string
  cs_diff_policy_version :: string

text \<open>\<open>windows(2)\<close> finds no pair out of strict order.\<close>

fun strictly_ascending :: "('a \<Rightarrow> 'a \<Rightarrow> bool) \<Rightarrow> 'a list \<Rightarrow> bool" where
  "strictly_ascending lt (x # y # xs) = (lt x y \<and> strictly_ascending lt (y # xs))"
| "strictly_ascending lt _ = True"

definition rename_less :: "PathRenameV1 \<Rightarrow> PathRenameV1 \<Rightarrow> bool" where
  "rename_less a b =
     (rn_old_path a < rn_old_path b \<or>
      (rn_old_path a = rn_old_path b \<and>
       (rn_new_path a < rn_new_path b \<or>
        (rn_new_path a = rn_new_path b \<and> rn_similarity a < rn_similarity b))))"

definition rename_malformed :: "string list \<Rightarrow> PathRenameV1 \<Rightarrow> bool" where
  "rename_malformed changed_paths r =
     (100 < rn_similarity r \<or> rn_old_path r = rn_new_path r
      \<or> \<not> is_valid_repo_path (rn_old_path r) \<or> \<not> is_valid_repo_path (rn_new_path r)
      \<or> binary_search (rn_old_path r) changed_paths = None
      \<or> binary_search (rn_new_path r) changed_paths = None)"

definition validate_scope_shape :: "ChangeSetV1 \<Rightarrow> (string, unit) res" where
  "validate_scope_shape c =
     (if \<not> is_digest (cs_base_snapshot_id c) \<or> \<not> is_digest (cs_head_snapshot_id c)
      then Err ''ChangeSet@1 has an invalid Base or head Snapshot ID''
      else if blank (cs_git_version c) \<or> blank (cs_diff_policy_version c)
      then Err ''ChangeSet@1 requires Git build and diff-policy versions''
      else if \<not> strictly_ascending (<) (cs_changed_paths c)
          \<or> list_ex (\<lambda>path. \<not> is_valid_repo_path path) (cs_changed_paths c)
      then Err ''ChangeSet@1 changed paths must be sorted, unique, and relative''
      else if \<not> strictly_ascending rename_less (cs_renames c)
      then Err ''ChangeSet@1 renames must be sorted and unique''
      else if list_ex (rename_malformed (cs_changed_paths c)) (cs_renames c)
      then Err ''ChangeSet@1 rename paths must be changed, distinct, relative, and at most 100% similar''
      else Ok ())"

lemma strictly_ascending_sorted:
  "strictly_ascending (<) (xs :: 'a::linorder list) \<Longrightarrow> sorted xs"
  by (induction "(<) :: 'a \<Rightarrow> 'a \<Rightarrow> bool" xs rule: strictly_ascending.induct) auto

lemma validate_scope_shape_sorted: "validate_scope_shape c = Ok u \<Longrightarrow> sorted (cs_changed_paths c)"
  by (auto simp: validate_scope_shape_def split: if_splits intro: strictly_ascending_sorted)

subsection \<open>Artifact envelopes\<close>

datatype Producer =
    Attempt (run_id: string) (attempt_node: string) (attempt_id: string)
  | KernelOperation (run_id: string) (operation_node: "string option") (operation_id: string)

record ArtifactEnvelope =
  env_artifact_type :: string
  env_artifact_id :: string
  env_content_id :: string
  env_producer :: Producer
  env_input_artifacts :: "string list"
  env_subject_snapshot_id :: "string option"
  env_payload :: Value

definition is_monotonic_id :: "string \<Rightarrow> bool" where
  "is_monotonic_id v = (length v = 26 \<and> list_all (\<lambda>b. is_ascii_digit b \<or> is_ascii_lowercase b) v)"

definition validate_envelope_shape :: "ArtifactEnvelope \<Rightarrow> (string, unit) res" where
  "validate_envelope_shape e =
     (if \<not> is_artifact_type (env_artifact_type e) \<or> \<not> is_digest (env_artifact_id e)
         \<or> \<not> is_digest (env_content_id e) \<or> list_ex (\<lambda>d. \<not> is_digest d) (env_input_artifacts e)
         \<or> is_some_and (env_subject_snapshot_id e) (\<lambda>d. \<not> is_digest d) \<or> \<not> is_object (env_payload e)
      then Err ''artifact envelope contains invalid type, IDs, or payload''
      else (case env_producer e of
          Attempt r n a \<Rightarrow>
            if blank r \<or> blank n \<or> \<not> is_monotonic_id a
            then Err ''artifact envelope contains invalid Attempt producer'' else Ok ()
        | KernelOperation r n i \<Rightarrow>
            if blank r \<or> blank i \<or> is_some_and n blank
            then Err ''artifact envelope contains invalid kernel producer'' else Ok ()))"

end
