(* ===== verification/EventTypes.thy ===== *)
theory EventTypes
  imports ReviewTypes
begin

text \<open>
  The event vocabulary of \<^verbatim>\<open>crates/review-core/src/event.rs\<close> and the event record of a run's log. An
  event type is stored and exchanged as its \<open>Type@N\<close> spelling; reading that spelling back yields
  the type and every other spelling is refused.
\<close>

datatype EventType =
    TaskTransitionV5 | TaskExecutionStartedV1 | TaskGateRetriedV1 | TaskProviderEventV1 |
    TaskReviewResultSelectedV1 | CheckCompletedV1 | CampaignOpenedV1 | ChangeAttestedV1 |
    DemandRecordedV1 | DemandWaivedV1 | EvidenceAddedV1 | EvidenceReuseAdmittedV1 |
    EvidenceSatisfiedV1 | FindingReportedV1 | FindingResolutionChallengedV1 |
    FindingResolutionRecordedV1 | FindingResolvedV1 | FindingsGroupedV1 | FindingsUngroupedV1 |
    FixVerifiedV1 | GateDecisionV1 | GateExecutionBoundV1 | CacheSnapshotMaterializedV1 |
    GenerationAdvancedV1 | IntegrationPreparedV1 | IntegrationConflictV1 |
    IntegrationChecksCompletedV1 | IntegrationCommittedV1 | NodeInvocationV1 |
    NodeOutputReceiptV1 | PolicyTimeAdvancedV1 | ProposalAcceptedV1 | ProposalPreparedV1 |
    ProposalRefusedV1 | RunReportV6 | RoundInputSupersededV1 | RoundStartedV1 |
    SourceCapturedV1 | SliceSetAcceptedV1 | ShardSetRecordedV1 | SemanticClosureCheckedV1 |
    WarmSetSelectedV3 | WorkerNotesRecordedV1 | BuildCacheCapturedV1 | WorkspaceRebasedV1 |
    ProjectRegisteredV1 | WorkspaceRegisteredV1 | WorkspaceRemovedV1 | WorkspaceDeliveredV1 |
    SurveyRecordedV1 | SurveyFailedV1 | SurveyCollectedV1

definition all_event_types :: "EventType list" where
  "all_event_types =
    [TaskTransitionV5, TaskExecutionStartedV1, TaskGateRetriedV1, TaskProviderEventV1,
     TaskReviewResultSelectedV1, CheckCompletedV1, CampaignOpenedV1, ChangeAttestedV1,
     DemandRecordedV1, DemandWaivedV1, EvidenceAddedV1, EvidenceReuseAdmittedV1,
     EvidenceSatisfiedV1, FindingReportedV1, FindingResolutionChallengedV1,
     FindingResolutionRecordedV1, FindingResolvedV1, FindingsGroupedV1, FindingsUngroupedV1,
     FixVerifiedV1, GateDecisionV1, GateExecutionBoundV1, CacheSnapshotMaterializedV1,
     GenerationAdvancedV1, IntegrationPreparedV1, IntegrationConflictV1,
     IntegrationChecksCompletedV1, IntegrationCommittedV1, NodeInvocationV1,
     NodeOutputReceiptV1, PolicyTimeAdvancedV1, ProposalAcceptedV1, ProposalPreparedV1,
     ProposalRefusedV1, RunReportV6, RoundInputSupersededV1, RoundStartedV1, SourceCapturedV1,
     SliceSetAcceptedV1, ShardSetRecordedV1, SemanticClosureCheckedV1, WarmSetSelectedV3,
     WorkerNotesRecordedV1, BuildCacheCapturedV1, WorkspaceRebasedV1, ProjectRegisteredV1,
     WorkspaceRegisteredV1, WorkspaceRemovedV1, WorkspaceDeliveredV1, SurveyRecordedV1,
     SurveyFailedV1, SurveyCollectedV1]"

fun event_name :: "EventType \<Rightarrow> string" where
  "event_name TaskTransitionV5 = ''TaskTransition@5''"
| "event_name TaskExecutionStartedV1 = ''TaskExecutionStarted@1''"
| "event_name TaskGateRetriedV1 = ''TaskGateRetried@1''"
| "event_name TaskProviderEventV1 = ''TaskProviderEvent@1''"
| "event_name TaskReviewResultSelectedV1 = ''TaskReviewResultSelected@1''"
| "event_name CheckCompletedV1 = ''CheckCompleted@1''"
| "event_name CampaignOpenedV1 = ''CampaignOpened@1''"
| "event_name ChangeAttestedV1 = ''ChangeAttested@1''"
| "event_name DemandRecordedV1 = ''DemandRecorded@1''"
| "event_name DemandWaivedV1 = ''DemandWaived@1''"
| "event_name EvidenceAddedV1 = ''EvidenceAdded@1''"
| "event_name EvidenceReuseAdmittedV1 = ''EvidenceReuseAdmitted@1''"
| "event_name EvidenceSatisfiedV1 = ''EvidenceSatisfied@1''"
| "event_name FindingReportedV1 = ''FindingReported@1''"
| "event_name FindingResolutionChallengedV1 = ''FindingResolutionChallenged@1''"
| "event_name FindingResolutionRecordedV1 = ''FindingResolutionRecorded@1''"
| "event_name FindingResolvedV1 = ''FindingResolved@1''"
| "event_name FindingsGroupedV1 = ''FindingsGrouped@1''"
| "event_name FindingsUngroupedV1 = ''FindingsUngrouped@1''"
| "event_name FixVerifiedV1 = ''FixVerified@1''"
| "event_name GateDecisionV1 = ''GateDecision@1''"
| "event_name GateExecutionBoundV1 = ''GateExecutionBound@1''"
| "event_name CacheSnapshotMaterializedV1 = ''CacheSnapshotMaterialized@1''"
| "event_name GenerationAdvancedV1 = ''GenerationAdvanced@1''"
| "event_name IntegrationPreparedV1 = ''IntegrationPrepared@1''"
| "event_name IntegrationConflictV1 = ''IntegrationConflict@1''"
| "event_name IntegrationChecksCompletedV1 = ''IntegrationChecksCompleted@1''"
| "event_name IntegrationCommittedV1 = ''IntegrationCommitted@1''"
| "event_name NodeInvocationV1 = ''NodeInvocation@1''"
| "event_name NodeOutputReceiptV1 = ''NodeOutputReceipt@1''"
| "event_name PolicyTimeAdvancedV1 = ''PolicyTimeAdvanced@1''"
| "event_name ProposalAcceptedV1 = ''ProposalAccepted@1''"
| "event_name ProposalPreparedV1 = ''ProposalPrepared@1''"
| "event_name ProposalRefusedV1 = ''ProposalRefused@1''"
| "event_name RunReportV6 = ''RunReport@6''"
| "event_name RoundInputSupersededV1 = ''RoundInputSuperseded@1''"
| "event_name RoundStartedV1 = ''RoundStarted@1''"
| "event_name SourceCapturedV1 = ''SourceCaptured@1''"
| "event_name SliceSetAcceptedV1 = ''SliceSetAccepted@1''"
| "event_name ShardSetRecordedV1 = ''ShardSetRecorded@1''"
| "event_name SemanticClosureCheckedV1 = ''SemanticClosureChecked@1''"
| "event_name WarmSetSelectedV3 = ''WarmSetSelected@3''"
| "event_name WorkerNotesRecordedV1 = ''WorkerNotesRecorded@1''"
| "event_name BuildCacheCapturedV1 = ''BuildCacheCaptured@1''"
| "event_name WorkspaceRebasedV1 = ''WorkspaceRebased@1''"
| "event_name ProjectRegisteredV1 = ''ProjectRegistered@1''"
| "event_name WorkspaceRegisteredV1 = ''WorkspaceRegistered@1''"
| "event_name WorkspaceRemovedV1 = ''WorkspaceRemoved@1''"
| "event_name WorkspaceDeliveredV1 = ''WorkspaceDelivered@1''"
| "event_name SurveyRecordedV1 = ''SurveyRecorded@1''"
| "event_name SurveyFailedV1 = ''SurveyFailed@1''"
| "event_name SurveyCollectedV1 = ''SurveyCollected@1''"

fun typed :: "EventType \<Rightarrow> string \<times> nat" where
  "typed TaskTransitionV5 = (''TaskTransition'', 5)"
| "typed TaskExecutionStartedV1 = (''TaskExecutionStarted'', 1)"
| "typed TaskGateRetriedV1 = (''TaskGateRetried'', 1)"
| "typed TaskProviderEventV1 = (''TaskProviderEvent'', 1)"
| "typed TaskReviewResultSelectedV1 = (''TaskReviewResultSelected'', 1)"
| "typed CheckCompletedV1 = (''CheckCompleted'', 1)"
| "typed CampaignOpenedV1 = (''CampaignOpened'', 1)"
| "typed ChangeAttestedV1 = (''ChangeAttested'', 1)"
| "typed DemandRecordedV1 = (''DemandRecorded'', 1)"
| "typed DemandWaivedV1 = (''DemandWaived'', 1)"
| "typed EvidenceAddedV1 = (''EvidenceAdded'', 1)"
| "typed EvidenceReuseAdmittedV1 = (''EvidenceReuseAdmitted'', 1)"
| "typed EvidenceSatisfiedV1 = (''EvidenceSatisfied'', 1)"
| "typed FindingReportedV1 = (''FindingReported'', 1)"
| "typed FindingResolutionChallengedV1 = (''FindingResolutionChallenged'', 1)"
| "typed FindingResolutionRecordedV1 = (''FindingResolutionRecorded'', 1)"
| "typed FindingResolvedV1 = (''FindingResolved'', 1)"
| "typed FindingsGroupedV1 = (''FindingsGrouped'', 1)"
| "typed FindingsUngroupedV1 = (''FindingsUngrouped'', 1)"
| "typed FixVerifiedV1 = (''FixVerified'', 1)"
| "typed GateDecisionV1 = (''GateDecision'', 1)"
| "typed GateExecutionBoundV1 = (''GateExecutionBound'', 1)"
| "typed CacheSnapshotMaterializedV1 = (''CacheSnapshotMaterialized'', 1)"
| "typed GenerationAdvancedV1 = (''GenerationAdvanced'', 1)"
| "typed IntegrationPreparedV1 = (''IntegrationPrepared'', 1)"
| "typed IntegrationConflictV1 = (''IntegrationConflict'', 1)"
| "typed IntegrationChecksCompletedV1 = (''IntegrationChecksCompleted'', 1)"
| "typed IntegrationCommittedV1 = (''IntegrationCommitted'', 1)"
| "typed NodeInvocationV1 = (''NodeInvocation'', 1)"
| "typed NodeOutputReceiptV1 = (''NodeOutputReceipt'', 1)"
| "typed PolicyTimeAdvancedV1 = (''PolicyTimeAdvanced'', 1)"
| "typed ProposalAcceptedV1 = (''ProposalAccepted'', 1)"
| "typed ProposalPreparedV1 = (''ProposalPrepared'', 1)"
| "typed ProposalRefusedV1 = (''ProposalRefused'', 1)"
| "typed RunReportV6 = (''RunReport'', 6)"
| "typed RoundInputSupersededV1 = (''RoundInputSuperseded'', 1)"
| "typed RoundStartedV1 = (''RoundStarted'', 1)"
| "typed SourceCapturedV1 = (''SourceCaptured'', 1)"
| "typed SliceSetAcceptedV1 = (''SliceSetAccepted'', 1)"
| "typed ShardSetRecordedV1 = (''ShardSetRecorded'', 1)"
| "typed SemanticClosureCheckedV1 = (''SemanticClosureChecked'', 1)"
| "typed WarmSetSelectedV3 = (''WarmSetSelected'', 3)"
| "typed WorkerNotesRecordedV1 = (''WorkerNotesRecorded'', 1)"
| "typed BuildCacheCapturedV1 = (''BuildCacheCaptured'', 1)"
| "typed WorkspaceRebasedV1 = (''WorkspaceRebased'', 1)"
| "typed ProjectRegisteredV1 = (''ProjectRegistered'', 1)"
| "typed WorkspaceRegisteredV1 = (''WorkspaceRegistered'', 1)"
| "typed WorkspaceRemovedV1 = (''WorkspaceRemoved'', 1)"
| "typed WorkspaceDeliveredV1 = (''WorkspaceDelivered'', 1)"
| "typed SurveyRecordedV1 = (''SurveyRecorded'', 1)"
| "typed SurveyFailedV1 = (''SurveyFailed'', 1)"
| "typed SurveyCollectedV1 = (''SurveyCollected'', 1)"

datatype UnknownEventType = UnknownEventType string

definition event_table :: "(string \<times> EventType) list" where
  "event_table =
    [(''TaskTransition@5'', TaskTransitionV5),
     (''TaskExecutionStarted@1'', TaskExecutionStartedV1),
     (''TaskGateRetried@1'', TaskGateRetriedV1),
     (''TaskProviderEvent@1'', TaskProviderEventV1),
     (''TaskReviewResultSelected@1'', TaskReviewResultSelectedV1),
     (''CheckCompleted@1'', CheckCompletedV1), (''CampaignOpened@1'', CampaignOpenedV1),
     (''ChangeAttested@1'', ChangeAttestedV1), (''DemandRecorded@1'', DemandRecordedV1),
     (''DemandWaived@1'', DemandWaivedV1), (''EvidenceAdded@1'', EvidenceAddedV1),
     (''EvidenceReuseAdmitted@1'', EvidenceReuseAdmittedV1),
     (''EvidenceSatisfied@1'', EvidenceSatisfiedV1),
     (''FindingReported@1'', FindingReportedV1),
     (''FindingResolutionChallenged@1'', FindingResolutionChallengedV1),
     (''FindingResolutionRecorded@1'', FindingResolutionRecordedV1),
     (''FindingsGrouped@1'', FindingsGroupedV1),
     (''FindingsUngrouped@1'', FindingsUngroupedV1), (''FixVerified@1'', FixVerifiedV1),
     (''FindingResolved@1'', FindingResolvedV1), (''GateDecision@1'', GateDecisionV1),
     (''GateExecutionBound@1'', GateExecutionBoundV1),
     (''CacheSnapshotMaterialized@1'', CacheSnapshotMaterializedV1),
     (''GenerationAdvanced@1'', GenerationAdvancedV1),
     (''IntegrationPrepared@1'', IntegrationPreparedV1),
     (''IntegrationConflict@1'', IntegrationConflictV1),
     (''IntegrationChecksCompleted@1'', IntegrationChecksCompletedV1),
     (''IntegrationCommitted@1'', IntegrationCommittedV1),
     (''NodeInvocation@1'', NodeInvocationV1),
     (''NodeOutputReceipt@1'', NodeOutputReceiptV1),
     (''PolicyTimeAdvanced@1'', PolicyTimeAdvancedV1),
     (''ProposalAccepted@1'', ProposalAcceptedV1),
     (''ProposalPrepared@1'', ProposalPreparedV1),
     (''ProposalRefused@1'', ProposalRefusedV1), (''RunReport@6'', RunReportV6),
     (''RoundInputSuperseded@1'', RoundInputSupersededV1),
     (''RoundStarted@1'', RoundStartedV1), (''SourceCaptured@1'', SourceCapturedV1),
     (''SliceSetAccepted@1'', SliceSetAcceptedV1),
     (''ShardSetRecorded@1'', ShardSetRecordedV1),
     (''SemanticClosureChecked@1'', SemanticClosureCheckedV1),
     (''WarmSetSelected@3'', WarmSetSelectedV3),
     (''WorkerNotesRecorded@1'', WorkerNotesRecordedV1),
     (''BuildCacheCaptured@1'', BuildCacheCapturedV1),
     (''WorkspaceRebased@1'', WorkspaceRebasedV1),
     (''ProjectRegistered@1'', ProjectRegisteredV1),
     (''WorkspaceRegistered@1'', WorkspaceRegisteredV1),
     (''WorkspaceRemoved@1'', WorkspaceRemovedV1),
     (''WorkspaceDelivered@1'', WorkspaceDeliveredV1),
     (''SurveyRecorded@1'', SurveyRecordedV1), (''SurveyFailed@1'', SurveyFailedV1),
     (''SurveyCollected@1'', SurveyCollectedV1)]"

definition from_str :: "string \<Rightarrow> (UnknownEventType, EventType) res" where
  "from_str v = (case map_of event_table v of Some t \<Rightarrow> Ok t | None \<Rightarrow> Err (UnknownEventType v))"

record RunEvent =
  re_event_id :: string
  re_run_id :: string
  re_sequence :: nat
  re_event_type :: EventType
  re_occurred_at :: string
  re_node_id :: "string option"
  re_attempt_id :: "string option"
  re_causation_id :: "string option"
  re_correlation_id :: "string option"
  re_artifact_refs :: "string list"
  re_payload :: Value

lemma set_all_event_types: "set all_event_types = UNIV"
proof -
  have "t \<in> set all_event_types" for t by (cases t) (simp_all add: all_event_types_def)
  then show ?thesis by blast
qed

lemma from_str_event_name: "from_str (event_name t) = Ok t"
proof -
  have "list_all (\<lambda>t. from_str (event_name t) = Ok t) all_event_types" by code_simp
  then show ?thesis using set_all_event_types by (auto simp: list_all_iff)
qed

lemma from_str_sound: "from_str s = Ok t \<Longrightarrow> s = event_name t"
proof -
  assume "from_str s = Ok t"
  then have "(s, t) \<in> set event_table"
    by (auto simp: from_str_def split: option.splits dest: map_of_SomeD)
  moreover have "list_all (\<lambda>(name, t). name = event_name t) event_table" by code_simp
  ultimately show ?thesis by (auto simp: list_all_iff)
qed

lemma event_name_typed: "event_name t = fst (typed t) @ CHR ''@'' # show_nat (snd (typed t))"
proof -
  have "list_all (\<lambda>t. event_name t = fst (typed t) @ CHR ''@'' # show_nat (snd (typed t))) all_event_types" by code_simp
  then show ?thesis using set_all_event_types by (auto simp: list_all_iff)
qed

text \<open>
  Event types round trip. The spelling an event type is stored under is its name and version,
  and reading a spelling yields a type exactly when it is the spelling of that type, so a log
  never reads back as another event.
\<close>

theorem event_type_roundtrip:
  "event_name t = fst (typed t) @ CHR ''@'' # show_nat (snd (typed t)) \<and>
   (from_str s = Ok t \<longleftrightarrow> s = event_name t)"
  using event_name_typed from_str_event_name from_str_sound by blast

end
