(* ===== verification/Ledger.thy ===== *)
theory Ledger
  imports EventTypes
begin

text \<open>
  The Findings Ledger of \<^verbatim>\<open>crates/review-store/src/ledger.rs\<close>: its data, the projection of a Report, and
  the queries over the folded state (groups and their views, Demand views, convergence). The
  events that change the state are in \<open>LedgerEvents\<close>.

  Content storage, JSON decoding and hashing are outside the ledger. They are the fields of a
  \<open>Host\<close>, an argument of every operation that reads an artifact; a field that can fail returns
  the error's text on the left of a sum. \<open>manifest_identity_policy\<close> and \<open>as_fix_receipt\<close> decode and
  validate a document of which the ledger reads only the fields they return.
\<close>

subsection \<open>Findings\<close>

datatype ReportScope = In | Out

definition scope_name :: "ReportScope \<Rightarrow> string" where
  "scope_name s = (case s of In \<Rightarrow> ''in'' | Out \<Rightarrow> ''out'')"

datatype ScopeAuthorityKind = SubjectAuthority | ReportAuthority | RoundBinding

record ScopeAuthorityFailure =
  af_round :: nat
  af_authority :: ScopeAuthorityKind
  af_authority_id :: string
  af_reason :: string

datatype Status = Open | PendingVerification | Fixed | Rejected | Wontfix | Contested

definition parse_status :: "string \<Rightarrow> Status option" where
  "parse_status s =
     (if s = ''open'' then Some Open
      else if s = ''pending-verification'' then Some PendingVerification
      else if s = ''fixed'' then Some Fixed
      else if s = ''rejected'' then Some Rejected
      else if s = ''wontfix'' then Some Wontfix
      else if s = ''contested'' then Some Contested
      else None)"

fun status_name :: "Status \<Rightarrow> string" where
  "status_name Open = ''open''"
| "status_name PendingVerification = ''pending-verification''"
| "status_name Fixed = ''fixed''"
| "status_name Rejected = ''rejected''"
| "status_name Wontfix = ''wontfix''"
| "status_name Contested = ''contested''"

definition is_active :: "Status \<Rightarrow> bool" where
  "is_active s = (case s of Open \<Rightarrow> True | PendingVerification \<Rightarrow> True | Contested \<Rightarrow> True | _ \<Rightarrow> False)"

definition is_declined :: "Status \<Rightarrow> bool" where
  "is_declined s = (case s of Rejected \<Rightarrow> True | Wontfix \<Rightarrow> True | _ \<Rightarrow> False)"

record AttachedReport =
  ar_report_id :: string
  ar_artifact_id :: "string option"
  ar_round :: nat
  ar_source :: string
  ar_severity :: Severity
  ar_rule_id :: "string option"
  ar_occurrence_key :: "string option"
  ar_relations :: "Relation list"
  ar_file :: string
  ar_line :: "int option"
  ar_scope :: "ReportScope option"

definition scope_label :: "AttachedReport \<Rightarrow> string" where
  "scope_label r = (case ar_scope r of None \<Rightarrow> ''unknown'' | Some s \<Rightarrow> scope_name s)"

datatype TransitionKind = Reported | Duplicate | Escalated | Reopened | AdoptedWhileDeclined
  | AuthorityRecovered | Attested | Challenged | Resolved Status

record Transition =
  tr_round :: nat
  tr_kind :: TransitionKind
  tr_note :: "string option"

text \<open>A \<open>BTreeSet\<close> of strings: a map to the unit, so that it is finite and iterated in order.\<close>

type_synonym bset = "(string, unit) bmap"

abbreviation bs_insert :: "string \<Rightarrow> bset \<Rightarrow> bset" where
  "bs_insert x s \<equiv> bm_insert x () s"

definition bs_of_list :: "string list \<Rightarrow> bset" where
  "bs_of_list xs = bm_of_list (map (\<lambda>x. (x, ())) xs)"

abbreviation bs_elems :: "bset \<Rightarrow> string list" where
  "bs_elems s \<equiv> bm_keys s"

record Finding =
  fi_key :: string
  fi_aliases :: "string list"
  fi_status :: Status
  fi_severity :: Severity
  fi_last_seen_round :: nat
  fi_source :: string
  fi_identity_file :: string
  fi_identity_line :: "int option"
  fi_file :: string
  fi_line :: "int option"
  fi_title :: string
  fi_body :: string
  fi_fix :: string
  fi_confidence :: "rat option"
  fi_authority_diagnostic :: bool
  fi_unreadable_reports :: bset
  fi_convergence_scope :: "ReportScope option"
  fi_convergence_severity :: "Severity option"
  fi_scoped_news_round :: "nat option"
  fi_reports :: "AttachedReport list"
  fi_history :: "Transition list"

definition current_note :: "Finding \<Rightarrow> string option" where
  "current_note f = (case find (\<lambda>t. is_some_and (tr_note t) (\<lambda>n. n \<noteq> [])) (rev (fi_history f)) of
     None \<Rightarrow> None | Some t \<Rightarrow> tr_note t)"

definition convergence_scope_label :: "Finding \<Rightarrow> string" where
  "convergence_scope_label f =
     (case fi_convergence_scope f of None \<Rightarrow> ''unknown'' | Some s \<Rightarrow> scope_name s)"

subsection \<open>Ledger state\<close>

record RecordEvidence =
  ve_record_id :: string
  ve_artifact_id :: string

record RecordedEvidence =
  rev_record_id :: string
  rev_artifact_id :: string
  rev_evidence :: EvidenceV1

record RecordedSatisfaction =
  rsa_record_id :: string
  rsa_artifact_id :: string
  rsa_satisfaction :: EvidenceSatisfactionV1

record RecordedReuseAdmission =
  rre_record_id :: string
  rre_artifact_id :: string
  rre_admission :: EvidenceReuseAdmissionV1

record RecordedWaiver =
  rwa_record_id :: string
  rwa_artifact_id :: string
  rwa_waiver :: DemandWaiverV1

record DemandRecord =
  dr_demand :: DemandV1
  dr_record_ids :: "string list"
  dr_artifact_ids :: "string list"
  dr_evidence :: "RecordedEvidence list"
  dr_satisfactions :: "RecordedSatisfaction list"
  dr_reuse_admissions :: "RecordedReuseAdmission list"
  dr_waivers :: "RecordedWaiver list"

record RecordedAttestation =
  rat_record_id :: string
  rat_artifact_id :: string
  rat_attestation :: ChangeAttestationV1

record RecordedVerification =
  rvf_record_id :: string
  rvf_artifact_id :: string
  rvf_verification :: FixVerificationV1

record RecordedResolution =
  rrs_record_id :: string
  rrs_artifact_id :: string
  rrs_resolution :: FindingResolutionV1

datatype SubjectScope = WholeTree | Diff "string list" | Unavailable

record ActiveScope =
  as_round :: nat
  as_subject_id :: string
  as_head_snapshot_id :: string
  as_subject :: SubjectScope

record CachedSubjectScope =
  cc_scope :: SubjectScope
  cc_change_set_id :: "string option"
  cc_head_snapshot_id :: string

record Ledger =
  findings :: "(string, Finding) bmap"
  order_of :: "string list"
  active_scope :: "ActiveScope option"
  scope_authority_failures :: "ScopeAuthorityFailure list"
  scope_authority_failure_keys :: "ScopeAuthorityFailure set"
  subject_scope_cache :: "(string, CachedSubjectScope) bmap"
  finding_identity_policy :: string
  finding_identity_policy_unavailable :: bool
  active_groupings :: "(string, string) bmap"
  grouping_history :: "RecordEvidence list"
  demands :: "(string, DemandRecord) bmap"
  demand_order :: "string list"
  attestations :: "(string, RecordedAttestation) bmap"
  verifications :: "(string, RecordedVerification) bmap"
  resolutions :: "(string, RecordedResolution) bmap"
  resolution_authority :: "(string, string) bmap"
  resolution_history :: "RecordEvidence list"
  task_fixed_subjects :: "(string, string) bmap"
  policy_time :: nat
  ledger_round :: nat

definition fresh_ledger :: Ledger where
  "fresh_ledger = \<lparr>findings = bm_empty, order_of = [], active_scope = None,
     scope_authority_failures = [], scope_authority_failure_keys = {}, subject_scope_cache = bm_empty,
     finding_identity_policy = [], finding_identity_policy_unavailable = False,
     active_groupings = bm_empty, grouping_history = [], demands = bm_empty, demand_order = [],
     attestations = bm_empty, verifications = bm_empty, resolutions = bm_empty,
     resolution_authority = bm_empty, resolution_history = [], task_fixed_subjects = bm_empty,
     policy_time = 0, ledger_round = 0\<rparr>"

text \<open>A wall-clock time in an error text: the date of a day count in the proleptic Gregorian calendar.\<close>

definition civil_from_days :: "nat \<Rightarrow> nat \<times> nat \<times> nat" where
  "civil_from_days days =
     (let z = days + 719468; era = z div 146097; day_of_era = z mod 146097;
        year_of_era = (day_of_era - day_of_era div 1460 + day_of_era div 36524 - day_of_era div 146096) div 365;
        day_of_year = day_of_era - (365 * year_of_era + year_of_era div 4 - year_of_era div 100);
        shifted = (5 * day_of_year + 2) div 153;
        day = day_of_year - (153 * shifted + 2) div 5 + 1;
        month = (if shifted < 10 then shifted + 3 else shifted - 9);
        year = year_of_era + era * 400 + (if month \<le> 2 then 1 else 0)
      in (year, month, day))"

definition zero_padded :: "nat \<Rightarrow> nat \<Rightarrow> string" where
  "zero_padded width n = (let text = show_nat n in replicate (width - length text) CHR ''0'' @ text)"

definition utc_time :: "nat \<Rightarrow> string" where
  "utc_time seconds =
     (case civil_from_days (seconds div 86400) of (year, month, day) \<Rightarrow>
        let of_day = seconds mod 86400 in
        zero_padded 4 year @ ''-'' @ zero_padded 2 month @ ''-'' @ zero_padded 2 day @ ''T'' @
        zero_padded 2 (of_day div 3600) @ '':'' @ zero_padded 2 (of_day div 60 mod 60) @ '':'' @
        zero_padded 2 (of_day mod 60) @ ''Z'')"

definition collected_time :: "nat \<Rightarrow> string" where
  "collected_time unix_ms = utc_time (unix_ms div 1000)"

datatype StoreError = Conflict string | ArtifactError string | SqliteError string | JsonError string
  | DanglingArtifact string | TaskOutputRejected string | Durability string
  | Collected string nat

fun store_error_text :: "StoreError \<Rightarrow> string" where
  "store_error_text (Conflict what) = ''event store conflict: '' @ what"
| "store_error_text (ArtifactError what) = ''event store artifact: '' @ what"
| "store_error_text (SqliteError e) = ''event store: '' @ e"
| "store_error_text (JsonError e) = ''event store json: '' @ e"
| "store_error_text (DanglingArtifact digest) = ''event references an artifact that is not durable: '' @ digest"
| "store_error_text (TaskOutputRejected what) = ''Task output admission rejected: '' @ what"
| "store_error_text (Durability what) = ''a referenced artifact could not be made durable: '' @ what"
| "store_error_text (Collected task_id collected_unix_ms) =
     ''Task `'' @ task_id @ ''` was collected '' @ collected_time collected_unix_ms"

subsection \<open>The surroundings of the ledger\<close>

datatype VerificationOutcomeV1 = Positive | Negative | Inconclusive

record TaskFixReceiptV1 =
  tf_finding_id :: string
  tf_continuation_id :: string
  tf_subject_id :: string
  tf_expected_view_id :: string
  tf_attestation_id :: string
  tf_outcome :: VerificationOutcomeV1

record Host =
  get_json :: "string \<Rightarrow> string + Value"
  get_bytes :: "string \<Rightarrow> string + string"
  get_bounded :: "string \<Rightarrow> nat \<Rightarrow> string + string"
  cas_verify :: "string \<Rightarrow> string + nat"
  content_id :: "Value \<Rightarrow> string + string"
  artifact_id :: "ArtifactEnvelope \<Rightarrow> string + string"
  view_json :: "Finding \<Rightarrow> Value option"
  as_envelope :: "Value \<Rightarrow> string + ArtifactEnvelope"
  as_report :: "Value \<Rightarrow> string + FindingReport"
  as_grouping :: "Value \<Rightarrow> string + FindingGroupingV1"
  as_grouping_event :: "Value \<Rightarrow> string + FindingGroupingEventPayloadV1"
  as_recorded :: "Value \<Rightarrow> string + RecordedArtifactPayloadV1"
  as_demand :: "Value \<Rightarrow> string + DemandV1"
  as_evidence :: "Value \<Rightarrow> string + EvidenceV1"
  as_satisfaction :: "Value \<Rightarrow> string + EvidenceSatisfactionV1"
  as_reuse :: "Value \<Rightarrow> string + EvidenceReuseAdmissionV1"
  as_waiver :: "Value \<Rightarrow> string + DemandWaiverV1"
  as_attestation :: "Value \<Rightarrow> string + ChangeAttestationV1"
  as_verification :: "Value \<Rightarrow> string + FixVerificationV1"
  as_resolution :: "Value \<Rightarrow> string + FindingResolutionV1"
  as_challenge :: "Value \<Rightarrow> string + ResolutionChallengeV1"
  as_policy_time :: "Value \<Rightarrow> string + PolicyTimeV1"
  as_campaign_opened :: "Value \<Rightarrow> string + CampaignOpenedPayloadV1"
  as_round_started :: "Value \<Rightarrow> string + RoundStartedPayloadV1"
  manifest_identity_policy :: "Value \<Rightarrow> string + string"
  as_fix_receipt :: "Value \<Rightarrow> string + TaskFixReceiptV1"
  subject_of_bytes :: "string \<Rightarrow> string + SubjectV1"
  change_set_of_bytes :: "string \<Rightarrow> string + ChangeSetV1"

text \<open>\<open>map_err\<close>: the result of a call with the error text wrapped.\<close>

definition map_err :: "('a \<Rightarrow> 'e) \<Rightarrow> 'a + 'b \<Rightarrow> ('e, 'b) res" where
  "map_err f r = (case r of Inl e \<Rightarrow> Err (f e) | Inr v \<Rightarrow> Ok v)"

fun wrap_err :: "('a \<Rightarrow> 'e) \<Rightarrow> ('a, 'b) res \<Rightarrow> ('e, 'b) res" where
  "wrap_err f (Ok v) = Ok v"
| "wrap_err f (Err e) = Err (f e)"
| "wrap_err f Panic = Panic"

lemma map_err_simps [simp]: "map_err f (Inl e) = Err (f e)" "map_err f (Inr v) = Ok v"
  by (simp_all add: map_err_def)

lemma map_err_Ok [simp]: "map_err f r = Ok v \<longleftrightarrow> r = Inr v"
  by (cases r) simp_all

lemma map_err_not_Panic [simp]: "map_err f r \<noteq> Panic"
  by (cases r) simp_all

lemma wrap_err_Ok [simp]: "wrap_err f r = Ok v \<longleftrightarrow> r = Ok v"
  by (cases r) simp_all

lemma wrap_err_Panic [simp]: "wrap_err f r = Panic \<longleftrightarrow> r = Panic"
  by (cases r) simp_all

definition malformed :: "string \<Rightarrow> string \<Rightarrow> StoreError" where
  "malformed event detail = Conflict (''malformed '' @ event @ '': '' @ detail)"

definition validate_envelope :: "Host \<Rightarrow> ArtifactEnvelope \<Rightarrow> (string, unit) res" where
  "validate_envelope h e =
     and_then (validate_envelope_shape e) (\<lambda>_.
     and_then (map_err id (content_id h (env_payload e))) (\<lambda>content.
     if content \<noteq> env_content_id e
     then Err ''artifact envelope content_id disagrees with its payload''
     else and_then (map_err id (artifact_id h e)) (\<lambda>artifact.
       if artifact \<noteq> env_artifact_id e
       then Err ''artifact envelope artifact_id disagrees with its provenance''
       else Ok ())))"

subsection \<open>Resolving a Subject\<close>

record ResolvedSubjectScope =
  rsc_subject :: SubjectV1
  rsc_changed_paths :: "string list option"

definition MAX_CHANGE_SET_BYTES :: nat where
  "MAX_CHANGE_SET_BYTES = 4 * 1024 * 1024"

definition read_subject :: "Host \<Rightarrow> string \<Rightarrow> (StoreError, SubjectV1) res" where
  "read_subject h subject_id =
     and_then (map_err (\<lambda>e. ArtifactError (''Subject '' @ subject_id @ '' cannot be read: '' @ e))
       (get_bytes h subject_id)) (\<lambda>subject_bytes.
     and_then (map_err (\<lambda>e. ArtifactError (''Subject '' @ subject_id @ '' is malformed: '' @ e))
       (subject_of_bytes h subject_bytes)) (\<lambda>subject.
     and_then (wrap_err (\<lambda>e. ArtifactError (''Subject '' @ subject_id @ '' is invalid: '' @ e))
       (validate_subject subject)) (\<lambda>_. Ok subject)))"

definition validate_subject_binding ::
  "string \<Rightarrow> SubjectV1 \<Rightarrow> string \<Rightarrow> ChangeSetV1 \<Rightarrow> (StoreError, unit) res" where
  "validate_subject_binding subject_id subject change_set_id change_set =
     (if cs_base_snapshot_id change_set \<noteq> (case su_base_snapshot_id subject of None \<Rightarrow> [] | Some b \<Rightarrow> b)
         \<or> cs_head_snapshot_id change_set \<noteq> su_head_snapshot_id subject
      then Err (ArtifactError (''Change Set '' @ change_set_id @ '' contradicts Subject '' @ subject_id))
      else Ok ())"

definition resolve_subject_scope :: "Host \<Rightarrow> string \<Rightarrow> (StoreError, ResolvedSubjectScope) res" where
  "resolve_subject_scope h subject_id =
     and_then (read_subject h subject_id) (\<lambda>subject.
     (case su_kind subject of
        SubjectWholeTree \<Rightarrow> Ok \<lparr>rsc_subject = subject, rsc_changed_paths = None\<rparr>
      | SubjectDiff \<Rightarrow>
          and_then (ok_or (ArtifactError (''diff Subject '' @ subject_id @ '' has no Change Set''))
            (su_change_set_id subject)) (\<lambda>change_set_id.
          and_then (map_err (\<lambda>e. ArtifactError (''Subject '' @ subject_id
              @ '' references unreadable Change Set '' @ change_set_id @ '': '' @ e))
            (get_bounded h change_set_id MAX_CHANGE_SET_BYTES)) (\<lambda>change_set_bytes.
          and_then (map_err (\<lambda>e. ArtifactError (''Change Set '' @ change_set_id @ '' is malformed: '' @ e))
            (change_set_of_bytes h change_set_bytes)) (\<lambda>change_set.
          and_then (wrap_err (\<lambda>e. ArtifactError (''Change Set '' @ change_set_id @ '' is invalid: '' @ e))
            (validate_scope_shape change_set)) (\<lambda>_.
          and_then (validate_subject_binding subject_id subject change_set_id change_set) (\<lambda>_.
          Ok \<lparr>rsc_subject = subject, rsc_changed_paths = Some (cs_changed_paths change_set)\<rparr>)))))))"

subsection \<open>Groups of Findings\<close>

definition finding_identity_policy_of :: "Ledger \<Rightarrow> string option" where
  "finding_identity_policy_of l =
     (if \<not> finding_identity_policy_unavailable l \<and> finding_identity_policy l \<noteq> []
      then Some (finding_identity_policy l) else None)"

definition finding_for_occurrence :: "Ledger \<Rightarrow> string \<Rightarrow> string \<Rightarrow> string option" where
  "finding_for_occurrence l rule occurrence =
     (case filter (\<lambda>f. list_ex (\<lambda>r. ar_rule_id r = Some rule \<and> ar_occurrence_key r = Some occurrence)
        (fi_reports f)) (bm_values (findings l)) of
        [f] \<Rightarrow> Some (fi_key f)
      | _ \<Rightarrow> None)"

text \<open>The bounded walk of \<open>group_root\<close>: one lookup more than there are active groupings.\<close>

fun root_walk :: "nat \<Rightarrow> (string, string) bmap \<Rightarrow> string \<Rightarrow> string option" where
  "root_walk 0 groupings root_key = None"
| "root_walk (Suc n) groupings root_key =
     (case bm_get groupings root_key of None \<Rightarrow> Some root_key | Some into \<Rightarrow> root_walk n groupings into)"

definition group_root :: "Ledger \<Rightarrow> string \<Rightarrow> string option" where
  "group_root l key =
     (case bm_get (findings l) key of
        None \<Rightarrow> None
      | Some _ \<Rightarrow> root_walk (Suc (length (bm_keys (active_groupings l)))) (active_groupings l) key)"

definition group_members :: "Ledger \<Rightarrow> string \<Rightarrow> Finding list" where
  "group_members l root_key =
     List.map_filter (\<lambda>key. if group_root l key = Some root_key then bm_get (findings l) key else None) (order_of l)"

definition finding_member_keys :: "Ledger \<Rightarrow> string \<Rightarrow> (StoreError, string list) res" where
  "finding_member_keys l finding_id =
     and_then (ok_or (Conflict (''unknown Finding `'' @ finding_id @ ''`'')) (group_root l finding_id)) (\<lambda>root_key.
     Ok (map fi_key (group_members l root_key)))"

definition resolution :: "Ledger \<Rightarrow> string \<Rightarrow> RecordedResolution option" where
  "resolution l finding_id =
     (case bm_get (resolution_authority l) finding_id of
        None \<Rightarrow> None | Some key \<Rightarrow> bm_get (resolutions l) key)"

definition group_has_unexpired_tracked_resolution :: "Ledger \<Rightarrow> string \<Rightarrow> bool" where
  "group_has_unexpired_tracked_resolution l finding_id =
     (case group_root l finding_id of
        None \<Rightarrow> False
      | Some root_key \<Rightarrow> list_ex (\<lambda>f. fi_status f = Wontfix \<and>
          is_some_and (resolution l (fi_key f)) (\<lambda>r.
            rs_outcome (rrs_resolution r) = WontfixTracked \<and>
            is_some_and (rs_expires_at_policy_time (rrs_resolution r)) (\<lambda>expiry. policy_time l < expiry)))
          (group_members l root_key))"

definition combine_scope :: "ReportScope option \<Rightarrow> ReportScope option \<Rightarrow> ReportScope option" where
  "combine_scope current new =
     (if current = Some In \<or> new = Some In then Some In
      else if current = Some Out \<and> new = Some Out then Some Out
      else None)"

text \<open>\<open>Iterator::max_by_key\<close> (the last of several maxima) and \<open>Iterator::reduce\<close>.\<close>

definition max_by_key :: "('a \<Rightarrow> nat) \<Rightarrow> 'a list \<Rightarrow> 'a option" where
  "max_by_key f xs = foldl (\<lambda>best x. case best of None \<Rightarrow> Some x
     | Some y \<Rightarrow> if f y \<le> f x then Some x else Some y) None xs"

definition reduce :: "('a \<Rightarrow> 'a \<Rightarrow> 'a) \<Rightarrow> 'a list \<Rightarrow> 'a option" where
  "reduce f xs = (case xs of [] \<Rightarrow> None | x # rest \<Rightarrow> Some (foldl f x rest))"

definition flatten :: "'a option option \<Rightarrow> 'a option" where
  "flatten x = (case x of None \<Rightarrow> None | Some y \<Rightarrow> y)"

definition view_status :: "Finding list \<Rightarrow> Finding \<Rightarrow> Status" where
  "view_status members root_finding =
     (if list_ex (\<lambda>f. fi_status f = Contested) members then Contested
      else if list_ex (\<lambda>f. fi_status f = Open) members then Open
      else if list_ex (\<lambda>f. fi_status f = PendingVerification) members then PendingVerification
      else fi_status root_finding)"

definition finding_view_for_root :: "Ledger \<Rightarrow> string \<Rightarrow> Finding option" where
  "finding_view_for_root l root_key =
     (let members = group_members l root_key
      in case bm_get (findings l) root_key of
        None \<Rightarrow> None
      | Some root_finding \<Rightarrow>
          (let aliases = map fi_key (filter (\<lambda>f. fi_key f \<noteq> root_key) members);
               view = root_finding\<lparr>fi_aliases := aliases\<rparr>
           in if aliases = [] then Some view
              else Some (view\<lparr>
                fi_status := view_status members root_finding,
                fi_severity := (case max_by_key rank (map fi_severity members) of
                    None \<Rightarrow> fi_severity view | Some s \<Rightarrow> s),
                fi_last_seen_round := (case max_by_key id (map fi_last_seen_round members) of
                    None \<Rightarrow> fi_last_seen_round view | Some r \<Rightarrow> r),
                fi_scoped_news_round := max_by_key id (List.map_filter fi_scoped_news_round members),
                fi_convergence_scope := flatten (reduce combine_scope (map fi_convergence_scope members)),
                fi_convergence_severity := max_by_key rank (List.map_filter fi_convergence_severity members),
                fi_authority_diagnostic := list_ex fi_authority_diagnostic members,
                fi_unreadable_reports := bs_of_list (concat (map (bs_elems \<circ> fi_unreadable_reports) members)),
                fi_reports := concat (map fi_reports members),
                fi_history := sort_key tr_round (concat (map fi_history members))\<rparr>)))"

definition finding_list :: "Ledger \<Rightarrow> Finding list" where
  "finding_list l = List.map_filter (bm_get (findings l)) (order_of l)"

fun keep_new :: "bset \<Rightarrow> string list \<Rightarrow> string list" where
  "keep_new seen [] = []"
| "keep_new seen (x # xs) =
     (if bm_contains seen x then keep_new seen xs else x # keep_new (bs_insert x seen) xs)"

definition finding_views :: "Ledger \<Rightarrow> Finding list" where
  "finding_views l =
     List.map_filter (finding_view_for_root l)
       (keep_new bm_empty (List.map_filter (group_root l) (order_of l)))"

definition finding_view :: "Ledger \<Rightarrow> string \<Rightarrow> Finding option" where
  "finding_view l key = (case group_root l key of None \<Rightarrow> None | Some root_key \<Rightarrow> finding_view_for_root l root_key)"

definition finding_view_id :: "Host \<Rightarrow> Ledger \<Rightarrow> string \<Rightarrow> string option" where
  "finding_view_id h l key =
     (case finding_view l key of
        None \<Rightarrow> None
      | Some view \<Rightarrow>
          (case view_json h view of
             None \<Rightarrow> None
           | Some v \<Rightarrow> (case content_id h v of Inl _ \<Rightarrow> None | Inr digest \<Rightarrow> Some digest)))"

definition grouping_relation_ids :: "Ledger \<Rightarrow> string list" where
  "grouping_relation_ids l = map ve_artifact_id (grouping_history l)"

definition grouping_input_artifact_ids :: "Ledger \<Rightarrow> string list" where
  "grouping_input_artifact_ids l = map ve_record_id (grouping_history l)"

definition resolution_artifact_ids :: "Ledger \<Rightarrow> string list" where
  "resolution_artifact_ids l = map ve_artifact_id (resolution_history l)"

definition resolution_input_artifact_ids :: "Ledger \<Rightarrow> string list" where
  "resolution_input_artifact_ids l = map ve_record_id (resolution_history l)"

definition validate_group :: "Ledger \<Rightarrow> string \<Rightarrow> string \<Rightarrow> (StoreError, unit) res" where
  "validate_group l from into =
     (if from = into \<or> \<not> bm_contains (findings l) from \<or> \<not> bm_contains (findings l) into
      then Err (Conflict ''grouping requires two distinct existing Findings'')
      else if bm_contains (active_groupings l) from
      then Err (Conflict (''Finding `'' @ from @ ''` is already grouped into another Finding''))
      else if group_root l into \<noteq> Some into
      then Err (Conflict (''group target `'' @ into @ ''` is an alias; name its visible root instead''))
      else if group_has_unexpired_tracked_resolution l from \<or> group_has_unexpired_tracked_resolution l into
      then Err (Conflict ''cannot group a Finding carrying an unexpired tracked-wontfix Resolution; challenge the Resolution first'')
      else Ok ())"

definition validate_ungroup :: "Ledger \<Rightarrow> string \<Rightarrow> string \<Rightarrow> (StoreError, unit) res" where
  "validate_ungroup l from into =
     (if bm_get (active_groupings l) from \<noteq> Some into
      then Err (Conflict (''Findings `'' @ from @ ''` and `'' @ into @ ''` do not have that active grouping''))
      else and_then (ok_or (Conflict (''unknown Finding `'' @ from @ ''`'')) (group_root l from)) (\<lambda>root_key.
        if resolution l root_key \<noteq> None \<and> is_some_and (finding_view l root_key) (\<lambda>f. \<not> is_active (fi_status f))
        then Err (Conflict ''cannot ungroup a terminally resolved Finding group; challenge the Resolution first'')
        else Ok ()))"

subsection \<open>Subjects and Resolutions\<close>

definition active_subject_id :: "Ledger \<Rightarrow> string option" where
  "active_subject_id l = map_option as_subject_id (active_scope l)"

definition active_head_snapshot_id :: "Ledger \<Rightarrow> string option" where
  "active_head_snapshot_id l =
     (case active_scope l of
        None \<Rightarrow> None
      | Some scope \<Rightarrow> if as_head_snapshot_id scope \<noteq> [] then Some (as_head_snapshot_id scope) else None)"

definition active_change_set_id :: "Ledger \<Rightarrow> string option" where
  "active_change_set_id l =
     (case active_subject_id l of
        None \<Rightarrow> None
      | Some subject_id \<Rightarrow>
          (case bm_get (subject_scope_cache l) subject_id of None \<Rightarrow> None | Some c \<Rightarrow> cc_change_set_id c))"

definition resolution_challenge_for_report ::
  "Ledger \<Rightarrow> string \<Rightarrow> Severity \<Rightarrow> (StoreError, ResolutionChallengeKind option) res" where
  "resolution_challenge_for_report l finding_id severity =
     (case finding_view l finding_id of
        None \<Rightarrow> Ok None
      | Some finding \<Rightarrow>
          if \<not> is_declined (fi_status finding) then Ok None
          else (case resolution l finding_id of
              None \<Rightarrow> Ok None
            | Some recorded \<Rightarrow>
                if Some (rs_subject_id (rrs_resolution recorded)) \<noteq> active_subject_id l
                then Ok (Some OutsideScope)
                else (case rs_outcome (rrs_resolution recorded) of
                    WontfixTracked \<Rightarrow>
                      and_then (expect (rs_max_accepted_severity (rrs_resolution recorded))) (\<lambda>ceiling.
                      Ok (if rank ceiling < rank severity then Some HigherSeverity else None))
                  | ResolvedRejected \<Rightarrow>
                      Ok (if rank (fi_severity finding) < rank severity then Some HigherSeverity else None)
                  | ResolvedFixed \<Rightarrow> Ok None)))"

definition expiring_resolutions :: "Ledger \<Rightarrow> nat \<Rightarrow> RecordedResolution list" where
  "expiring_resolutions l tick =
     filter (\<lambda>r. is_some_and (rs_expires_at_policy_time (rrs_resolution r)) (\<lambda>expiry. expiry \<le> tick) \<and>
         is_some_and (bm_get (findings l) (rs_finding_id (rrs_resolution r))) (\<lambda>f. fi_status f = Wontfix))
       (bm_values (resolutions l))"

definition validate_expected_finding_view ::
  "Host \<Rightarrow> Ledger \<Rightarrow> string \<Rightarrow> string \<Rightarrow> EventType \<Rightarrow> (StoreError, unit) res" where
  "validate_expected_finding_view h l finding_id expected event_type =
     and_then (ok_or (malformed (event_name event_type) ''artifact names an unknown Finding'')
       (finding_view_id h l finding_id)) (\<lambda>actual.
     if actual \<noteq> expected then Err (malformed (event_name event_type) ''expected Finding view is stale'')
     else Ok ())"

subsection \<open>Demand views\<close>

definition current_satisfactions :: "string option \<Rightarrow> DemandRecord \<Rightarrow> RecordedSatisfaction list" where
  "current_satisfactions active_subject record =
     filter (\<lambda>s. Some (sa_subject_id (rsa_satisfaction s)) = active_subject \<or>
         list_ex (\<lambda>a. re_satisfaction_id (rre_admission a) = rsa_artifact_id s) (dr_reuse_admissions record))
       (dr_satisfactions record)"

definition demand_status :: "string option \<Rightarrow> DemandRecord \<Rightarrow> DemandStatus" where
  "demand_status active_subject record =
     (if dr_waivers record \<noteq> [] then Waived
      else if current_satisfactions active_subject record \<noteq> [] then Satisfied
      else if dr_satisfactions record \<noteq> [] \<or> dr_waivers record \<noteq> [] then Stale
      else DemandOpen)"

definition demand_view :: "string option \<Rightarrow> DemandRecord \<Rightarrow> DemandSetEntryV1" where
  "demand_view active_subject record =
     \<lparr>de_demand_id = dm_demand_id (dr_demand record), de_claim = dm_claim (dr_demand record),
      de_why = dm_why (dr_demand record), de_suggested_method = dm_suggested_method (dr_demand record),
      de_source = dm_source (dr_demand record), de_requirement = dm_requirement (dr_demand record),
      de_status = demand_status active_subject record,
      de_subject_id = (case active_subject of None \<Rightarrow> dm_subject_id (dr_demand record) | Some s \<Rightarrow> s),
      de_evidence_ids = map rev_artifact_id (dr_evidence record),
      de_satisfaction_ids = map rsa_artifact_id (current_satisfactions active_subject record)
        @ map rre_artifact_id (dr_reuse_admissions record),
      de_waiver_ids = map rwa_artifact_id (dr_waivers record)\<rparr>"

definition demand_views :: "Ledger \<Rightarrow> DemandSetEntryV1 list" where
  "demand_views l =
     map (demand_view (active_subject_id l)) (List.map_filter (bm_get (demands l)) (demand_order l))"

definition demand_reduction_artifact_ids :: "Ledger \<Rightarrow> string list \<times> string list \<times> string list" where
  "demand_reduction_artifact_ids l =
     (concat (map dr_artifact_ids (bm_values (demands l))),
      concat (map (\<lambda>d. map rsa_artifact_id (dr_satisfactions d) @ map rre_artifact_id (dr_reuse_admissions d))
        (bm_values (demands l))),
      concat (map (\<lambda>d. map rwa_artifact_id (dr_waivers d)) (bm_values (demands l))))"

definition demand_reduction_input_ids :: "Ledger \<Rightarrow> string list" where
  "demand_reduction_input_ids l =
     concat (map (\<lambda>d. dr_record_ids d @ map rev_record_id (dr_evidence d)
         @ map rsa_record_id (dr_satisfactions d) @ map rre_record_id (dr_reuse_admissions d)
         @ map rwa_record_id (dr_waivers d))
       (bm_values (demands l)))"

definition required_open_demands :: "Ledger \<Rightarrow> nat" where
  "required_open_demands l =
     length (filter (\<lambda>d. de_requirement d = Required \<and> (de_status d = DemandOpen \<or> de_status d = Stale))
       (demand_views l))"

subsection \<open>Convergence\<close>

datatype Verdict = Converged | NotConverged | Exhausted

record ConvergencePolicy =
  clean_rounds :: nat
  max_rounds :: nat
  gate :: Severity

record Convergence =
  cv_round :: nat
  cv_open_blocking :: nat
  cv_new_recent :: nat
  cv_open_required_demands :: nat
  cv_authority_failures_recent :: nat
  cv_verdict :: Verdict

definition since_round :: "Ledger \<Rightarrow> ConvergencePolicy \<Rightarrow> int" where
  "since_round l policy = int (ledger_round l) - int (clean_rounds policy)"

definition gated :: "ConvergencePolicy \<Rightarrow> Finding \<Rightarrow> bool" where
  "gated policy f = is_some_and (fi_convergence_severity f) (\<lambda>s. rank (gate policy) \<le> rank s)"

definition blocks :: "ConvergencePolicy \<Rightarrow> Finding \<Rightarrow> bool" where
  "blocks policy f = (is_active (fi_status f) \<and> \<not> fi_authority_diagnostic f \<and> gated policy f)"

definition recent_news :: "Ledger \<Rightarrow> ConvergencePolicy \<Rightarrow> Finding \<Rightarrow> bool" where
  "recent_news l policy f =
     (\<not> fi_authority_diagnostic f
      \<and> is_some_and (fi_scoped_news_round f) (\<lambda>r. since_round l policy < int r) \<and> gated policy f)"

definition recent_authority_failures :: "Ledger \<Rightarrow> ConvergencePolicy \<Rightarrow> ScopeAuthorityFailure list" where
  "recent_authority_failures l policy =
     filter (\<lambda>failure. since_round l policy < int (af_round failure)) (scope_authority_failures l)"

definition unresolved_unrecent_reports :: "Ledger \<Rightarrow> ConvergencePolicy \<Rightarrow> bset" where
  "unresolved_unrecent_reports l policy =
     (let recent_authority_ids = map af_authority_id (recent_authority_failures l policy)
      in bs_of_list (filter (\<lambda>report_id. report_id \<notin> set recent_authority_ids)
           (concat (map (bs_elems \<circ> fi_unreadable_reports) (bm_values (findings l))))))"

definition authority_failures_recent :: "Ledger \<Rightarrow> ConvergencePolicy \<Rightarrow> nat" where
  "authority_failures_recent l policy =
     length (recent_authority_failures l policy)
     + length (bs_elems (unresolved_unrecent_reports l policy))
     + (if finding_identity_policy_unavailable l then 1 else 0)"

definition convergence :: "Ledger \<Rightarrow> ConvergencePolicy \<Rightarrow> Convergence" where
  "convergence l policy =
     (let views = finding_views l;
          open_blocking = length (filter (blocks policy) views);
          new_recent = length (filter (recent_news l policy) views);
          failures = authority_failures_recent l policy;
          open_required = required_open_demands l
      in \<lparr>cv_round = ledger_round l, cv_open_blocking = open_blocking, cv_new_recent = new_recent,
          cv_open_required_demands = open_required, cv_authority_failures_recent = failures,
          cv_verdict =
            (if failures = 0 \<and> open_blocking = 0 \<and> new_recent = 0 \<and> open_required = 0
                \<and> clean_rounds policy \<le> ledger_round l
             then Converged
             else if max_rounds policy \<le> ledger_round l then Exhausted
             else NotConverged)\<rparr>)"

end
