(* ===== verification/LedgerEvents.thy ===== *)
theory LedgerEvents
  imports Ledger
begin

text \<open>
  The events that change the Findings Ledger (\<^verbatim>\<open>crates/review-store/src/ledger.rs\<close>): one definition per
  \<open>apply_\<dots>\<close> handler, their dispatch by event type, and the projection bound to one run's log.
  Every handler checks everything it reads before it changes the ledger, so an error leaves the
  state as it was and a handler returns the new ledger only on success.
\<close>

subsection \<open>Projecting a Report\<close>

record ProjectedLocation =
  pl_path :: string
  pl_line :: "int option"

datatype ReportLocation = ChangeWide | Paths "ProjectedLocation list" | Unrecorded

record ReportProjection =
  pr_artifact_id :: "string option"
  pr_subject_snapshot_id :: "string option"
  pr_severity :: Severity
  pr_file :: string
  pr_location :: ReportLocation
  pr_line :: "int option"
  pr_title :: string
  pr_body :: string
  pr_fix :: string
  pr_confidence :: "rat option"
  pr_rule_id :: "string option"
  pr_occurrence_key :: "string option"
  pr_relations :: "Relation list"
  pr_unreadable :: bool

definition CHANGE_WIDE_SENTINEL :: string where
  "CHANGE_WIDE_SENTINEL = ''(change-wide)''"

definition first_index :: "ReportLocation \<Rightarrow> nat option" where
  "first_index location = (case location of Paths (_ # _) \<Rightarrow> Some 0 | _ \<Rightarrow> None)"

text \<open>\<open>Iterator::min_by\<close> on path bytes: the first of several minima.\<close>

definition lowest_location :: "ProjectedLocation list \<Rightarrow> ProjectedLocation option" where
  "lowest_location locations = reduce (\<lambda>best x. if pl_path x < pl_path best then x else best) locations"

definition identity_location :: "ReportProjection \<Rightarrow> string \<times> int option" where
  "identity_location report =
     (case pr_location report of
        ChangeWide \<Rightarrow> (CHANGE_WIDE_SENTINEL, None)
      | Paths locations \<Rightarrow>
          (case lowest_location locations of
             None \<Rightarrow> (pr_file report, pr_line report)
           | Some location \<Rightarrow> (pl_path location, pl_line location))
      | Unrecorded \<Rightarrow> (pr_file report, pr_line report))"

definition from_artifact :: "Host \<Rightarrow> string \<Rightarrow> Value \<Rightarrow> (StoreError, ReportProjection) res" where
  "from_artifact h report_id v =
     and_then (map_err (\<lambda>e. ArtifactError (''report '' @ report_id @ '' is not an ArtifactEnvelope: '' @ e))
       (as_envelope h v)) (\<lambda>envelope.
     and_then (wrap_err (\<lambda>e. ArtifactError (''report '' @ report_id @ '': '' @ e)) (validate_envelope h envelope)) (\<lambda>_.
     if env_artifact_type envelope \<noteq> ''review.kernel/FindingReport@1''
     then Err (ArtifactError (''report '' @ report_id @ '' has type '' @ env_artifact_type envelope
       @ '', expected review.kernel/FindingReport@1''))
     else
     and_then (map_err (\<lambda>e. ArtifactError (''report '' @ report_id @ '' is not FindingReport@1: '' @ e))
       (as_report h (env_payload envelope))) (\<lambda>report.
     and_then (wrap_err (\<lambda>e. ArtifactError (''report '' @ report_id @ '' is not FindingReport@1: '' @ e))
       (validate_report report)) (\<lambda>_.
     let locations = map (\<lambda>l. \<lparr>pl_path = loc_path l, pl_line = map_option int (loc_line l)\<rparr>) (fr_locations report);
         (file, line, location) =
           (case locations of
              first # _ \<Rightarrow> (pl_path first, pl_line first, Paths locations)
            | [] \<Rightarrow> (CHANGE_WIDE_SENTINEL, None, ChangeWide))
     in Ok \<lparr>pr_artifact_id = Some (env_artifact_id envelope),
         pr_subject_snapshot_id = env_subject_snapshot_id envelope, pr_severity = fr_severity report,
         pr_file = file, pr_location = location, pr_line = line, pr_title = fr_title report,
         pr_body = fr_body report, pr_fix = fr_fix report, pr_confidence = Some (fr_confidence report),
         pr_rule_id = fr_rule_id report, pr_occurrence_key = fr_occurrence_key report,
         pr_relations = fr_relations report, pr_unreadable = False\<rparr>))))"

definition unreadable :: "string \<Rightarrow> string \<Rightarrow> ReportProjection" where
  "unreadable report_id reason =
     \<lparr>pr_artifact_id = None, pr_subject_snapshot_id = None, pr_severity = Blocker, pr_file = [],
      pr_location = Unrecorded, pr_line = None, pr_title = ''Unreadable Report artifact '' @ report_id,
      pr_body = reason, pr_fix = ''Restore or migrate the exact content-addressed Report artifact'',
      pr_confidence = None, pr_rule_id = None, pr_occurrence_key = None, pr_relations = [],
      pr_unreadable = True\<rparr>"

definition select_location :: "nat option \<Rightarrow> ReportProjection \<Rightarrow> ReportProjection" where
  "select_location selected report =
     (case (selected, pr_location report) of
        (Some i, Paths locations) \<Rightarrow>
          if i < length locations
          then report\<lparr>pr_file := pl_path (locations ! i), pr_line := pl_line (locations ! i)\<rparr>
          else report
      | _ \<Rightarrow> report)"

definition adopt :: "ReportProjection \<Rightarrow> string \<Rightarrow> Finding \<Rightarrow> Finding" where
  "adopt report source f =
     f\<lparr>fi_severity := pr_severity report, fi_source := source, fi_file := pr_file report,
       fi_line := pr_line report, fi_title := pr_title report, fi_body := pr_body report,
       fi_fix := pr_fix report, fi_confidence := pr_confidence report\<rparr>"

fun severity_name :: "Severity \<Rightarrow> string" where
  "severity_name Blocker = ''blocker''"
| "severity_name Major = ''major''"
| "severity_name Minor = ''minor''"

fun challenge_debug :: "ResolutionChallengeKind \<Rightarrow> string" where
  "challenge_debug NewEvidence = ''NewEvidence''"
| "challenge_debug HigherSeverity = ''HigherSeverity''"
| "challenge_debug OutsideScope = ''OutsideScope''"
| "challenge_debug Expired = ''Expired''"

subsection \<open>Reports\<close>

definition required_string :: "Value \<Rightarrow> string \<Rightarrow> string \<Rightarrow> (StoreError, string) res" where
  "required_string payload event field =
     ok_or (malformed event (''missing non-empty string `'' @ field @ ''`''))
       (case value_get payload field of
          None \<Rightarrow> None
        | Some v \<Rightarrow> (case as_str v of None \<Rightarrow> None | Some s \<Rightarrow> if blank s then None else Some s))"

definition required_round :: "Value \<Rightarrow> string \<Rightarrow> (StoreError, nat) res" where
  "required_round payload event =
     and_then (ok_or (malformed event ''missing integer `round`'')
       (case value_get payload ''round'' of None \<Rightarrow> None | Some v \<Rightarrow> as_u64 v)) (\<lambda>r.
     if r \<le> u32_max then Ok r else Err (malformed event ''`round` exceeds u32''))"

definition record_authority_failure ::
  "nat \<Rightarrow> ScopeAuthorityKind \<Rightarrow> string \<Rightarrow> string \<Rightarrow> Ledger \<Rightarrow> Ledger" where
  "record_authority_failure r authority authority_id reason l =
     (let failure = \<lparr>af_round = r, af_authority = authority, af_authority_id = authority_id, af_reason = reason\<rparr>
      in if failure \<in> scope_authority_failure_keys l then l
         else l\<lparr>scope_authority_failure_keys := insert failure (scope_authority_failure_keys l),
                scope_authority_failures := scope_authority_failures l @ [failure]\<rparr>)"

definition report_scope :: "nat \<Rightarrow> ReportLocation \<Rightarrow> Ledger \<Rightarrow> Ledger \<times> ReportScope option \<times> nat option" where
  "report_scope r location l =
     (case active_scope l of
        None \<Rightarrow> (l, None, first_index location)
      | Some active \<Rightarrow>
          if as_round active \<noteq> r
          then (record_authority_failure r RoundBinding (as_subject_id active)
                 (''Report round '' @ show_nat r @ '' disagrees with active RoundStarted@1 round ''
                   @ show_nat (as_round active)) l,
                None, first_index location)
          else (case (as_subject active, location) of
              (Unavailable, _) \<Rightarrow> (l, None, first_index location)
            | (_, Unrecorded) \<Rightarrow> (l, None, first_index location)
            | (WholeTree, _) \<Rightarrow> (l, Some In, first_index location)
            | (Diff _, ChangeWide) \<Rightarrow> (l, Some In, first_index location)
            | (Diff changed_paths, Paths paths) \<Rightarrow>
                (case find (\<lambda>i. contains_report_path changed_paths (pl_path (paths ! i))) [0..<length paths] of
                   Some i \<Rightarrow> (l, Some In, Some i)
                 | None \<Rightarrow> (l, Some Out, first_index location))))"

definition read_report :: "Host \<Rightarrow> nat \<Rightarrow> string \<Rightarrow> Ledger \<Rightarrow> (StoreError, Ledger \<times> ReportProjection) res" where
  "read_report h r report_id l =
     (case and_then (map_err (\<lambda>e. ''FindingReported@1 references '' @ report_id @ '': '' @ e)
              (get_json h report_id))
            (\<lambda>v. wrap_err store_error_text (from_artifact h report_id v)) of
        Ok report \<Rightarrow> Ok (l, report)
      | Err reason \<Rightarrow> Ok (record_authority_failure r ReportAuthority report_id reason l, unreadable report_id reason)
      | Panic \<Rightarrow> Panic)"

definition bind_report_snapshot :: "nat \<Rightarrow> string \<Rightarrow> Ledger \<times> ReportProjection \<Rightarrow> Ledger \<times> ReportProjection" where
  "bind_report_snapshot r report_id lr =
     (let (l, report) = lr
      in case (active_scope l, pr_subject_snapshot_id report) of
        (Some active, Some snapshot_id) \<Rightarrow>
          if as_head_snapshot_id active \<noteq> [] \<and> snapshot_id \<noteq> as_head_snapshot_id active
          then (record_authority_failure r RoundBinding report_id
                  (''Report Subject Snapshot '' @ snapshot_id @ '' disagrees with active Snapshot ''
                    @ as_head_snapshot_id active) l,
                report\<lparr>pr_location := Unrecorded\<rparr>)
          else (l, report)
      | _ \<Rightarrow> (l, report))"

definition out_of_scope :: "ReportScope option \<Rightarrow> bool" where
  "out_of_scope scope = (scope = Some Out)"

definition new_finding :: "string \<Rightarrow> string \<Rightarrow> nat \<Rightarrow> ReportProjection \<Rightarrow> string \<times> int option
    \<Rightarrow> AttachedReport \<Rightarrow> ReportScope option \<Rightarrow> Finding" where
  "new_finding key source r report identity attached scope =
     (let convergence_severity = (if out_of_scope scope then None else Some (pr_severity report))
      in \<lparr>fi_key = key, fi_aliases = [], fi_status = Open, fi_severity = pr_severity report,
          fi_last_seen_round = r, fi_source = source, fi_identity_file = fst identity,
          fi_identity_line = snd identity, fi_file = pr_file report, fi_line = pr_line report,
          fi_title = pr_title report, fi_body = pr_body report, fi_fix = pr_fix report,
          fi_confidence = pr_confidence report, fi_authority_diagnostic = pr_unreadable report,
          fi_unreadable_reports =
            (if pr_unreadable report then bs_of_list [ar_report_id attached] else bm_empty),
          fi_convergence_scope = scope, fi_convergence_severity = convergence_severity,
          fi_scoped_news_round = map_option (\<lambda>_. r) convergence_severity, fi_reports = [attached],
          fi_history = [\<lparr>tr_round = r, tr_kind = Reported, tr_note = None\<rparr>]\<rparr>)"

fun comma_join :: "string list \<Rightarrow> string" where
  "comma_join [] = []"
| "comma_join [x] = x"
| "comma_join (x # xs) = x @ '', '' @ comma_join xs"

definition recover_placeholder :: "string \<Rightarrow> nat \<Rightarrow> ReportProjection \<Rightarrow> string \<times> int option
    \<Rightarrow> ReportScope option \<Rightarrow> string list \<Rightarrow> Finding \<Rightarrow> Finding" where
  "recover_placeholder source r report identity scope recovered f =
     (let convergence_severity = (if out_of_scope scope then None else Some (pr_severity report));
          f1 = adopt report source (f\<lparr>fi_authority_diagnostic := False, fi_last_seen_round := r,
            fi_status := Open, fi_identity_file := fst identity, fi_identity_line := snd identity\<rparr>)
      in f1\<lparr>fi_convergence_scope := scope, fi_convergence_severity := convergence_severity,
           fi_scoped_news_round := map_option (\<lambda>_. r) convergence_severity,
           fi_history := fi_history f1 @ [\<lparr>tr_round = r, tr_kind = AuthorityRecovered,
             tr_note = Some (''authority recovered for Reports '' @ comma_join recovered
               @ '': readable Report supplied by '' @ source @ '' in round '' @ show_nat r
               @ ''; any prior resolution applied only to the authority placeholder'')\<rparr>]\<rparr>)"

definition note_recovery :: "string \<Rightarrow> nat \<Rightarrow> string list \<Rightarrow> Finding \<Rightarrow> Finding" where
  "note_recovery source r recovered f =
     (if recovered = [] then f
      else f\<lparr>fi_history := fi_history f @ [\<lparr>tr_round = r, tr_kind = AuthorityRecovered,
        tr_note = Some (''authority recovered for Reports '' @ comma_join recovered
          @ '': readable Report supplied by '' @ source @ '' in round '' @ show_nat r)\<rparr>]\<rparr>)"

definition transition_kind ::
  "ResolutionChallengeKind option \<Rightarrow> Severity \<Rightarrow> nat \<Rightarrow> Finding \<Rightarrow> TransitionKind" where
  "transition_kind challenge severity r f =
     (let higher = rank (fi_severity f) < rank severity
      in if challenge \<noteq> None then (if higher then Escalated else Challenged)
         else if is_declined (fi_status f) then (if higher then AdoptedWhileDeclined else Duplicate)
         else if fi_status f = Fixed \<and> fi_last_seen_round f < r then Reopened
         else if is_active (fi_status f) \<and> higher then Escalated
         else Duplicate)"

definition transition_note ::
  "TransitionKind \<Rightarrow> ResolutionChallengeKind option \<Rightarrow> Severity \<Rightarrow> string \<Rightarrow> nat \<Rightarrow> string option" where
  "transition_note kind challenge severity source r =
     (let by = '' by '' @ source @ '' in round '' @ show_nat r
      in case kind of
        Reopened \<Rightarrow> Some (''reopened: re-reported'' @ by)
      | Escalated \<Rightarrow>
          Some (case challenge of
              Some c \<Rightarrow> ''resolution challenge '' @ challenge_debug c @ '': re-reported as '' @ severity_name severity @ by
            | None \<Rightarrow> ''escalated: re-reported as '' @ severity_name severity @ by)
      | Challenged \<Rightarrow>
          map_option (\<lambda>c. ''resolution challenge '' @ challenge_debug c @ '': re-reported'' @ by) challenge
      | _ \<Rightarrow> None)"

definition move_status ::
  "TransitionKind \<Rightarrow> ResolutionChallengeKind option \<Rightarrow> ReportProjection \<Rightarrow> string \<Rightarrow> Finding \<Rightarrow> Finding" where
  "move_status kind challenge report source f =
     (case kind of
        Reopened \<Rightarrow> adopt report source (f\<lparr>fi_status := Open\<rparr>)
      | Escalated \<Rightarrow>
          (let f1 = adopt report source f in if challenge \<noteq> None then f1\<lparr>fi_status := Contested\<rparr> else f1)
      | AdoptedWhileDeclined \<Rightarrow>
          (let f1 = adopt report source f in if challenge \<noteq> None then f1\<lparr>fi_status := Contested\<rparr> else f1)
      | Challenged \<Rightarrow> f\<lparr>fi_status := Contested\<rparr>
      | _ \<Rightarrow> f)"

definition update_convergence ::
  "TransitionKind \<Rightarrow> ReportScope option \<Rightarrow> Severity \<Rightarrow> Finding \<Rightarrow> Finding" where
  "update_convergence kind scope severity f =
     (if kind = Reopened
      then f\<lparr>fi_convergence_scope := scope,
             fi_convergence_severity := (if out_of_scope scope then None else Some severity)\<rparr>
      else f\<lparr>fi_convergence_scope := combine_scope (fi_convergence_scope f) scope,
             fi_convergence_severity :=
               (if \<not> out_of_scope scope
                   \<and> (case fi_convergence_severity f of None \<Rightarrow> True | Some current \<Rightarrow> rank current < rank severity)
                then Some severity else fi_convergence_severity f)\<rparr>)"

definition merge_report :: "string \<Rightarrow> nat \<Rightarrow> ReportProjection \<Rightarrow> AttachedReport \<Rightarrow> ReportScope option
    \<Rightarrow> ResolutionChallengeKind option \<Rightarrow> string \<times> int option \<Rightarrow> Finding \<Rightarrow> Finding" where
  "merge_report source r report attached scope challenge identity existing =
     (let severity = pr_severity report;
          recovered = bs_elems (fi_unreadable_reports existing);
          f0 = existing\<lparr>fi_reports := fi_reports existing @ [attached], fi_unreadable_reports := bm_empty\<rparr>
      in if fi_authority_diagnostic f0 then recover_placeholder source r report identity scope recovered f0
         else
           (let f1 = note_recovery source r recovered f0;
                scoped_news = (\<not> out_of_scope scope \<and>
                  (case fi_convergence_severity f1 of None \<Rightarrow> True | Some previous \<Rightarrow> rank previous < rank severity));
                kind = transition_kind challenge severity r f1;
                f2 = move_status kind challenge report source (f1\<lparr>fi_last_seen_round := r\<rparr>);
                f3 = update_convergence kind scope severity f2;
                f4 = (if scoped_news \<or> (\<not> out_of_scope scope \<and> kind = Reopened)
                      then f3\<lparr>fi_scoped_news_round := Some r\<rparr> else f3)
            in f4\<lparr>fi_history := fi_history f4 @ [\<lparr>tr_round = r, tr_kind = kind,
                 tr_note = transition_note kind challenge severity source r\<rparr>]\<rparr>))"

definition admit_report :: "string \<Rightarrow> string \<Rightarrow> nat \<Rightarrow> string \<Rightarrow> Ledger \<times> ReportProjection \<Rightarrow> (StoreError, Ledger) res" where
  "admit_report key source r report_id lr =
     (let (l0, report0) = lr;
          identity = identity_location report0;
          (l, scope, selected) = report_scope r (pr_location report0) l0;
          report = select_location selected report0;
          attached = \<lparr>ar_report_id = report_id, ar_artifact_id = pr_artifact_id report, ar_round = r,
            ar_source = source, ar_severity = pr_severity report, ar_rule_id = pr_rule_id report,
            ar_occurrence_key = pr_occurrence_key report, ar_relations = pr_relations report,
            ar_file = pr_file report, ar_line = pr_line report, ar_scope = scope\<rparr>
      in and_then (if out_of_scope scope then Ok None
                   else resolution_challenge_for_report l key (pr_severity report)) (\<lambda>challenge.
         case bm_get (findings l) key of
           None \<Rightarrow> Ok (l\<lparr>order_of := order_of l @ [key],
               findings := bm_insert key (new_finding key source r report identity attached scope) (findings l)\<rparr>)
         | Some existing \<Rightarrow>
             if pr_unreadable report
             then Ok (l\<lparr>findings := bm_insert key
                 (existing\<lparr>fi_unreadable_reports := bs_insert report_id (fi_unreadable_reports existing),
                           fi_reports := fi_reports existing @ [attached]\<rparr>) (findings l)\<rparr>)
             else Ok (l\<lparr>findings := bm_insert key
                 (merge_report source r report attached scope challenge identity existing) (findings l)\<rparr>)))"

definition apply_report :: "Host \<Rightarrow> Value \<Rightarrow> string list \<Rightarrow> Ledger \<Rightarrow> (StoreError, Ledger) res" where
  "apply_report h payload artifact_refs l =
     and_then (required_string payload ''FindingReported@1'' ''key'') (\<lambda>key.
     and_then (required_string payload ''FindingReported@1'' ''source'') (\<lambda>source.
     and_then (required_round payload ''FindingReported@1'') (\<lambda>r.
     (case artifact_refs of
        [report_id] \<Rightarrow>
          if (case value_get payload ''report_id'' of None \<Rightarrow> None | Some v \<Rightarrow> as_str v) \<noteq> Some report_id
          then Err (malformed ''FindingReported@1'' ''payload `report_id` does not match its sole artifact reference'')
          else and_then (read_report h r report_id l) (\<lambda>lr.
            admit_report key source r report_id (bind_report_snapshot r report_id lr))
      | _ \<Rightarrow> Err (malformed ''FindingReported@1'' ''expected exactly one report artifact'')))))"

subsection \<open>Campaigns and Rounds\<close>

definition apply_generation :: "Value \<Rightarrow> Ledger \<Rightarrow> (StoreError, Ledger) res" where
  "apply_generation payload l =
     and_then (required_round payload ''GenerationAdvanced@1'') (\<lambda>r. Ok (l\<lparr>ledger_round := r\<rparr>))"

definition apply_campaign_opened :: "Host \<Rightarrow> Value \<Rightarrow> Ledger \<Rightarrow> (StoreError, Ledger) res" where
  "apply_campaign_opened h payload l =
     and_then (map_err (malformed ''CampaignOpened@1'') (as_campaign_opened h payload)) (\<lambda>opened.
     (case and_then (map_err id (get_json h (co_campaign_manifest_id opened)))
            (\<lambda>v. map_err id (manifest_identity_policy h v)) of
        Ok policy \<Rightarrow> Ok (l\<lparr>finding_identity_policy := policy, finding_identity_policy_unavailable := False\<rparr>)
      | Err reason \<Rightarrow>
          Ok (record_authority_failure (ledger_round l) SubjectAuthority (co_campaign_manifest_id opened)
            (''CampaignManifest authority unavailable: '' @ reason)
            (l\<lparr>finding_identity_policy := [], finding_identity_policy_unavailable := True\<rparr>))
      | Panic \<Rightarrow> Panic))"

definition resolve_scope :: "Host \<Rightarrow> string \<Rightarrow> (string, CachedSubjectScope) res" where
  "resolve_scope h subject_id =
     and_then (wrap_err store_error_text (resolve_subject_scope h subject_id)) (\<lambda>resolved.
     let cached = (\<lambda>scope. \<lparr>cc_scope = scope, cc_change_set_id = su_change_set_id (rsc_subject resolved),
           cc_head_snapshot_id = su_head_snapshot_id (rsc_subject resolved)\<rparr>)
     in case su_kind (rsc_subject resolved) of
          SubjectWholeTree \<Rightarrow> Ok (cached WholeTree)
        | SubjectDiff \<Rightarrow>
            and_then (ok_or (''diff Subject '' @ subject_id @ '' resolved without changed paths'')
              (rsc_changed_paths resolved)) (\<lambda>paths. Ok (cached (Diff paths))))"

text \<open>The scope of a Round's Subject, reverified on every Round, with the cache it leaves.\<close>

definition round_scope ::
  "Host \<Rightarrow> string \<Rightarrow> Ledger \<Rightarrow> Ledger \<times> (string, SubjectScope \<times> string) res" where
  "round_scope h subject_id l =
     (case cas_verify h subject_id of
        Inl reason \<Rightarrow> (l, Err reason)
      | Inr _ \<Rightarrow>
          (case bm_get (subject_scope_cache l) subject_id of
             Some cached \<Rightarrow>
               (l, and_then (case cc_change_set_id cached of
                     None \<Rightarrow> Ok ()
                   | Some change_set_id \<Rightarrow> and_then (map_err id (cas_verify h change_set_id)) (\<lambda>_. Ok ()))
                   (\<lambda>_. Ok (cc_scope cached, cc_head_snapshot_id cached)))
           | None \<Rightarrow>
               (case resolve_scope h subject_id of
                  Ok cached \<Rightarrow> (l\<lparr>subject_scope_cache := bm_insert subject_id cached (subject_scope_cache l)\<rparr>,
                    Ok (cc_scope cached, cc_head_snapshot_id cached))
                | Err reason \<Rightarrow> (l, Err reason)
                | Panic \<Rightarrow> (l, Panic))))"

definition apply_round_started :: "Host \<Rightarrow> Value \<Rightarrow> Ledger \<Rightarrow> (StoreError, Ledger) res" where
  "apply_round_started h payload l =
     and_then (map_err (malformed ''RoundStarted@1'') (as_round_started h payload)) (\<lambda>started.
     and_then (wrap_err (malformed ''RoundStarted@1'') (validate_round_started started)) (\<lambda>_.
     let (l1, resolved_scope) = round_scope h (rp_subject_id started) l;
         activate = (\<lambda>l2 scope head. l2\<lparr>active_scope := Some \<lparr>as_round = rp_round started,
           as_subject_id = rp_subject_id started, as_head_snapshot_id = head, as_subject = scope\<rparr>\<rparr>)
     in case resolved_scope of
          Ok (scope, head) \<Rightarrow> Ok (activate l1 scope head)
        | Err reason \<Rightarrow>
            Ok (activate (record_authority_failure (rp_round started) SubjectAuthority (rp_subject_id started) reason l1)
              Unavailable [])
        | Panic \<Rightarrow> Panic))"

subsection \<open>Resolutions by status, and Groupings\<close>

definition apply_resolution :: "Value \<Rightarrow> Ledger \<Rightarrow> (StoreError, Ledger) res" where
  "apply_resolution payload l =
     and_then (required_string payload ''FindingResolved@1'' ''key'') (\<lambda>key.
     and_then (required_string payload ''FindingResolved@1'' ''status'') (\<lambda>status_text.
     and_then (ok_or (malformed ''FindingResolved@1'' (''invalid status `'' @ status_text @ ''`''))
       (parse_status status_text)) (\<lambda>status.
     and_then (required_round payload ''FindingResolved@1'') (\<lambda>r.
     and_then (case value_get payload ''note'' of
         None \<Rightarrow> Ok None
       | Some JNull \<Rightarrow> Ok None
       | Some (JString note) \<Rightarrow> Ok (Some note)
       | Some _ \<Rightarrow> Err (malformed ''FindingResolved@1'' ''`note` must be a string or null'')) (\<lambda>note.
     and_then (ok_or (malformed ''FindingResolved@1'' (''unknown finding key `'' @ key @ ''`''))
       (bm_get (findings l) key)) (\<lambda>finding.
     Ok (l\<lparr>findings := bm_insert key
       (finding\<lparr>fi_status := status,
                fi_history := fi_history finding @ [\<lparr>tr_round = r, tr_kind = Resolved status, tr_note = note\<rparr>]\<rparr>)
       (findings l)\<rparr>)))))))"

text \<open>The artifact an event names as its sole reference, with both identities verified.\<close>

definition read_envelope :: "Host \<Rightarrow> EventType \<Rightarrow> string \<Rightarrow> (StoreError, ArtifactEnvelope) res" where
  "read_envelope h event_type record_id =
     and_then (map_err (malformed (event_name event_type)) (get_json h record_id)) (\<lambda>v.
     and_then (map_err (malformed (event_name event_type)) (as_envelope h v)) (\<lambda>envelope.
     and_then (wrap_err (malformed (event_name event_type)) (validate_envelope h envelope)) (\<lambda>_. Ok envelope)))"

text \<open>Decoding and validating the payload of an envelope of an expected type.\<close>

definition read_payload :: "EventType \<Rightarrow> string \<Rightarrow> string \<Rightarrow> (Value \<Rightarrow> string + 'a)
    \<Rightarrow> ('a \<Rightarrow> (string, unit) res) \<Rightarrow> ArtifactEnvelope \<Rightarrow> (StoreError, 'a) res" where
  "read_payload event_type expected_type wrong_type decode validate envelope =
     (if env_artifact_type envelope \<noteq> expected_type
      then Err (malformed (event_name event_type) wrong_type)
      else and_then (map_err (malformed (event_name event_type)) (decode (env_payload envelope))) (\<lambda>payload.
        and_then (wrap_err (malformed (event_name event_type)) (validate payload)) (\<lambda>_. Ok payload)))"

definition apply_grouping :: "Host \<Rightarrow> EventType \<Rightarrow> Value \<Rightarrow> string list \<Rightarrow> Ledger \<Rightarrow> (StoreError, Ledger) res" where
  "apply_grouping h event_type payload artifact_refs l =
     and_then (map_err (malformed (event_name event_type)) (as_grouping_event h payload)) (\<lambda>event.
     and_then (wrap_err (malformed (event_name event_type)) (validate_grouping_event event)) (\<lambda>_.
     if artifact_refs \<noteq> [ge_grouping_artifact_id event]
     then Err (malformed (event_name event_type) ''grouping artifact ID disagrees with its sole reference'')
     else
     and_then (read_envelope h event_type (ge_grouping_artifact_id event)) (\<lambda>envelope.
     and_then (read_payload event_type ''review.kernel/FindingGrouping@1'' ''grouping artifact carries the wrong type''
       (as_grouping h) validate_grouping envelope) (\<lambda>grouping.
     if gr_from grouping \<noteq> ge_from event \<or> gr_into grouping \<noteq> ge_into event
        \<or> gr_action grouping \<noteq> (if event_type = FindingsGroupedV1 then Group else Ungroup)
     then Err (malformed (event_name event_type) ''grouping event disagrees with its immutable artifact'')
     else
     and_then (case gr_action grouping of
         Group \<Rightarrow> validate_group l (gr_from grouping) (gr_into grouping)
       | Ungroup \<Rightarrow> validate_ungroup l (gr_from grouping) (gr_into grouping)) (\<lambda>_.
     let l1 = l\<lparr>grouping_history := grouping_history l
           @ [\<lparr>ve_record_id = ge_grouping_artifact_id event, ve_artifact_id = env_artifact_id envelope\<rparr>]\<rparr>
     in Ok (case gr_action grouping of
          Group \<Rightarrow> l1\<lparr>active_groupings := bm_insert (gr_from grouping) (gr_into grouping) (active_groupings l1)\<rparr>
        | Ungroup \<Rightarrow> l1\<lparr>active_groupings := bm_remove (gr_from grouping) (active_groupings l1)\<rparr>))))))"

subsection \<open>Demands and Evidence\<close>

definition read_recorded :: "Host \<Rightarrow> EventType \<Rightarrow> Value \<Rightarrow> string list \<Rightarrow> (StoreError, string \<times> ArtifactEnvelope) res" where
  "read_recorded h event_type payload artifact_refs =
     and_then (map_err (malformed (event_name event_type)) (as_recorded h payload)) (\<lambda>recorded.
     and_then (wrap_err (malformed (event_name event_type)) (validate_recorded recorded)) (\<lambda>_.
     if artifact_refs \<noteq> [rec_artifact_id recorded]
     then Err (malformed (event_name event_type) ''recorded artifact disagrees with its sole reference'')
     else and_then (read_envelope h event_type (rec_artifact_id recorded)) (\<lambda>envelope.
       Ok (rec_artifact_id recorded, envelope))))"

definition record_demand :: "Host \<Rightarrow> EventType \<Rightarrow> string \<Rightarrow> ArtifactEnvelope \<Rightarrow> Ledger \<Rightarrow> (StoreError, Ledger) res" where
  "record_demand h event_type record_id envelope l =
     and_then (read_payload event_type ''review.kernel/Demand@1'' ''artifact is not Demand@1''
       (as_demand h) validate_demand envelope) (\<lambda>demand.
     (case bm_get (demands l) (dm_demand_id demand) of
        Some existing \<Rightarrow>
          if dm_claim (dr_demand existing) \<noteq> dm_claim demand \<or> dm_why (dr_demand existing) \<noteq> dm_why demand
             \<or> dm_suggested_method (dr_demand existing) \<noteq> dm_suggested_method demand
             \<or> dm_source (dr_demand existing) \<noteq> dm_source demand
             \<or> dm_requirement (dr_demand existing) \<noteq> dm_requirement demand
          then Err (malformed (event_name event_type) ''stable Demand identity changes immutable content'')
          else Ok (l\<lparr>demands := bm_insert (dm_demand_id demand)
            (existing\<lparr>dr_record_ids := dr_record_ids existing @ [record_id],
                      dr_artifact_ids := dr_artifact_ids existing @ [env_artifact_id envelope]\<rparr>) (demands l)\<rparr>)
      | None \<Rightarrow>
          Ok (l\<lparr>demand_order := demand_order l @ [dm_demand_id demand],
                demands := bm_insert (dm_demand_id demand)
                  \<lparr>dr_demand = demand, dr_record_ids = [record_id], dr_artifact_ids = [env_artifact_id envelope],
                   dr_evidence = [], dr_satisfactions = [], dr_reuse_admissions = [], dr_waivers = []\<rparr>
                  (demands l)\<rparr>)))"

definition record_evidence :: "Host \<Rightarrow> EventType \<Rightarrow> string \<Rightarrow> ArtifactEnvelope \<Rightarrow> Ledger \<Rightarrow> (StoreError, Ledger) res" where
  "record_evidence h event_type record_id envelope l =
     and_then (read_payload event_type ''review.kernel/Evidence@1'' ''artifact is not Evidence@1''
       (as_evidence h) validate_evidence envelope) (\<lambda>evidence.
     and_then (ok_or (malformed (event_name event_type) ''Evidence names an unknown Demand'')
       (bm_get (demands l) (ev_demand_id evidence))) (\<lambda>demand.
     Ok (l\<lparr>demands := bm_insert (ev_demand_id evidence)
       (demand\<lparr>dr_evidence := dr_evidence demand @ [\<lparr>rev_record_id = record_id,
         rev_artifact_id = env_artifact_id envelope, rev_evidence = evidence\<rparr>]\<rparr>) (demands l)\<rparr>)))"

definition record_satisfaction :: "Host \<Rightarrow> EventType \<Rightarrow> string \<Rightarrow> ArtifactEnvelope \<Rightarrow> Ledger \<Rightarrow> (StoreError, Ledger) res" where
  "record_satisfaction h event_type record_id envelope l =
     and_then (read_payload event_type ''review.kernel/EvidenceSatisfaction@1'' ''artifact is not EvidenceSatisfaction@1''
       (as_satisfaction h) validate_satisfaction envelope) (\<lambda>satisfaction.
     and_then (ok_or (malformed (event_name event_type) ''satisfaction names an unknown Demand'')
       (bm_get (demands l) (sa_demand_id satisfaction))) (\<lambda>demand.
     if \<not> list_ex (\<lambda>e. rev_artifact_id e = sa_evidence_id satisfaction) (dr_evidence demand)
     then Err (malformed (event_name event_type) ''satisfaction names Evidence outside its Demand'')
     else Ok (l\<lparr>demands := bm_insert (sa_demand_id satisfaction)
       (demand\<lparr>dr_satisfactions := dr_satisfactions demand @ [\<lparr>rsa_record_id = record_id,
         rsa_artifact_id = env_artifact_id envelope, rsa_satisfaction = satisfaction\<rparr>]\<rparr>) (demands l)\<rparr>)))"

definition record_reuse :: "Host \<Rightarrow> EventType \<Rightarrow> string \<Rightarrow> ArtifactEnvelope \<Rightarrow> Ledger \<Rightarrow> (StoreError, Ledger) res" where
  "record_reuse h event_type record_id envelope l =
     and_then (read_payload event_type ''review.kernel/EvidenceReuseAdmission@1'' ''artifact is not EvidenceReuseAdmission@1''
       (as_reuse h) validate_reuse envelope) (\<lambda>admission.
     and_then (ok_or (malformed (event_name event_type) ''reuse names an unknown Demand'')
       (bm_get (demands l) (re_demand_id admission))) (\<lambda>demand.
     if \<not> list_ex (\<lambda>s. rsa_artifact_id s = re_satisfaction_id admission
         \<and> sa_subject_id (rsa_satisfaction s) = re_subject_id admission) (dr_satisfactions demand)
     then Err (malformed (event_name event_type) ''reuse does not name a satisfaction for its Demand and Subject'')
     else Ok (l\<lparr>demands := bm_insert (re_demand_id admission)
       (demand\<lparr>dr_reuse_admissions := dr_reuse_admissions demand @ [\<lparr>rre_record_id = record_id,
         rre_artifact_id = env_artifact_id envelope, rre_admission = admission\<rparr>]\<rparr>) (demands l)\<rparr>)))"

definition record_waiver :: "Host \<Rightarrow> EventType \<Rightarrow> string \<Rightarrow> ArtifactEnvelope \<Rightarrow> Ledger \<Rightarrow> (StoreError, Ledger) res" where
  "record_waiver h event_type record_id envelope l =
     and_then (read_payload event_type ''review.kernel/DemandWaiver@1'' ''artifact is not DemandWaiver@1''
       (as_waiver h) validate_waiver envelope) (\<lambda>waiver.
     and_then (ok_or (malformed (event_name event_type) ''waiver names an unknown Demand'')
       (bm_get (demands l) (wa_demand_id waiver))) (\<lambda>demand.
     Ok (l\<lparr>demands := bm_insert (wa_demand_id waiver)
       (demand\<lparr>dr_waivers := dr_waivers demand @ [\<lparr>rwa_record_id = record_id,
         rwa_artifact_id = env_artifact_id envelope, rwa_waiver = waiver\<rparr>]\<rparr>) (demands l)\<rparr>)))"

definition apply_demand_evidence ::
  "Host \<Rightarrow> EventType \<Rightarrow> Value \<Rightarrow> string list \<Rightarrow> Ledger \<Rightarrow> (StoreError, Ledger) res" where
  "apply_demand_evidence h event_type payload artifact_refs l =
     and_then (read_recorded h event_type payload artifact_refs) (\<lambda>(record_id, envelope).
     if event_type = DemandRecordedV1 then record_demand h event_type record_id envelope l
     else if event_type = EvidenceAddedV1 then record_evidence h event_type record_id envelope l
     else if event_type = EvidenceSatisfiedV1 then record_satisfaction h event_type record_id envelope l
     else if event_type = EvidenceReuseAdmittedV1 then record_reuse h event_type record_id envelope l
     else if event_type = DemandWaivedV1 then record_waiver h event_type record_id envelope l
     else Panic)"

subsection \<open>Resolution authority\<close>

text \<open>The loop over the members of a group; each key is expected to exist.\<close>

fun update_members :: "(Finding \<Rightarrow> Finding) \<Rightarrow> string list \<Rightarrow> Ledger \<Rightarrow> (StoreError, Ledger) res" where
  "update_members change [] l = Ok l"
| "update_members change (key # keys) l =
     and_then (expect (bm_get (findings l) key)) (\<lambda>finding.
     update_members change keys (l\<lparr>findings := bm_insert key (change finding) (findings l)\<rparr>))"

definition set_status :: "nat \<Rightarrow> Status \<Rightarrow> TransitionKind \<Rightarrow> string \<Rightarrow> Finding \<Rightarrow> Finding" where
  "set_status r status kind note f =
     f\<lparr>fi_status := status, fi_history := fi_history f @ [\<lparr>tr_round = r, tr_kind = kind, tr_note = Some note\<rparr>]\<rparr>"

definition record_attestation ::
  "Host \<Rightarrow> EventType \<Rightarrow> string \<Rightarrow> ArtifactEnvelope \<Rightarrow> string \<Rightarrow> Ledger \<Rightarrow> (StoreError, Ledger) res" where
  "record_attestation h event_type record_id envelope active_subject l =
     and_then (read_payload event_type ''review.kernel/ChangeAttestation@1'' ''artifact is not ChangeAttestation@1''
       (as_attestation h) validate_attestation envelope) (\<lambda>attestation.
     and_then (validate_expected_finding_view h l (ca_finding_id attestation)
       (ca_expected_finding_view_id attestation) event_type) (\<lambda>_.
     if ca_subject_id attestation \<noteq> active_subject
        \<or> active_change_set_id l \<noteq> ca_change_set_id attestation
        \<or> env_subject_snapshot_id envelope \<noteq> active_head_snapshot_id l
     then Err (malformed (event_name event_type) ''Attestation does not cover the active Subject and Change Set'')
     else
     and_then (finding_member_keys l (ca_finding_id attestation)) (\<lambda>keys.
     and_then (update_members (set_status (ledger_round l) PendingVerification Attested (ca_reason attestation))
       keys l) (\<lambda>l1.
     Ok (l1\<lparr>attestations := bm_insert (env_artifact_id envelope)
       \<lparr>rat_record_id = record_id, rat_artifact_id = env_artifact_id envelope, rat_attestation = attestation\<rparr>
       (attestations l1)\<rparr>)))))"

definition record_verification ::
  "Host \<Rightarrow> EventType \<Rightarrow> string \<Rightarrow> ArtifactEnvelope \<Rightarrow> string \<Rightarrow> Ledger \<Rightarrow> (StoreError, Ledger) res" where
  "record_verification h event_type record_id envelope active_subject l =
     and_then (read_payload event_type ''review.kernel/FixVerification@1'' ''artifact is not FixVerification@1''
       (as_verification h) validate_verification envelope) (\<lambda>verification.
     and_then (validate_expected_finding_view h l (fv_finding_id verification)
       (fv_expected_finding_view_id verification) event_type) (\<lambda>_.
     and_then (ok_or (malformed (event_name event_type) ''verification names unknown Attestation'')
       (bm_get (attestations l) (fv_attestation_id verification))) (\<lambda>attestation.
     if fv_subject_id verification \<noteq> active_subject
        \<or> ca_finding_id (rat_attestation attestation) \<noteq> fv_finding_id verification
        \<or> ca_subject_id (rat_attestation attestation) \<noteq> fv_subject_id verification
     then Err (malformed (event_name event_type) ''verification does not cover its Attestation and active Subject'')
     else Ok (l\<lparr>verifications := bm_insert (env_artifact_id envelope)
       \<lparr>rvf_record_id = record_id, rvf_artifact_id = env_artifact_id envelope, rvf_verification = verification\<rparr>
       (verifications l)\<rparr>))))"

definition resolution_status :: "EventType \<Rightarrow> FindingResolutionV1 \<Rightarrow> Ledger \<Rightarrow> (StoreError, Status) res" where
  "resolution_status event_type res l =
     (case rs_outcome res of
        ResolvedFixed \<Rightarrow>
          and_then (expect (rs_verification_id res)) (\<lambda>verification_id.
          and_then (ok_or (malformed (event_name event_type) ''fixed Resolution names unknown FixVerification'')
            (bm_get (verifications l) verification_id)) (\<lambda>verification.
          if \<not> fv_positive (rvf_verification verification)
             \<or> fv_finding_id (rvf_verification verification) \<noteq> rs_finding_id res
             \<or> fv_subject_id (rvf_verification verification) \<noteq> rs_subject_id res
          then Err (malformed (event_name event_type) ''fixed Resolution lacks positive current-Subject verification'')
          else Ok Fixed))
      | ResolvedRejected \<Rightarrow> Ok Rejected
      | WontfixTracked \<Rightarrow>
          and_then (expect (rs_max_accepted_severity res)) (\<lambda>ceiling.
          if is_some_and (case finding_view l (rs_finding_id res) of
                 None \<Rightarrow> None | Some f \<Rightarrow> fi_convergence_severity f) (\<lambda>s. rank ceiling < rank s)
          then Err (malformed (event_name event_type)
            ''tracked-wontfix severity ceiling is below the current Finding severity'')
          else if is_some_and (rs_expires_at_policy_time res) (\<lambda>expiry. expiry \<le> policy_time l)
          then Err (malformed (event_name event_type)
            ''tracked-wontfix expiry is not later than current persisted policy time'')
          else Ok Wontfix))"

definition record_resolution ::
  "Host \<Rightarrow> EventType \<Rightarrow> string \<Rightarrow> ArtifactEnvelope \<Rightarrow> string \<Rightarrow> Ledger \<Rightarrow> (StoreError, Ledger) res" where
  "record_resolution h event_type record_id envelope active_subject l =
     and_then (read_payload event_type ''review.kernel/FindingResolution@1'' ''artifact is not FindingResolution@1''
       (as_resolution h) validate_resolution envelope) (\<lambda>res.
     and_then (validate_expected_finding_view h l (rs_finding_id res)
       (rs_expected_finding_view_id res) event_type) (\<lambda>_.
     if rs_subject_id res \<noteq> active_subject
     then Err (malformed (event_name event_type) ''Resolution does not cover the active Subject'')
     else if group_root l (rs_finding_id res) = None
     then Err (malformed (event_name event_type) ''Resolution names an unknown Finding'')
     else
     and_then (resolution_status event_type res l) (\<lambda>status.
     and_then (finding_member_keys l (rs_finding_id res)) (\<lambda>keys.
     and_then (update_members (set_status (ledger_round l) status (Resolved status) (rs_reason res)) keys l) (\<lambda>l1.
     Ok (l1\<lparr>resolution_authority := bm_extend (resolution_authority l1) (map (\<lambda>key. (key, rs_finding_id res)) keys),
            resolution_history := resolution_history l1
              @ [\<lparr>ve_record_id = record_id, ve_artifact_id = env_artifact_id envelope\<rparr>],
            resolutions := bm_insert (rs_finding_id res)
              \<lparr>rrs_record_id = record_id, rrs_artifact_id = env_artifact_id envelope, rrs_resolution = res\<rparr>
              (resolutions l1)\<rparr>))))))"

definition record_challenge ::
  "Host \<Rightarrow> EventType \<Rightarrow> string \<Rightarrow> ArtifactEnvelope \<Rightarrow> string \<Rightarrow> Ledger \<Rightarrow> (StoreError, Ledger) res" where
  "record_challenge h event_type record_id envelope active_subject l =
     and_then (read_payload event_type ''review.kernel/ResolutionChallenge@1'' ''artifact is not ResolutionChallenge@1''
       (as_challenge h) validate_challenge envelope) (\<lambda>challenge.
     and_then (ok_or (malformed (event_name event_type) ''challenge names no active Resolution'')
       (resolution l (ch_finding_id challenge))) (\<lambda>recorded.
     if rrs_artifact_id recorded \<noteq> ch_resolution_id challenge \<or> ch_subject_id challenge \<noteq> active_subject
     then Err (malformed (event_name event_type) ''challenge does not name the active Resolution and Subject'')
     else
     and_then (finding_member_keys l (ch_finding_id challenge)) (\<lambda>keys.
     and_then (update_members (set_status (ledger_round l) Contested Challenged
         (challenge_debug (ch_kind challenge) @ '': '' @ ch_reason challenge)) keys l) (\<lambda>l1.
     Ok (l1\<lparr>resolution_history := resolution_history l1
       @ [\<lparr>ve_record_id = record_id, ve_artifact_id = env_artifact_id envelope\<rparr>]\<rparr>)))))"

definition advance_policy_time ::
  "Host \<Rightarrow> EventType \<Rightarrow> string \<Rightarrow> ArtifactEnvelope \<Rightarrow> Ledger \<Rightarrow> (StoreError, Ledger) res" where
  "advance_policy_time h event_type record_id envelope l =
     and_then (read_payload event_type ''review.kernel/PolicyTime@1'' ''artifact is not PolicyTime@1''
       (as_policy_time h) validate_policy_time envelope) (\<lambda>time.
     if pt_tick time \<le> policy_time l
     then Err (malformed (event_name event_type) ''policy time must advance monotonically'')
     else Ok (l\<lparr>policy_time := pt_tick time,
                resolution_history := resolution_history l
                  @ [\<lparr>ve_record_id = record_id, ve_artifact_id = env_artifact_id envelope\<rparr>]\<rparr>))"

definition apply_resolution_authority ::
  "Host \<Rightarrow> EventType \<Rightarrow> Value \<Rightarrow> string list \<Rightarrow> Ledger \<Rightarrow> (StoreError, Ledger) res" where
  "apply_resolution_authority h event_type payload artifact_refs l =
     and_then (read_recorded h event_type payload artifact_refs) (\<lambda>(record_id, envelope).
     and_then (ok_or (malformed (event_name event_type) ''Campaign has no active Subject'')
       (active_subject_id l)) (\<lambda>active_subject.
     if event_type = ChangeAttestedV1 then record_attestation h event_type record_id envelope active_subject l
     else if event_type = FixVerifiedV1 then record_verification h event_type record_id envelope active_subject l
     else if event_type = FindingResolutionRecordedV1
       then record_resolution h event_type record_id envelope active_subject l
     else if event_type = FindingResolutionChallengedV1
       then record_challenge h event_type record_id envelope active_subject l
     else if event_type = PolicyTimeAdvancedV1 then advance_policy_time h event_type record_id envelope l
     else Panic))"

subsection \<open>Dispatch\<close>

definition demand_events :: "EventType list" where
  "demand_events = [DemandRecordedV1, DemandWaivedV1, EvidenceAddedV1, EvidenceReuseAdmittedV1, EvidenceSatisfiedV1]"

definition authority_events :: "EventType list" where
  "authority_events = [ChangeAttestedV1, FixVerifiedV1, FindingResolutionRecordedV1,
     FindingResolutionChallengedV1, PolicyTimeAdvancedV1]"

definition apply_typed ::
  "Host \<Rightarrow> EventType \<Rightarrow> Value \<Rightarrow> string list \<Rightarrow> Ledger \<Rightarrow> (StoreError, Ledger) res" where
  "apply_typed h event_type payload artifact_refs l =
     (if event_type = CampaignOpenedV1 then apply_campaign_opened h payload l
      else if event_type = RoundStartedV1 then apply_round_started h payload l
      else if event_type = GenerationAdvancedV1 then apply_generation payload l
      else if event_type = FindingReportedV1 then apply_report h payload artifact_refs l
      else if event_type = FindingResolvedV1 then apply_resolution payload l
      else if event_type = FindingsGroupedV1 \<or> event_type = FindingsUngroupedV1
        then apply_grouping h event_type payload artifact_refs l
      else if event_type \<in> set demand_events then apply_demand_evidence h event_type payload artifact_refs l
      else if event_type \<in> set authority_events then apply_resolution_authority h event_type payload artifact_refs l
      else Ok l)"

definition apply_event :: "Host \<Rightarrow> RunEvent \<Rightarrow> Ledger \<Rightarrow> (StoreError, Ledger) res" where
  "apply_event h event l = apply_typed h (re_event_type event) (re_payload event) (re_artifact_refs event) l"

subsection \<open>The projection of one run\<close>

record LedgerProjection =
  lp_run_id :: string
  lp_event_count :: nat
  lp_ledger :: Ledger

definition initial_projection :: "string \<Rightarrow> LedgerProjection" where
  "initial_projection run = \<lparr>lp_run_id = run, lp_event_count = 0, lp_ledger = fresh_ledger\<lparr>ledger_round := 1\<rparr>\<rparr>"

definition project_event :: "Host \<Rightarrow> RunEvent \<Rightarrow> LedgerProjection \<Rightarrow> (StoreError, LedgerProjection) res" where
  "project_event h event p =
     (if re_run_id event \<noteq> lp_run_id p
      then Err (Conflict (''Ledger projection for `'' @ lp_run_id p @ ''` cannot apply event from `''
        @ re_run_id event @ ''`''))
      else if re_sequence event \<noteq> lp_event_count p
      then Err (Conflict (''Ledger projection for `'' @ lp_run_id p @ ''` expected sequence ''
        @ show_nat (lp_event_count p) @ '', got '' @ show_nat (re_sequence event)))
      else and_then (apply_event h event (lp_ledger p)) (\<lambda>l.
        if lp_event_count p + 1 \<le> u64_max
        then Ok (p\<lparr>lp_ledger := l, lp_event_count := lp_event_count p + 1\<rparr>) else Panic))"

fun project_events :: "Host \<Rightarrow> RunEvent list \<Rightarrow> LedgerProjection \<Rightarrow> (StoreError, LedgerProjection) res" where
  "project_events h [] p = Ok p"
| "project_events h (event # events) p = and_then (project_event h event p) (project_events h events)"

definition from_events :: "Host \<Rightarrow> string \<Rightarrow> RunEvent list \<Rightarrow> (StoreError, LedgerProjection) res" where
  "from_events h run events = project_events h events (initial_projection run)"

text \<open>The event log is the durable list of a run's events; \<open>replay_from\<close> reads its suffix.\<close>

definition fast_forward :: "Host \<Rightarrow> RunEvent list \<Rightarrow> LedgerProjection \<Rightarrow> (StoreError, LedgerProjection) res" where
  "fast_forward h durable p =
     (if length durable < lp_event_count p
      then Err (Conflict (''Ledger projection for `'' @ lp_run_id p @ ''` covers '' @ show_nat (lp_event_count p)
        @ '' events, but the log contains '' @ show_nat (length durable)))
      else project_events h (drop (lp_event_count p) durable) p)"

subsection \<open>The Task Review projection\<close>

text \<open>
  A Task binds the ledger to the Subject it reviews next and projects verified fixes onto it.
  Binding reopens Findings before it verifies the Snapshots, so it returns the ledger with its
  error as well.
\<close>

definition CANONICAL_FINDING_IDENTITY_POLICY :: string where
  "CANONICAL_FINDING_IDENTITY_POLICY = ''report-derived@1''"

fun reopen_fixed :: "nat \<Rightarrow> string \<Rightarrow> (string \<times> string) list \<Rightarrow> Ledger \<Rightarrow> Ledger \<times> (StoreError, unit) res" where
  "reopen_fixed r subject_id [] l = (l, Ok ())"
| "reopen_fixed r subject_id ((key, fixed_subject) # rest) l =
     (if fixed_subject = subject_id then reopen_fixed r subject_id rest l
      else (case bm_get (findings l) key of
          None \<Rightarrow> (l, Err (Conflict ''Task fix projection lost its Finding''))
        | Some f \<Rightarrow> reopen_fixed r subject_id rest
            (if fi_status f = Fixed
             then l\<lparr>findings := bm_insert key (set_status r Open Reopened
               ''Task fix verification belongs to an earlier Subject'' f) (findings l)\<rparr>
             else l)))"

definition bind_task_subject :: "Host \<Rightarrow> string \<Rightarrow> nat \<Rightarrow> Ledger \<Rightarrow> Ledger \<times> (StoreError, unit) res" where
  "bind_task_subject h subject_id r l =
     (if r = 0 \<or> r < ledger_round l
         \<or> finding_identity_policy_of l \<noteq> Some CANONICAL_FINDING_IDENTITY_POLICY
      then (l, Err (Conflict ''Task review Subject requires canonical identity and a nondecreasing positive Round''))
      else (case resolve_subject_scope h subject_id of
          Err e \<Rightarrow> (l, Err e)
        | Panic \<Rightarrow> (l, Panic)
        | Ok resolved \<Rightarrow>
            (case reopen_fixed r subject_id (bm_entries (task_fixed_subjects l)) l of
               (l1, Err e) \<Rightarrow> (l1, Err e)
             | (l1, Panic) \<Rightarrow> (l1, Panic)
             | (l1, Ok _) \<Rightarrow>
                 (let subject = rsc_subject resolved;
                      snapshots = su_head_snapshot_id subject
                        # (case su_base_snapshot_id subject of None \<Rightarrow> [] | Some b \<Rightarrow> [b]);
                      scope = (case rsc_changed_paths resolved of Some paths \<Rightarrow> Diff paths | None \<Rightarrow> WholeTree)
                  in case each (\<lambda>d. and_then (map_err ArtifactError (cas_verify h d)) (\<lambda>_. Ok ())) snapshots of
                       Err e \<Rightarrow> (l1, Err e)
                     | Panic \<Rightarrow> (l1, Panic)
                     | Ok _ \<Rightarrow>
                         (l1\<lparr>subject_scope_cache := bm_insert subject_id
                               \<lparr>cc_scope = scope, cc_change_set_id = su_change_set_id subject,
                                cc_head_snapshot_id = su_head_snapshot_id subject\<rparr> (subject_scope_cache l1),
                             active_scope := Some \<lparr>as_round = r, as_subject_id = subject_id,
                               as_head_snapshot_id = su_head_snapshot_id subject, as_subject = scope\<rparr>,
                             ledger_round := r\<rparr>, Ok ())))))"

definition for_task_subject :: "Host \<Rightarrow> string \<Rightarrow> nat \<Rightarrow> (StoreError, Ledger) res" where
  "for_task_subject h subject_id r =
     (case bind_task_subject h subject_id r
         (fresh_ledger\<lparr>finding_identity_policy := CANONICAL_FINDING_IDENTITY_POLICY\<rparr>) of
        (l, Ok _) \<Rightarrow> Ok l
      | (_, Err e) \<Rightarrow> Err e
      | (_, Panic) \<Rightarrow> Panic)"

record ClaimVerificationV1 =
  cl_expected_view_id :: string
  cl_attestation_id :: string
  cl_receipt_id :: string
  cl_outcome :: VerificationOutcomeV1

record RepairAssessmentV1 =
  ra_continuation_id :: string
  ra_current_subject_id :: string
  ra_current_snapshot_id :: string
  ra_check_receipt_id :: string
  ra_claims :: "(string, ClaimVerificationV1) bmap"

definition validate_assessment :: "RepairAssessmentV1 \<Rightarrow> (string, unit) res" where
  "validate_assessment a =
     and_then (require (list_all is_digest
         [ra_continuation_id a, ra_current_subject_id a, ra_current_snapshot_id a, ra_check_receipt_id a])
       ''Repair assessment requires current authority and Gates'') (\<lambda>_.
     require (\<not> bm_is_empty (ra_claims a) \<and> list_all (\<lambda>(finding, claim). \<not> blank finding \<and>
         list_all is_digest [cl_expected_view_id claim, cl_attestation_id claim, cl_receipt_id claim])
         (bm_entries (ra_claims a)))
       ''Repair assessment requires typed per-Finding receipts'')"

text \<open>The members a claim fixes, each with its receipt, once the receipt agrees with the claim.\<close>

definition claim_changes ::
  "Host \<Rightarrow> RepairAssessmentV1 \<Rightarrow> Ledger \<Rightarrow> string \<times> ClaimVerificationV1 \<Rightarrow> (StoreError, (string \<times> string) list) res" where
  "claim_changes h assessment l entry =
     (let (finding_id, claim) = entry
      in and_then (map_err ArtifactError (get_json h (cl_receipt_id claim))) (\<lambda>v.
         and_then (map_err Conflict (as_envelope h v)) (\<lambda>artifact.
         and_then (map_err Conflict (as_fix_receipt h (env_payload artifact))) (\<lambda>receipt.
         if env_artifact_type artifact \<noteq> ''af/TaskFixReceipt@1''
            \<or> env_subject_snapshot_id artifact \<noteq> Some (ra_current_snapshot_id assessment)
            \<or> tf_finding_id receipt \<noteq> finding_id
            \<or> tf_subject_id receipt \<noteq> ra_current_subject_id assessment
            \<or> tf_continuation_id receipt \<noteq> ra_continuation_id assessment
            \<or> tf_expected_view_id receipt \<noteq> cl_expected_view_id claim
            \<or> tf_attestation_id receipt \<noteq> cl_attestation_id claim
            \<or> tf_outcome receipt \<noteq> cl_outcome claim
            \<or> finding_view_id h l finding_id \<noteq> Some (cl_expected_view_id claim)
         then Err (Conflict ''Task fix receipt changed its original Finding or current view'')
         else if cl_outcome claim = Positive
         then and_then (finding_member_keys l finding_id) (\<lambda>keys.
           Ok (map (\<lambda>key. (key, cl_receipt_id claim)) keys))
         else Ok []))))"

fun project_fixes :: "string \<Rightarrow> (string \<times> string) list \<Rightarrow> Ledger \<Rightarrow> (StoreError, Ledger) res" where
  "project_fixes subject_id [] l = Ok l"
| "project_fixes subject_id ((key, receipt_id) # changes) l =
     and_then (expect (bm_get (findings l) key)) (\<lambda>f.
     project_fixes subject_id changes
       (l\<lparr>findings := bm_insert key (set_status (ledger_round l) Fixed (Resolved Fixed)
            (''Verified on current Task Subject by '' @ receipt_id) f) (findings l),
          task_fixed_subjects := bm_insert key subject_id (task_fixed_subjects l)\<rparr>))"

definition project_task_fixes :: "Host \<Rightarrow> RepairAssessmentV1 \<Rightarrow> Ledger \<Rightarrow> (StoreError, Ledger) res" where
  "project_task_fixes h assessment l =
     and_then (wrap_err Conflict (validate_assessment assessment)) (\<lambda>_.
     if active_subject_id l \<noteq> Some (ra_current_subject_id assessment)
        \<or> active_head_snapshot_id l \<noteq> Some (ra_current_snapshot_id assessment)
     then Err (Conflict ''Task fix assessment belongs to another active Subject'')
     else and_then (traverse (claim_changes h assessment l) (bm_entries (ra_claims assessment))) (\<lambda>changes.
       project_fixes (ra_current_subject_id assessment) (concat changes) l))"

end
