(* ===== verification/LedgerGroups.thy ===== *)
theory LedgerGroups
  imports LedgerEvents
begin

text \<open>
  Groups of Findings. The active groupings of a ledger form a forest whose edges lead from a
  grouped Finding to the one it was grouped into. The lemmas show that the bounded walk of
  \<open>group_root\<close> reaches the root of every Finding, that validated groupings keep the forest
  acyclic, and what a view says of the members it combines.
\<close>

subsection \<open>The forest of groupings\<close>

definition edges :: "(string, string) bmap \<Rightarrow> (string \<times> string) set" where
  "edges groupings = {(from, into). bm_get groupings from = Some into}"

lemma edges_iff [simp]: "(a, b) \<in> edges g \<longleftrightarrow> bm_get g a = Some b"
  by (simp add: edges_def)

lemma edges_insert: "bm_get g a = None \<Longrightarrow> edges (bm_insert a b g) = insert (a, b) (edges g)"
  by (auto simp: edges_def split: if_splits)

lemma edges_remove: "edges (bm_remove a g) \<subseteq> edges g"
  by (auto simp: edges_def split: if_splits)

lemma length_bm_keys: "length (bm_keys m) = card (dom (bm_get m))"
  by (simp flip: set_bm_keys add: distinct_card [OF bm_keys_distinct])

lemma root_walk_end:
  "root_walk n g k = Some r \<Longrightarrow> (k, r) \<in> (edges g)\<^sup>* \<and> bm_get g r = None"
proof (induction n g k rule: root_walk.induct)
  case (2 n g k)
  show ?case
  proof (cases "bm_get g k")
    case (Some into)
    then show ?thesis using 2 by (auto intro: converse_rtrancl_into_rtrancl [of k into])
  qed (use "2.prems" in auto)
qed simp

definition below :: "(string, string) bmap \<Rightarrow> string \<Rightarrow> string set" where
  "below g k = {x \<in> dom (bm_get g). (k, x) \<in> (edges g)\<^sup>*}"

lemma root_walk_total:
  assumes "acyclic (edges g)"
  shows "card (below g k) < n \<Longrightarrow> \<exists>r. root_walk n g k = Some r"
proof (induction n arbitrary: k)
  case (Suc n)
  show ?case
  proof (cases "bm_get g k")
    case (Some into)
    have step: "(k, into) \<in> edges g" using Some by simp
    have "k \<notin> below g into"
      using assms rtrancl_into_trancl2 [OF step] by (auto simp: below_def acyclic_def)
    moreover have "below g into \<subseteq> below g k"
      using step by (auto simp: below_def intro: converse_rtrancl_into_rtrancl)
    moreover have "k \<in> below g k" using Some by (auto simp: below_def)
    moreover have "finite (below g k)" by (simp add: below_def)
    ultimately have "card (below g into) < card (below g k)"
      by (metis psubset_card_mono psubsetI)
    then have "card (below g into) < n" using Suc.prems by simp
    then show ?thesis using Some Suc.IH by simp
  qed simp
qed simp

lemma below_bound: "card (below g k) < Suc (length (bm_keys g))"
  unfolding length_bm_keys less_Suc_eq_le by (rule card_mono) (auto simp: below_def)

lemma group_root_end:
  "group_root l k = Some r \<Longrightarrow>
   k \<in> dom (bm_get (findings l)) \<and> (k, r) \<in> (edges (active_groupings l))\<^sup>* \<and>
   bm_get (active_groupings l) r = None"
  by (cases "bm_get (findings l) k") (auto simp: group_root_def simp del: root_walk.simps dest: root_walk_end)

lemma group_root_total:
  "acyclic (edges (active_groupings l)) \<Longrightarrow> k \<in> dom (bm_get (findings l)) \<Longrightarrow> \<exists>r. group_root l k = Some r"
  using root_walk_total [OF _ below_bound] by (force simp: group_root_def)

lemma group_root_unmapped: "k \<notin> dom (bm_get (findings l)) \<Longrightarrow> group_root l k = None"
  by (auto simp: group_root_def split: option.splits)

lemma group_root_self:
  "k \<in> dom (bm_get (findings l)) \<Longrightarrow> bm_get (active_groupings l) k = None \<Longrightarrow> group_root l k = Some k"
  by (auto simp: group_root_def)

lemma acyclic_insert_root:
  assumes "acyclic (edges g)" "bm_get g a = None" "bm_get g b = None" "a \<noteq> b"
  shows "acyclic (edges (bm_insert a b g))"
proof -
  have "(b, a) \<notin> (edges g)\<^sup>*"
    using assms(3,4) by (metis converse_rtranclE edges_iff option.distinct(1))
  then show ?thesis using assms(1,2) by (simp add: edges_insert acyclic_insert)
qed

lemma acyclic_remove: "acyclic (edges g) \<Longrightarrow> acyclic (edges (bm_remove a g))"
  by (rule acyclic_subset [OF _ edges_remove])

definition groups_ok :: "Ledger \<Rightarrow> bool" where
  "groups_ok l \<longleftrightarrow>
     acyclic (edges (active_groupings l)) \<and>
     edges (active_groupings l) \<subseteq> dom (bm_get (findings l)) \<times> dom (bm_get (findings l))"

lemma groups_okD:
  assumes "groups_ok l"
  shows "acyclic (edges (active_groupings l))"
    and "bm_get (active_groupings l) a = Some b \<Longrightarrow> a \<in> dom (bm_get (findings l)) \<and> b \<in> dom (bm_get (findings l))"
  using assms by (auto simp: groups_ok_def subset_iff)

lemma groups_ok_path:
  assumes "groups_ok l" "(k, r) \<in> (edges (active_groupings l))\<^sup>*" "k \<in> dom (bm_get (findings l))"
  shows "r \<in> dom (bm_get (findings l))"
  using assms(2,3) by (induction rule: rtrancl_induct) (auto dest: groups_okD(2) [OF assms(1)])

lemma group_root_known:
  assumes "groups_ok l" "group_root l k = Some r"
  shows "r \<in> dom (bm_get (findings l))" "group_root l r = Some r"
  using group_root_end [OF assms(2)] groups_ok_path [OF assms(1)]
  by (auto intro!: group_root_self)

lemma groups_ok_grouped:
  assumes "groups_ok l" "validate_group l from into = Ok u"
  shows "acyclic (edges (bm_insert from into (active_groupings l))) \<and>
    edges (bm_insert from into (active_groupings l)) \<subseteq> dom (bm_get (findings l)) \<times> dom (bm_get (findings l))"
proof -
  have facts: "from \<noteq> into" "from \<in> dom (bm_get (findings l))" "into \<in> dom (bm_get (findings l))"
      "bm_get (active_groupings l) from = None" "group_root l into = Some into"
    using assms(2) by (auto simp: validate_group_def split: if_splits)
  then have "bm_get (active_groupings l) into = None" using group_root_end by blast
  then show ?thesis
    using facts assms(1) acyclic_insert_root unfolding groups_ok_def by (simp add: edges_insert)
qed

subsection \<open>Members and views\<close>

lemma map_filter_conv: "List.map_filter f xs = map (the \<circ> f) (filter (\<lambda>x. f x \<noteq> None) xs)"
  by (simp add: List.map_filter_def)

lemma set_map_filter: "set (List.map_filter f xs) = {y. \<exists>x \<in> set xs. f x = Some y}"
  by (force simp: map_filter_conv)

lemma set_bs_of_list [simp]: "dom (bm_get (bs_of_list xs)) = set xs"
proof -
  have "map_of (rev (map (\<lambda>x. (x, ())) xs)) k = (if k \<in> set xs then Some () else None)" for k
    by (induction xs rule: rev_induct) auto
  then show ?thesis by (auto simp: bs_of_list_def bm_get_extend dom_def map_add_def split: option.splits)
qed

lemma bs_elems_Nil: "bs_elems s = [] \<longleftrightarrow> s = bm_empty"
  by (metis bm_is_empty_def bm_is_empty_iff bm_keys_def map_is_Nil_conv)

lemma bs_empty_iff: "s = bm_empty \<longleftrightarrow> dom (bm_get (s :: bset)) = {}"
  by (metis bs_elems_Nil dom_bm_empty set_bm_keys set_empty)

lemma max_by_key_snoc:
  "max_by_key f (xs @ [x]) = (case max_by_key f xs of None \<Rightarrow> Some x
     | Some y \<Rightarrow> if f y \<le> f x then Some x else Some y)"
  by (simp add: max_by_key_def)

lemma max_by_key_Nil [simp]: "max_by_key f [] = None"
  by (simp add: max_by_key_def)

lemma max_by_key_None: "max_by_key f xs = None \<longleftrightarrow> xs = []"
  by (induction xs rule: rev_induct) (auto simp: max_by_key_snoc split: option.splits)

lemma max_by_key_Some: "max_by_key f xs = Some m \<Longrightarrow> m \<in> set xs \<and> (\<forall>x \<in> set xs. f x \<le> f m)"
proof (induction xs arbitrary: m rule: rev_induct)
  case (snoc x xs)
  show ?case
  proof (cases "max_by_key f xs")
    case None
    then have "m = x" using snoc.prems by (simp add: max_by_key_snoc)
    then show ?thesis using None by (simp add: max_by_key_None)
  next
    case (Some y)
    have "y \<in> set xs" "\<forall>z \<in> set xs. f z \<le> f y" using snoc.IH [OF Some] by auto
    then show ?thesis using snoc.prems Some by (auto simp: max_by_key_snoc split: if_splits intro: order_trans)
  qed
qed simp

text \<open>A bound is passed by the maximum exactly when some element passes it.\<close>

lemma max_by_key_passes:
  "(\<And>x y. f x \<le> f y \<Longrightarrow> p x \<Longrightarrow> p y) \<Longrightarrow>
   is_some_and (max_by_key f xs) p \<longleftrightarrow> (\<exists>x \<in> set xs. p x)"
  using max_by_key_Some [of f xs] max_by_key_None [of f xs]
  by (cases "max_by_key f xs") auto

subsection \<open>The catalog of Findings\<close>

definition finding_ok :: "string \<Rightarrow> Finding \<Rightarrow> bool" where
  "finding_ok k f \<longleftrightarrow> fi_key f = k \<and> fi_aliases f = [] \<and>
     (fi_authority_diagnostic f \<longrightarrow> fi_unreadable_reports f \<noteq> bm_empty)"

definition catalog_ok :: "Ledger \<Rightarrow> bool" where
  "catalog_ok l \<longleftrightarrow> distinct (order_of l) \<and> set (order_of l) = dom (bm_get (findings l)) \<and>
     (\<forall>k f. bm_get (findings l) k = Some f \<longrightarrow> finding_ok k f)"

lemma catalog_okD:
  assumes "catalog_ok l"
  shows "distinct (order_of l)" "set (order_of l) = dom (bm_get (findings l))"
    "bm_get (findings l) k = Some f \<Longrightarrow> finding_ok k f"
    "bm_get (findings l) k = Some f \<Longrightarrow> fi_key f = k"
  using assms by (auto simp: catalog_ok_def finding_ok_def)

lemma set_group_members:
  "catalog_ok l \<Longrightarrow>
   set (group_members l r) = {f. \<exists>k. bm_get (findings l) k = Some f \<and> group_root l k = Some r}"
  by (auto simp: group_members_def set_map_filter catalog_okD(2) split: if_splits)

lemma member_keys:
  assumes "catalog_ok l"
  shows "map fi_key (group_members l r) = filter (\<lambda>k. group_root l k = Some r) (order_of l)"
proof -
  have "map fi_key (List.map_filter (\<lambda>k. if group_root l k = Some r then bm_get (findings l) k else None) ks)
      = filter (\<lambda>k. group_root l k = Some r) ks" if "set ks \<subseteq> dom (bm_get (findings l))" for ks
    using that by (induction ks) (auto simp: List.map_filter_simps catalog_okD(4) [OF assms] split: option.splits)
  then show ?thesis using catalog_okD(2) [OF assms] by (simp add: group_members_def)
qed

lemma finding_member_keys_Ok:
  "catalog_ok l \<Longrightarrow> finding_member_keys l k = Ok keys \<Longrightarrow>
   \<exists>r. group_root l k = Some r \<and> keys = filter (\<lambda>j. group_root l j = Some r) (order_of l)"
  by (auto simp: finding_member_keys_def and_then_eq_Ok member_keys)

lemma keep_new_spec:
  "distinct (keep_new seen xs) \<and> set (keep_new seen xs) = set xs - dom (bm_get seen)"
proof (induction seen xs rule: keep_new.induct)
  case (2 seen x xs)
  then show ?case by (cases "bm_contains seen x") auto
qed simp

lemma view_exists:
  "bm_get (findings l) r = Some f \<Longrightarrow> \<exists>v. finding_view_for_root l r = Some v"
  by (simp add: finding_view_for_root_def Let_def)

lemma view_key:
  "finding_view_for_root l r = Some v \<Longrightarrow> catalog_ok l \<Longrightarrow> fi_key v = r"
  by (auto simp: finding_view_for_root_def Let_def catalog_okD(4) split: option.splits if_splits)

lemma view_aliases:
  "finding_view_for_root l r = Some v \<Longrightarrow> catalog_ok l \<Longrightarrow>
   fi_aliases v = filter (\<lambda>k. k \<noteq> r) (map fi_key (group_members l r))"
  by (auto simp: finding_view_for_root_def Let_def filter_map comp_def split: option.splits if_splits)

lemma no_aliases: "fi_aliases f = [] \<Longrightarrow> f\<lparr>fi_aliases := []\<rparr> = f"
  by (cases f) simp

text \<open>Facts of a view: the root Finding alone, or the combination of several members.\<close>

lemma view_cases:
  assumes v: "finding_view_for_root l r = Some v" and ok: "catalog_ok l" and r: "group_root l r = Some r"
  obtains (alone) f where "bm_get (findings l) r = Some f" "v = f" "set (group_members l r) = {f}"
  | (group) f where "bm_get (findings l) r = Some f" "f \<in> set (group_members l r)"
      "fi_status v = view_status (group_members l r) f"
      "fi_authority_diagnostic v = list_ex fi_authority_diagnostic (group_members l r)"
      "fi_convergence_severity v = max_by_key rank (List.map_filter fi_convergence_severity (group_members l r))"
      "fi_scoped_news_round v = max_by_key id (List.map_filter fi_scoped_news_round (group_members l r))"
proof -
  obtain f where f: "bm_get (findings l) r = Some f"
    using v by (auto simp: finding_view_for_root_def Let_def split: option.splits)
  have mem: "f \<in> set (group_members l r)" using f r by (auto simp: set_group_members [OF ok])
  show ?thesis
  proof (cases "map fi_key (filter (\<lambda>g. fi_key g \<noteq> r) (group_members l r)) = []")
    case True
    have "g = f" if g: "g \<in> set (group_members l r)" for g
    proof -
      have "fi_key g = r" using True g by (auto simp: filter_empty_conv)
      moreover obtain k where "bm_get (findings l) k = Some g" using g by (auto simp: set_group_members [OF ok])
      ultimately show ?thesis using f catalog_okD(4) [OF ok] by (metis option.inject)
    qed
    moreover have "v = f"
      using v f True catalog_okD(3) [OF ok f]
      by (simp add: finding_view_for_root_def Let_def finding_ok_def no_aliases)
    ultimately show ?thesis using alone [OF f] mem by blast
  next
    case False
    then have "fi_status v = view_status (group_members l r) f"
        "fi_authority_diagnostic v = list_ex fi_authority_diagnostic (group_members l r)"
        "fi_convergence_severity v = max_by_key rank (List.map_filter fi_convergence_severity (group_members l r))"
        "fi_scoped_news_round v = max_by_key id (List.map_filter fi_scoped_news_round (group_members l r))"
      using v f by (auto simp: finding_view_for_root_def Let_def)
    then show ?thesis using group [OF f mem] by blast
  qed
qed

lemma is_active_iff: "is_active s \<longleftrightarrow> s = Open \<or> s = PendingVerification \<or> s = Contested"
  by (cases s) (simp_all add: is_active_def)

lemma view_status_active:
  "f \<in> set members \<Longrightarrow>
   is_active (view_status members f) \<longleftrightarrow> (\<exists>g \<in> set members. is_active (fi_status g))"
  by (auto simp: view_status_def list_ex_iff is_active_iff)

text \<open>A view is active, diagnostic, gated or recent news exactly when one of its members is.\<close>

lemma view_of_members:
  assumes "finding_view_for_root l r = Some v" "catalog_ok l" "group_root l r = Some r"
  shows "is_active (fi_status v) \<longleftrightarrow> (\<exists>f \<in> set (group_members l r). is_active (fi_status f))"
    and "fi_authority_diagnostic v \<longleftrightarrow> (\<exists>f \<in> set (group_members l r). fi_authority_diagnostic f)"
    and "gated policy v \<longleftrightarrow> (\<exists>f \<in> set (group_members l r). gated policy f)"
    and "is_some_and (fi_scoped_news_round v) (\<lambda>n. b < int n) \<longleftrightarrow>
      (\<exists>f \<in> set (group_members l r). is_some_and (fi_scoped_news_round f) (\<lambda>n. b < int n))"
proof -
  have severity: "is_some_and (max_by_key rank (List.map_filter fi_convergence_severity fs)) (\<lambda>s. n \<le> rank s)
      \<longleftrightarrow> (\<exists>f \<in> set fs. is_some_and (fi_convergence_severity f) (\<lambda>s. n \<le> rank s))" for n fs
    by (subst max_by_key_passes) (auto simp: set_map_filter is_some_and_iff)
  have news: "is_some_and (max_by_key id (List.map_filter fi_scoped_news_round fs)) (\<lambda>n. b < int n)
      \<longleftrightarrow> (\<exists>f \<in> set fs. is_some_and (fi_scoped_news_round f) (\<lambda>n. b < int n))" for fs
    by (subst max_by_key_passes) (auto simp: set_map_filter is_some_and_iff)
  show "is_active (fi_status v) \<longleftrightarrow> (\<exists>f \<in> set (group_members l r). is_active (fi_status f))"
    by (rule view_cases [OF assms]) (simp_all add: view_status_active)
  show "fi_authority_diagnostic v \<longleftrightarrow> (\<exists>f \<in> set (group_members l r). fi_authority_diagnostic f)"
    by (rule view_cases [OF assms]) (simp_all add: list_ex_iff)
  show "gated policy v \<longleftrightarrow> (\<exists>f \<in> set (group_members l r). gated policy f)"
    by (rule view_cases [OF assms]) (simp_all add: gated_def severity)
  show "is_some_and (fi_scoped_news_round v) (\<lambda>n. b < int n) \<longleftrightarrow>
      (\<exists>f \<in> set (group_members l r). is_some_and (fi_scoped_news_round f) (\<lambda>n. b < int n))"
    by (rule view_cases [OF assms]) (simp_all add: news)
qed

subsection \<open>All views\<close>

definition roots :: "Ledger \<Rightarrow> string list" where
  "roots l = keep_new bm_empty (List.map_filter (group_root l) (order_of l))"

lemma set_roots:
  assumes "catalog_ok l" "groups_ok l"
  shows "set (roots l) = {r. group_root l r = Some r}"
proof -
  have "set (roots l) = {r. \<exists>k \<in> dom (bm_get (findings l)). group_root l k = Some r}"
    using keep_new_spec [of bm_empty] catalog_okD(2) [OF assms(1)] by (simp add: roots_def set_map_filter)
  also have "\<dots> = {r. group_root l r = Some r}"
    using group_root_known [OF assms(2)] group_root_unmapped by blast
  finally show ?thesis .
qed

lemma distinct_roots: "distinct (roots l)"
  using keep_new_spec by (simp add: roots_def)

lemma group_root_dom: "group_root l k = Some r \<Longrightarrow> k \<in> dom (bm_get (findings l))"
  by (rule ccontr) (simp add: group_root_unmapped)

lemma root_view:
  assumes "catalog_ok l" "groups_ok l" "r \<in> set (roots l)"
  shows "group_root l r = Some r" "\<exists>v. finding_view_for_root l r = Some v"
proof -
  show r: "group_root l r = Some r" using assms set_roots by blast
  obtain f where "bm_get (findings l) r = Some f" using group_root_dom [OF r] by blast
  then show "\<exists>v. finding_view_for_root l r = Some v" by (rule view_exists)
qed

lemma finding_views_roots:
  assumes "catalog_ok l" "groups_ok l"
  shows "finding_views l = map (\<lambda>r. the (finding_view_for_root l r)) (roots l)"
proof -
  have "filter (\<lambda>r. finding_view_for_root l r \<noteq> None) (roots l) = roots l"
    using root_view [OF assms] by (intro filter_True) auto
  then show ?thesis
    unfolding finding_views_def roots_def [symmetric] by (subst map_filter_conv) (simp only: comp_def)
qed

lemma set_finding_views:
  assumes "catalog_ok l" "groups_ok l"
  shows "v \<in> set (finding_views l) \<longleftrightarrow> (\<exists>r. group_root l r = Some r \<and> finding_view_for_root l r = Some v)"
  unfolding finding_views_def roots_def [symmetric] set_map_filter using set_roots [OF assms] by blast

lemma view_block:
  assumes "catalog_ok l" "group_root l r = Some r" "finding_view_for_root l r = Some v"
  shows "distinct (fi_key v # fi_aliases v)" "set (fi_key v # fi_aliases v) = {k. group_root l k = Some r}"
proof -
  have known: "k \<in> set (order_of l)" if "group_root l k = Some r" for k
    using that group_root_unmapped catalog_okD(2) [OF assms(1)] by (metis option.distinct(1))
  have "fi_aliases v = filter (\<lambda>k. k \<noteq> r) (filter (\<lambda>k. group_root l k = Some r) (order_of l))"
    using view_aliases [OF assms(3,1)] by (simp add: member_keys [OF assms(1)])
  then show "distinct (fi_key v # fi_aliases v)" "set (fi_key v # fi_aliases v) = {k. group_root l k = Some r}"
    using catalog_okD(1) [OF assms(1)] view_key [OF assms(3,1)] assms(2) known by (simp_all, blast)
qed

text \<open>Every Finding is shown once: as the root of its view, or as one of its aliases.\<close>

lemma views_partition:
  assumes ok: "catalog_ok l" "groups_ok l"
  shows "distinct (concat (map (\<lambda>v. fi_key v # fi_aliases v) (finding_views l)))"
    and "set (concat (map (\<lambda>v. fi_key v # fi_aliases v) (finding_views l))) = dom (bm_get (findings l))"
proof -
  let ?block = "\<lambda>r. let v = the (finding_view_for_root l r) in fi_key v # fi_aliases v"
  have view: "group_root l r = Some r \<and> finding_view_for_root l r = Some (the (finding_view_for_root l r))"
    if "r \<in> set (roots l)" for r
    using root_view [OF ok that] by auto
  have block: "distinct (?block r) \<and> set (?block r) = {k. group_root l k = Some r}" if "r \<in> set (roots l)" for r
    using view_block [OF ok(1)] view [OF that] unfolding Let_def by blast
  have blocks: "map (\<lambda>v. fi_key v # fi_aliases v) (finding_views l) = map ?block (roots l)"
    by (simp add: finding_views_roots [OF ok] Let_def)
  have head: "hd (?block r) = r" if "r \<in> set (roots l)" for r
    using view_key view [OF that] ok(1) by (simp add: Let_def)
  have "inj_on ?block (set (roots l))" using head by (metis (no_types, lifting) inj_onI)
  then have inj: "distinct (map ?block (roots l))" using distinct_roots by (simp add: distinct_map)
  show "distinct (concat (map (\<lambda>v. fi_key v # fi_aliases v) (finding_views l)))"
    unfolding blocks
  proof (rule distinct_concat [OF inj])
    fix ys zs
    assume "ys \<in> set (map ?block (roots l))" "zs \<in> set (map ?block (roots l))" "ys \<noteq> zs"
    then obtain r q where "r \<in> set (roots l)" "q \<in> set (roots l)" "ys = ?block r" "zs = ?block q" "r \<noteq> q"
      unfolding set_map image_iff by blast
    then show "set ys \<inter> set zs = {}" using block [of r] block [of q] by auto
  next
    fix ys
    assume "ys \<in> set (map ?block (roots l))"
    then show "distinct ys" using block unfolding set_map image_iff by blast
  qed
  have "set (concat (map ?block (roots l))) = (\<Union>r \<in> set (roots l). set (?block r))"
    by (simp only: set_concat set_map image_image)
  also have "\<dots> = {k. \<exists>r \<in> set (roots l). group_root l k = Some r}" using block by blast
  also have "\<dots> = dom (bm_get (findings l))"
    using set_roots [OF ok] group_root_total [OF groups_okD(1) [OF ok(2)]] group_root_known(2) [OF ok(2)] group_root_dom
    by (intro set_eqI) (simp, blast)
  finally show "set (concat (map (\<lambda>v. fi_key v # fi_aliases v) (finding_views l))) = dom (bm_get (findings l))"
    unfolding blocks .
qed

end
