(* ===== verification/LedgerSteps.thy ===== *)
theory LedgerSteps
  imports LedgerGroups "HOL-Library.Sublist"
begin

text \<open>
  One event of the Findings Ledger. \<open>ledger_ok\<close> is the well-formedness of the folded state and
  \<open>grows\<close> says that nothing recorded is lost; the lemmas show, handler by handler, that a successful
  event keeps the first and satisfies the second.
\<close>

subsection \<open>Growth\<close>

definition finding_grows :: "Finding \<Rightarrow> Finding \<Rightarrow> bool" where
  "finding_grows f f' \<longleftrightarrow> fi_key f' = fi_key f \<and> prefix (fi_reports f) (fi_reports f') \<and>
     prefix (fi_history f) (fi_history f')"

definition demand_grows :: "DemandRecord \<Rightarrow> DemandRecord \<Rightarrow> bool" where
  "demand_grows d d' \<longleftrightarrow> dr_demand d' = dr_demand d \<and> prefix (dr_record_ids d) (dr_record_ids d') \<and>
     prefix (dr_artifact_ids d) (dr_artifact_ids d') \<and> prefix (dr_evidence d) (dr_evidence d') \<and>
     prefix (dr_satisfactions d) (dr_satisfactions d') \<and>
     prefix (dr_reuse_admissions d) (dr_reuse_admissions d') \<and> prefix (dr_waivers d) (dr_waivers d')"

definition maps_grow :: "('v \<Rightarrow> 'v \<Rightarrow> bool) \<Rightarrow> ('k::linorder, 'v) bmap \<Rightarrow> ('k, 'v) bmap \<Rightarrow> bool" where
  "maps_grow r m m' \<longleftrightarrow> (\<forall>k x. bm_get m k = Some x \<longrightarrow> (\<exists>y. bm_get m' k = Some y \<and> r x y))"

definition grows :: "Ledger \<Rightarrow> Ledger \<Rightarrow> bool" where
  "grows l l' \<longleftrightarrow> prefix (order_of l) (order_of l') \<and> maps_grow finding_grows (findings l) (findings l') \<and>
     prefix (scope_authority_failures l) (scope_authority_failures l') \<and>
     prefix (grouping_history l) (grouping_history l') \<and> prefix (demand_order l) (demand_order l') \<and>
     maps_grow demand_grows (demands l) (demands l') \<and>
     prefix (resolution_history l) (resolution_history l') \<and> policy_time l \<le> policy_time l'"

lemma finding_grows_refl [simp]: "finding_grows f f"
  by (simp add: finding_grows_def)

lemma demand_grows_refl [simp]: "demand_grows d d"
  by (simp add: demand_grows_def)

lemma maps_grow_refl: "(\<And>x. r x x) \<Longrightarrow> maps_grow r m m"
  by (simp add: maps_grow_def)

lemma maps_grow_insert:
  "(\<And>x. r x x) \<Longrightarrow> (\<And>x. bm_get m k = Some x \<Longrightarrow> r x v) \<Longrightarrow> maps_grow r m (bm_insert k v m)"
  by (simp add: maps_grow_def)

lemma maps_grow_trans:
  assumes "maps_grow r m m'" "maps_grow r m' m''" "\<And>x y z. r x y \<Longrightarrow> r y z \<Longrightarrow> r x z"
  shows "maps_grow r m m''"
  unfolding maps_grow_def
proof (intro allI impI)
  fix k x assume "bm_get m k = Some x"
  then obtain y where y: "bm_get m' k = Some y" "r x y" using assms(1) unfolding maps_grow_def by blast
  then obtain z where "bm_get m'' k = Some z" "r y z" using assms(2) unfolding maps_grow_def by blast
  then show "\<exists>z. bm_get m'' k = Some z \<and> r x z" using assms(3) [OF y(2)] by blast
qed

lemma finding_grows_trans: "finding_grows a b \<Longrightarrow> finding_grows b c \<Longrightarrow> finding_grows a c"
  by (auto simp: finding_grows_def)

lemma demand_grows_trans: "demand_grows a b \<Longrightarrow> demand_grows b c \<Longrightarrow> demand_grows a c"
  unfolding demand_grows_def by (metis prefix_order.trans)

lemma grows_refl [simp]: "grows l l"
  by (simp add: grows_def maps_grow_refl)

lemma growsD:
  assumes "grows l l'"
  shows "prefix (order_of l) (order_of l')" "maps_grow finding_grows (findings l) (findings l')"
    "prefix (scope_authority_failures l) (scope_authority_failures l')"
    "prefix (grouping_history l) (grouping_history l')" "prefix (demand_order l) (demand_order l')"
    "maps_grow demand_grows (demands l) (demands l')"
    "prefix (resolution_history l) (resolution_history l')" "policy_time l \<le> policy_time l'"
  using assms by (simp_all add: grows_def)

lemma grows_trans: "grows a b \<Longrightarrow> grows b c \<Longrightarrow> grows a c"
  unfolding grows_def [of a c]
  by (intro conjI; (rule maps_grow_trans [OF growsD(2) growsD(2) finding_grows_trans]
        | rule maps_grow_trans [OF growsD(6) growsD(6) demand_grows_trans]
        | rule prefix_order.trans [OF growsD(1) growsD(1)] | rule prefix_order.trans [OF growsD(3) growsD(3)]
        | rule prefix_order.trans [OF growsD(4) growsD(4)] | rule prefix_order.trans [OF growsD(5) growsD(5)]
        | rule prefix_order.trans [OF growsD(7) growsD(7)] | rule le_trans [OF growsD(8) growsD(8)]); assumption)

subsection \<open>Well-formed ledgers\<close>

definition demands_ok :: "Ledger \<Rightarrow> bool" where
  "demands_ok l \<longleftrightarrow> distinct (demand_order l) \<and> set (demand_order l) = dom (bm_get (demands l)) \<and>
     (\<forall>k d. bm_get (demands l) k = Some d \<longrightarrow> dm_demand_id (dr_demand d) = k)"

definition authority_ok :: "Ledger \<Rightarrow> bool" where
  "authority_ok l \<longleftrightarrow>
     (\<forall>k r. bm_get (resolutions l) k = Some r \<longrightarrow> validate_resolution (rrs_resolution r) = Ok ())"

definition ledger_ok :: "Ledger \<Rightarrow> bool" where
  "ledger_ok l \<longleftrightarrow> catalog_ok l \<and> groups_ok l \<and> demands_ok l \<and> authority_ok l"

definition advances :: "Ledger \<Rightarrow> Ledger \<Rightarrow> bool" where
  "advances l l' \<longleftrightarrow> (ledger_ok l \<longrightarrow> ledger_ok l') \<and> grows l l'"

lemma ledger_okD:
  assumes "ledger_ok l"
  shows "catalog_ok l" "groups_ok l" "demands_ok l" "authority_ok l"
  using assms by (simp_all add: ledger_ok_def)

lemma advances_refl [simp]: "advances l l"
  by (simp add: advances_def)

lemma advances_trans: "advances a b \<Longrightarrow> advances b c \<Longrightarrow> advances a c"
  unfolding advances_def using grows_trans by blast

text \<open>A change of state outside Findings, groupings, Demands and Resolutions.\<close>

lemma advances_frame:
  assumes "findings l' = findings l" "order_of l' = order_of l" "active_groupings l' = active_groupings l"
    "demands l' = demands l" "demand_order l' = demand_order l" "resolutions l' = resolutions l"
    "prefix (scope_authority_failures l) (scope_authority_failures l')"
    "prefix (grouping_history l) (grouping_history l')"
    "prefix (resolution_history l) (resolution_history l')" "policy_time l \<le> policy_time l'"
  shows "advances l l'"
  using assms
  by (simp add: advances_def grows_def ledger_ok_def catalog_ok_def groups_ok_def demands_ok_def
      authority_ok_def maps_grow_refl)

lemma advances_put_finding:
  assumes "bm_get (findings l) k = Some f" "finding_ok k f \<Longrightarrow> finding_ok k f'" "finding_grows f f'"
  shows "advances l (l\<lparr>findings := bm_insert k f' (findings l)\<rparr>)"
proof -
  have "insert k (dom (bm_get (findings l))) = dom (bm_get (findings l))" using assms(1) by auto
  then have "ledger_ok (l\<lparr>findings := bm_insert k f' (findings l)\<rparr>)" if "ledger_ok l"
    using that assms(1,2)
    by (auto simp: ledger_ok_def catalog_ok_def groups_ok_def demands_ok_def authority_ok_def)
  moreover have "grows l (l\<lparr>findings := bm_insert k f' (findings l)\<rparr>)"
    using assms(1,3) by (auto simp: grows_def maps_grow_def)
  ultimately show ?thesis by (simp add: advances_def)
qed

lemma advances_new_finding:
  assumes "bm_get (findings l) k = None" "finding_ok k f"
  shows "advances l (l\<lparr>order_of := order_of l @ [k], findings := bm_insert k f (findings l)\<rparr>)"
proof -
  have "ledger_ok (l\<lparr>order_of := order_of l @ [k], findings := bm_insert k f (findings l)\<rparr>)" if "ledger_ok l"
    using that assms
    by (auto simp: ledger_ok_def catalog_ok_def groups_ok_def demands_ok_def authority_ok_def)
  moreover have "grows l (l\<lparr>order_of := order_of l @ [k], findings := bm_insert k f (findings l)\<rparr>)"
    using assms(1) by (auto simp: grows_def maps_grow_def)
  ultimately show ?thesis by (simp add: advances_def)
qed

lemma advances_put_demand:
  assumes "bm_get (demands l) k = Some d" "demand_grows d d'"
  shows "advances l (l\<lparr>demands := bm_insert k d' (demands l)\<rparr>)"
proof -
  have "insert k (dom (bm_get (demands l))) = dom (bm_get (demands l))" using assms(1) by auto
  then have "ledger_ok (l\<lparr>demands := bm_insert k d' (demands l)\<rparr>)" if "ledger_ok l"
    using that assms
    by (auto simp: ledger_ok_def catalog_ok_def groups_ok_def demands_ok_def authority_ok_def demand_grows_def)
  moreover have "grows l (l\<lparr>demands := bm_insert k d' (demands l)\<rparr>)"
    using assms by (auto simp: grows_def maps_grow_def)
  ultimately show ?thesis by (simp add: advances_def)
qed

subsection \<open>Reports\<close>

lemma authority_failure_frame [simp]:
  "findings (record_authority_failure r a i m l) = findings l"
  "order_of (record_authority_failure r a i m l) = order_of l"
  "active_groupings (record_authority_failure r a i m l) = active_groupings l"
  "demands (record_authority_failure r a i m l) = demands l"
  "demand_order (record_authority_failure r a i m l) = demand_order l"
  "resolutions (record_authority_failure r a i m l) = resolutions l"
  "resolution_authority (record_authority_failure r a i m l) = resolution_authority l"
  "grouping_history (record_authority_failure r a i m l) = grouping_history l"
  "resolution_history (record_authority_failure r a i m l) = resolution_history l"
  "policy_time (record_authority_failure r a i m l) = policy_time l"
  "active_scope (record_authority_failure r a i m l) = active_scope l"
  "prefix (scope_authority_failures l) (scope_authority_failures (record_authority_failure r a i m l))"
  by (simp_all add: record_authority_failure_def Let_def)

lemma authority_failure_advances: "advances l (record_authority_failure r a i m l)"
  by (rule advances_frame) simp_all

lemma read_report_advances: "read_report h r report_id l = Ok (l', report) \<Longrightarrow> advances l l'"
  by (auto simp: read_report_def authority_failure_advances split: res.splits)

lemma bind_report_advances: "bind_report_snapshot r report_id (l, report) = (l', report') \<Longrightarrow> advances l l'"
  by (auto simp: bind_report_snapshot_def authority_failure_advances split: option.splits if_splits)

lemma report_scope_advances: "report_scope r location l = (l', scope, selected) \<Longrightarrow> advances l l'"
  by (auto simp: report_scope_def authority_failure_advances
      split: option.splits if_splits SubjectScope.splits ReportLocation.splits)

text \<open>What the steps of a merge leave of a Finding.\<close>

lemma adopt_frame [simp]:
  "fi_key (adopt report source f) = fi_key f" "fi_aliases (adopt report source f) = fi_aliases f"
  "fi_reports (adopt report source f) = fi_reports f" "fi_history (adopt report source f) = fi_history f"
  "fi_authority_diagnostic (adopt report source f) = fi_authority_diagnostic f"
  "fi_status (adopt report source f) = fi_status f"
  by (simp_all add: adopt_def)

lemma note_recovery_frame [simp]:
  "fi_key (note_recovery source r recovered f) = fi_key f"
  "fi_aliases (note_recovery source r recovered f) = fi_aliases f"
  "fi_reports (note_recovery source r recovered f) = fi_reports f"
  "fi_authority_diagnostic (note_recovery source r recovered f) = fi_authority_diagnostic f"
  "fi_status (note_recovery source r recovered f) = fi_status f"
  "fi_severity (note_recovery source r recovered f) = fi_severity f"
  "prefix (fi_history f) (fi_history (note_recovery source r recovered f))"
  by (simp_all add: note_recovery_def)

lemma move_status_frame [simp]:
  "fi_key (move_status kind challenge report source f) = fi_key f"
  "fi_aliases (move_status kind challenge report source f) = fi_aliases f"
  "fi_reports (move_status kind challenge report source f) = fi_reports f"
  "fi_history (move_status kind challenge report source f) = fi_history f"
  "fi_authority_diagnostic (move_status kind challenge report source f) = fi_authority_diagnostic f"
  by (simp_all add: move_status_def Let_def split: TransitionKind.splits)

lemma update_convergence_frame [simp]:
  "fi_key (update_convergence kind scope severity f) = fi_key f"
  "fi_aliases (update_convergence kind scope severity f) = fi_aliases f"
  "fi_reports (update_convergence kind scope severity f) = fi_reports f"
  "fi_history (update_convergence kind scope severity f) = fi_history f"
  "fi_authority_diagnostic (update_convergence kind scope severity f) = fi_authority_diagnostic f"
  "fi_status (update_convergence kind scope severity f) = fi_status f"
  by (simp_all add: update_convergence_def)

lemma prefix_snocI: "prefix xs ys \<Longrightarrow> prefix xs (ys @ [y])"
  by (simp add: prefix_prefix)

lemma merge_report_frame:
  "fi_key (merge_report source r report attached scope challenge identity f) = fi_key f"
  "fi_aliases (merge_report source r report attached scope challenge identity f) = fi_aliases f"
  "fi_reports (merge_report source r report attached scope challenge identity f) = fi_reports f @ [attached]"
  "\<not> fi_authority_diagnostic (merge_report source r report attached scope challenge identity f)"
  by (simp_all add: merge_report_def recover_placeholder_def Let_def)

lemma merge_report_history:
  "prefix (fi_history f) (fi_history (merge_report source r report attached scope challenge identity f))"
proof -
  have "prefix (fi_history f) (fi_history (note_recovery source r recovered (f\<lparr>fi_reports := rs, fi_unreadable_reports := u\<rparr>)))"
    for recovered rs u
    using note_recovery_frame(7) [of "f\<lparr>fi_reports := rs, fi_unreadable_reports := u\<rparr>"] by simp
  then show ?thesis by (simp add: merge_report_def recover_placeholder_def Let_def prefix_prefix)
qed

lemma merge_report_step:
  "finding_ok k f \<Longrightarrow> finding_ok k (merge_report source r report attached scope challenge identity f)"
  "finding_grows f (merge_report source r report attached scope challenge identity f)"
  by (simp_all add: finding_ok_def finding_grows_def merge_report_frame merge_report_history)

lemma unreadable_step:
  "finding_ok k f \<Longrightarrow> finding_ok k (f\<lparr>fi_unreadable_reports := bs_insert i u, fi_reports := fi_reports f @ [a]\<rparr>)"
  "finding_grows f (f\<lparr>fi_unreadable_reports := bs_insert i u, fi_reports := fi_reports f @ [a]\<rparr>)"
  by (simp_all add: finding_ok_def finding_grows_def bs_empty_iff)

lemma new_finding_ok: "finding_ok key (new_finding key source r report identity attached scope)"
  by (simp add: finding_ok_def new_finding_def Let_def bs_empty_iff)

lemma admit_report_advances:
  assumes "admit_report key source r report_id (l0, report0) = Ok l'"
  shows "advances l0 l'"
proof -
  obtain l scope selected where rs: "report_scope r (pr_location report0) l0 = (l, scope, selected)"
    by (cases "report_scope r (pr_location report0) l0") auto
  have "advances l l'"
  proof (cases "bm_get (findings l) key")
    case None
    then show ?thesis
      using assms rs
      by (auto simp: admit_report_def Let_def and_then_eq_Ok intro!: advances_new_finding new_finding_ok)
  next
    case (Some f)
    then show ?thesis
      using assms rs
      by (auto simp: admit_report_def Let_def and_then_eq_Ok split: if_splits
          intro!: advances_put_finding [OF Some] merge_report_step unreadable_step)
  qed
  then show ?thesis using report_scope_advances [OF rs] advances_trans by blast
qed

lemma apply_report_advances: "apply_report h payload refs l = Ok l' \<Longrightarrow> advances l l'"
proof -
  assume "apply_report h payload refs l = Ok l'"
  then obtain key source r report_id lr where
    read: "read_report h r report_id l = Ok lr"
    and admit: "admit_report key source r report_id (bind_report_snapshot r report_id lr) = Ok l'"
    by (cases refs rule: remdups_adj.cases) (auto simp: apply_report_def and_then_eq_Ok split: if_splits)
  obtain l1 report1 where lr: "lr = (l1, report1)" by (cases lr)
  obtain l2 report2 where bind: "bind_report_snapshot r report_id (l1, report1) = (l2, report2)"
    by (cases "bind_report_snapshot r report_id (l1, report1)") auto
  show ?thesis
    using read_report_advances [OF read [unfolded lr]] bind_report_advances [OF bind]
      admit_report_advances [OF admit [unfolded lr bind]] advances_trans by blast
qed

subsection \<open>Campaigns, Rounds and Groupings\<close>

lemma apply_generation_advances: "apply_generation payload l = Ok l' \<Longrightarrow> advances l l'"
  by (auto simp: apply_generation_def and_then_eq_Ok intro!: advances_frame)

lemma apply_campaign_opened_advances:
  assumes ok: "apply_campaign_opened h payload l = Ok l'"
  shows "advances l l'"
proof -
  let ?lost = "l\<lparr>finding_identity_policy := [], finding_identity_policy_unavailable := True\<rparr>"
  obtain opened where opened: "as_campaign_opened h payload = Inr opened"
    using ok by (auto simp: apply_campaign_opened_def and_then_eq_Ok)
  let ?policy = "and_then (map_err id (get_json h (co_campaign_manifest_id opened)))
    (\<lambda>v. map_err id (manifest_identity_policy h v))"
  have lost: "advances l ?lost" by (rule advances_frame) simp_all
  show ?thesis
  proof (cases ?policy)
    case (Ok policy)
    then show ?thesis using ok opened by (auto simp: apply_campaign_opened_def intro!: advances_frame)
  next
    case (Err reason)
    then show ?thesis
      using ok opened advances_trans [OF lost authority_failure_advances]
      by (simp add: apply_campaign_opened_def) blast
  next
    case Panic
    then show ?thesis using ok opened by (simp add: apply_campaign_opened_def)
  qed
qed

lemma round_scope_frame: "round_scope h subject_id l = (l', scope) \<Longrightarrow> advances l l'"
  by (auto simp: round_scope_def split: sum.splits option.splits res.splits intro!: advances_frame)

lemma activate_advances: "advances l (l\<lparr>active_scope := s\<rparr>)"
  by (rule advances_frame) simp_all

lemma apply_round_started_advances: "apply_round_started h payload l = Ok l' \<Longrightarrow> advances l l'"
proof -
  assume ok: "apply_round_started h payload l = Ok l'"
  then obtain started where started: "as_round_started h payload = Inr started"
    by (auto simp: apply_round_started_def and_then_eq_Ok)
  obtain l1 scope where rs: "round_scope h (rp_subject_id started) l = (l1, scope)" by (cases "round_scope h (rp_subject_id started) l")
  have "\<exists>l2 s. l' = l2\<lparr>active_scope := s\<rparr> \<and> advances l1 l2"
    using ok rs started authority_failure_advances advances_refl
    by (auto simp: apply_round_started_def and_then_eq_Ok Let_def split: res.splits prod.splits)
  then show ?thesis using round_scope_frame [OF rs] activate_advances advances_trans by blast
qed

lemma apply_resolution_advances: "apply_resolution payload l = Ok l' \<Longrightarrow> advances l l'"
  by (auto simp: apply_resolution_def and_then_eq_Ok finding_ok_def finding_grows_def
      intro!: advances_put_finding)

lemma advances_group:
  assumes "validate_group l from into = Ok u"
  shows "advances l (l\<lparr>grouping_history := grouping_history l @ [e],
    active_groupings := bm_insert from into (active_groupings l)\<rparr>)"
proof -
  have "ledger_ok (l\<lparr>grouping_history := grouping_history l @ [e],
      active_groupings := bm_insert from into (active_groupings l)\<rparr>)" if "ledger_ok l"
    using that groups_ok_grouped [OF _ assms]
    by (simp add: ledger_ok_def catalog_ok_def groups_ok_def demands_ok_def authority_ok_def)
  then show ?thesis by (simp add: advances_def grows_def maps_grow_refl)
qed

lemma advances_ungroup:
  "advances l (l\<lparr>grouping_history := grouping_history l @ [e],
    active_groupings := bm_remove from (active_groupings l)\<rparr>)"
proof -
  have "ledger_ok (l\<lparr>grouping_history := grouping_history l @ [e],
      active_groupings := bm_remove from (active_groupings l)\<rparr>)" if "ledger_ok l"
    using that acyclic_remove edges_remove [of "from" "active_groupings l"]
    by (auto simp: ledger_ok_def catalog_ok_def groups_ok_def demands_ok_def authority_ok_def)
  then show ?thesis by (simp add: advances_def grows_def maps_grow_refl)
qed

lemma apply_grouping_advances: "apply_grouping h event_type payload refs l = Ok l' \<Longrightarrow> advances l l'"
  by (auto simp: apply_grouping_def and_then_eq_Ok Let_def advances_ungroup
      split: if_splits FindingGroupingAction.splits intro: advances_group)

subsection \<open>Demands and Evidence\<close>

lemma advances_new_demand:
  assumes "bm_get (demands l) k = None" "dm_demand_id (dr_demand d) = k"
  shows "advances l (l\<lparr>demand_order := demand_order l @ [k], demands := bm_insert k d (demands l)\<rparr>)"
proof -
  have "ledger_ok (l\<lparr>demand_order := demand_order l @ [k], demands := bm_insert k d (demands l)\<rparr>)" if "ledger_ok l"
    using that assms
    by (auto simp: ledger_ok_def catalog_ok_def groups_ok_def demands_ok_def authority_ok_def)
  moreover have "grows l (l\<lparr>demand_order := demand_order l @ [k], demands := bm_insert k d (demands l)\<rparr>)"
    using assms(1) by (auto simp: grows_def maps_grow_def)
  ultimately show ?thesis by (simp add: advances_def)
qed

lemma record_demand_advances:
  assumes ok: "record_demand h event_type record_id envelope l = Ok l'"
  shows "advances l l'"
proof -
  obtain demand where demand: "read_payload event_type ''review.kernel/Demand@1'' ''artifact is not Demand@1''
      (as_demand h) validate_demand envelope = Ok demand"
    using ok unfolding record_demand_def and_then_eq_Ok by blast
  show ?thesis
  proof (cases "bm_get (demands l) (dm_demand_id demand)")
    case None
    then show ?thesis using ok demand by (auto simp: record_demand_def intro!: advances_new_demand)
  next
    case (Some existing)
    then show ?thesis
      using ok demand
      by (auto simp: record_demand_def demand_grows_def split: if_splits intro!: advances_put_demand)
  qed
qed

lemma record_evidence_advances: "record_evidence h event_type record_id envelope l = Ok l' \<Longrightarrow> advances l l'"
  by (auto simp: record_evidence_def and_then_eq_Ok demand_grows_def intro!: advances_put_demand)

lemma record_satisfaction_advances: "record_satisfaction h event_type record_id envelope l = Ok l' \<Longrightarrow> advances l l'"
  by (auto simp: record_satisfaction_def and_then_eq_Ok demand_grows_def split: if_splits intro!: advances_put_demand)

lemma record_reuse_advances: "record_reuse h event_type record_id envelope l = Ok l' \<Longrightarrow> advances l l'"
  by (auto simp: record_reuse_def and_then_eq_Ok demand_grows_def split: if_splits intro!: advances_put_demand)

lemma record_waiver_advances: "record_waiver h event_type record_id envelope l = Ok l' \<Longrightarrow> advances l l'"
  by (auto simp: record_waiver_def and_then_eq_Ok demand_grows_def intro!: advances_put_demand)

lemmas record_advances = record_demand_advances record_evidence_advances record_satisfaction_advances
  record_reuse_advances record_waiver_advances

lemma apply_demand_evidence_advances: "apply_demand_evidence h event_type payload refs l = Ok l' \<Longrightarrow> advances l l'"
  by (auto simp: apply_demand_evidence_def and_then_eq_Ok split: if_splits intro: record_advances)

subsection \<open>Resolution authority\<close>

lemma read_payload_Ok:
  "read_payload event_type expected wrong decode validate envelope = Ok p \<longleftrightarrow>
   env_artifact_type envelope = expected \<and> decode (env_payload envelope) = Inr p \<and> validate p = Ok ()"
  by (auto simp: read_payload_def and_then_eq_Ok)

lemma update_members_advances:
  assumes "\<And>k f. finding_ok k f \<Longrightarrow> finding_ok k (change f)" "\<And>f. finding_grows f (change f)"
  shows "update_members change keys l = Ok l' \<Longrightarrow> advances l l'"
proof (induction keys arbitrary: l)
  case (Cons key keys)
  then obtain f where f: "bm_get (findings l) key = Some f"
    by (cases "bm_get (findings l) key") simp_all
  have "advances (l\<lparr>findings := bm_insert key (change f) (findings l)\<rparr>) l'" using Cons f by simp
  then show ?case using advances_put_finding [OF f assms(1,2)] advances_trans by blast
qed simp

lemma update_members_frame: "update_members change keys l = Ok l' \<Longrightarrow> \<exists>m. l' = l\<lparr>findings := m\<rparr>"
proof (induction change keys l rule: update_members.induct)
  case (1 ch l)
  then show ?case by (intro exI [of _ "findings l"]) simp
next
  case (2 ch key keys l)
  then show ?case by (cases "bm_get (findings l) key") fastforce+
qed

lemma set_status_step:
  "finding_ok k f \<Longrightarrow> finding_ok k (set_status r status kind note f)"
  "finding_grows f (set_status r status kind note f)"
  by (simp_all add: set_status_def finding_ok_def finding_grows_def)

lemmas set_members_advances = update_members_advances [OF set_status_step]

lemma record_attestation_advances:
  "record_attestation h event_type record_id envelope subject l = Ok l' \<Longrightarrow> advances l l'"
  by (auto simp: record_attestation_def and_then_eq_Ok split: if_splits
      intro!: advances_trans [OF set_members_advances advances_frame])

lemma record_verification_advances:
  "record_verification h event_type record_id envelope subject l = Ok l' \<Longrightarrow> advances l l'"
  by (auto simp: record_verification_def and_then_eq_Ok split: if_splits intro!: advances_frame)

lemma advances_put_resolution:
  assumes "validate_resolution (rrs_resolution r) = Ok ()"
  shows "advances l (l\<lparr>resolution_authority := a, resolution_history := resolution_history l @ [e],
    resolutions := bm_insert k r (resolutions l)\<rparr>)"
  using assms
  by (simp add: advances_def grows_def maps_grow_refl ledger_ok_def catalog_ok_def groups_ok_def demands_ok_def
      authority_ok_def)

lemma record_resolution_advances:
  "record_resolution h event_type record_id envelope subject l = Ok l' \<Longrightarrow> advances l l'"
  by (auto simp: record_resolution_def and_then_eq_Ok read_payload_Ok split: if_splits
      intro!: advances_trans [OF set_members_advances advances_put_resolution])

lemma record_challenge_advances:
  "record_challenge h event_type record_id envelope subject l = Ok l' \<Longrightarrow> advances l l'"
  by (auto simp: record_challenge_def and_then_eq_Ok split: if_splits
      intro!: advances_trans [OF set_members_advances advances_frame])

lemma advance_policy_time_advances: "advance_policy_time h event_type record_id envelope l = Ok l' \<Longrightarrow> advances l l'"
  by (auto simp: advance_policy_time_def and_then_eq_Ok split: if_splits intro!: advances_frame)

lemmas authority_advances = record_attestation_advances record_verification_advances
  record_resolution_advances record_challenge_advances advance_policy_time_advances

lemma apply_resolution_authority_advances:
  "apply_resolution_authority h event_type payload refs l = Ok l' \<Longrightarrow> advances l l'"
  by (auto simp: apply_resolution_authority_def and_then_eq_Ok split: if_splits intro: authority_advances)

subsection \<open>Events\<close>

lemma apply_typed_advances: "apply_typed h event_type payload refs l = Ok l' \<Longrightarrow> advances l l'"
  unfolding apply_typed_def
  by (auto split: if_splits intro: apply_campaign_opened_advances apply_round_started_advances
      apply_generation_advances apply_report_advances apply_resolution_advances apply_grouping_advances
      apply_demand_evidence_advances apply_resolution_authority_advances)

lemma apply_event_advances: "apply_event h event l = Ok l' \<Longrightarrow> advances l l'"
  unfolding apply_event_def by (rule apply_typed_advances)

end
