(* ===== verification/LedgerRun.thy ===== *)
theory LedgerRun
  imports LedgerSteps
begin

text \<open>
  The projection of a whole log. The lemmas lift the step lemmas of \<open>LedgerSteps\<close> to logs, show
  that on a well-formed ledger no event reaches a failed \<open>expect\<close>, and that a projection carried
  forward event by event is the projection rebuilt from the whole log.
\<close>

subsection \<open>No handler panics\<close>

named_theorems no_panic "calls that never panic"

lemma validators_no_panic [no_panic, simp]:
  "validate_envelope_shape e \<noteq> Panic" "validate_report r \<noteq> Panic" "validate_demand d \<noteq> Panic"
  "validate_evidence ev \<noteq> Panic" "validate_satisfaction s \<noteq> Panic" "validate_reuse u \<noteq> Panic"
  "validate_waiver w \<noteq> Panic" "validate_recorded p \<noteq> Panic" "validate_grouping g \<noteq> Panic"
  "validate_grouping_event ge \<noteq> Panic" "validate_attestation a \<noteq> Panic" "validate_verification v \<noteq> Panic"
  "validate_resolution rs \<noteq> Panic" "validate_challenge c \<noteq> Panic" "validate_policy_time pt \<noteq> Panic"
  "validate_round_started st \<noteq> Panic" "validate_subject su \<noteq> Panic" "validate_scope_shape cs \<noteq> Panic"
  by (simp_all add: validate_envelope_shape_def validate_report_def validate_demand_def validate_evidence_def
      validate_satisfaction_def validate_reuse_def validate_waiver_def validate_recorded_def
      validate_grouping_def validate_grouping_event_def validate_attestation_def validate_verification_def
      validate_resolution_def validate_challenge_def validate_policy_time_def validate_round_started_def
      validate_subject_def validate_scope_shape_def
      split: Producer.splits option.splits FindingResolutionOutcome.splits SubjectKind.splits)

lemma readers_no_panic [no_panic, simp]:
  "validate_envelope h e \<noteq> Panic" "read_subject h i \<noteq> Panic" "validate_subject_binding i s c cs \<noteq> Panic"
  "resolve_subject_scope h i \<noteq> Panic" "from_artifact h i j \<noteq> Panic" "required_string payload event field \<noteq> Panic"
  "required_round payload event \<noteq> Panic" "read_envelope h t i \<noteq> Panic"
  by (simp_all add: validate_envelope_def read_subject_def validate_subject_binding_def resolve_subject_scope_def
      from_artifact_def required_string_def required_round_def read_envelope_def and_then_eq_Panic Let_def
      split: SubjectKind.splits prod.splits)

lemma read_payload_no_panic [no_panic, simp]:
  "(\<And>p. validate p \<noteq> Panic) \<Longrightarrow> read_payload t x y decode validate e \<noteq> Panic"
  by (simp add: read_payload_def and_then_eq_Panic)

lemma read_recorded_no_panic [no_panic, simp]: "read_recorded h t payload refs \<noteq> Panic"
  by (simp add: read_recorded_def and_then_eq_Panic)

lemma grouping_no_panic [no_panic, simp]:
  "validate_group l a b \<noteq> Panic" "validate_ungroup l a b \<noteq> Panic" "finding_member_keys l k \<noteq> Panic"
  "validate_expected_finding_view h l k e t \<noteq> Panic"
  by (simp_all add: validate_group_def validate_ungroup_def finding_member_keys_def
      validate_expected_finding_view_def and_then_eq_Panic)

lemma read_report_no_panic [no_panic, simp]: "read_report h r i l \<noteq> Panic"
  by (simp add: read_report_def and_then_eq_Panic split: res.splits)

lemma tracked_has_ceiling:
  "validate_resolution rs = Ok () \<Longrightarrow> rs_outcome rs = WontfixTracked \<Longrightarrow> \<exists>c. rs_max_accepted_severity rs = Some c"
  by (auto simp: validate_resolution_def split: if_splits)

lemma fixed_has_verification:
  "validate_resolution rs = Ok () \<Longrightarrow> rs_outcome rs = ResolvedFixed \<Longrightarrow> \<exists>v. rs_verification_id rs = Some v"
  by (auto simp: validate_resolution_def split: if_splits)

lemma challenge_no_panic:
  assumes "authority_ok l"
  shows "resolution_challenge_for_report l k severity \<noteq> Panic"
proof
  assume panic: "resolution_challenge_for_report l k severity = Panic"
  then obtain r where r: "resolution l k = Some r" "rs_outcome (rrs_resolution r) = WontfixTracked"
      "rs_max_accepted_severity (rrs_resolution r) = None"
    by (cases "finding_view l k"; cases "resolution l k")
      (auto simp: resolution_challenge_for_report_def and_then_eq_Panic expect_def
        split: if_splits FindingResolutionOutcome.splits option.splits)
  then have "validate_resolution (rrs_resolution r) = Ok ()"
    using assms by (auto simp: resolution_def authority_ok_def split: option.splits)
  then show False using tracked_has_ceiling r by fastforce
qed

lemma resolution_status_no_panic: "validate_resolution rs = Ok () \<Longrightarrow> resolution_status t rs l \<noteq> Panic"
  using tracked_has_ceiling [of rs] fixed_has_verification [of rs]
  by (cases "rs_outcome rs") (auto simp: resolution_status_def and_then_eq_Panic split: if_splits)

lemma update_members_no_panic:
  "set keys \<subseteq> dom (bm_get (findings l)) \<Longrightarrow> update_members change keys l \<noteq> Panic"
proof (induction keys arbitrary: l)
  case (Cons key keys)
  then obtain f where f: "bm_get (findings l) key = Some f" by auto
  have "set keys \<subseteq> dom (bm_get (findings (l\<lparr>findings := bm_insert key (change f) (findings l)\<rparr>)))"
    using Cons.prems by auto
  from Cons.IH [OF this] f show ?case by simp
qed simp

lemma member_keys_known:
  assumes "catalog_ok l" "finding_member_keys l k = Ok keys"
  shows "set keys \<subseteq> dom (bm_get (findings l))"
  using finding_member_keys_Ok [OF assms] catalog_okD(2) [OF assms(1)] by auto

lemma members_no_panic:
  "catalog_ok l \<Longrightarrow> finding_member_keys l k = Ok keys \<Longrightarrow> update_members change keys l \<noteq> Panic"
  by (rule update_members_no_panic) (rule member_keys_known)

lemma admit_report_no_panic:
  assumes "ledger_ok l0"
  shows "admit_report key source r report_id (l0, report0) \<noteq> Panic"
proof -
  obtain l scope selected where rs: "report_scope r (pr_location report0) l0 = (l, scope, selected)"
    by (cases "report_scope r (pr_location report0) l0") auto
  have "authority_ok l"
    using report_scope_advances [OF rs] assms ledger_okD(4) unfolding advances_def by blast
  then show ?thesis
    using rs challenge_no_panic
    by (auto simp: admit_report_def Let_def and_then_eq_Panic split: option.splits)
qed

lemma apply_report_no_panic:
  assumes "ledger_ok l"
  shows "apply_report h payload refs l \<noteq> Panic"
proof
  assume "apply_report h payload refs l = Panic"
  then obtain key source r report_id l1 report1 where
    read: "read_report h r report_id l = Ok (l1, report1)"
    and admit: "admit_report key source r report_id (bind_report_snapshot r report_id (l1, report1)) = Panic"
    by (cases refs rule: remdups_adj.cases) (auto simp: apply_report_def and_then_eq_Panic split: if_splits)
  obtain l2 report2 where bind: "bind_report_snapshot r report_id (l1, report1) = (l2, report2)"
    by (cases "bind_report_snapshot r report_id (l1, report1)") auto
  have "ledger_ok l2"
    using assms read_report_advances [OF read] bind_report_advances [OF bind] unfolding advances_def by blast
  then show False using admit admit_report_no_panic unfolding bind by blast
qed

lemma resolve_scope_no_panic [simp]: "resolve_scope h i \<noteq> Panic"
  by (simp add: resolve_scope_def and_then_eq_Panic Let_def split: SubjectKind.splits)

lemma round_scope_no_panic: "snd (round_scope h i l) \<noteq> Panic"
  by (simp add: round_scope_def and_then_eq_Panic split: sum.splits option.splits res.splits)

lemma apply_round_started_no_panic: "apply_round_started h payload l \<noteq> Panic"
  using round_scope_no_panic [of h _ l]
  by (auto simp: apply_round_started_def and_then_eq_Panic Let_def split: prod.splits res.splits)
    (metis snd_conv)+

lemma plain_handlers_no_panic:
  "apply_generation payload l \<noteq> Panic" "apply_campaign_opened h payload l \<noteq> Panic"
  "apply_resolution payload l \<noteq> Panic" "apply_grouping h t payload refs l \<noteq> Panic"
  by (simp_all add: apply_generation_def apply_campaign_opened_def apply_resolution_def apply_grouping_def
      and_then_eq_Panic Let_def split: res.splits option.splits Value.splits FindingGroupingAction.splits)

lemma demand_handlers_no_panic [simp]:
  "record_demand h t i e l \<noteq> Panic" "record_evidence h t i e l \<noteq> Panic"
  "record_satisfaction h t i e l \<noteq> Panic" "record_reuse h t i e l \<noteq> Panic" "record_waiver h t i e l \<noteq> Panic"
  by (simp_all add: record_demand_def record_evidence_def record_satisfaction_def record_reuse_def record_waiver_def
      and_then_eq_Panic split: option.splits)

lemma apply_demand_evidence_no_panic:
  "t \<in> set demand_events \<Longrightarrow> apply_demand_evidence h t payload refs l \<noteq> Panic"
  by (auto simp: apply_demand_evidence_def demand_events_def and_then_eq_Panic split: if_splits)

lemma authority_handlers_no_panic:
  assumes "ledger_ok l"
  shows "record_attestation h t i e s l \<noteq> Panic" "record_verification h t i e s l \<noteq> Panic"
    "record_resolution h t i e s l \<noteq> Panic" "record_challenge h t i e s l \<noteq> Panic"
    "advance_policy_time h t i e l \<noteq> Panic"
  using members_no_panic [OF ledger_okD(1) [OF assms]] resolution_status_no_panic
  by (auto simp: record_attestation_def record_verification_def record_resolution_def record_challenge_def
      advance_policy_time_def and_then_eq_Panic read_payload_Ok)

lemma apply_resolution_authority_no_panic:
  "ledger_ok l \<Longrightarrow> t \<in> set authority_events \<Longrightarrow> apply_resolution_authority h t payload refs l \<noteq> Panic"
  using authority_handlers_no_panic
  by (auto simp: apply_resolution_authority_def authority_events_def and_then_eq_Panic split: if_splits)

lemma apply_event_no_panic: "ledger_ok l \<Longrightarrow> apply_event h event l \<noteq> Panic"
  using plain_handlers_no_panic apply_report_no_panic apply_round_started_no_panic
    apply_demand_evidence_no_panic apply_resolution_authority_no_panic
  unfolding apply_event_def apply_typed_def by (simp split: if_splits)

subsection \<open>Folding a log\<close>

text \<open>
  What a fold of events promises: an empty log changes nothing, a log is applied event by event,
  a successful event keeps the invariant and moves the state forward in a preorder.
\<close>

locale event_log =
  fixes step :: "'e \<Rightarrow> 's \<Rightarrow> ('err, 's) res"
    and replay :: "'e list \<Rightarrow> 's \<Rightarrow> ('err, 's) res"
    and ok :: "'s \<Rightarrow> bool"
    and later :: "'s \<Rightarrow> 's \<Rightarrow> bool"
  assumes replay_Nil: "replay [] s = Ok s"
    and replay_Cons: "replay (e # es) s = and_then (step e s) (replay es)"
    and ok_step: "step e s = Ok t \<Longrightarrow> ok s \<Longrightarrow> ok t"
    and later_refl: "later s s"
    and later_trans: "later s t \<Longrightarrow> later t u \<Longrightarrow> later s u"
    and later_step: "step e s = Ok t \<Longrightarrow> later s t"
begin

lemma replay_append: "replay (es @ fs) s = and_then (replay es s) (replay fs)"
proof (induction es arbitrary: s)
  case (Cons e es)
  then show ?case by (cases "step e s") (simp_all add: replay_Cons)
qed (simp add: replay_Nil)

lemma replay_ok: "replay es s = Ok t \<Longrightarrow> ok s \<Longrightarrow> ok t"
  by (induction es arbitrary: s) (auto simp: replay_Nil replay_Cons and_then_eq_Ok intro: ok_step)

lemma replay_later: "replay es s = Ok t \<Longrightarrow> later s t"
  by (induction es arbitrary: s)
    (auto simp: replay_Nil replay_Cons and_then_eq_Ok later_refl intro: later_trans later_step)

end

lemma project_event_Ok:
  "project_event h e p = Ok p' \<longleftrightarrow>
   re_run_id e = lp_run_id p \<and> re_sequence e = lp_event_count p \<and> lp_event_count p < u64_max \<and>
   (\<exists>l. apply_event h e (lp_ledger p) = Ok l \<and> p' = p\<lparr>lp_ledger := l, lp_event_count := lp_event_count p + 1\<rparr>)"
  by (auto simp: project_event_def and_then_eq_Ok split: if_splits)

definition projection_ok :: "LedgerProjection \<Rightarrow> bool" where
  "projection_ok p \<longleftrightarrow> ledger_ok (lp_ledger p)"

definition projection_later :: "LedgerProjection \<Rightarrow> LedgerProjection \<Rightarrow> bool" where
  "projection_later p q \<longleftrightarrow> lp_run_id q = lp_run_id p \<and> lp_event_count p \<le> lp_event_count q \<and>
     grows (lp_ledger p) (lp_ledger q)"

interpretation projection: event_log "project_event h" "project_events h" projection_ok projection_later for h
proof
  show "projection_later s u" if "projection_later s t" "projection_later t u" for s t u
    using that grows_trans by (auto simp: projection_later_def)
  show "projection_ok t" if "project_event h e s = Ok t" "projection_ok s" for e s t
    using that apply_event_advances by (auto simp: projection_ok_def project_event_Ok advances_def)
  show "projection_later s t" if "project_event h e s = Ok t" for e s t
    using that apply_event_advances by (auto simp: projection_later_def project_event_Ok advances_def)
qed (simp_all add: projection_later_def)

lemma initial_projection_ok: "projection_ok (initial_projection run)"
  by (simp add: projection_ok_def initial_projection_def fresh_ledger_def ledger_ok_def catalog_ok_def
      groups_ok_def demands_ok_def authority_ok_def acyclic_def edges_def)

lemma from_events_ok: "from_events h run events = Ok p \<Longrightarrow> ledger_ok (lp_ledger p)"
  using projection.replay_ok initial_projection_ok unfolding from_events_def projection_ok_def by blast

text \<open>A log is accepted only in its own order: dense sequence numbers of one run.\<close>

lemma project_events_dense:
  assumes "project_events h es p = Ok q"
  shows "lp_event_count q = lp_event_count p + length es \<and> lp_run_id q = lp_run_id p \<and>
    (\<forall>i < length es. re_run_id (es ! i) = lp_run_id p \<and> re_sequence (es ! i) = lp_event_count p + i)"
  using assms
proof (induction es arbitrary: p)
  case (Cons e es)
  then obtain m where m: "project_event h e p = Ok m" "project_events h es m = Ok q"
    by (auto simp: and_then_eq_Ok)
  show ?case using Cons.IH [OF m(2)] m(1) by (auto simp: project_event_Ok nth_Cons split: nat.splits)
qed simp

lemma project_event_no_panic:
  "projection_ok p \<Longrightarrow> lp_event_count p < u64_max \<Longrightarrow> project_event h e p \<noteq> Panic"
  using apply_event_no_panic by (auto simp: project_event_def projection_ok_def and_then_eq_Panic)

lemma project_events_no_panic:
  "projection_ok p \<Longrightarrow> lp_event_count p + length es \<le> u64_max \<Longrightarrow> project_events h es p \<noteq> Panic"
proof (induction es arbitrary: p)
  case (Cons e es)
  then have "project_event h e p \<noteq> Panic" using project_event_no_panic by simp
  moreover have "project_events h es q \<noteq> Panic" if "project_event h e p = Ok q" for q
    using Cons.IH [of q] Cons.prems that projection.ok_step [OF that] by (auto simp: project_event_Ok)
  ultimately show ?case by (auto simp: and_then_eq_Panic)
qed simp

text \<open>Carrying a projection forward over the rest of a log rebuilds it.\<close>

lemma from_events_append:
  "from_events h run (es @ fs) = and_then (from_events h run es) (project_events h fs)"
  by (simp add: from_events_def projection.replay_append)

lemma fast_forward_rebuilds:
  assumes "from_events h run (take n log_events) = Ok p" "n \<le> length log_events"
  shows "fast_forward h log_events p = from_events h run log_events"
proof -
  have count: "lp_event_count p = n"
    using project_events_dense [of h "take n log_events"] assms
    by (auto simp: from_events_def initial_projection_def min_def)
  have "from_events h run log_events = and_then (from_events h run (take n log_events)) (project_events h (drop n log_events))"
    using from_events_append [of h run "take n log_events" "drop n log_events"] by simp
  then show ?thesis using assms count by (simp add: fast_forward_def)
qed

end
