(* ===== verification/LedgerStatus.thy ===== *)
theory LedgerStatus
  imports LedgerRun
begin

text \<open>
  The life of one Finding. \<open>status_move\<close> is the state machine of a Finding's status: which kinds
  of event move it, and from where to where. The lemmas show that every event the ledger accepts
  is a move of that machine, that a Finding is fixed by authority only on a positive verification of
  the active Subject, and exactly what a new Report does to a declined Finding.
\<close>

subsection \<open>The state machine\<close>

definition status_of :: "Ledger \<Rightarrow> string \<Rightarrow> Status option" where
  "status_of l k = map_option fi_status (bm_get (findings l) k)"

definition placeholder :: "Ledger \<Rightarrow> string \<Rightarrow> bool" where
  "placeholder l k = is_some_and (bm_get (findings l) k) fi_authority_diagnostic"

text \<open>The second argument says that the Finding stands for Reports that cannot be read.\<close>

inductive status_move :: "EventType \<Rightarrow> bool \<Rightarrow> Status option \<Rightarrow> Status option \<Rightarrow> bool" where
  keep: "status_move t b s s"
| first_report: "status_move FindingReportedV1 b None (Some Open)"
| authority_recovered: "status_move FindingReportedV1 True (Some s) (Some Open)"
| reopened: "status_move FindingReportedV1 b (Some Fixed) (Some Open)"
| challenged: "status_move FindingReportedV1 b (Some s) (Some Contested)"
    if "\<not> is_active s"
| set_by_event: "status_move FindingResolvedV1 b (Some s) (Some s')"
| attested: "status_move ChangeAttestedV1 b (Some s) (Some PendingVerification)"
| decided: "status_move FindingResolutionRecordedV1 b (Some s) (Some s')"
    if "\<not> is_active s'"
| contested: "status_move FindingResolutionChallengedV1 b (Some s) (Some Contested)"

lemmas status_moves = status_move.intros

inductive_simps status_move_fixed: "status_move t b s (Some Fixed)"

subsection \<open>Updates of a group\<close>

lemma update_members_status:
  "update_members (set_status r status kind note) keys l = Ok l' \<Longrightarrow>
   status_of l' k = (if k \<in> set keys then Some status else status_of l k) \<and>
   (k \<in> set keys \<longrightarrow> status_of l k \<noteq> None)"
proof (induction keys arbitrary: l)
  case (Cons key keys)
  then obtain f where f: "bm_get (findings l) key = Some f"
    by (cases "bm_get (findings l) key") simp_all
  from Cons.IH [of "l\<lparr>findings := bm_insert key (set_status r status kind note f) (findings l)\<rparr>"] Cons.prems f
  show ?case by (auto simp: status_of_def set_status_def split: if_splits)
qed simp

lemma status_of_findings: "findings l' = findings l \<Longrightarrow> status_of l' k = status_of l k"
  by (simp add: status_of_def)

lemma group_move:
  assumes "update_members (set_status r status kind note) keys l = Ok l1" "findings l' = findings l1"
    "\<And>s. status_move t b (Some s) (Some status)"
  shows "status_move t b (status_of l k) (status_of l' k)"
  using update_members_status [OF assms(1), of k] status_of_findings [OF assms(2), of k] assms(3) status_moves(1)
  by (cases "status_of l k") auto

subsection \<open>Handlers that leave the Findings alone\<close>

lemma record_demand_findings:
  "record_demand h t record_id envelope l = Ok l' \<Longrightarrow> findings l' = findings l"
proof -
  assume ok: "record_demand h t record_id envelope l = Ok l'"
  obtain demand where "read_payload t ''review.kernel/Demand@1'' ''artifact is not Demand@1''
      (as_demand h) validate_demand envelope = Ok demand"
    using ok unfolding record_demand_def and_then_eq_Ok by blast
  then show ?thesis
    using ok by (cases "bm_get (demands l) (dm_demand_id demand)") (auto simp: record_demand_def split: if_splits)
qed

lemma demand_evidence_findings:
  "apply_demand_evidence h t payload refs l = Ok l' \<Longrightarrow> findings l' = findings l"
  by (auto simp: apply_demand_evidence_def and_then_eq_Ok record_evidence_def record_satisfaction_def
      record_reuse_def record_waiver_def dest: record_demand_findings split: if_splits)

lemma grouping_findings: "apply_grouping h t payload refs l = Ok l' \<Longrightarrow> findings l' = findings l"
  by (auto simp: apply_grouping_def and_then_eq_Ok Let_def split: if_splits FindingGroupingAction.splits)

lemma campaign_findings: "apply_campaign_opened h payload l = Ok l' \<Longrightarrow> findings l' = findings l"
proof -
  assume ok: "apply_campaign_opened h payload l = Ok l'"
  then obtain opened where opened: "as_campaign_opened h payload = Inr opened"
    by (auto simp: apply_campaign_opened_def and_then_eq_Ok)
  let ?policy = "and_then (map_err id (get_json h (co_campaign_manifest_id opened)))
    (\<lambda>v. map_err id (manifest_identity_policy h v))"
  show ?thesis using ok opened by (cases ?policy) (auto simp: apply_campaign_opened_def)
qed

lemma round_scope_findings: "round_scope h i l = (l1, scope) \<Longrightarrow> findings l1 = findings l"
  by (auto simp: round_scope_def split: sum.splits option.splits res.splits)

lemma round_started_findings: "apply_round_started h payload l = Ok l' \<Longrightarrow> findings l' = findings l"
proof -
  assume ok: "apply_round_started h payload l = Ok l'"
  then obtain started where started: "as_round_started h payload = Inr started"
    by (auto simp: apply_round_started_def and_then_eq_Ok)
  obtain l1 scope where rs: "round_scope h (rp_subject_id started) l = (l1, scope)"
    by (cases "round_scope h (rp_subject_id started) l")
  show ?thesis
    using ok started rs round_scope_findings [OF rs]
    by (cases scope) (auto simp: apply_round_started_def and_then_eq_Ok Let_def)
qed

lemma generation_findings: "apply_generation payload l = Ok l' \<Longrightarrow> findings l' = findings l"
  by (auto simp: apply_generation_def and_then_eq_Ok)

lemma verification_findings: "record_verification h t record_id envelope subject l = Ok l' \<Longrightarrow> findings l' = findings l"
  by (auto simp: record_verification_def and_then_eq_Ok split: if_splits)

lemma policy_time_findings: "advance_policy_time h t record_id envelope l = Ok l' \<Longrightarrow> findings l' = findings l"
  by (auto simp: advance_policy_time_def and_then_eq_Ok split: if_splits)

lemmas findings_kept = demand_evidence_findings grouping_findings campaign_findings round_started_findings
  generation_findings verification_findings policy_time_findings

subsection \<open>Reports\<close>

text \<open>Reading and placing a Report changes nothing but the list of authority failures.\<close>

definition failures_noted :: "Ledger \<Rightarrow> Ledger \<Rightarrow> bool" where
  "failures_noted l l' \<longleftrightarrow> (\<exists>keys failures. l' = l\<lparr>scope_authority_failure_keys := keys, scope_authority_failures := failures\<rparr>)"

lemma failures_noted_refl [simp]: "failures_noted l l"
  unfolding failures_noted_def
  by (intro exI [of _ "scope_authority_failure_keys l"] exI [of _ "scope_authority_failures l"]) simp

lemma failures_noted_trans: "failures_noted l m \<Longrightarrow> failures_noted m n \<Longrightarrow> failures_noted l n"
  unfolding failures_noted_def by force

lemma record_failure_noted: "failures_noted l (record_authority_failure r a i m l)"
proof (cases "\<lparr>af_round = r, af_authority = a, af_authority_id = i, af_reason = m\<rparr> \<in> scope_authority_failure_keys l")
  case False
  then show ?thesis by (simp add: record_authority_failure_def failures_noted_def Let_def) blast
qed (simp add: record_authority_failure_def Let_def)

lemma read_report_noted: "read_report h r i l = Ok (l', report) \<Longrightarrow> failures_noted l l'"
  by (auto simp: read_report_def record_failure_noted split: res.splits)

lemma bind_report_noted: "bind_report_snapshot r i (l, report) = (l', report') \<Longrightarrow> failures_noted l l'"
  by (auto simp: bind_report_snapshot_def record_failure_noted split: option.splits if_splits)

lemma report_scope_noted: "report_scope r location l = (l', scope, selected) \<Longrightarrow> failures_noted l l'"
  by (auto simp: report_scope_def record_failure_noted
      split: option.splits if_splits SubjectScope.splits ReportLocation.splits)

lemma noted_frame:
  assumes "failures_noted l l'"
  shows "findings l' = findings l" "order_of l' = order_of l" "active_groupings l' = active_groupings l"
    "active_scope l' = active_scope l" "resolutions l' = resolutions l"
    "resolution_authority l' = resolution_authority l"
  using assms by (auto simp: failures_noted_def)

lemma noted_challenge:
  assumes "failures_noted l l'"
  shows "resolution_challenge_for_report l' k severity = resolution_challenge_for_report l k severity"
  unfolding resolution_challenge_for_report_def finding_view_def finding_view_for_root_def group_members_def
    group_root_def resolution_def active_subject_id_def noted_frame [OF assms] ..

lemma required_string_Ok:
  assumes "required_string payload event field = Ok s"
  shows "value_get payload field = Some (JString s)"
proof -
  obtain v where v: "value_get payload field = Some v" "as_str v = Some s"
    using assms by (auto simp: required_string_def split: option.splits if_splits)
  then show ?thesis by (cases v) (simp_all add: as_str_def)
qed

text \<open>What an accepted Report does to the Findings.\<close>

lemma apply_report_Ok:
  assumes "apply_report h payload refs l = Ok l'"
  obtains key f' source r report attached scope challenge identity where
    "findings l' = bm_insert key f' (findings l)"
    "(if out_of_scope scope then Ok None else resolution_challenge_for_report l key (pr_severity report)) = Ok challenge"
    "ar_severity attached = pr_severity report" "ar_scope attached = scope"
    "bm_get (findings l) key = None \<Longrightarrow> f' = new_finding key source r report identity attached scope"
    "\<And>f. bm_get (findings l) key = Some f \<Longrightarrow> pr_unreadable report \<Longrightarrow>
       f' = f\<lparr>fi_unreadable_reports := bs_insert (ar_report_id attached) (fi_unreadable_reports f),
         fi_reports := fi_reports f @ [attached]\<rparr>"
    "\<And>f. bm_get (findings l) key = Some f \<Longrightarrow> \<not> pr_unreadable report \<Longrightarrow>
       f' = merge_report source r report attached scope challenge identity f"
    "value_get payload ''key'' = Some (JString key)"
proof -
  from assms obtain key source r report_id lr where
    key: "required_string payload ''FindingReported@1'' ''key'' = Ok key"
    and read: "read_report h r report_id l = Ok lr"
    and admit: "admit_report key source r report_id (bind_report_snapshot r report_id lr) = Ok l'"
    by (cases refs rule: remdups_adj.cases) (auto simp: apply_report_def and_then_eq_Ok split: if_splits)
  obtain l1 report1 where lr: "lr = (l1, report1)" by (cases lr)
  obtain l2 report2 where bind: "bind_report_snapshot r report_id (l1, report1) = (l2, report2)"
    by (cases "bind_report_snapshot r report_id (l1, report1)") auto
  obtain l3 scope selected where rs: "report_scope r (pr_location report2) l2 = (l3, scope, selected)"
    by (cases "report_scope r (pr_location report2) l2") auto
  have noted: "failures_noted l l3"
    using read_report_noted [OF read [unfolded lr]] bind_report_noted [OF bind] report_scope_noted [OF rs]
      failures_noted_trans by blast
  define report where "report = select_location selected report2"
  define attached where "attached = \<lparr>ar_report_id = report_id, ar_artifact_id = pr_artifact_id report, ar_round = r,
    ar_source = source, ar_severity = pr_severity report, ar_rule_id = pr_rule_id report,
    ar_occurrence_key = pr_occurrence_key report, ar_relations = pr_relations report,
    ar_file = pr_file report, ar_line = pr_line report, ar_scope = scope\<rparr>"
  obtain challenge where challenge: "(if out_of_scope scope then Ok None
      else resolution_challenge_for_report l3 key (pr_severity report)) = Ok challenge"
    using admit unfolding lr bind admit_report_def rs Let_def prod.case report_def and_then_eq_Ok by blast
  show ?thesis
  proof (rule that [where key = key and f' = "the (bm_get (findings l') key)" and challenge = challenge and report = report
        and attached = attached and scope = scope and source = source and r = r and identity = "identity_location report2"])
    show "findings l' = bm_insert key (the (bm_get (findings l') key)) (findings l)"
      using admit challenge noted_frame(1) [OF noted]
      by (cases "bm_get (findings l) key")
        (auto simp: lr bind admit_report_def rs Let_def report_def [symmetric] split: if_splits)
    show "(if out_of_scope scope then Ok None else resolution_challenge_for_report l key (pr_severity report)) = Ok challenge"
      using challenge unfolding noted_challenge [OF noted] .
    show "value_get payload ''key'' = Some (JString key)" by (rule required_string_Ok [OF key])
  qed (use admit challenge noted_frame(1) [OF noted] in
      \<open>auto simp: lr bind admit_report_def rs Let_def report_def [symmetric] attached_def split: if_splits\<close>)
qed

lemma merge_report_status:
  "fi_status (merge_report source r report attached scope challenge identity f) =
     (if fi_authority_diagnostic f then Open
      else if challenge \<noteq> None then Contested
      else if fi_status f = Fixed \<and> fi_last_seen_round f < r then Open
      else fi_status f)"
proof -
  have last_seen: "fi_last_seen_round (note_recovery source r recovered g) = fi_last_seen_round g" for recovered g
    by (simp add: note_recovery_def)
  have kept: "fi_status (update_convergence kind scope severity g) = fi_status g" for kind severity g
    by (simp add: update_convergence_def)
  show ?thesis
    by (cases "fi_status f")
      (simp_all add: merge_report_def recover_placeholder_def Let_def transition_kind_def move_status_def
        last_seen kept is_declined_def is_active_def)
qed

lemma declined_inactive: "is_declined s \<Longrightarrow> \<not> is_active s"
  by (cases s) (simp_all add: is_declined_def is_active_def)

lemma inactive_view_member:
  assumes ok: "ledger_ok l" and view: "finding_view l k = Some v" "\<not> is_active (fi_status v)"
    and f: "bm_get (findings l) k = Some f"
  shows "\<not> is_active (fi_status f)"
proof -
  obtain r where r: "group_root l k = Some r" "finding_view_for_root l r = Some v"
    using view(1) by (auto simp: finding_view_def split: option.splits)
  have root: "group_root l r = Some r" using group_root_known(2) [OF ledger_okD(2) [OF ok] r(1)] .
  have "f \<in> set (group_members l r)" using f r(1) set_group_members [OF ledger_okD(1) [OF ok]] by blast
  then show ?thesis using view_of_members(1) [OF r(2) ledger_okD(1) [OF ok] root] view(2) by blast
qed

text \<open>Why a Report contests a declined group: its Resolution covers another Subject, or a lower severity.\<close>

definition overtaken :: "Ledger \<Rightarrow> string \<Rightarrow> Severity \<Rightarrow> bool" where
  "overtaken l k severity =
     is_some_and (resolution l k) (\<lambda>r.
       Some (rs_subject_id (rrs_resolution r)) \<noteq> active_subject_id l
       \<or> (case rs_outcome (rrs_resolution r) of
            WontfixTracked \<Rightarrow> is_some_and (rs_max_accepted_severity (rrs_resolution r)) (\<lambda>c. rank c < rank severity)
          | ResolvedRejected \<Rightarrow> is_some_and (finding_view l k) (\<lambda>v. rank (fi_severity v) < rank severity)
          | ResolvedFixed \<Rightarrow> False))"

definition group_declined :: "Ledger \<Rightarrow> string \<Rightarrow> bool" where
  "group_declined l k = is_some_and (finding_view l k) (\<lambda>v. is_declined (fi_status v))"

lemma challenge_iff:
  assumes "resolution_challenge_for_report l k severity = Ok challenge"
  shows "challenge \<noteq> None \<longleftrightarrow> group_declined l k \<and> overtaken l k severity"
proof (cases "finding_view l k")
  case view: (Some v)
  show ?thesis
  proof (cases "resolution l k")
    case res: (Some r)
    show ?thesis
      using assms view res
      by (cases "rs_outcome (rrs_resolution r)"; cases "rs_max_accepted_severity (rrs_resolution r)")
        (auto simp: resolution_challenge_for_report_def overtaken_def group_declined_def split: if_splits)
  qed (use assms view in \<open>auto simp: resolution_challenge_for_report_def overtaken_def split: if_splits\<close>)
qed (use assms in \<open>auto simp: resolution_challenge_for_report_def group_declined_def\<close>)

lemma report_move:
  assumes ok: "ledger_ok l" and ev: "apply_report h payload refs l = Ok l'"
  shows "status_move FindingReportedV1 (placeholder l k) (status_of l k) (status_of l' k)"
  using ev
proof (cases rule: apply_report_Ok)
  case (1 key f' source r report attached scope challenge identity)
  show ?thesis
  proof (cases "k = key \<and> bm_get (findings l) key \<noteq> None \<and> \<not> pr_unreadable report")
    case True
    then obtain f where f: "bm_get (findings l) k = Some f" by auto
    have f': "f' = merge_report source r report attached scope challenge identity f" using 1(7) True f by simp
    have "\<not> is_active (fi_status f)" if "challenge \<noteq> None"
    proof -
      have "resolution_challenge_for_report l k (pr_severity report) = Ok challenge"
        using that 1(2) True by (auto split: if_splits)
      then have "group_declined l k" using that challenge_iff by blast
      then obtain v where "finding_view l k = Some v" "is_declined (fi_status v)"
        by (cases "finding_view l k") (auto simp: group_declined_def)
      then show ?thesis using inactive_view_member [OF ok _ _ f] declined_inactive by blast
    qed
    then show ?thesis
      using True f 1(1) status_moves
      by (simp add: f' status_of_def placeholder_def merge_report_status)
  next
    case False
    then have "status_of l' k = status_of l k \<or> status_of l k = None \<and> status_of l' k = Some Open"
      using 1(1,5,6) by (cases "bm_get (findings l) key") (auto simp: status_of_def new_finding_def Let_def)
    then show ?thesis using status_moves(1,2) by metis
  qed
qed

subsection \<open>Every event is a move\<close>

lemma resolved_move: "apply_resolution payload l = Ok l' \<Longrightarrow> status_move FindingResolvedV1 b (status_of l k) (status_of l' k)"
  by (auto simp: apply_resolution_def and_then_eq_Ok status_of_def intro: status_moves(1,6))

lemma attestation_move:
  assumes "record_attestation h t record_id envelope subject l = Ok l'"
  shows "status_move ChangeAttestedV1 b (status_of l k) (status_of l' k)"
  using assms
  by (auto simp: record_attestation_def and_then_eq_Ok split: if_splits intro!: group_move status_moves(7))

lemma challenge_move:
  assumes "record_challenge h t record_id envelope subject l = Ok l'"
  shows "status_move FindingResolutionChallengedV1 b (status_of l k) (status_of l' k)"
  using assms
  by (auto simp: record_challenge_def and_then_eq_Ok split: if_splits intro!: group_move status_moves(9))

text \<open>A Resolution decides the whole group of the Finding it names.\<close>

lemma record_resolution_Ok:
  assumes "record_resolution h t record_id envelope subject l = Ok l'"
  obtains res status keys l1 where "rs_subject_id res = subject" "resolution_status t res l = Ok status"
    "finding_member_keys l (rs_finding_id res) = Ok keys"
    "update_members (set_status (ledger_round l) status (Resolved status) (rs_reason res)) keys l = Ok l1"
    "l' = l1\<lparr>resolution_authority := bm_extend (resolution_authority l1) (map (\<lambda>key. (key, rs_finding_id res)) keys),
       resolution_history := resolution_history l1
         @ [\<lparr>ve_record_id = record_id, ve_artifact_id = env_artifact_id envelope\<rparr>],
       resolutions := bm_insert (rs_finding_id res)
         \<lparr>rrs_record_id = record_id, rrs_artifact_id = env_artifact_id envelope, rrs_resolution = res\<rparr>
         (resolutions l1)\<rparr>"
  using assms by (auto simp: record_resolution_def and_then_eq_Ok split: if_splits)

lemma resolution_status_Ok:
  assumes "resolution_status t res l = Ok status"
  shows "\<not> is_active status"
    and "status = Fixed \<Longrightarrow> rs_outcome res = ResolvedFixed \<and> (\<exists>i v. rs_verification_id res = Some i \<and>
      bm_get (verifications l) i = Some v \<and> fv_positive (rvf_verification v) \<and>
      fv_finding_id (rvf_verification v) = rs_finding_id res \<and>
      fv_subject_id (rvf_verification v) = rs_subject_id res)"
  using assms
  by (cases "rs_outcome res"; auto simp: resolution_status_def and_then_eq_Ok is_active_def expect_def
      split: if_splits option.splits)+

lemma decision_move:
  assumes "record_resolution h t record_id envelope subject l = Ok l'"
  shows "status_move FindingResolutionRecordedV1 b (status_of l k) (status_of l' k)"
  using assms
proof (cases rule: record_resolution_Ok)
  case (1 res status keys l1)
  show ?thesis
    by (rule group_move [OF 1(4)]) (use 1(5) status_moves(8) resolution_status_Ok(1) [OF 1(2)] in auto)
qed

lemma status_move_kept: "findings l' = findings l \<Longrightarrow> status_move t b (status_of l k) (status_of l' k)"
  by (simp add: status_of_findings [of l' l] status_moves(1))

lemma authority_move:
  "apply_resolution_authority h t payload refs l = Ok l' \<Longrightarrow> status_move t b (status_of l k) (status_of l' k)"
  by (auto simp: apply_resolution_authority_def and_then_eq_Ok split: if_splits
      intro: status_move_kept findings_kept attestation_move challenge_move decision_move)

lemma event_move:
  assumes "ledger_ok l" "apply_event h e l = Ok l'"
  shows "status_move (re_event_type e) (placeholder l k) (status_of l k) (status_of l' k)"
proof -
  let ?t = "re_event_type e"
  consider "findings l' = findings l"
    | "?t = FindingReportedV1" "apply_report h (re_payload e) (re_artifact_refs e) l = Ok l'"
    | "?t = FindingResolvedV1" "apply_resolution (re_payload e) l = Ok l'"
    | "apply_resolution_authority h ?t (re_payload e) (re_artifact_refs e) l = Ok l'"
    using assms(2) unfolding apply_event_def apply_typed_def
    by (auto split: if_splits dest: findings_kept)
  then show ?thesis
    using status_move_kept report_move [OF assms(1)] resolved_move authority_move by cases simp_all
qed

text \<open>A fix decided by authority rests on a positive verification of the active Subject.\<close>

definition fix_verified :: "Ledger \<Rightarrow> string \<Rightarrow> bool" where
  "fix_verified l k =
     is_some_and (resolution l k) (\<lambda>r.
       rs_outcome (rrs_resolution r) = ResolvedFixed \<and>
       Some (rs_subject_id (rrs_resolution r)) = active_subject_id l \<and>
       is_some_and (rs_verification_id (rrs_resolution r)) (\<lambda>i.
       is_some_and (bm_get (verifications l) i) (\<lambda>v.
         fv_positive (rvf_verification v) \<and>
         fv_finding_id (rvf_verification v) = rs_finding_id (rrs_resolution r) \<and>
         fv_subject_id (rvf_verification v) = rs_subject_id (rrs_resolution r))))"

lemma map_of_constant: "map_of (rev (map (\<lambda>key. (key, c)) keys)) k = (if k \<in> set keys then Some c else None)"
  by (induction keys rule: rev_induct) auto

lemma decision_fixed:
  assumes ok: "record_resolution h t record_id envelope subject l = Ok l'" "active_subject_id l = Some subject"
    and fixed: "status_of l' k = Some Fixed" "status_of l k \<noteq> Some Fixed"
  shows "fix_verified l' k"
  using ok(1)
proof (cases rule: record_resolution_Ok)
  case (1 res status keys l1)
  have k: "k \<in> set keys" "status = Fixed"
    using update_members_status [OF 1(4), of k] fixed 1(5) by (auto simp: status_of_def split: if_splits)
  have r: "resolution l' k = Some \<lparr>rrs_record_id = record_id, rrs_artifact_id = env_artifact_id envelope, rrs_resolution = res\<rparr>"
    using k(1) 1(5) by (simp add: resolution_def bm_get_extend map_of_constant map_add_def)
  have frame: "verifications l' = verifications l" "active_subject_id l' = active_subject_id l"
    using 1(5) update_members_frame [OF 1(4)] by (auto simp: active_subject_id_def)
  show ?thesis
    using resolution_status_Ok(2) [OF 1(2) k(2)] 1(1) ok(2) by (auto simp: fix_verified_def r frame)
qed

lemma authority_fixed:
  assumes ok: "apply_event h e l = Ok l'" "re_event_type e = FindingResolutionRecordedV1"
    and fixed: "status_of l' k = Some Fixed" "status_of l k \<noteq> Some Fixed"
  shows "fix_verified l' k"
  using ok fixed
  by (auto simp: apply_event_def apply_typed_def apply_resolution_authority_def demand_events_def authority_events_def
      and_then_eq_Ok intro: decision_fixed)

lemma resolved_fixed:
  assumes "apply_resolution payload l = Ok l'" "status_of l' k = Some Fixed" "status_of l k \<noteq> Some Fixed"
  shows "value_get payload ''key'' = Some (JString k) \<and> value_get payload ''status'' = Some (JString ''fixed'')"
proof -
  obtain key spelling status where r: "required_string payload ''FindingResolved@1'' ''key'' = Ok key"
    "required_string payload ''FindingResolved@1'' ''status'' = Ok spelling" "parse_status spelling = Some status"
    "\<And>i. i \<noteq> key \<Longrightarrow> status_of l' i = status_of l i" "status_of l' key = Some status"
    using assms(1) by (auto simp: apply_resolution_def and_then_eq_Ok status_of_def)
  then have "key = k" "status = Fixed" using assms(2,3) by (metis, metis option.inject)
  then show ?thesis using required_string_Ok [OF r(1)] required_string_Ok [OF r(2)] r(3)
    by (auto simp: parse_status_def split: if_splits)
qed

text \<open>What a Report does to a declined Finding.\<close>

lemma merge_report_readable:
  "fi_unreadable_reports (merge_report source r report attached scope challenge identity f) = bm_empty"
proof -
  have "fi_unreadable_reports (note_recovery source r recovered g) = fi_unreadable_reports g" for recovered g
    by (simp add: note_recovery_def)
  moreover have "fi_unreadable_reports (move_status kind challenge report source g) = fi_unreadable_reports g" for kind g
    by (simp add: move_status_def adopt_def Let_def split: TransitionKind.split)
  moreover have "fi_unreadable_reports (update_convergence kind scope severity g) = fi_unreadable_reports g" for kind severity g
    by (simp add: update_convergence_def)
  moreover have "fi_unreadable_reports (adopt report source g) = fi_unreadable_reports g" for g
    by (simp add: adopt_def)
  ultimately show ?thesis by (simp add: merge_report_def recover_placeholder_def Let_def)
qed

lemma report_on_declined:
  assumes ev: "apply_report h payload refs l = Ok l'" and f: "bm_get (findings l) k = Some f"
    and declined: "is_declined (fi_status f)"
  shows "\<exists>f'. bm_get (findings l') k = Some f' \<and>
    (if value_get payload ''key'' = Some (JString k)
     then \<exists>a. fi_reports f' = fi_reports f @ [a] \<and>
       fi_status f' =
         (if bm_contains (fi_unreadable_reports f') (ar_report_id a) then fi_status f
          else if fi_authority_diagnostic f then Open
          else if ar_scope a \<noteq> Some Out \<and> group_declined l k \<and> overtaken l k (ar_severity a) then Contested
          else fi_status f)
     else f' = f)"
  using ev
proof (cases rule: apply_report_Ok)
  case (1 key f' source r report attached scope challenge identity)
  show ?thesis
  proof (cases "k = key")
    case True
    have "challenge \<noteq> None \<longleftrightarrow> ar_scope attached \<noteq> Some Out \<and> group_declined l k \<and> overtaken l k (ar_severity attached)"
      using 1(2) challenge_iff [of l key "pr_severity report" challenge] 1(3,4) True
      by (cases "out_of_scope scope") (auto simp: out_of_scope_def)
    moreover have "fi_status f \<noteq> Fixed" using declined by (auto simp: is_declined_def)
    ultimately show ?thesis
      using True 1(1,8) 1(6,7) [of f] f
      by (cases "pr_unreadable report")
        (auto simp: merge_report_readable merge_report_frame merge_report_status intro!: exI [of _ attached])
  next
    case False
    then show ?thesis using 1(1,8) f by auto
  qed
qed

end
