(* ===== verification/LedgerConvergence.thy ===== *)
theory LedgerConvergence
  imports LedgerRun
begin

text \<open>
  When a Campaign has converged. \<open>settled\<close> says it of the recorded Findings, Demands and authority
  failures themselves, with no views, counters or diagnostics; the lemmas show that on every
  well-formed ledger the counters of \<open>convergence\<close> are all zero exactly then.
\<close>

subsection \<open>The reference definition\<close>

definition recent :: "Ledger \<Rightarrow> ConvergencePolicy \<Rightarrow> nat \<Rightarrow> bool" where
  "recent l policy r = (ledger_round l < r + clean_rounds policy)"

text \<open>A Finding is quiet when neither it nor a Finding grouped with it keeps the review going.\<close>

definition quiet :: "Ledger \<Rightarrow> ConvergencePolicy \<Rightarrow> Finding \<Rightarrow> bool" where
  "quiet l policy f =
     (\<not> is_active (fi_status f) \<and> \<not> is_some_and (fi_scoped_news_round f) (recent l policy))"

definition demand_met :: "Ledger \<Rightarrow> DemandRecord \<Rightarrow> bool" where
  "demand_met l d =
     (dr_waivers d \<noteq> [] \<or>
      list_ex (\<lambda>s. Some (sa_subject_id (rsa_satisfaction s)) = active_subject_id l
        \<or> list_ex (\<lambda>a. re_satisfaction_id (rre_admission a) = rsa_artifact_id s) (dr_reuse_admissions d))
        (dr_satisfactions d))"

definition settled :: "Ledger \<Rightarrow> ConvergencePolicy \<Rightarrow> bool" where
  "settled l policy =
     (clean_rounds policy \<le> ledger_round l \<and> \<not> finding_identity_policy_unavailable l \<and>
      list_all (\<lambda>failure. \<not> recent l policy (af_round failure)) (scope_authority_failures l) \<and>
      list_all (\<lambda>f. fi_unreadable_reports f = bm_empty) (bm_values (findings l)) \<and>
      list_all (\<lambda>d. dm_requirement (dr_demand d) = Required \<longrightarrow> demand_met l d) (bm_values (demands l)) \<and>
      list_all (\<lambda>f. gated policy f \<longrightarrow>
        list_all (\<lambda>g. group_root l (fi_key g) = group_root l (fi_key f) \<longrightarrow> quiet l policy g) (bm_values (findings l)))
        (bm_values (findings l)))"

subsection \<open>The counters\<close>

lemma recent_iff: "since_round l policy < int r \<longleftrightarrow> recent l policy r"
  by (auto simp: since_round_def recent_def)

lemma no_authority_failures:
  "authority_failures_recent l policy = 0 \<longleftrightarrow>
   \<not> finding_identity_policy_unavailable l \<and>
   list_all (\<lambda>failure. \<not> recent l policy (af_round failure)) (scope_authority_failures l) \<and>
   list_all (\<lambda>f. fi_unreadable_reports f = bm_empty) (bm_values (findings l))"
proof -
  have none: "recent_authority_failures l policy = [] \<longleftrightarrow>
      list_all (\<lambda>failure. \<not> recent l policy (af_round failure)) (scope_authority_failures l)"
    by (simp add: recent_authority_failures_def recent_iff filter_empty_conv list_all_iff)
  have unread: "unresolved_unrecent_reports l policy = bm_empty \<longleftrightarrow>
      list_all (\<lambda>f. fi_unreadable_reports f = bm_empty) (bm_values (findings l))"
    if "recent_authority_failures l policy = []"
    unfolding bs_empty_iff [of "unresolved_unrecent_reports l policy"]
    by (simp add: unresolved_unrecent_reports_def that list_all_iff bs_elems_Nil)
  show ?thesis using none unread by (auto simp: authority_failures_recent_def bs_elems_Nil)
qed

lemma demand_status_met: "demand_status (active_subject_id l) d \<in> {DemandOpen, Stale} \<longleftrightarrow> \<not> demand_met l d"
  by (simp add: demand_status_def demand_met_def current_satisfactions_def filter_empty_conv list_ex_iff)

lemma no_open_demands:
  assumes "demands_ok l"
  shows "required_open_demands l = 0 \<longleftrightarrow>
    list_all (\<lambda>d. dm_requirement (dr_demand d) = Required \<longrightarrow> demand_met l d) (bm_values (demands l))"
proof -
  have "set (List.map_filter (bm_get (demands l)) (demand_order l)) = set (bm_values (demands l))"
    using assms by (force simp: demands_ok_def set_map_filter set_bm_values ran_def)
  then show ?thesis
    using demand_status_met [of l]
    by (auto simp: required_open_demands_def demand_views_def demand_view_def filter_empty_conv list_all_iff)
qed

lemma no_diagnostics:
  assumes "catalog_ok l" "list_all (\<lambda>f. fi_unreadable_reports f = bm_empty) (bm_values (findings l))"
    "bm_get (findings l) k = Some f"
  shows "\<not> fi_authority_diagnostic f"
proof -
  have "f \<in> set (bm_values (findings l))" using assms(3) by (force simp: set_bm_values ran_def)
  then show ?thesis using assms(2) catalog_okD(3) [OF assms(1,3)] by (auto simp: list_all_iff finding_ok_def)
qed

lemma view_keeps_going:
  assumes ok: "catalog_ok l" and r: "group_root l r = Some r" and v: "finding_view_for_root l r = Some v"
    and readable: "list_all (\<lambda>f. fi_unreadable_reports f = bm_empty) (bm_values (findings l))"
  shows "blocks policy v \<or> recent_news l policy v \<longleftrightarrow>
    (\<exists>f \<in> set (group_members l r). \<exists>g \<in> set (group_members l r). gated policy f \<and> \<not> quiet l policy g)"
proof -
  have "\<not> fi_authority_diagnostic v"
    using view_of_members(2) [OF v ok r] set_group_members [OF ok] no_diagnostics [OF ok readable] by blast
  moreover have "recent l policy = (\<lambda>n. since_round l policy < int n)" by (simp add: recent_iff)
  ultimately show ?thesis
    using view_of_members(1,3,4) [OF v ok r] by (simp add: blocks_def recent_news_def quiet_def) blast
qed

lemma all_quiet:
  assumes ok: "catalog_ok l" "groups_ok l"
    and readable: "list_all (\<lambda>f. fi_unreadable_reports f = bm_empty) (bm_values (findings l))"
  shows "filter (blocks policy) (finding_views l) = [] \<and> filter (recent_news l policy) (finding_views l) = [] \<longleftrightarrow>
    list_all (\<lambda>f. gated policy f \<longrightarrow>
        list_all (\<lambda>g. group_root l (fi_key g) = group_root l (fi_key f) \<longrightarrow> quiet l policy g) (bm_values (findings l)))
      (bm_values (findings l))"
proof -
  have member: "f \<in> set (group_members l r) \<longleftrightarrow> f \<in> set (bm_values (findings l)) \<and> group_root l (fi_key f) = Some r" for f r
    using set_group_members [OF ok(1)] catalog_okD(3) [OF ok(1)]
    by (auto simp: set_bm_values ran_def finding_ok_def)
  have rooted: "\<exists>r v. group_root l (fi_key f) = Some r \<and> group_root l r = Some r \<and> finding_view_for_root l r = Some v"
    if "f \<in> set (bm_values (findings l))" for f
  proof -
    have "fi_key f \<in> dom (bm_get (findings l))"
      using that catalog_okD(3) [OF ok(1)] by (auto simp: set_bm_values ran_def finding_ok_def)
    then obtain r where r: "group_root l (fi_key f) = Some r"
      using group_root_total [OF groups_okD(1) [OF ok(2)]] by blast
    then show ?thesis using group_root_known [OF ok(2) r] view_exists by blast
  qed
  define going where "going r \<longleftrightarrow>
    (\<exists>f \<in> set (group_members l r). \<exists>g \<in> set (group_members l r). gated policy f \<and> \<not> quiet l policy g)" for r
  have view: "blocks policy v \<or> recent_news l policy v \<longleftrightarrow> going r"
    if "group_root l r = Some r" "finding_view_for_root l r = Some v" for r v
    using view_keeps_going [OF ok(1) that readable] unfolding going_def .
  have "filter (blocks policy) (finding_views l) = [] \<and> filter (recent_news l policy) (finding_views l) = [] \<longleftrightarrow>
      (\<forall>v \<in> set (finding_views l). \<not> (blocks policy v \<or> recent_news l policy v))"
    by (auto simp: filter_empty_conv)
  also have "\<dots> \<longleftrightarrow> (\<forall>r v. group_root l r = Some r \<longrightarrow> finding_view_for_root l r = Some v \<longrightarrow> \<not> going r)"
    unfolding Ball_def set_finding_views [OF ok] using view by blast
  also have "\<dots> \<longleftrightarrow> (\<forall>f \<in> set (bm_values (findings l)). \<forall>g \<in> set (bm_values (findings l)).
      gated policy f \<and> group_root l (fi_key g) = group_root l (fi_key f) \<longrightarrow> quiet l policy g)"
    (is "?views \<longleftrightarrow> ?pairs")
  proof
    assume views: ?views
    show ?pairs
    proof (intro ballI impI, elim conjE)
      fix f g
      assume fg: "f \<in> set (bm_values (findings l))" "g \<in> set (bm_values (findings l))" "gated policy f"
        "group_root l (fi_key g) = group_root l (fi_key f)"
      obtain r v where r: "group_root l (fi_key f) = Some r" "group_root l r = Some r"
          "finding_view_for_root l r = Some v"
        using rooted [OF fg(1)] by blast
      have "f \<in> set (group_members l r)" "g \<in> set (group_members l r)" using fg r(1) by (simp_all add: member)
      then show "quiet l policy g" using views r(2,3) fg(3) unfolding going_def by blast
    qed
  next
    assume pairs: ?pairs
    show ?views
    proof (intro allI impI notI)
      fix r v
      assume "going r"
      then obtain f g where "f \<in> set (group_members l r)" "g \<in> set (group_members l r)" "gated policy f" "\<not> quiet l policy g"
        unfolding going_def by blast
      then show False using pairs unfolding member by force
    qed
  qed
  finally show ?thesis by (auto simp: list_all_iff)
qed

lemma verdict_settled:
  assumes "ledger_ok l"
  shows "cv_verdict (convergence l policy) =
    (if settled l policy then Converged else if max_rounds policy \<le> ledger_round l then Exhausted else NotConverged)"
  using no_authority_failures [of l policy] no_open_demands [OF ledger_okD(3) [OF assms]]
    all_quiet [OF ledger_okD(1,2) [OF assms], of policy]
  by (simp add: convergence_def settled_def Let_def) blast

end
