(* ===== verification/LedgerProperties.thy ===== *)
theory LedgerProperties
  imports LedgerStatus LedgerConvergence "HOL-Library.Code_Target_Nat"
begin

text \<open>
  The properties of the Findings Ledger over whole logs, with a sample Campaign they are applied to.
  The sample Campaigns are evaluated by the kernel; \<open>Code_Target_Nat\<close> gives that evaluation binary numbers.
\<close>

subsection \<open>A sample Campaign\<close>

text \<open>
  A host with the documents of a short Campaign: two Reports grouped into one Finding, an
  Attestation, a positive verification and a Resolution. A second log declines a Finding and
  reports it again as more severe. A document is named by one letter.
\<close>

definition sample_digest :: "char \<Rightarrow> string" where
  "sample_digest c = ''sha256:'' @ replicate 64 c"

definition sample_type :: "char \<Rightarrow> string" where
  "sample_type c = (case map_of
     [(CHR ''1'', ''review.kernel/FindingReport@1''), (CHR ''2'', ''review.kernel/FindingReport@1''),
      (CHR ''3'', ''review.kernel/FindingGrouping@1''), (CHR ''4'', ''review.kernel/ChangeAttestation@1''),
      (CHR ''5'', ''review.kernel/FixVerification@1''), (CHR ''6'', ''review.kernel/FindingResolution@1''),
      (CHR ''7'', ''review.kernel/FindingResolution@1'')] c of
       None \<Rightarrow> [] | Some t \<Rightarrow> t)"

definition sample_letter :: "Value \<Rightarrow> char" where
  "sample_letter v = (case value_get v ''letter'' of Some (JString [c]) \<Rightarrow> c | _ \<Rightarrow> CHR ''0'')"

definition sample_document :: "char \<Rightarrow> Value" where
  "sample_document c = JObject [(''letter'', JString [c])]"

definition sample_envelope :: "char \<Rightarrow> ArtifactEnvelope" where
  "sample_envelope c = \<lparr>env_artifact_type = sample_type c, env_artifact_id = sample_digest c,
     env_content_id = sample_digest CHR ''c'', env_producer = KernelOperation ''run'' None ''op'',
     env_input_artifacts = [], env_subject_snapshot_id = Some (sample_digest CHR ''e''),
     env_payload = sample_document c\<rparr>"

definition sample_report :: "char \<Rightarrow> FindingReport" where
  "sample_report c = \<lparr>fr_title = ''race'', fr_severity = (if c = CHR ''1'' then Blocker else Major),
     fr_locations = [\<lparr>loc_path = ''src/a.rs'', loc_line = Some 3, loc_end_line = None\<rparr>], fr_body = ''body'',
     fr_fix = ''lock'', fr_confidence = 1, fr_failure_trace = None, fr_rule_id = None,
     fr_occurrence_key = None, fr_relations = []\<rparr>"

text \<open>Each answer of the host is a function of its own, so that the kernel evaluates it only when it is asked.\<close>

fun refuse :: "'a \<Rightarrow> string + 'b" where
  "refuse x = Inl []"

definition sample_get_json :: "string \<Rightarrow> string + Value" where
  "sample_get_json i = Inr (sample_document (last i))"

definition sample_content_id :: "Value \<Rightarrow> string + string" where
  "sample_content_id v = Inr (sample_digest CHR ''c'')"

definition sample_artifact_id :: "ArtifactEnvelope \<Rightarrow> string + string" where
  "sample_artifact_id e = Inr (env_artifact_id e)"

definition sample_bounded :: "string \<Rightarrow> nat \<Rightarrow> string + string" where
  "sample_bounded i n = Inr i"

definition sample_verify :: "string \<Rightarrow> string + nat" where
  "sample_verify i = Inr 1"

definition sample_view_json :: "Finding \<Rightarrow> Value option" where
  "sample_view_json f = Some JNull"

definition sample_as_envelope :: "Value \<Rightarrow> string + ArtifactEnvelope" where
  "sample_as_envelope v = Inr (sample_envelope (sample_letter v))"

definition sample_as_report :: "Value \<Rightarrow> string + FindingReport" where
  "sample_as_report v = Inr (sample_report (sample_letter v))"

definition sample_as_grouping :: "Value \<Rightarrow> string + FindingGroupingV1" where
  "sample_as_grouping v = Inr \<lparr>gr_from = ''f2'', gr_into = ''f1'', gr_action = Group, gr_round = 1\<rparr>"

definition sample_as_grouping_event :: "Value \<Rightarrow> string + FindingGroupingEventPayloadV1" where
  "sample_as_grouping_event v = Inr \<lparr>ge_from = ''f2'', ge_into = ''f1'',
     ge_grouping_artifact_id = sample_digest CHR ''3''\<rparr>"

definition sample_as_recorded :: "Value \<Rightarrow> string + RecordedArtifactPayloadV1" where
  "sample_as_recorded v = Inr \<lparr>rec_artifact_id = sample_digest (sample_letter v)\<rparr>"

definition sample_as_attestation :: "Value \<Rightarrow> string + ChangeAttestationV1" where
  "sample_as_attestation v = Inr \<lparr>ca_finding_id = ''f1'', ca_expected_finding_view_id = sample_digest CHR ''c'',
     ca_subject_id = sample_digest CHR ''d'', ca_change_set_id = None,
     ca_changed_regions = [\<lparr>cr_path = ''src/a.rs'', cr_start_line = None, cr_end_line = None\<rparr>],
     ca_actor = ''dev'', ca_reason = ''locked'', ca_evidence_ids = []\<rparr>"

definition sample_as_verification :: "Value \<Rightarrow> string + FixVerificationV1" where
  "sample_as_verification v = Inr \<lparr>fv_finding_id = ''f1'', fv_attestation_id = sample_digest CHR ''4'',
     fv_expected_finding_view_id = sample_digest CHR ''c'', fv_subject_id = sample_digest CHR ''d'',
     fv_verifier = ''checker'', fv_policy_revision = ''p'', fv_positive = True, fv_reason = ''passes'',
     fv_evidence_ids = []\<rparr>"

definition sample_as_resolution :: "Value \<Rightarrow> string + FindingResolutionV1" where
  "sample_as_resolution v = Inr \<lparr>rs_finding_id = ''f1'', rs_expected_finding_view_id = sample_digest CHR ''c'',
     rs_subject_id = sample_digest CHR ''d'',
     rs_outcome = (if sample_letter v = CHR ''6'' then ResolvedFixed else ResolvedRejected), rs_actor = ''op'',
     rs_policy_revision = ''p'', rs_reason = ''fixed'', rs_evidence_ids = [],
     rs_verification_id = (if sample_letter v = CHR ''6'' then Some (sample_digest CHR ''5'') else None),
     rs_max_accepted_severity = None, rs_tracking_reference = None, rs_expires_at_policy_time = None\<rparr>"

definition sample_as_opened :: "Value \<Rightarrow> string + CampaignOpenedPayloadV1" where
  "sample_as_opened v = Inr \<lparr>co_campaign_manifest_id = sample_digest CHR ''b'',
     co_authority_snapshot_id = sample_digest CHR ''b''\<rparr>"

definition sample_as_round :: "Value \<Rightarrow> string + RoundStartedPayloadV1" where
  "sample_as_round v = Inr \<lparr>rp_round = 1, rp_epoch = 1, rp_campaign_manifest_id = sample_digest CHR ''b'',
     rp_subject_id = sample_digest CHR ''d'', rp_prior_finding_set_id = sample_digest CHR ''b'',
     rp_prior_demand_set_id = sample_digest CHR ''b''\<rparr>"

definition sample_policy :: "Value \<Rightarrow> string + string" where
  "sample_policy v = Inr ''report-derived@1''"

definition sample_subject :: "string \<Rightarrow> string + SubjectV1" where
  "sample_subject b = Inr \<lparr>su_kind = SubjectWholeTree, su_head_snapshot_id = sample_digest CHR ''e'',
     su_base_snapshot_id = None, su_change_set_id = None\<rparr>"

definition sample_host :: Host where
  "sample_host = \<lparr>get_json = sample_get_json, get_bytes = Inr, get_bounded = sample_bounded, cas_verify = sample_verify,
     content_id = sample_content_id, artifact_id = sample_artifact_id, view_json = sample_view_json,
     as_envelope = sample_as_envelope, as_report = sample_as_report, as_grouping = sample_as_grouping,
     as_grouping_event = sample_as_grouping_event, as_recorded = sample_as_recorded,
     as_demand = refuse, as_evidence = refuse, as_satisfaction = refuse, as_reuse = refuse, as_waiver = refuse,
     as_attestation = sample_as_attestation, as_verification = sample_as_verification,
     as_resolution = sample_as_resolution, as_challenge = refuse, as_policy_time = refuse,
     as_campaign_opened = sample_as_opened, as_round_started = sample_as_round,
     manifest_identity_policy = sample_policy, as_fix_receipt = refuse, subject_of_bytes = sample_subject,
     change_set_of_bytes = refuse\<rparr>"

definition sample_event :: "nat \<Rightarrow> EventType \<Rightarrow> string list \<Rightarrow> Value \<Rightarrow> RunEvent" where
  "sample_event n t refs payload = \<lparr>re_event_id = ''e'', re_run_id = ''run'', re_sequence = n, re_event_type = t,
     re_occurred_at = [], re_node_id = None, re_attempt_id = None, re_causation_id = None,
     re_correlation_id = None, re_artifact_refs = refs, re_payload = payload\<rparr>"

definition sample_reported :: "nat \<Rightarrow> string \<Rightarrow> char \<Rightarrow> RunEvent" where
  "sample_reported n key c = sample_event n FindingReportedV1 [sample_digest c]
     (JObject [(''key'', JString key), (''source'', JString ''deep''), (''round'', JNumber (PosInt 1)),
       (''report_id'', JString (sample_digest c))])"

definition sample_log :: "RunEvent list" where
  "sample_log =
     [sample_event 0 CampaignOpenedV1 [] JNull, sample_event 1 RoundStartedV1 [] JNull,
      sample_reported 2 ''f1'' CHR ''1'', sample_reported 3 ''f2'' CHR ''2'',
      sample_event 4 FindingsGroupedV1 [sample_digest CHR ''3''] JNull,
      sample_event 5 ChangeAttestedV1 [sample_digest CHR ''4''] (sample_document CHR ''4''),
      sample_event 6 FixVerifiedV1 [sample_digest CHR ''5''] (sample_document CHR ''5''),
      sample_event 7 FindingResolutionRecordedV1 [sample_digest CHR ''6''] (sample_document CHR ''6''),
      sample_event 8 GenerationAdvancedV1 [] (JObject [(''round'', JNumber (PosInt 3))])]"

definition declined_log :: "RunEvent list" where
  "declined_log =
     [sample_event 0 CampaignOpenedV1 [] JNull, sample_event 1 RoundStartedV1 [] JNull,
      sample_reported 2 ''f1'' CHR ''2'',
      sample_event 3 FindingResolutionRecordedV1 [sample_digest CHR ''7''] (sample_document CHR ''7'')]"

fun the_ok :: "('e, 'a) res \<Rightarrow> 'a" where
  "the_ok (Ok x) = x"
| "the_ok _ = undefined"

definition sample_projection :: "nat \<Rightarrow> LedgerProjection" where
  "sample_projection n = the_ok (from_events sample_host ''run'' (take n sample_log))"

definition declined_ledger :: Ledger where
  "declined_ledger = lp_ledger (the_ok (from_events sample_host ''run'' declined_log))"

definition contested_ledger :: Ledger where
  "contested_ledger = the_ok (apply_event sample_host (sample_reported 4 ''f1'' CHR ''1'') declined_ledger)"

lemma is_ok_the_ok: "is_ok r \<Longrightarrow> r = Ok (the_ok r)"
  by (cases r) simp_all

lemma projection_unfold:
  "is_ok (from_events sample_host ''run'' (take n sample_log)) \<Longrightarrow>
   from_events sample_host ''run'' (take n sample_log) = Ok (sample_projection n)"
  unfolding sample_projection_def by (rule is_ok_the_ok)

lemma sample_accepted: "from_events sample_host ''run'' sample_log = Ok (sample_projection 9)"
proof -
  have all: "take 9 sample_log = sample_log" by (simp add: sample_log_def)
  have "is_ok (from_events sample_host ''run'' (take 9 sample_log))" by code_simp
  from projection_unfold [OF this] show ?thesis unfolding all .
qed

lemma sample_prefix_accepted:
  "from_events sample_host ''run'' (take 7 sample_log) = Ok (sample_projection 7)"
proof (rule projection_unfold)
  show "is_ok (from_events sample_host ''run'' (take 7 sample_log))" by code_simp
qed

lemma sample_decided: "project_event sample_host (sample_log ! 7) (sample_projection 7) = Ok (sample_projection 8)"
proof -
  have "is_ok (from_events sample_host ''run'' (take 8 sample_log))" by code_simp
  note ok = projection_unfold [OF this]
  have eight: "take 8 sample_log = take 7 sample_log @ [sample_log ! 7]" by (simp add: sample_log_def)
  show ?thesis
    using ok [unfolded eight from_events_append sample_prefix_accepted]
    by (cases "project_event sample_host (sample_log ! 7) (sample_projection 7)") simp_all
qed

subsection \<open>Views and convergence\<close>

text \<open>
  C16: A run's Findings are shown in views, one per group: after any log the ledger accepts, the
  views list every Finding exactly once, as the representative of its view or as one of its aliases.
\<close>

theorem every_finding_in_one_view:
  assumes "from_events h run events = Ok p"
  shows "distinct (concat (map (\<lambda>v. fi_key v # fi_aliases v) (finding_views (lp_ledger p)))) \<and>
    set (concat (map (\<lambda>v. fi_key v # fi_aliases v) (finding_views (lp_ledger p)))) = dom (bm_get (findings (lp_ledger p)))"
  using views_partition [OF ledger_okD(1,2) [OF from_events_ok [OF assms]]] by blast

theorem every_finding_in_one_view_witness:
  "map (\<lambda>v. (fi_key v, fi_aliases v)) (finding_views (lp_ledger (sample_projection 9))) = [(''f1'', [''f2''])] \<and>
   dom (bm_get (findings (lp_ledger (sample_projection 9)))) = {''f1'', ''f2''}"
proof -
  have views: "map (\<lambda>v. (fi_key v, fi_aliases v)) (finding_views (lp_ledger (sample_projection 9))) = [(''f1'', [''f2''])]"
    by code_simp
  have "concat (map (\<lambda>(k, a). k # a) (map (\<lambda>v. (fi_key v, fi_aliases v)) (finding_views (lp_ledger (sample_projection 9))))) =
      [''f1'', ''f2'']"
    unfolding views by simp
  then have "concat (map (\<lambda>v. fi_key v # fi_aliases v) (finding_views (lp_ledger (sample_projection 9)))) = [''f1'', ''f2'']"
    by (simp add: comp_def)
  with every_finding_in_one_view [OF sample_accepted] views show ?thesis by simp
qed

text \<open>
  C4: The verdict of \<open>convergence\<close> is Converged exactly when the run is settled: enough Rounds
  have passed, the identity policy is known, no authority failure is recent, every Report is readable,
  every required Demand is waived, satisfied for the active Subject, or satisfied for another Subject
  by a satisfaction that an admitted reuse carries over, and no group with a Finding
  at or above the gate has an active Finding or recent news in scope. Otherwise it is Exhausted when
  the Round limit is reached, and NotConverged before.
\<close>

theorem convergence_iff_settled:
  assumes "from_events h run events = Ok p"
  shows "cv_verdict (convergence (lp_ledger p) policy) =
    (if settled (lp_ledger p) policy then Converged
     else if max_rounds policy \<le> ledger_round (lp_ledger p) then Exhausted else NotConverged)"
  by (rule verdict_settled [OF from_events_ok [OF assms]])

theorem convergence_iff_settled_witness:
  "settled (lp_ledger (sample_projection 9)) \<lparr>clean_rounds = 2, max_rounds = 3, gate = Major\<rparr> \<and>
   cv_verdict (convergence (lp_ledger (sample_projection 9)) \<lparr>clean_rounds = 2, max_rounds = 3, gate = Major\<rparr>) = Converged \<and>
   \<not> settled (lp_ledger (sample_projection 7)) \<lparr>clean_rounds = 1, max_rounds = 1, gate = Major\<rparr> \<and>
   cv_verdict (convergence (lp_ledger (sample_projection 7)) \<lparr>clean_rounds = 1, max_rounds = 1, gate = Major\<rparr>) = Exhausted"
proof -
  have "cv_verdict (convergence (lp_ledger (sample_projection 9)) \<lparr>clean_rounds = 2, max_rounds = 3, gate = Major\<rparr>) = Converged"
    by code_simp
  moreover have "cv_verdict (convergence (lp_ledger (sample_projection 7)) \<lparr>clean_rounds = 1, max_rounds = 1, gate = Major\<rparr>) = Exhausted"
    by code_simp
  ultimately show ?thesis
    using convergence_iff_settled [OF sample_accepted, of "\<lparr>clean_rounds = 2, max_rounds = 3, gate = Major\<rparr>"]
      convergence_iff_settled [OF sample_prefix_accepted, of "\<lparr>clean_rounds = 1, max_rounds = 1, gate = Major\<rparr>"]
    by (simp split: if_splits)
qed

subsection \<open>Replay\<close>

text \<open>
  C11: Nothing recorded is ever lost: when a log is accepted, so is each of its prefixes, and the
  longer log keeps every Finding and Demand of the prefix in order, each with all its Reports,
  transitions and recorded evidence, and all authority failures, groupings and Resolutions.
\<close>

theorem replay_loses_nothing:
  assumes "from_events h run (es @ fs) = Ok q"
  shows "\<exists>p. from_events h run es = Ok p \<and> grows (lp_ledger p) (lp_ledger q)"
  using assms projection.replay_later
  by (auto simp: from_events_append and_then_eq_Ok projection_later_def)

theorem replay_loses_nothing_witness:
  "\<exists>p. from_events sample_host ''run'' (take 7 sample_log) = Ok p \<and> grows (lp_ledger p) (lp_ledger (sample_projection 9))"
  using replay_loses_nothing [of sample_host "''run''" "take 7 sample_log" "drop 7 sample_log"] sample_accepted by simp

text \<open>
  C12: Replaying a log never panics: whatever the events say and whatever the content store
  answers, no \<open>expect\<close> fails and no unreachable branch is reached, for logs of up to \<open>u64::MAX\<close> events.
\<close>

theorem replay_never_panics:
  assumes "length events \<le> u64_max"
  shows "from_events h run events \<noteq> Panic"
  using project_events_no_panic [OF initial_projection_ok, of run events h] assms
  by (simp add: from_events_def initial_projection_def)

theorem replay_never_panics_witness: "from_events sample_host ''run'' (rev sample_log) \<noteq> Panic"
  by (rule replay_never_panics) (simp add: sample_log_def u64_max_def)

text \<open>
  C17: A projection of a prefix, fast-forwarded over the durable log, is the projection rebuilt
  from the whole log, errors included; and an accepted log has dense sequence numbers of its own run.
\<close>

theorem fast_forward_is_replay:
  assumes "from_events h run (take n durable) = Ok p" "n \<le> length durable"
  shows "fast_forward h durable p = from_events h run durable \<and> lp_event_count p = n \<and>
    (\<forall>i. i < n \<longrightarrow> re_run_id (durable ! i) = run \<and> re_sequence (durable ! i) = i)"
proof -
  have "lp_event_count p = n \<and> (\<forall>i < n. re_run_id (durable ! i) = run \<and> re_sequence (durable ! i) = i)"
    using project_events_dense [of h "take n durable" "initial_projection run" p] assms
    by (auto simp: from_events_def initial_projection_def)
  then show ?thesis using fast_forward_rebuilds [OF assms] by blast
qed

theorem fast_forward_is_replay_witness:
  "fast_forward sample_host sample_log (sample_projection 7) = Ok (sample_projection 9)"
  using fast_forward_is_replay [OF sample_prefix_accepted] sample_accepted by (simp add: sample_log_def)

subsection \<open>The life of a Finding\<close>

text \<open>
  C8: The ledger implements the state machine \<open>status_move\<close> of a Finding: appending one accepted
  event to an accepted log moves the status of every Finding along that machine. So only a Report
  creates a Finding, and it opens it; only an Attestation makes it pending; only a recorded
  Resolution or a \<open>FindingResolved@1\<close> event, which names the status itself, closes it; a Report reopens it only when it was fixed, or
  when it stood for Reports that could not be read.
\<close>

theorem finding_follows_state_machine:
  assumes "from_events h run events = Ok p" "project_event h e p = Ok q"
  shows "status_move (re_event_type e) (placeholder (lp_ledger p) k)
    (status_of (lp_ledger p) k) (status_of (lp_ledger q) k)"
  using event_move [OF from_events_ok [OF assms(1)]] assms(2) by (auto simp: project_event_Ok)

theorem finding_follows_state_machine_witness:
  "status_of (lp_ledger (sample_projection 7)) ''f2'' = Some PendingVerification \<and>
   status_of (lp_ledger (sample_projection 8)) ''f2'' = Some Fixed \<and>
   status_move FindingResolutionRecordedV1 (placeholder (lp_ledger (sample_projection 7)) ''f2'')
     (Some PendingVerification) (Some Fixed)"
proof -
  have before: "status_of (lp_ledger (sample_projection 7)) ''f2'' = Some PendingVerification" by code_simp
  have after: "status_of (lp_ledger (sample_projection 8)) ''f2'' = Some Fixed" by code_simp
  from finding_follows_state_machine [OF sample_prefix_accepted sample_decided, of "''f2''"] before after
  show ?thesis by (simp add: sample_log_def sample_event_def)
qed

text \<open>
  C7: Folding one more event of a log makes a Finding fixed only in two ways: the event is a recorded
  Resolution of its group for the active Subject that rests on a positive verification of that same
  Subject, or it is a \<open>FindingResolved@1\<close> event that names this very Finding and the status fixed. (A
  Review host writes \<open>FindingResolved@1\<close> only as contested; operators decide through typed
  Resolutions. The statuses \<open>project_task_fixes\<close> derives for a Task are no events of the log.)
\<close>

theorem fixed_only_when_verified:
  assumes "from_events h run events = Ok p" "project_event h e p = Ok q"
    "status_of (lp_ledger q) k = Some Fixed" "status_of (lp_ledger p) k \<noteq> Some Fixed"
  shows "re_event_type e = FindingResolvedV1 \<and> value_get (re_payload e) ''key'' = Some (JString k) \<and>
      value_get (re_payload e) ''status'' = Some (JString ''fixed'') \<or>
    re_event_type e = FindingResolutionRecordedV1 \<and> fix_verified (lp_ledger q) k"
proof -
  obtain l where l: "apply_event h e (lp_ledger p) = Ok l" "lp_ledger q = l"
    using assms(2) by (auto simp: project_event_Ok)
  have "status_move (re_event_type e) (placeholder (lp_ledger p) k) (status_of (lp_ledger p) k) (Some Fixed)"
    using event_move [OF from_events_ok [OF assms(1)] l(1), of k] assms(3) l(2) by simp
  then have "re_event_type e = FindingResolvedV1 \<or> re_event_type e = FindingResolutionRecordedV1"
    using assms(4) by (auto simp: status_move_fixed)
  moreover have "apply_resolution (re_payload e) (lp_ledger p) = Ok l" if "re_event_type e = FindingResolvedV1"
    using l(1) that by (simp add: apply_event_def apply_typed_def)
  ultimately show ?thesis
    using authority_fixed [OF l(1)] resolved_fixed assms(3,4) unfolding l(2) by blast
qed

theorem fixed_only_when_verified_witness:
  "status_of (lp_ledger (sample_projection 7)) ''f1'' = Some PendingVerification \<and>
   status_of (lp_ledger (sample_projection 8)) ''f1'' = Some Fixed \<and>
   fix_verified (lp_ledger (sample_projection 8)) ''f1''"
proof -
  have before: "status_of (lp_ledger (sample_projection 7)) ''f1'' = Some PendingVerification" by code_simp
  have after: "status_of (lp_ledger (sample_projection 8)) ''f1'' = Some Fixed" by code_simp
  from fixed_only_when_verified [OF sample_prefix_accepted sample_decided, of "''f1''"] before after
  show ?thesis by (simp add: sample_log_def sample_event_def)
qed

text \<open>
  C24: What an accepted Report does to a declined Finding, exactly. A Report filed under another key
  leaves it alone. A Report filed under its key is attached to it; the status stays when the Report
  cannot be read; when the Finding only stood for unreadable Reports, a readable one opens it;
  otherwise it becomes contested exactly when the Report is not out of scope, its group is declined as
  a whole, and the Report overtakes the Resolution that declined it (the Resolution covers another
  Subject, or the Report is more severe than the Resolution accepts), and else stays declined.
\<close>

theorem decline_survives_reports:
  assumes "apply_event h e l = Ok l'" "re_event_type e = FindingReportedV1"
    "bm_get (findings l) k = Some f" "is_declined (fi_status f)"
  shows "\<exists>f'. bm_get (findings l') k = Some f' \<and>
    (if value_get (re_payload e) ''key'' = Some (JString k)
     then \<exists>a. fi_reports f' = fi_reports f @ [a] \<and>
       fi_status f' =
         (if bm_contains (fi_unreadable_reports f') (ar_report_id a) then fi_status f
          else if fi_authority_diagnostic f then Open
          else if ar_scope a \<noteq> Some Out \<and> group_declined l k \<and> overtaken l k (ar_severity a) then Contested
          else fi_status f)
     else f' = f)"
  by (rule report_on_declined [OF _ assms(3,4)]) (use assms(1,2) in \<open>auto simp: apply_event_def apply_typed_def\<close>)

theorem decline_survives_reports_witness:
  "\<exists>f'. bm_get (findings contested_ledger) ''f1'' = Some f' \<and> fi_status f' = Contested \<and>
     overtaken declined_ledger ''f1'' (ar_severity (last (fi_reports f')))"
proof -
  have "map_option fi_status (bm_get (findings declined_ledger) ''f1'') = Some Rejected" by code_simp
  then obtain f where f: "bm_get (findings declined_ledger) ''f1'' = Some f" "fi_status f = Rejected" by auto
  have "is_ok (apply_event sample_host (sample_reported 4 ''f1'' CHR ''1'') declined_ledger)" by code_simp
  then have ok: "apply_event sample_host (sample_reported 4 ''f1'' CHR ''1'') declined_ledger = Ok contested_ledger"
    unfolding contested_ledger_def by (rule is_ok_the_ok)
  have named: "value_get (re_payload (sample_reported 4 ''f1'' CHR ''1'')) ''key'' = Some (JString ''f1'')" by code_simp
  have "re_event_type (sample_reported 4 ''f1'' CHR ''1'') = FindingReportedV1" "is_declined (fi_status f)"
    using f(2) by (simp_all add: sample_reported_def sample_event_def is_declined_def)
  note exact = decline_survives_reports [OF ok this(1) f(1) this(2)]
  have "map_option fi_status (bm_get (findings contested_ledger) ''f1'') = Some Contested" by code_simp
  with exact show ?thesis by (auto simp: named f(2) split: if_splits)
qed

end
