(* ===== verification/CanonicalKeys.thy ===== *)
theory CanonicalKeys
  imports Fencing LedgerGroups "HOL-Library.Product_Lexorder"
begin

text \<open>
  The identity of Findings (\<^verbatim>\<open>crates/review-store/src/ingest.rs\<close>): which of a stage's Reports make the same
  claim, and which Finding each claim belongs to. The Reports of one claim are found with a
  union-find forest over their positions; a search or a union that would not return is \<open>None\<close>.

  The lemmas show that the forest computes the equivalence generated by equal artifacts and equal
  occurrences, and that the keys are the ones that equivalence prescribes.
\<close>

subsection \<open>The union-find forest\<close>

text \<open>The closure \<open>find\<close> halves the path it walks; \<open>find_root\<close>, inside \<open>union\<close>, does not.\<close>

partial_function (option) uf_root :: "nat list \<Rightarrow> nat \<Rightarrow> nat option" where
  "uf_root parent i =
     (if length parent \<le> i then None
      else if parent ! i = i then Some i
      else uf_root parent (parent ! i))"

partial_function (option) uf_find :: "nat list \<Rightarrow> nat \<Rightarrow> (nat list \<times> nat) option" where
  "uf_find parent i =
     (if length parent \<le> i then None
      else if parent ! i = i then Some (parent, i)
      else if length parent \<le> parent ! i then None
      else uf_find (parent[i := parent ! (parent ! i)]) (parent ! (parent ! i)))"

declare uf_root.simps [code] uf_find.simps [code]

definition uf_union :: "nat list \<Rightarrow> nat \<Rightarrow> nat \<Rightarrow> nat list option" where
  "uf_union parent left right =
     (case (uf_root parent left, uf_root parent right) of
        (Some a, Some b) \<Rightarrow> Some (if a = b then parent else if a < b then parent[b := a] else parent[a := b])
      | _ \<Rightarrow> None)"

text \<open>The loops over the Reports that unite positions with the same artifact or the same occurrence.\<close>

fun link_same :: "(nat \<times> 'k::linorder option) list \<Rightarrow> ('k, nat) bmap \<Rightarrow> nat list \<Rightarrow> nat list option" where
  "link_same [] seen parent = Some parent"
| "link_same ((i, None) # rest) seen parent = link_same rest seen parent"
| "link_same ((i, Some key) # rest) seen parent =
     (case bm_get seen key of
        None \<Rightarrow> link_same rest (bm_insert key i seen) parent
      | Some previous \<Rightarrow>
          (case uf_union parent previous i of
             None \<Rightarrow> None
           | Some parent1 \<Rightarrow> link_same rest (bm_insert key i seen) parent1))"

subsection \<open>Finding keys\<close>

type_synonym published = "FindingReport \<times> string \<times> string"

definition canonical_finding_id :: "(string \<Rightarrow> string) \<Rightarrow> string \<Rightarrow> string" where
  "canonical_finding_id sha report_id =
     ''sha256:'' @ hex_encode (sha (''review.kernel/finding-id/v1'' @ [CHR 0x00] @ report_id))"

definition occurrence :: "FindingReport \<Rightarrow> (string \<times> string) option" where
  "occurrence report =
     (case (fr_rule_id report, fr_occurrence_key report) of
        (Some rule_id, Some occurrence_key) \<Rightarrow> Some (rule_id, occurrence_key)
      | _ \<Rightarrow> None)"

definition add_candidate :: "nat \<Rightarrow> string \<Rightarrow> (nat, bset) bmap \<Rightarrow> (nat, bset) bmap" where
  "add_candidate root_index finding candidates =
     bm_insert root_index (bs_insert finding
       (case bm_get candidates root_index of None \<Rightarrow> bm_empty | Some s \<Rightarrow> s)) candidates"

fun first_reports :: "nat list \<Rightarrow> nat list \<Rightarrow> (nat, nat) bmap \<Rightarrow> (nat list \<times> (nat, nat) bmap) option" where
  "first_reports [] parent first = Some (parent, first)"
| "first_reports (i # rest) parent first =
     (case uf_find parent i of
        None \<Rightarrow> None
      | Some (parent1, r) \<Rightarrow>
          first_reports rest parent1 (if bm_contains first r then first else bm_insert r i first))"

definition prior_finding ::
  "Ledger \<Rightarrow> (string \<times> string, string) bmap \<Rightarrow> FindingReport \<Rightarrow> string option" where
  "prior_finding prior pending report =
     (case occurrence report of
        None \<Rightarrow> None
      | Some (rule_id, occurrence_key) \<Rightarrow>
          (case bm_get pending (rule_id, occurrence_key) of
             Some finding \<Rightarrow> Some finding
           | None \<Rightarrow> finding_for_occurrence prior rule_id occurrence_key))"

fun relate :: "Ledger \<Rightarrow> string \<Rightarrow> nat \<Rightarrow> Relation list \<Rightarrow> (nat, bset) bmap \<Rightarrow> (StoreError, (nat, bset) bmap) res" where
  "relate prior report_id r [] candidates = Ok candidates"
| "relate prior report_id r (relation # rest) candidates =
     (let target = target_id (rel_target relation)
      in if bm_get (findings prior) target = None
         then Err (Conflict (''Report '' @ report_id @ '' relates to Finding `'' @ target
           @ ''` outside its input Finding Set''))
         else relate prior report_id r rest (add_candidate r target candidates))"

fun collect_candidates :: "Ledger \<Rightarrow> (string \<times> string, string) bmap \<Rightarrow> (nat \<times> published) list \<Rightarrow> nat list
    \<Rightarrow> (nat, bset) bmap \<Rightarrow> (StoreError, nat list \<times> (nat, bset) bmap) res" where
  "collect_candidates prior pending [] parent candidates = Ok (parent, candidates)"
| "collect_candidates prior pending ((i, report, record_id, artifact) # rest) parent candidates =
     and_then (expect (uf_find parent i)) (\<lambda>(parent1, r).
     and_then (relate prior artifact r (fr_relations report)
         (case prior_finding prior pending report of
            None \<Rightarrow> candidates | Some finding \<Rightarrow> add_candidate r finding candidates)) (\<lambda>candidates1.
     collect_candidates prior pending rest parent1 candidates1))"

fun choose_keys :: "(string \<Rightarrow> string) \<Rightarrow> published list \<Rightarrow> (nat, nat) bmap \<Rightarrow> (nat, bset) bmap \<Rightarrow> nat list
    \<Rightarrow> nat list \<Rightarrow> (StoreError, string list) res" where
  "choose_keys sha reports first candidates [] parent = Ok []"
| "choose_keys sha reports first candidates (i # rest) parent =
     and_then (expect (uf_find parent i)) (\<lambda>(parent1, r).
     and_then (expect (bm_get first r)) (\<lambda>first_index.
     and_then (expect (if first_index < length reports then Some (snd (snd (reports ! first_index))) else None)) (\<lambda>artifact.
     let group = (case bm_get candidates r of None \<Rightarrow> [] | Some s \<Rightarrow> bs_elems s)
     in if 1 < length group
        then Err (Conflict (''corroboration and occurrence authority disagree for Report '' @ artifact))
        else and_then (choose_keys sha reports first candidates rest parent1) (\<lambda>keys.
          Ok ((case group of [] \<Rightarrow> canonical_finding_id sha artifact | finding # _ \<Rightarrow> finding) # keys)))))"

definition canonical_stage_keys :: "(string \<Rightarrow> string) \<Rightarrow> published list \<Rightarrow> Ledger
    \<Rightarrow> (string \<times> string, string) bmap \<Rightarrow> (StoreError, string list) res" where
  "canonical_stage_keys sha reports prior pending =
     (let positions = [0..<length reports];
          by_report = zip positions (map (\<lambda>(report, record_id, artifact). Some artifact) reports);
          by_occurrence = zip positions (map (\<lambda>(report, record_id, artifact). occurrence report) reports)
      in and_then (expect (link_same by_report bm_empty positions)) (\<lambda>parent1.
         and_then (expect (link_same by_occurrence bm_empty parent1)) (\<lambda>parent2.
         and_then (expect (first_reports positions parent2 bm_empty)) (\<lambda>(parent3, first).
         and_then (collect_candidates prior pending (zip positions reports) parent3 bm_empty) (\<lambda>(parent4, candidates).
         choose_keys sha reports first candidates positions parent4)))))"

subsection \<open>What the forest represents\<close>

text \<open>In a well-formed forest a parent is never to the right of its child, so every walk ends.\<close>

definition uf_ok :: "nat list \<Rightarrow> bool" where
  "uf_ok p \<longleftrightarrow> (\<forall>i < length p. p ! i \<le> i)"

function uf_rep :: "nat list \<Rightarrow> nat \<Rightarrow> nat" where
  "uf_rep p i = (if i < length p \<and> p ! i < i then uf_rep p (p ! i) else i)"
  by pat_completeness auto
termination
  by (relation "measure snd") auto

declare uf_rep.simps [simp del]

lemma uf_rep_le: "uf_rep p i \<le> i"
proof (induction p i rule: uf_rep.induct)
  case (1 p i)
  then show ?case by (subst uf_rep.simps) auto
qed

lemma uf_rep_less: "i < length p \<Longrightarrow> uf_rep p i < length p"
  using uf_rep_le [of p i] by simp

lemma uf_parent_cases: "uf_ok p \<Longrightarrow> i < length p \<Longrightarrow> p ! i < i \<or> p ! i = i"
  by (auto simp: uf_ok_def order.order_iff_strict)

lemma uf_rep_parent: "uf_ok p \<Longrightarrow> i < length p \<Longrightarrow> uf_rep p (p ! i) = uf_rep p i"
proof (cases "p ! i < i")
  case True
  moreover assume "i < length p"
  ultimately show ?thesis by (subst (2) uf_rep.simps) simp
next
  case False
  moreover assume "uf_ok p" "i < length p"
  ultimately show ?thesis using uf_parent_cases by metis
qed

lemma uf_rep_root: "uf_ok p \<Longrightarrow> i < length p \<Longrightarrow> p ! uf_rep p i = uf_rep p i"
proof (induction p i rule: uf_rep.induct)
  case (1 p i)
  show ?case
  proof (cases "p ! i < i")
    case True
    then show ?thesis using 1 by (subst (1 2) uf_rep.simps) simp
  next
    case False
    then show ?thesis using 1(2,3) by (subst (1 2) uf_rep.simps) (auto simp: uf_ok_def intro: antisym)
  qed
qed

lemma uf_rep_self: "uf_ok p \<Longrightarrow> p ! i = i \<Longrightarrow> uf_rep p i = i"
  by (subst uf_rep.simps) simp

lemma uf_root_rep: "uf_ok p \<Longrightarrow> i < length p \<Longrightarrow> uf_root p i = Some (uf_rep p i)"
proof (induction p i rule: uf_rep.induct)
  case (1 p i)
  show ?case
  proof (cases "p ! i = i")
    case True
    then show ?thesis using 1(2,3) by (subst uf_root.simps) (simp add: uf_rep_self)
  next
    case False
    then have "p ! i < i" using 1(2,3) uf_parent_cases by blast
    moreover have "uf_root p i = uf_root p (p ! i)" using 1(3) False by (subst uf_root.simps) simp
    ultimately show ?thesis using 1 uf_rep_parent by simp
  qed
qed

text \<open>Redirecting a position inside its own tree changes no representative.\<close>

lemma uf_rep_redirect:
  assumes ok: "uf_ok p" and g: "g < j" "uf_rep p g = uf_rep p j"
  shows "uf_rep (p[j := g]) i = uf_rep p i"
proof (induction i rule: less_induct)
  case (less i)
  show ?case
  proof (cases "j < length p \<and> i = j")
    case True
    then show ?thesis using less [of g] g by (subst uf_rep.simps) simp
  next
    case False
    then show ?thesis using less [of "p ! i"] by (subst (1 2) uf_rep.simps) (auto simp: list_update_beyond)
  qed
qed

lemma uf_find_rep:
  "uf_ok p \<Longrightarrow> i < length p \<Longrightarrow>
   \<exists>q. uf_find p i = Some (q, uf_rep p i) \<and> uf_ok q \<and> length q = length p \<and> (\<forall>j. uf_rep q j = uf_rep p j)"
proof (induction i arbitrary: p rule: less_induct)
  case (less i)
  show ?case
  proof (cases "p ! i = i")
    case True
    then show ?thesis using less.prems by (subst uf_find.simps) (simp add: uf_rep_self)
  next
    case False
    let ?g = "p ! (p ! i)" and ?q = "p[i := p ! (p ! i)]"
    have lt: "p ! i < i" "?g < i"
      using less.prems False unfolding uf_ok_def by (metis le_less_trans less_trans order.order_iff_strict)+
    have ok: "uf_ok ?q" using less.prems lt by (auto simp: uf_ok_def nth_list_update)
    have rep: "uf_rep ?q j = uf_rep p j" for j
      using uf_rep_redirect [OF less.prems(1) lt(2)] uf_rep_parent [OF less.prems(1)] less.prems(2) lt by simp
    have "uf_rep ?q ?g = uf_rep p i"
      using rep uf_rep_parent [OF less.prems(1)] less.prems(2) lt by simp
    moreover have "uf_find p i = uf_find ?q ?g"
      using less.prems(2) False lt by (subst uf_find.simps) simp
    ultimately show ?thesis using less.IH [OF lt(2) ok] rep less.prems(2) lt by auto
  qed
qed

lemma uf_rep_hang:
  assumes ok: "uf_ok p" and ab: "a < b" "b < length p" "p ! a = a" "p ! b = b"
  shows "uf_rep (p[b := a]) i = (if uf_rep p i = b then a else uf_rep p i)"
proof (induction i rule: less_induct)
  case (less i)
  show ?case
  proof (cases "i = b")
    case True
    then show ?thesis
      using less [of a] ab uf_rep_self [OF ok] by (subst uf_rep.simps) auto
  next
    case False
    show ?thesis
    proof (cases "i < length p \<and> p ! i < i")
      case True
      then have "uf_rep (p[b := a]) i = uf_rep (p[b := a]) (p ! i)" "uf_rep p i = uf_rep p (p ! i)"
        using False by (subst uf_rep.simps, simp)+
      then show ?thesis using less [of "p ! i"] True by simp
    next
      case stop: False
      then have "uf_rep (p[b := a]) i = i" "uf_rep p i = i" using False by (subst uf_rep.simps, auto)+
      then show ?thesis using False by simp
    qed
  qed
qed

text \<open>A union merges exactly two trees.\<close>

lemma uf_union_rep:
  assumes ok: "uf_ok p" and lr: "l < length p" "r < length p"
  shows "\<exists>q. uf_union p l r = Some q \<and> uf_ok q \<and> length q = length p \<and>
    (\<forall>i. uf_rep q i = (if uf_rep p i \<in> {uf_rep p l, uf_rep p r} then min (uf_rep p l) (uf_rep p r) else uf_rep p i))"
proof -
  let ?a = "uf_rep p l" and ?b = "uf_rep p r"
  have u: "uf_union p l r = Some (if ?a = ?b then p else if ?a < ?b then p[?b := ?a] else p[?a := ?b])"
    by (simp add: uf_union_def uf_root_rep [OF ok] lr)
  have len: "?a < length p" "?b < length p" using uf_rep_less lr by simp_all
  have fixed: "p ! ?a = ?a" "p ! ?b = ?b" using uf_rep_root [OF ok] lr by simp_all
  have hung: "uf_ok (p[y := x])" if "x \<le> y" for x y
    unfolding uf_ok_def
  proof (intro allI impI)
    fix i assume "i < length (p[y := x])"
    then show "p[y := x] ! i \<le> i" using ok that by (cases "i = y") (auto simp: uf_ok_def)
  qed
  consider "?a = ?b" | "?a < ?b" | "?b < ?a" by linarith
  then show ?thesis
  proof cases
    case 1 then show ?thesis using u ok by auto
  next
    case 2 then show ?thesis using u hung uf_rep_hang [OF ok 2 len(2) fixed] by (auto simp: min_def)
  next
    case 3 then show ?thesis using u hung uf_rep_hang [OF ok 3 len(1) fixed(2,1)] by (auto simp: min_def)
  qed
qed

subsection \<open>Linking equal keys\<close>

text \<open>What a linking pass leaves: a well-formed forest that merges more, and all positions of one key.\<close>

lemma link_same_links:
  "uf_ok p \<Longrightarrow> (\<forall>(i, k) \<in> set xs. i < length p) \<Longrightarrow> (\<forall>k j. bm_get seen k = Some j \<longrightarrow> j < length p) \<Longrightarrow>
   \<exists>q. link_same xs seen p = Some q \<and> uf_ok q \<and> length q = length p \<and>
     (\<forall>i j. uf_rep p i = uf_rep p j \<longrightarrow> uf_rep q i = uf_rep q j) \<and>
     (\<forall>i k j. (i, Some k) \<in> set xs \<longrightarrow> bm_get seen k = Some j \<or> (j, Some k) \<in> set xs \<longrightarrow> uf_rep q i = uf_rep q j)"
proof (induction xs seen p rule: link_same.induct)
  case (2 i rest seen p)
  then show ?case by auto
next
  case (3 i key rest seen p)
  have i: "i < length p" and rest: "\<forall>(i, k) \<in> set rest. i < length p" using 3(4) by simp_all
  have fresh: "\<forall>k j. bm_get (bm_insert key i seen) k = Some j \<longrightarrow> j < length p" using 3(5) i by simp
  show ?case
  proof (cases "bm_get seen key")
    case None
    then obtain q where q: "link_same rest (bm_insert key i seen) p = Some q" "uf_ok q" "length q = length p"
      "\<forall>i j. uf_rep p i = uf_rep p j \<longrightarrow> uf_rep q i = uf_rep q j"
      "\<forall>i' k j. (i', Some k) \<in> set rest \<longrightarrow>
        bm_get (bm_insert key i seen) k = Some j \<or> (j, Some k) \<in> set rest \<longrightarrow> uf_rep q i' = uf_rep q j"
      using 3(1) [OF None 3(3) rest fresh] by blast
    have "uf_rep q i' = uf_rep q j"
      if "(i', Some k) \<in> set ((i, Some key) # rest)" "bm_get seen k = Some j \<or> (j, Some k) \<in> set ((i, Some key) # rest)" for i' k j
    proof (cases "k = key")
      case True
      have same: "uf_rep q x = uf_rep q i" if "(x, Some key) \<in> set ((i, Some key) # rest)" for x
        using that q(5) [rule_format, of x key i] by (cases "x = i") auto
      have "uf_rep q j = uf_rep q i" using that(2) same [of j] True None by auto
      then show ?thesis using that(1) same [of i'] True by simp
    next
      case False
      then show ?thesis using that q(5) [rule_format, of i' k j] by simp
    qed
    moreover have "link_same ((i, Some key) # rest) seen p = Some q" using None q(1) by simp
    ultimately show ?thesis using q(2-4) by blast
  next
    case (Some previous)
    then have prev: "previous < length p" using 3(5) by blast
    obtain p1 where p1: "uf_union p previous i = Some p1" "uf_ok p1" "length p1 = length p"
      "\<forall>j. uf_rep p1 j = (if uf_rep p j \<in> {uf_rep p previous, uf_rep p i}
         then min (uf_rep p previous) (uf_rep p i) else uf_rep p j)"
      using uf_union_rep [OF 3(3) prev i] by blast
    obtain q where q: "link_same rest (bm_insert key i seen) p1 = Some q" "uf_ok q" "length q = length p1"
      "\<forall>i j. uf_rep p1 i = uf_rep p1 j \<longrightarrow> uf_rep q i = uf_rep q j"
      "\<forall>i' k j. (i', Some k) \<in> set rest \<longrightarrow>
        bm_get (bm_insert key i seen) k = Some j \<or> (j, Some k) \<in> set rest \<longrightarrow> uf_rep q i' = uf_rep q j"
      using 3(2) [OF Some p1(1) p1(2) rest [folded p1(3)] fresh [folded p1(3)]] by blast
    have merged: "uf_rep q previous = uf_rep q i" using q(4) [rule_format, of previous i] p1(4) by simp
    have mono: "uf_rep q a = uf_rep q b" if "uf_rep p a = uf_rep p b" for a b
      using q(4) [rule_format, of a b] p1(4) that by simp
    have "uf_rep q i' = uf_rep q j"
      if "(i', Some k) \<in> set ((i, Some key) # rest)" "bm_get seen k = Some j \<or> (j, Some k) \<in> set ((i, Some key) # rest)" for i' k j
    proof (cases "k = key")
      case True
      have same: "uf_rep q x = uf_rep q i" if "(x, Some key) \<in> set ((i, Some key) # rest)" for x
        using that q(5) [rule_format, of x key i] by (cases "x = i") auto
      have "uf_rep q j = uf_rep q i" using that(2) same [of j] True Some merged by auto
      then show ?thesis using that(1) same [of i'] True by simp
    next
      case False
      then show ?thesis using that q(5) [rule_format, of i' k j] by simp
    qed
    moreover have "link_same ((i, Some key) # rest) seen p = Some q" "length q = length p"
      using Some p1(1,3) q(1,3) by simp_all
    ultimately show ?thesis using q(2) mono by blast
  qed
qed simp

lemma link_fresh:
  assumes "uf_ok p" "\<forall>(i, k) \<in> set xs. i < length p"
  shows "\<exists>q. link_same xs bm_empty p = Some q \<and> uf_ok q \<and> length q = length p \<and>
    (\<forall>i j. uf_rep p i = uf_rep p j \<longrightarrow> uf_rep q i = uf_rep q j) \<and>
    (\<forall>i k j. (i, Some k) \<in> set xs \<longrightarrow> (j, Some k) \<in> set xs \<longrightarrow> uf_rep q i = uf_rep q j)"
proof -
  have "\<forall>k j. bm_get bm_empty k = Some j \<longrightarrow> j < length p" by simp
  from link_same_links [OF assms this] show ?thesis by blast
qed

text \<open>A linking pass merges nothing an equivalence containing its links keeps apart.\<close>

lemma link_same_sound:
  assumes R: "sym R" "trans R" "refl R"
  shows "uf_ok p \<Longrightarrow> (\<forall>(i, k) \<in> set xs. i < length p) \<Longrightarrow> (\<forall>k j. bm_get seen k = Some j \<longrightarrow> j < length p) \<Longrightarrow>
    (\<forall>i. (i, uf_rep p i) \<in> R) \<Longrightarrow>
    (\<forall>i k j. (i, Some k) \<in> set xs \<longrightarrow> bm_get seen k = Some j \<or> (j, Some k) \<in> set xs \<longrightarrow> (i, j) \<in> R) \<Longrightarrow>
    link_same xs seen p = Some q \<Longrightarrow> (\<forall>i. (i, uf_rep q i) \<in> R)"
proof (induction xs seen p rule: link_same.induct)
  case (2 i rest seen p)
  then show ?case by auto
next
  case (3 i key rest seen p)
  have i: "i < length p" and rest: "\<forall>(i, k) \<in> set rest. i < length p" using 3(4) by simp_all
  have fresh: "\<forall>k j. bm_get (bm_insert key i seen) k = Some j \<longrightarrow> j < length p" using 3(5) i by simp
  have later: "\<forall>i' k j. (i', Some k) \<in> set rest \<longrightarrow>
      bm_get (bm_insert key i seen) k = Some j \<or> (j, Some k) \<in> set rest \<longrightarrow> (i', j) \<in> R"
    using 3(7) by (auto split: if_splits)
  show ?case
  proof (cases "bm_get seen key")
    case None
    then show ?thesis using 3(1) [OF None 3(3) rest fresh 3(6) later] 3(8) by simp
  next
    case (Some previous)
    then have prev: "previous < length p" using 3(5) by blast
    obtain p1 where p1: "uf_union p previous i = Some p1" "uf_ok p1" "length p1 = length p"
      "\<forall>j. uf_rep p1 j = (if uf_rep p j \<in> {uf_rep p previous, uf_rep p i}
         then min (uf_rep p previous) (uf_rep p i) else uf_rep p j)"
      using uf_union_rep [OF 3(3) prev i] by blast
    have "(i, previous) \<in> R" using 3(7) Some by auto
    then have "(uf_rep p previous, uf_rep p i) \<in> R"
      using 3(6) R by (meson symD transD)
    then have "(j, uf_rep p1 j) \<in> R" for j
      using 3(6) R p1(4) by (auto simp: min_def dest: symD transD) (metis symD transD)+
    then show ?thesis
      using 3(2) [OF Some p1(1) p1(2) rest [folded p1(3)] fresh [folded p1(3)] _ later] 3(8) Some p1(1) by simp
  qed
qed simp

subsection \<open>The reference definition\<close>

text \<open>
  Two Reports make the same claim when a chain of equal artifacts and equal occurrences joins
  them. A claim belongs to the one prior Finding its Reports name, by occurrence or by a relation, and
  otherwise founds a Finding named after its first Report.
\<close>

definition linked :: "published list \<Rightarrow> (nat \<times> nat) set" where
  "linked reports = {(i, j). i < length reports \<and> j < length reports \<and>
     (snd (snd (reports ! i)) = snd (snd (reports ! j)) \<or>
      occurrence (fst (reports ! i)) \<noteq> None \<and> occurrence (fst (reports ! i)) = occurrence (fst (reports ! j)))}"

definition same_claim :: "published list \<Rightarrow> (nat \<times> nat) set" where
  "same_claim reports = (linked reports)\<^sup>*"

definition named_findings :: "Ledger \<Rightarrow> (string \<times> string, string) bmap \<Rightarrow> FindingReport \<Rightarrow> string set" where
  "named_findings prior pending report =
     set_option (prior_finding prior pending report) \<union> (target_id \<circ> rel_target) ` set (fr_relations report)"

definition claim_findings :: "Ledger \<Rightarrow> (string \<times> string, string) bmap \<Rightarrow> published list \<Rightarrow> nat \<Rightarrow> string set" where
  "claim_findings prior pending reports i =
     (\<Union>j \<in> {j. j < length reports \<and> (i, j) \<in> same_claim reports}. named_findings prior pending (fst (reports ! j)))"

definition claim_key :: "(string \<Rightarrow> string) \<Rightarrow> Ledger \<Rightarrow> (string \<times> string, string) bmap \<Rightarrow> published list \<Rightarrow> nat \<Rightarrow> string" where
  "claim_key sha prior pending reports i =
     (if claim_findings prior pending reports i = {}
      then canonical_finding_id sha (snd (snd (reports ! (LEAST j. (i, j) \<in> same_claim reports))))
      else the_elem (claim_findings prior pending reports i))"

definition claims_agree :: "Ledger \<Rightarrow> (string \<times> string, string) bmap \<Rightarrow> published list \<Rightarrow> bool" where
  "claims_agree prior pending reports \<longleftrightarrow>
     (\<forall>i < length reports. (target_id \<circ> rel_target) ` set (fr_relations (fst (reports ! i))) \<subseteq> dom (bm_get (findings prior)) \<and>
       card (claim_findings prior pending reports i) \<le> 1)"

lemma sym_linked: "sym (linked reports)"
  unfolding sym_def linked_def by (simp only: mem_Collect_eq split_conv) metis

lemma same_claim_equiv: "sym (same_claim reports)" "trans (same_claim reports)" "refl (same_claim reports)"
  by (simp_all add: same_claim_def sym_rtrancl sym_linked trans_rtrancl refl_rtrancl)

lemma rep_positions: "uf_rep [0..<n] i = i"
  by (subst uf_rep.simps) auto

lemma in_zip_positions: "(i, k) \<in> set (zip [0..<length xs] xs) \<longleftrightarrow> i < length xs \<and> k = xs ! i"
  by (force simp: in_set_zip)

text \<open>After both passes the trees of the forest are the claims.\<close>

lemma forest_of_claims:
  defines "by_report reports \<equiv> zip [0..<length reports] (map (\<lambda>(report, record_id, artifact). Some artifact) reports)"
    and "by_occurrence reports \<equiv> zip [0..<length reports] (map (\<lambda>(report, record_id, artifact). occurrence report) reports)"
  shows "\<exists>p q. link_same (by_report reports) bm_empty [0..<length reports] = Some p \<and>
    link_same (by_occurrence reports) bm_empty p = Some q \<and> uf_ok q \<and> length q = length reports \<and>
    (\<forall>i < length reports. \<forall>j < length reports. uf_rep q i = uf_rep q j \<longleftrightarrow> (i, j) \<in> same_claim reports)"
proof -
  let ?n = "length reports" and ?R = "same_claim reports"
  have art: "(i, Some k) \<in> set (by_report reports) \<longleftrightarrow> i < ?n \<and> k = snd (snd (reports ! i))" for i k
    using in_zip_positions [of i "Some k" "map (\<lambda>(report, record_id, artifact). Some artifact) reports"]
    by (auto simp: by_report_def case_prod_beta)
  have occ: "(i, k) \<in> set (by_occurrence reports) \<longleftrightarrow> i < ?n \<and> k = occurrence (fst (reports ! i))" for i k
    using in_zip_positions [of i k "map (\<lambda>(report, record_id, artifact). occurrence report) reports"]
    by (auto simp: by_occurrence_def case_prod_beta)
  have start: "uf_ok [0..<?n]" and len: "length [0..<?n] = ?n" by (simp_all add: uf_ok_def)
  have bound: "\<forall>(i, k) \<in> set (by_report reports). i < ?n" "\<forall>(i, k) \<in> set (by_occurrence reports). i < ?n"
    by (auto simp: by_report_def by_occurrence_def dest: set_zip_leftD)
  have bound0: "\<forall>(i, k) \<in> set (by_report reports). i < length [0..<?n]" using bound(1) unfolding len .
  obtain p where p: "link_same (by_report reports) bm_empty [0..<?n] = Some p" "uf_ok p" "length p = ?n"
    and pl: "\<forall>i k j. (i, Some k) \<in> set (by_report reports) \<longrightarrow> (j, Some k) \<in> set (by_report reports) \<longrightarrow> uf_rep p i = uf_rep p j"
    using link_fresh [OF start bound0] unfolding len by (elim exE conjE) (rule that)
  obtain q where q: "link_same (by_occurrence reports) bm_empty p = Some q" "uf_ok q" "length q = ?n"
    and qp: "\<forall>i j. uf_rep p i = uf_rep p j \<longrightarrow> uf_rep q i = uf_rep q j"
    and ql: "\<forall>i k j. (i, Some k) \<in> set (by_occurrence reports) \<longrightarrow> (j, Some k) \<in> set (by_occurrence reports) \<longrightarrow> uf_rep q i = uf_rep q j"
    using link_fresh [OF p(2) bound(2) [folded p(3)]] unfolding p(3) by (elim exE conjE) (rule that)
  have step: "(i, j) \<in> ?R" if "(i, j) \<in> linked reports" for i j using that by (auto simp: same_claim_def)
  have "\<forall>i. (i, uf_rep p i) \<in> ?R"
  proof (rule link_same_sound [OF same_claim_equiv start _ _ _ _ p(1)])
    show "\<forall>i k j. (i, Some k) \<in> set (by_report reports) \<longrightarrow>
        bm_get bm_empty k = Some j \<or> (j, Some k) \<in> set (by_report reports) \<longrightarrow> (i, j) \<in> ?R"
      using step by (auto simp: art linked_def)
  qed (use bound(1) same_claim_equiv(3) in \<open>auto simp: rep_positions refl_on_def\<close>)
  then have sound: "\<forall>i. (i, uf_rep q i) \<in> ?R"
  proof (rule link_same_sound [OF same_claim_equiv p(2) _ _ _ _ q(1), rotated 2])
    show "\<forall>i k j. (i, Some k) \<in> set (by_occurrence reports) \<longrightarrow>
        bm_get bm_empty k = Some j \<or> (j, Some k) \<in> set (by_occurrence reports) \<longrightarrow> (i, j) \<in> ?R"
    proof (intro allI impI, rule step)
      fix i k j
      assume "(i, Some k) \<in> set (by_occurrence reports)" "bm_get bm_empty k = Some j \<or> (j, Some k) \<in> set (by_occurrence reports)"
      then have "i < ?n" "j < ?n" "occurrence (fst (reports ! i)) = Some k" "occurrence (fst (reports ! j)) = Some k"
        unfolding occ by simp_all
      then show "(i, j) \<in> linked reports" by (simp add: linked_def)
    qed
  qed (use bound(2) p(3) in auto)
  have complete: "uf_rep q i = uf_rep q j" if "(i, j) \<in> ?R" for i j
    using that unfolding same_claim_def
  proof (induction rule: rtrancl_induct)
    case (step j k)
    have jk: "j < ?n" "k < ?n" using step(2) by (simp_all add: linked_def)
    have "uf_rep q j = uf_rep q k"
    proof (cases "snd (snd (reports ! j)) = snd (snd (reports ! k))")
      case True
      then have "uf_rep p j = uf_rep p k" using pl art jk by blast
      then show ?thesis using qp by blast
    next
      case False
      then have "occurrence (fst (reports ! j)) \<noteq> None" "occurrence (fst (reports ! j)) = occurrence (fst (reports ! k))"
        using step(2) unfolding linked_def mem_Collect_eq split_conv by blast+
      then show ?thesis using ql occ jk by (metis not_None_eq)
    qed
    with step.IH show ?case by simp
  qed simp
  have "uf_rep q i = uf_rep q j \<longleftrightarrow> (i, j) \<in> ?R" for i j
    using sound complete same_claim_equiv by (metis symD transD)
  with p q show ?thesis by blast
qed

subsection \<open>The loops over the claims\<close>

text \<open>A forest with the same trees: what every loop leaves of the one it was given.\<close>

definition same_trees :: "nat list \<Rightarrow> nat list \<Rightarrow> bool" where
  "same_trees p q \<longleftrightarrow> uf_ok q \<and> length q = length p \<and> (\<forall>j. uf_rep q j = uf_rep p j)"

lemma same_treesD:
  assumes "same_trees p q"
  shows "uf_ok q" "length q = length p" "uf_rep q j = uf_rep p j"
  using assms by (simp_all add: same_trees_def)

lemma same_trees_refl: "uf_ok p \<Longrightarrow> same_trees p p"
  by (simp add: same_trees_def)

lemma same_trees_trans: "same_trees p q \<Longrightarrow> same_trees q r \<Longrightarrow> same_trees p r"
  by (simp add: same_trees_def)

lemma uf_find_same:
  assumes "uf_ok p" "i < length p"
  obtains q where "uf_find p i = Some (q, uf_rep p i)" "same_trees p q"
  using uf_find_rep [OF assms] by (auto simp: same_trees_def)

lemma first_reports_spec:
  "uf_ok p \<Longrightarrow> set ixs \<subseteq> {..<length p} \<Longrightarrow>
   \<exists>q m'. first_reports ixs p m = Some (q, m') \<and> same_trees p q \<and>
     (\<forall>r. bm_get m' r = (case bm_get m r of None \<Rightarrow> find (\<lambda>i. uf_rep p i = r) ixs | Some v \<Rightarrow> Some v))"
proof (induction ixs arbitrary: p m)
  case Nil
  then show ?case by (auto simp: same_trees_refl split: option.splits)
next
  case (Cons i ixs)
  obtain p1 where p1: "uf_find p i = Some (p1, uf_rep p i)" "same_trees p p1"
    using uf_find_same [of p i] Cons.prems by auto
  let ?m = "if bm_contains m (uf_rep p i) then m else bm_insert (uf_rep p i) i m"
  obtain q m' where q: "first_reports ixs p1 ?m = Some (q, m')" "same_trees p1 q"
      "\<forall>r. bm_get m' r = (case bm_get ?m r of None \<Rightarrow> find (\<lambda>i. uf_rep p1 i = r) ixs | Some v \<Rightarrow> Some v)"
    using Cons.IH [of p1 ?m] same_treesD [OF p1(2)] Cons.prems by auto
  have "bm_get m' r = (case bm_get m r of None \<Rightarrow> find (\<lambda>i. uf_rep p i = r) (i # ixs) | Some v \<Rightarrow> Some v)" for r
    using q(3) [rule_format, of r] same_treesD(3) [OF p1(2)] by (auto split: option.splits if_splits)
  then show ?case using p1 q(1,2) same_trees_trans by auto
qed

lemma first_of_claim:
  assumes ok: "uf_ok p" and i: "i < length p"
  shows "find (\<lambda>j. uf_rep p j = uf_rep p i) [0..<length p] = Some (uf_rep p i)"
proof -
  have "uf_rep p (uf_rep p i) = uf_rep p i" using uf_rep_self [OF ok] uf_rep_root [OF ok i] by simp
  moreover have "uf_rep p j \<noteq> uf_rep p i" if "j < uf_rep p i" for j using uf_rep_le [of p j] that by simp
  ultimately show ?thesis
    using uf_rep_less [OF i] by (auto simp: find_Some_iff intro!: exI [of _ "uf_rep p i"])
qed

definition group_of :: "(nat, bset) bmap \<Rightarrow> nat \<Rightarrow> string set" where
  "group_of c r = (case bm_get c r of None \<Rightarrow> {} | Some s \<Rightarrow> dom (bm_get s))"

lemma group_of_simps [simp]:
  "group_of bm_empty r = {}"
  "group_of (add_candidate r' f c) r = (if r = r' then insert f (group_of c r) else group_of c r)"
  by (auto simp: group_of_def add_candidate_def split: option.splits)

lemma relate_spec:
  "relate prior report_id r relations c \<noteq> Panic \<and>
   (\<forall>c'. relate prior report_id r relations c = Ok c' \<longrightarrow>
      (\<forall>r'. group_of c' r' = group_of c r' \<union> (if r' = r then (target_id \<circ> rel_target) ` set relations else {}))) \<and>
   (is_ok (relate prior report_id r relations c) \<longleftrightarrow>
      (target_id \<circ> rel_target) ` set relations \<subseteq> dom (bm_get (findings prior)))"
proof (induction relations arbitrary: c)
  case (Cons relation relations)
  show ?case
  proof (cases "bm_get (findings prior) (target_id (rel_target relation))")
    case None
    then show ?thesis by (auto simp: Let_def)
  next
    case (Some f)
    then show ?thesis
      using Cons.IH [of "add_candidate r (target_id (rel_target relation)) c"] by (simp add: Let_def domI)
  qed
qed simp

lemma collect_candidates_spec:
  "uf_ok p \<Longrightarrow> (\<forall>(i, report) \<in> set xs. i < length p) \<Longrightarrow>
   collect_candidates prior pending xs p c \<noteq> Panic \<and>
   (\<forall>q c'. collect_candidates prior pending xs p c = Ok (q, c') \<longrightarrow> same_trees p q \<and>
      (\<forall>r. group_of c' r = group_of c r \<union>
        (\<Union>(i, report) \<in> {(i, report) \<in> set xs. uf_rep p i = r}. named_findings prior pending (fst report)))) \<and>
   (is_ok (collect_candidates prior pending xs p c) \<longleftrightarrow>
      (\<forall>(i, report) \<in> set xs. (target_id \<circ> rel_target) ` set (fr_relations (fst report)) \<subseteq> dom (bm_get (findings prior))))"
proof (induction xs arbitrary: p c)
  case Nil
  then show ?case by (simp add: same_trees_refl)
next
  case (Cons x xs)
  obtain i report rid artifact where x: "x = (i, report, rid, artifact)" by (cases x) auto
  obtain p1 where p1: "uf_find p i = Some (p1, uf_rep p i)" "same_trees p p1"
    using uf_find_same [of p i] Cons.prems x by auto
  let ?c = "case prior_finding prior pending report of None \<Rightarrow> c | Some finding \<Rightarrow> add_candidate (uf_rep p i) finding c"
  have named: "group_of ?c r \<union> (if r = uf_rep p i then (target_id \<circ> rel_target) ` set (fr_relations report) else {})
      = group_of c r \<union> (if r = uf_rep p i then named_findings prior pending report else {})" for r
    by (auto simp: named_findings_def split: option.splits)
  note rel = relate_spec [of prior artifact "uf_rep p i" "fr_relations report" ?c]
  note step = Cons.IH [OF same_treesD(1) [OF p1(2)], unfolded same_treesD(2,3) [OF p1(2)]]
  show ?case
  proof (cases "relate prior artifact (uf_rep p i) (fr_relations report) ?c")
    case (Ok c1)
    have g: "group_of c1 r = group_of c r \<union> (if r = uf_rep p i then named_findings prior pending report else {})" for r
      using rel Ok named by simp
    have eq: "collect_candidates prior pending (x # xs) p c = collect_candidates prior pending xs p1 c1"
      using p1 Ok by (simp add: x)
    have known: "(target_id \<circ> rel_target) ` set (fr_relations report) \<subseteq> dom (bm_get (findings prior))"
      using rel Ok by simp
    have "same_trees p q \<and> (\<forall>r. group_of c' r = group_of c r \<union>
        (\<Union>(i, report) \<in> {(i, report) \<in> set (x # xs). uf_rep p i = r}. named_findings prior pending (fst report)))"
      if "collect_candidates prior pending xs p1 c1 = Ok (q, c')" for q c'
    proof -
      have "same_trees p1 q" and g': "\<And>r. group_of c' r = group_of c1 r \<union>
          (\<Union>(i, report) \<in> {(i, report) \<in> set xs. uf_rep p i = r}. named_findings prior pending (fst report))"
        using step [of c1] that Cons.prems(2) by auto
      then show ?thesis using same_trees_trans [OF p1(2)] by (auto simp: g' g x split: if_splits)
    qed
    then show ?thesis using step [of c1] Cons.prems(2) known unfolding eq by (auto simp: x)
  next
    case (Err e)
    then show ?thesis using rel p1 by (auto simp: x)
  next
    case Panic
    then show ?thesis using rel by simp
  qed
qed

definition group_list :: "(nat, bset) bmap \<Rightarrow> nat \<Rightarrow> string list" where
  "group_list c r = (case bm_get c r of None \<Rightarrow> [] | Some s \<Rightarrow> bs_elems s)"

lemma group_list_set: "set (group_list c r) = group_of c r" "distinct (group_list c r)"
  by (auto simp: group_list_def group_of_def set_bm_keys bm_keys_distinct split: option.splits)

lemma group_list_card: "length (group_list c r) = card (group_of c r)"
  using group_list_set distinct_card by metis

lemma group_list_first:
  "card (group_of c r) \<le> 1 \<Longrightarrow>
   (case group_list c r of [] \<Rightarrow> x | f # _ \<Rightarrow> f) = (if group_of c r = {} then x else the_elem (group_of c r))"
proof (cases "group_list c r")
  case Nil
  then show ?thesis using group_list_set(1) [of c r] by simp
next
  case (Cons f fs)
  moreover assume "card (group_of c r) \<le> 1"
  ultimately have "fs = []" using group_list_card [of c r] by (cases fs) simp_all
  then have "group_of c r = {f}" using Cons group_list_set(1) [of c r] by simp
  then show ?thesis using Cons by simp
qed

lemma choose_keys_spec:
  assumes first: "\<forall>i < length reports. bm_get first (uf_rep p i) = Some (uf_rep p i)"
  shows "uf_ok q \<Longrightarrow> same_trees p q \<Longrightarrow> length p = length reports \<Longrightarrow> set ixs \<subseteq> {..<length reports} \<Longrightarrow>
    choose_keys sha reports first c ixs q \<noteq> Panic \<and>
    (\<forall>keys. choose_keys sha reports first c ixs q = Ok keys \<longleftrightarrow>
       (\<forall>i \<in> set ixs. card (group_of c (uf_rep p i)) \<le> 1) \<and>
       keys = map (\<lambda>i. if group_of c (uf_rep p i) = {} then canonical_finding_id sha (snd (snd (reports ! uf_rep p i)))
         else the_elem (group_of c (uf_rep p i))) ixs)"
proof (induction ixs arbitrary: q)
  case Nil
  then show ?case by auto
next
  case (Cons i ixs)
  have i: "i < length reports" "uf_rep q i = uf_rep p i" and i': "i < length q"
    using Cons.prems same_treesD [OF Cons.prems(2)] by auto
  obtain q1 where q1: "uf_find q i = Some (q1, uf_rep q i)" "same_trees q q1"
    using uf_find_same [OF Cons.prems(1) i'] by blast
  have r: "uf_rep p i < length reports" using uf_rep_less [of i p] i Cons.prems(3) by simp
  have IH: "choose_keys sha reports first c ixs q1 \<noteq> Panic \<and>
    (\<forall>keys. choose_keys sha reports first c ixs q1 = Ok keys \<longleftrightarrow>
       (\<forall>i \<in> set ixs. card (group_of c (uf_rep p i)) \<le> 1) \<and>
       keys = map (\<lambda>i. if group_of c (uf_rep p i) = {} then canonical_finding_id sha (snd (snd (reports ! uf_rep p i)))
         else the_elem (group_of c (uf_rep p i))) ixs)"
    using Cons.IH [OF same_treesD(1) [OF q1(2)] same_trees_trans [OF Cons.prems(2) q1(2)] Cons.prems(3)] Cons.prems(4) by simp
  have eq: "choose_keys sha reports first c (i # ixs) q =
      (if 1 < card (group_of c (uf_rep p i))
       then Err (Conflict (''corroboration and occurrence authority disagree for Report '' @ snd (snd (reports ! uf_rep p i))))
       else and_then (choose_keys sha reports first c ixs q1) (\<lambda>keys.
         Ok ((case group_list c (uf_rep p i) of [] \<Rightarrow> canonical_finding_id sha (snd (snd (reports ! uf_rep p i)))
           | f # _ \<Rightarrow> f) # keys)))"
    using q1(1) i first r by (simp add: Let_def group_list_def [symmetric] group_list_card)
  show ?case
  proof (cases "1 < card (group_of c (uf_rep p i))")
    case True
    then show ?thesis unfolding eq by simp
  next
    case False
    then show ?thesis
      using IH group_list_first [of c "uf_rep p i"] unfolding eq
      by (auto simp: and_then_eq_Ok and_then_eq_Panic)
  qed
qed

text \<open>The first position of a claim is the representative of its tree, and a tree collects what its claim names.\<close>

lemma claim_least:
  assumes p: "uf_ok p" "length p = length reports" and i: "i < length reports"
    and claims: "\<forall>i < length reports. \<forall>j < length reports. uf_rep p i = uf_rep p j \<longleftrightarrow> (i, j) \<in> same_claim reports"
  shows "(LEAST j. (i, j) \<in> same_claim reports) = uf_rep p i"
proof (rule Least_equality)
  show "(i, uf_rep p i) \<in> same_claim reports"
    using claims i uf_rep_less [of i p] p uf_rep_self uf_rep_root by metis
  fix j assume j: "(i, j) \<in> same_claim reports"
  then have "j < length reports" using i unfolding same_claim_def by (induction rule: rtrancl_induct) (auto simp: linked_def)
  then have "uf_rep p j = uf_rep p i" using claims i j by metis
  then show "uf_rep p i \<le> j" using uf_rep_le [of p j] by simp
qed

lemma claim_tree:
  assumes i: "i < length reports"
    and claims: "\<forall>i < length reports. \<forall>j < length reports. uf_rep p i = uf_rep p j \<longleftrightarrow> (i, j) \<in> same_claim reports"
  shows "(\<Union>(j, report) \<in> {(j, report) \<in> set (zip [0..<length reports] reports). uf_rep p j = uf_rep p i}.
    named_findings prior pending (fst report)) = claim_findings prior pending reports i"
proof -
  have "{(j, report) \<in> set (zip [0..<length reports] reports). uf_rep p j = uf_rep p i} =
      (\<lambda>j. (j, reports ! j)) ` {j. j < length reports \<and> uf_rep p i = uf_rep p j}"
    using in_zip_positions [where xs = reports] by (auto simp del: split_paired_All)
  moreover have "{j. j < length reports \<and> uf_rep p i = uf_rep p j} = {j. j < length reports \<and> (i, j) \<in> same_claim reports}"
    using claims i by blast
  ultimately show ?thesis by (simp add: claim_findings_def)
qed

text \<open>
  C10: The keys of a stage of Reports are exactly these: two Reports make one claim when a chain of
  equal artifacts and equal occurrences joins them; a claim that names one known Finding, by relation or
  by an occurrence that is on record or pending, takes its key, and a claim that names none takes the ID
  derived from its first Report. The stage is refused exactly when a relation names an unknown
  Finding or a claim names two, and the union-find loops never panic.
\<close>

theorem stage_keys_exact:
  "canonical_stage_keys sha reports prior pending \<noteq> Panic \<and>
   (canonical_stage_keys sha reports prior pending = Ok keys \<longleftrightarrow>
      claims_agree prior pending reports \<and> keys = map (claim_key sha prior pending reports) [0..<length reports])"
proof -
  let ?n = "length reports"
  let ?by_report = "zip [0..<?n] (map (\<lambda>(report, record_id, artifact). Some artifact) reports)"
  let ?by_occurrence = "zip [0..<?n] (map (\<lambda>(report, record_id, artifact). occurrence report) reports)"
  obtain p1 p where p: "link_same ?by_report bm_empty [0..<?n] = Some p1" "link_same ?by_occurrence bm_empty p1 = Some p"
      "uf_ok p" "length p = ?n"
    and claims: "\<forall>i < ?n. \<forall>j < ?n. uf_rep p i = uf_rep p j \<longleftrightarrow> (i, j) \<in> same_claim reports"
    using forest_of_claims [of reports] by blast
  obtain q first where q: "first_reports [0..<?n] p bm_empty = Some (q, first)" "same_trees p q"
    and first: "\<forall>i < ?n. bm_get first (uf_rep p i) = Some (uf_rep p i)"
  proof -
    obtain q first where q: "first_reports [0..<?n] p bm_empty = Some (q, first)" "same_trees p q"
        "\<forall>r. bm_get first r = find (\<lambda>i. uf_rep p i = r) [0..<?n]"
      using first_reports_spec [OF p(3), of "[0..<?n]" bm_empty] p(4) by (auto simp: lessThan_atLeast0)
    moreover have "find (\<lambda>j. uf_rep p j = uf_rep p i) [0..<?n] = Some (uf_rep p i)" if "i < ?n" for i
      using first_of_claim [OF p(3), of i] that p(4) by simp
    ultimately show ?thesis using that by simp
  qed
  have pos: "(i, report) \<in> set (zip [0..<?n] reports) \<longleftrightarrow> i < ?n \<and> report = reports ! i" for i report
    by (rule in_zip_positions)
  have all: "set (zip [0..<?n] reports) = (\<lambda>i. (i, reports ! i)) ` {..<?n}"
    using pos by (auto simp del: split_paired_All)
  let ?c = "collect_candidates prior pending (zip [0..<?n] reports) q bm_empty"
  have unfolded: "canonical_stage_keys sha reports prior pending =
      and_then ?c (\<lambda>(q', c). choose_keys sha reports first c [0..<?n] q')"
    using p(1,2) q(1) by (simp add: canonical_stage_keys_def Let_def)
  have "\<forall>(i, report) \<in> set (zip [0..<?n] reports). i < length q" using same_treesD(2) [OF q(2)] p(4) pos by auto
  note collect = collect_candidates_spec [OF same_treesD(1) [OF q(2)] this, of prior pending bm_empty]
  have relations: "is_ok ?c \<longleftrightarrow>
      (\<forall>i < ?n. (target_id \<circ> rel_target) ` set (fr_relations (fst (reports ! i))) \<subseteq> dom (bm_get (findings prior)))"
    using conjunct2 [OF conjunct2 [OF collect]] unfolding all by simp (simp add: Ball_def)
  show ?thesis
  proof (cases ?c)
    case (Ok r)
    obtain q' c where r: "r = (q', c)" by (cases r)
    have tree: "same_trees p q'" using collect Ok r same_trees_trans [OF q(2)] by blast
    have grp: "group_of c (uf_rep p i) = claim_findings prior pending reports i" if i: "i < ?n" for i
    proof -
      have "group_of c (uf_rep p i) =
          (\<Union>(j, report) \<in> {(j, report) \<in> set (zip [0..<?n] reports). uf_rep p j = uf_rep p i}. named_findings prior pending (fst report))"
        using collect Ok r same_treesD(3) [OF q(2)] by simp
      also have "\<dots> = claim_findings prior pending reports i" by (rule claim_tree [OF i claims])
      finally show ?thesis .
    qed
    have least: "(LEAST j. (i, j) \<in> same_claim reports) = uf_rep p i" if "i < ?n" for i
      by (rule claim_least [OF p(3,4) that claims])
    have agree: "claims_agree prior pending reports \<longleftrightarrow> (\<forall>i \<in> set [0..<?n]. card (group_of c (uf_rep p i)) \<le> 1)"
      using relations Ok grp by (auto simp: claims_agree_def)
    have keys: "map (claim_key sha prior pending reports) [0..<?n] =
        map (\<lambda>i. if group_of c (uf_rep p i) = {} then canonical_finding_id sha (snd (snd (reports ! uf_rep p i)))
          else the_elem (group_of c (uf_rep p i))) [0..<?n]"
      using grp least by (simp add: claim_key_def)
    have "set [0..<?n] \<subseteq> {..<?n}" by auto
    from choose_keys_spec [OF first same_treesD(1) [OF tree] tree p(4) this, of sha c]
    show ?thesis unfolding agree keys unfolded Ok r by simp
  next
    case (Err e)
    then show ?thesis using relations unfolded by (auto simp: claims_agree_def)
  next
    case Panic
    then show ?thesis using collect by simp
  qed
qed

end
