(* ===== verification/EventLog.thy ===== *)
theory EventLog
  imports Fencing LedgerEvents
begin

text \<open>
  The append side of the event store (\<^verbatim>\<open>crates/review-store/src/store.rs\<close>) for the events the Findings
  Ledger writer publishes: preparing the referenced artifacts, admitting each event against the
  log, and adding the rows. The log of a run is the list of its rows.

  \<open>Publisher\<close> holds what the store does not define: reading and filing content, hashing, JSON
  encodings, the database (the writer mark, the insertion of a row, the commit), and the payload
  contracts of event types. A batch with an event of another type takes the arms of the store that
  are not modelled, its parameter \<open>append_other\<close>. A row has one of the event types of this release:
  replay refuses a log with any other type before a writer opens it, so the scan for a closing report
  never meets a report of another version, which the store refuses there once more.
\<close>

subsection \<open>New events\<close>

record NewEvent =
  ne_event_type :: EventType
  ne_occurred_at :: string
  ne_node_id :: "string option"
  ne_attempt_id :: "string option"
  ne_causation_id :: "string option"
  ne_correlation_id :: "string option"
  ne_artifact_refs :: "string list"
  ne_payload :: Value

definition new_event :: "EventType \<Rightarrow> Value \<Rightarrow> NewEvent" where
  "new_event event_type payload = \<lparr>ne_event_type = event_type, ne_occurred_at = ''1970-01-01T00:00:00Z'',
     ne_node_id = None, ne_attempt_id = None, ne_causation_id = None, ne_correlation_id = None,
     ne_artifact_refs = [], ne_payload = payload\<rparr>"

definition with_node :: "string \<Rightarrow> NewEvent \<Rightarrow> NewEvent" where
  "with_node node event = event\<lparr>ne_node_id := Some node\<rparr>"

definition correlating :: "string \<Rightarrow> NewEvent \<Rightarrow> NewEvent" where
  "correlating correlation event = event\<lparr>ne_correlation_id := Some correlation\<rparr>"

definition caused_by :: "string \<Rightarrow> NewEvent \<Rightarrow> NewEvent" where
  "caused_by causation event = event\<lparr>ne_causation_id := Some causation\<rparr>"

definition referencing :: "string list \<Rightarrow> NewEvent \<Rightarrow> NewEvent" where
  "referencing refs event = event\<lparr>ne_artifact_refs := refs\<rparr>"

lemmas event_builders = new_event_def with_node_def correlating_def caused_by_def referencing_def

datatype CasFailure = CasMissing | CasOther string

text \<open>Why the database refuses a row: a key that is already taken, or anything else.\<close>

datatype InsertFailure = RowTaken | InsertOther string

record Publisher =
  pb_host :: Host
  pb_sha :: "string \<Rightarrow> string"
  admit_json :: "Value \<Rightarrow> string + unit"
  validate_event_payload :: "EventType \<Rightarrow> Value \<Rightarrow> string + unit"
  publish_json :: "string \<Rightarrow> CasFailure + Value"
  publish_bytes :: "string \<Rightarrow> CasFailure + unit"
  cas_flush :: "string + unit"
  cas_filed :: "string \<Rightarrow> bool"
  file_envelope :: "ArtifactEnvelope \<Rightarrow> string + unit"
  mark_writer :: "StoreError + unit"
  insert_row :: "RunEvent \<Rightarrow> InsertFailure + unit"
  commit_rows :: "RunEvent list \<Rightarrow> string + unit"
  subject_of_json :: "Value \<Rightarrow> string + SubjectV1"
  report_closes :: "Value \<Rightarrow> string + bool"
  append_other :: "string \<Rightarrow> NewEvent list \<Rightarrow> RunEvent list \<Rightarrow> (StoreError, RunEvent list) res"
  of_recorded :: "RecordedArtifactPayloadV1 \<Rightarrow> Value"
  of_evidence :: "EvidenceV1 \<Rightarrow> Value"
  of_satisfaction :: "EvidenceSatisfactionV1 \<Rightarrow> Value"
  of_reuse :: "EvidenceReuseAdmissionV1 \<Rightarrow> Value"
  of_waiver :: "DemandWaiverV1 \<Rightarrow> Value"
  of_attestation :: "ChangeAttestationV1 \<Rightarrow> Value"
  of_verification :: "FixVerificationV1 \<Rightarrow> Value"
  of_resolution :: "FindingResolutionV1 \<Rightarrow> Value"
  of_challenge :: "ResolutionChallengeV1 \<Rightarrow> Value"
  of_policy_time :: "PolicyTimeV1 \<Rightarrow> Value"
  of_grouping :: "FindingGroupingV1 \<Rightarrow> Value"
  of_grouping_event :: "FindingGroupingEventPayloadV1 \<Rightarrow> Value"

subsection \<open>Filing an artifact\<close>

definition put_artifact :: "Publisher \<Rightarrow> string \<Rightarrow> Producer \<Rightarrow> string list \<Rightarrow> string option \<Rightarrow> Value
    \<Rightarrow> (string, string \<times> ArtifactEnvelope) res" where
  "put_artifact pb artifact_type producer input_artifacts subject_snapshot payload =
     and_then (map_err id (admit_json pb payload)) (\<lambda>_.
     and_then (map_err id (content_id (pb_host pb) payload)) (\<lambda>content.
     let unnamed = \<lparr>env_artifact_type = artifact_type, env_artifact_id = [], env_content_id = content,
           env_producer = producer, env_input_artifacts = input_artifacts,
           env_subject_snapshot_id = subject_snapshot, env_payload = payload\<rparr>
     in and_then (map_err id (artifact_id (pb_host pb) unnamed)) (\<lambda>name.
        let envelope = unnamed\<lparr>env_artifact_id := name\<rparr>
        in and_then (validate_envelope (pb_host pb) envelope) (\<lambda>_.
           and_then (map_err id (file_envelope pb envelope)) (\<lambda>_. Ok (name, envelope))))))"

subsection \<open>Preparing a batch\<close>

definition recorded_types :: "(EventType \<times> string) list" where
  "recorded_types =
     [(DemandRecordedV1, ''review.kernel/Demand@1''), (DemandWaivedV1, ''review.kernel/DemandWaiver@1''),
      (EvidenceAddedV1, ''review.kernel/Evidence@1''),
      (EvidenceReuseAdmittedV1, ''review.kernel/EvidenceReuseAdmission@1''),
      (EvidenceSatisfiedV1, ''review.kernel/EvidenceSatisfaction@1''),
      (ChangeAttestedV1, ''review.kernel/ChangeAttestation@1''),
      (FixVerifiedV1, ''review.kernel/FixVerification@1''),
      (FindingResolutionRecordedV1, ''review.kernel/FindingResolution@1''),
      (FindingResolutionChallengedV1, ''review.kernel/ResolutionChallenge@1''),
      (PolicyTimeAdvancedV1, ''review.kernel/PolicyTime@1'')]"

definition grouping_events :: "EventType list" where
  "grouping_events = [FindingsGroupedV1, FindingsUngroupedV1]"

definition writer_events :: "EventType list" where
  "writer_events = map fst recorded_types @ grouping_events
     @ [FindingReportedV1, FindingResolvedV1, GenerationAdvancedV1]"

definition insert_artifact_type ::
  "(string, string) bmap \<Rightarrow> string \<Rightarrow> string \<Rightarrow> (StoreError, (string, string) bmap) res" where
  "insert_artifact_type artifacts artifact artifact_type =
     (if is_some_and (bm_get artifacts artifact) (\<lambda>previous. previous \<noteq> artifact_type)
      then Err (Conflict (''artifact '' @ artifact @ '' is assigned conflicting types''))
      else Ok (bm_insert artifact artifact_type artifacts))"

fun typed_json_artifacts ::
  "Publisher \<Rightarrow> NewEvent list \<Rightarrow> (string, string) bmap \<Rightarrow> (StoreError, (string, string) bmap) res" where
  "typed_json_artifacts pb [] artifacts = Ok artifacts"
| "typed_json_artifacts pb (event # events) artifacts =
     and_then
       (case map_of recorded_types (ne_event_type event) of
          Some artifact_type \<Rightarrow>
            and_then (map_err JsonError (as_recorded (pb_host pb) (ne_payload event))) (\<lambda>payload.
            insert_artifact_type artifacts (rec_artifact_id payload) artifact_type)
        | None \<Rightarrow>
            if ne_event_type event \<in> set grouping_events
            then and_then (map_err JsonError (as_grouping_event (pb_host pb) (ne_payload event))) (\<lambda>payload.
              insert_artifact_type artifacts (ge_grouping_artifact_id payload) ''review.kernel/FindingGrouping@1'')
            else Ok artifacts)
       (typed_json_artifacts pb events)"

type_synonym prepared = "bset \<times> (string, Value) bmap"

definition prepare_error :: "string \<Rightarrow> CasFailure \<Rightarrow> StoreError" where
  "prepare_error digest failure =
     (case failure of
        CasMissing \<Rightarrow> DanglingArtifact digest
      | CasOther e \<Rightarrow> ArtifactError (''referenced artifact '' @ digest @ '' failed verification: '' @ e))"

fun prepare_refs ::
  "Publisher \<Rightarrow> (string, string) bmap \<Rightarrow> string list \<Rightarrow> prepared \<Rightarrow> (StoreError, prepared) res" where
  "prepare_refs pb typed_artifacts [] prep = Ok prep"
| "prepare_refs pb typed_artifacts (digest # refs) prep =
     (let (verified, json) = prep
      in if bm_contains verified digest then prepare_refs pb typed_artifacts refs prep
         else (case bm_get typed_artifacts digest of
             Some _ \<Rightarrow>
               and_then (map_err (prepare_error digest) (publish_json pb digest)) (\<lambda>v.
               prepare_refs pb typed_artifacts refs (bs_insert digest verified, bm_insert digest v json))
           | None \<Rightarrow>
               and_then (map_err (prepare_error digest) (publish_bytes pb digest)) (\<lambda>_.
               prepare_refs pb typed_artifacts refs (bs_insert digest verified, json))))"

definition invalid_payload :: "string \<Rightarrow> StoreError" where
  "invalid_payload e = Conflict (''invalid event payload: '' @ e)"

definition prepare_event_artifacts :: "Publisher \<Rightarrow> NewEvent list \<Rightarrow> (StoreError, prepared) res" where
  "prepare_event_artifacts pb events =
     and_then (each (\<lambda>e. and_then (map_err invalid_payload (admit_json pb (ne_payload e))) (\<lambda>_.
         map_err invalid_payload (validate_event_payload pb (ne_event_type e) (ne_payload e)))) events) (\<lambda>_.
     and_then (typed_json_artifacts pb events bm_empty) (\<lambda>typed_artifacts.
     and_then (prepare_refs pb typed_artifacts (concat (map ne_artifact_refs events)) (bm_empty, bm_empty)) (\<lambda>prep.
     and_then (if bm_is_empty (fst prep) then Ok () else map_err Durability (cas_flush pb)) (\<lambda>_. Ok prep))))"

subsection \<open>Reading the log\<close>

definition derive_event_id :: "(string \<Rightarrow> string) \<Rightarrow> string \<Rightarrow> nat \<Rightarrow> string" where
  "derive_event_id sha run sequence =
     take 26 (hex_encode (sha (''review.kernel/event-id/v1'' @ [CHR 0x00] @ run @ [CHR 0x00] @ show_nat sequence)))"

definition next_sequence :: "RunEvent list \<Rightarrow> nat" where
  "next_sequence rows = foldl (\<lambda>n e. max n (re_sequence e + 1)) 0 rows"

definition latest_round :: "Publisher \<Rightarrow> RunEvent list \<Rightarrow> (StoreError, (string \<times> RoundStartedPayloadV1) option) res" where
  "latest_round pb rows =
     (case find (\<lambda>e. re_event_type e = RoundStartedV1) (rev rows) of
        None \<Rightarrow> Ok None
      | Some e \<Rightarrow>
          and_then (map_err JsonError (as_round_started (pb_host pb) (re_payload e))) (\<lambda>payload.
          Ok (Some (re_event_id e, payload))))"

fun any_closes :: "Publisher \<Rightarrow> RunEvent list \<Rightarrow> (StoreError, bool) res" where
  "any_closes pb [] = Ok False"
| "any_closes pb (e # rows) =
     and_then (map_err JsonError (report_closes pb (re_payload e))) (\<lambda>closes.
     if closes then Ok True else any_closes pb rows)"

definition round_has_terminal_report :: "Publisher \<Rightarrow> RunEvent list \<Rightarrow> string \<Rightarrow> (StoreError, bool) res" where
  "round_has_terminal_report pb rows round_event =
     any_closes pb (filter (\<lambda>e. re_causation_id e = Some round_event \<and> re_event_type e = RunReportV6) rows)"

fun load_active_groupings :: "Publisher \<Rightarrow> RunEvent list \<Rightarrow> (string, string) bmap
    \<Rightarrow> (StoreError, (string, string) bmap) res" where
  "load_active_groupings pb [] groupings = Ok groupings"
| "load_active_groupings pb (e # rows) groupings =
     (if re_event_type e \<in> set grouping_events
      then and_then (map_err JsonError (as_grouping_event (pb_host pb) (re_payload e))) (\<lambda>payload.
        load_active_groupings pb rows
          (if re_event_type e = FindingsGroupedV1 then bm_insert (ge_from payload) (ge_into payload) groupings
           else bm_remove (ge_from payload) groupings))
      else load_active_groupings pb rows groupings)"

definition grouping_root :: "(string, string) bmap \<Rightarrow> string \<Rightarrow> string option" where
  "grouping_root groupings key = root_walk (Suc (length (bm_keys groupings))) groupings key"

definition reported :: "RunEvent list \<Rightarrow> string \<Rightarrow> bool" where
  "reported rows key = list_ex (\<lambda>e. re_event_type e = FindingReportedV1 \<and> re_correlation_id e = Some key) rows"

definition demanded :: "RunEvent list \<Rightarrow> string \<Rightarrow> bool" where
  "demanded rows key = list_ex (\<lambda>e. re_event_type e = DemandRecordedV1 \<and> re_correlation_id e = Some key) rows"

subsection \<open>Artifacts behind an event\<close>

definition validated_envelope_payload ::
  "Publisher \<Rightarrow> Value \<Rightarrow> string \<Rightarrow> (Value \<Rightarrow> string + 'a) \<Rightarrow> (StoreError, ArtifactEnvelope \<times> 'a) res" where
  "validated_envelope_payload pb v expected decode =
     and_then (map_err (\<lambda>e. Conflict (expected @ '' artifact is not an envelope: '' @ e)) (as_envelope (pb_host pb) v)) (\<lambda>envelope.
     and_then (wrap_err Conflict (validate_envelope (pb_host pb) envelope)) (\<lambda>_.
     if env_artifact_type envelope \<noteq> expected
     then Err (Conflict (expected @ '' envelope carries type '' @ env_artifact_type envelope))
     else and_then (map_err JsonError (decode (env_payload envelope))) (\<lambda>payload. Ok (envelope, payload))))"

definition validate_recorded_event_artifact :: "Publisher \<Rightarrow> prepared \<Rightarrow> NewEvent \<Rightarrow> string
    \<Rightarrow> (Value \<Rightarrow> string + 'a) \<Rightarrow> (StoreError, ArtifactEnvelope \<times> 'a) res" where
  "validate_recorded_event_artifact pb prep event expected decode =
     and_then (map_err JsonError (as_recorded (pb_host pb) (ne_payload event))) (\<lambda>payload.
     and_then (wrap_err Conflict (validate_recorded payload)) (\<lambda>_.
     if ne_artifact_refs event \<noteq> [rec_artifact_id payload]
     then Err (Conflict (event_name (ne_event_type event) @ '' recorded artifact disagrees with its sole reference''))
     else
     and_then (ok_or (Conflict (event_name (ne_event_type event) @ '' artifact was not prepared''))
       (bm_get (snd prep) (rec_artifact_id payload))) (\<lambda>v.
     validated_envelope_payload pb v expected decode)))"

definition validate_grouping_event_artifact :: "Publisher \<Rightarrow> prepared \<Rightarrow> FindingGroupingEventPayloadV1
    \<Rightarrow> FindingGroupingAction \<Rightarrow> nat \<Rightarrow> (StoreError, unit) res" where
  "validate_grouping_event_artifact pb prep payload action r =
     and_then (ok_or (Conflict ''grouping artifact was not prepared'')
       (bm_get (snd prep) (ge_grouping_artifact_id payload))) (\<lambda>v.
     and_then (map_err JsonError (as_envelope (pb_host pb) v)) (\<lambda>envelope.
     and_then (wrap_err Conflict (validate_envelope (pb_host pb) envelope)) (\<lambda>_.
     if env_artifact_type envelope \<noteq> ''review.kernel/FindingGrouping@1''
     then Err (Conflict ''grouping event references the wrong artifact type'')
     else
     and_then (map_err JsonError (as_grouping (pb_host pb) (env_payload envelope))) (\<lambda>grouping.
     and_then (wrap_err Conflict (validate_grouping grouping)) (\<lambda>_.
     if gr_from grouping \<noteq> ge_from payload \<or> gr_into grouping \<noteq> ge_into payload
        \<or> gr_action grouping \<noteq> action \<or> gr_round grouping \<noteq> r
     then Err (Conflict ''grouping event contradicts its immutable artifact'')
     else Ok ())))))"

subsection \<open>Admitting events\<close>

text \<open>
  The state of one admission: what the batch has added so far, beside the active Round and whether
  it is closed, which the events of the writer do not change.
\<close>

record Admission =
  ad_rows :: "RunEvent list"
  ad_active :: "(string \<times> RoundStartedPayloadV1) option"
  ad_terminal :: bool
  ad_findings :: bset
  ad_demands :: bset
  ad_groupings :: "(string, string) bmap"

definition operator_only :: "EventType \<Rightarrow> StoreError" where
  "operator_only t = Conflict (event_name t @ '' is an operator transition allowed only after a closed Round'')"

definition active_round :: "EventType \<Rightarrow> Admission \<Rightarrow> (StoreError, string \<times> RoundStartedPayloadV1) res" where
  "active_round t ad = ok_or (Conflict (event_name t @ '' requires an existing Campaign Round'')) (ad_active ad)"

definition malformed_attempt :: "string \<Rightarrow> bool" where
  "malformed_attempt aid =
     (length aid \<noteq> 26 \<or> \<not> list_all (\<lambda>b. is_ascii_lowercase b \<or> is_ascii_digit b) aid)"

definition admit_runtime :: "Publisher \<Rightarrow> prepared \<Rightarrow> NewEvent \<Rightarrow> Admission \<Rightarrow> (StoreError, Admission) res" where
  "admit_runtime pb prep event ad =
     (let t = ne_event_type event
      in and_then (ok_or (Conflict (event_name t @ '' requires an active Round'')) (ad_active ad)) (\<lambda>(active_id, active).
     and_then (map_err Conflict (get_json (pb_host pb) (rp_subject_id active))) (\<lambda>v.
     and_then (map_err JsonError (subject_of_json pb v)) (\<lambda>_.
     if ad_terminal ad
     then Err (Conflict (event_name t @ '' cannot publish after the active Round concluded''))
     else if ne_causation_id event \<noteq> Some active_id
     then Err (Conflict (event_name t @ '' is not bound to the active Round epoch''))
     else if is_some_and (ne_attempt_id event) malformed_attempt
     then Err (Conflict (event_name t @ '' carries a non-schema attempt ID''))
     else if t = FindingReportedV1
     then and_then (ok_or (Conflict ''FindingReported@1 has no finding key'')
         (case value_get (ne_payload event) ''key'' of None \<Rightarrow> None | Some k \<Rightarrow> as_str k)) (\<lambda>key.
       if ne_correlation_id event \<noteq> Some key
       then Err (Conflict ''FindingReported@1 correlation disagrees with its key'')
       else (case (case value_get (ne_payload event) ''report_id'' of None \<Rightarrow> None | Some i \<Rightarrow> as_str i) of
           None \<Rightarrow> Err (Conflict ''FindingReported@1 has no authoritative report artifact'')
         | Some report_id \<Rightarrow>
             if ne_artifact_refs event = [report_id] then Ok (ad\<lparr>ad_findings := bs_insert key (ad_findings ad)\<rparr>)
             else Err (Conflict ''FindingReported@1 report ID disagrees with its artifact reference'')))
     else if t = DemandRecordedV1
     then and_then (validate_recorded_event_artifact pb prep event ''review.kernel/Demand@1'' (as_demand (pb_host pb))) (\<lambda>(_, demand).
       if ne_correlation_id event \<noteq> Some (dm_demand_id demand) \<or> dm_round demand \<noteq> rp_round active
          \<or> dm_subject_id demand \<noteq> rp_subject_id active
       then Err (Conflict ''DemandRecorded@1 is not bound to its Demand, Round, and Subject'')
       else Ok (ad\<lparr>ad_demands := bs_insert (dm_demand_id demand) (ad_demands ad)\<rparr>))
     else Ok ad))))"

definition admit_resolved :: "NewEvent \<Rightarrow> Admission \<Rightarrow> (StoreError, Admission) res" where
  "admit_resolved event ad =
     and_then (ok_or (Conflict ''FindingResolved@1 has no finding key'')
       (case value_get (ne_payload event) ''key'' of None \<Rightarrow> None | Some k \<Rightarrow> as_str k)) (\<lambda>key.
     if ne_correlation_id event \<noteq> Some key
     then Err (Conflict ''FindingResolved@1 correlation disagrees with its key'')
     else if \<not> reported (ad_rows ad) key \<and> \<not> bm_contains (ad_findings ad) key
     then Err (Conflict (''FindingResolved@1 names unknown finding key '' @ [CHR 0x27] @ key @ [CHR 0x27]))
     else (case (ne_causation_id event, ad_active ad) of
         (Some causation, Some (active_id, _)) \<Rightarrow>
           if causation \<noteq> active_id then Err (Conflict ''FindingResolved@1 is bound to a stale Round epoch'') else Ok ad
       | _ \<Rightarrow> Ok ad))"

definition admit_grouping :: "Publisher \<Rightarrow> prepared \<Rightarrow> NewEvent \<Rightarrow> Admission \<Rightarrow> (StoreError, Admission) res" where
  "admit_grouping pb prep event ad =
     (let t = ne_event_type event
      in and_then (active_round t ad) (\<lambda>(_, active).
     if \<not> ad_terminal ad \<or> ne_causation_id event \<noteq> None then Err (operator_only t)
     else
     and_then (map_err JsonError (as_grouping_event (pb_host pb) (ne_payload event))) (\<lambda>payload.
     and_then (wrap_err Conflict (validate_grouping_event payload)) (\<lambda>_.
     if ne_correlation_id event \<noteq> Some (ge_from payload) \<or> ne_artifact_refs event \<noteq> [ge_grouping_artifact_id payload]
     then Err (Conflict (event_name t @ '' metadata disagrees with its grouping payload''))
     else
     let action = (if t = FindingsGroupedV1 then Group else Ungroup)
     in and_then (validate_grouping_event_artifact pb prep payload action (rp_round active)) (\<lambda>_.
        and_then (each (\<lambda>key. require (reported (ad_rows ad) key \<or> bm_contains (ad_findings ad) key)
            (Conflict (event_name t @ '' names unknown Finding `'' @ key @ ''`''))) [ge_from payload, ge_into payload]) (\<lambda>_.
        case action of
          Group \<Rightarrow>
            if ge_from payload = ge_into payload \<or> bm_contains (ad_groupings ad) (ge_from payload)
               \<or> grouping_root (ad_groupings ad) (ge_into payload) \<noteq> Some (ge_into payload)
            then Err (Conflict ''FindingsGrouped@1 would create an ambiguous or cyclic grouping'')
            else Ok (ad\<lparr>ad_groupings := bm_insert (ge_from payload) (ge_into payload) (ad_groupings ad)\<rparr>)
        | Ungroup \<Rightarrow>
            if bm_get (ad_groupings ad) (ge_from payload) \<noteq> Some (ge_into payload)
            then Err (Conflict ''FindingsUngrouped@1 has no matching active grouping'')
            else Ok (ad\<lparr>ad_groupings := bm_remove (ge_from payload) (ad_groupings ad)\<rparr>)))))))"

text \<open>The Demand and Subject an operator event on a Demand names.\<close>

definition evidence_binding :: "Publisher \<Rightarrow> prepared \<Rightarrow> NewEvent \<Rightarrow> (StoreError, string \<times> string) res" where
  "evidence_binding pb prep event =
     (let t = ne_event_type event; h = pb_host pb
      in if t = EvidenceAddedV1 then
           and_then (validate_recorded_event_artifact pb prep event ''review.kernel/Evidence@1'' (as_evidence h))
             (\<lambda>(_, x). Ok (ev_demand_id x, ev_subject_id x))
         else if t = EvidenceSatisfiedV1 then
           and_then (validate_recorded_event_artifact pb prep event ''review.kernel/EvidenceSatisfaction@1'' (as_satisfaction h))
             (\<lambda>(_, x). Ok (sa_demand_id x, sa_subject_id x))
         else if t = EvidenceReuseAdmittedV1 then
           and_then (validate_recorded_event_artifact pb prep event ''review.kernel/EvidenceReuseAdmission@1'' (as_reuse h))
             (\<lambda>(_, x). Ok (re_demand_id x, re_subject_id x))
         else
           and_then (validate_recorded_event_artifact pb prep event ''review.kernel/DemandWaiver@1'' (as_waiver h))
             (\<lambda>(_, x). Ok (wa_demand_id x, wa_subject_id x)))"

definition admit_evidence :: "Publisher \<Rightarrow> prepared \<Rightarrow> NewEvent \<Rightarrow> Admission \<Rightarrow> (StoreError, Admission) res" where
  "admit_evidence pb prep event ad =
     (let t = ne_event_type event
      in and_then (active_round t ad) (\<lambda>(_, active).
     if \<not> ad_terminal ad \<or> ne_causation_id event \<noteq> None then Err (operator_only t)
     else
     and_then (evidence_binding pb prep event) (\<lambda>(demand_id, subject_id).
     if ne_correlation_id event \<noteq> Some demand_id \<or> subject_id \<noteq> rp_subject_id active
     then Err (Conflict (event_name t @ '' is not bound to its Demand and active Subject''))
     else if \<not> demanded (ad_rows ad) demand_id \<and> \<not> bm_contains (ad_demands ad) demand_id
     then Err (Conflict (event_name t @ '' names unknown Demand `'' @ demand_id @ ''`''))
     else Ok ad)))"

text \<open>The Finding and Subject an authority event names; a policy time names neither.\<close>

definition authority_binding :: "Publisher \<Rightarrow> prepared \<Rightarrow> NewEvent \<Rightarrow> (StoreError, string \<times> string option) res" where
  "authority_binding pb prep event =
     (let t = ne_event_type event; h = pb_host pb
      in if t = ChangeAttestedV1 then
           and_then (validate_recorded_event_artifact pb prep event ''review.kernel/ChangeAttestation@1'' (as_attestation h))
             (\<lambda>(_, x). Ok (ca_finding_id x, Some (ca_subject_id x)))
         else if t = FixVerifiedV1 then
           and_then (validate_recorded_event_artifact pb prep event ''review.kernel/FixVerification@1'' (as_verification h))
             (\<lambda>(_, x). Ok (fv_finding_id x, Some (fv_subject_id x)))
         else if t = FindingResolutionRecordedV1 then
           and_then (validate_recorded_event_artifact pb prep event ''review.kernel/FindingResolution@1'' (as_resolution h))
             (\<lambda>(_, x). Ok (rs_finding_id x, Some (rs_subject_id x)))
         else if t = FindingResolutionChallengedV1 then
           and_then (validate_recorded_event_artifact pb prep event ''review.kernel/ResolutionChallenge@1'' (as_challenge h))
             (\<lambda>(_, x). Ok (ch_finding_id x, Some (ch_subject_id x)))
         else
           and_then (validate_recorded_event_artifact pb prep event ''review.kernel/PolicyTime@1'' (as_policy_time h))
             (\<lambda>_. Ok (''policy-time'', None)))"

definition starts_with_str :: "string \<Rightarrow> string \<Rightarrow> bool" where
  "starts_with_str s pre = (take (length pre) s = pre)"

definition automatic_challenge ::
  "Publisher \<Rightarrow> prepared \<Rightarrow> string \<Rightarrow> NewEvent \<Rightarrow> string \<Rightarrow> (StoreError, bool) res" where
  "automatic_challenge pb prep run event active_id =
     (if ne_event_type event = FindingResolutionChallengedV1 \<and> ne_causation_id event = Some active_id
      then and_then (validate_recorded_event_artifact pb prep event ''review.kernel/ResolutionChallenge@1''
          (as_challenge (pb_host pb))) (\<lambda>(envelope, challenge).
        Ok (ch_actor challenge = ''review.kernel/resolution-policy@1'' \<and> ch_evidence_ids challenge \<noteq> [] \<and>
          (case env_producer envelope of
             KernelOperation producer_run node operation \<Rightarrow>
               producer_run = run \<and> node = None \<and> starts_with_str operation ''automatic-resolution-challenge:''
           | _ \<Rightarrow> False)))
      else Ok False)"

definition admit_authority ::
  "Publisher \<Rightarrow> prepared \<Rightarrow> string \<Rightarrow> NewEvent \<Rightarrow> Admission \<Rightarrow> (StoreError, Admission) res" where
  "admit_authority pb prep run event ad =
     (let t = ne_event_type event
      in and_then (active_round t ad) (\<lambda>(active_id, active).
     and_then (automatic_challenge pb prep run event active_id) (\<lambda>automatic.
     if \<not> automatic \<and> (\<not> ad_terminal ad \<or> ne_causation_id event \<noteq> None) then Err (operator_only t)
     else
     and_then (authority_binding pb prep event) (\<lambda>(correlation, subject_id).
     if ne_correlation_id event \<noteq> Some correlation \<or> is_some_and subject_id (\<lambda>s. s \<noteq> rp_subject_id active)
     then Err (Conflict (event_name t @ '' is not bound to its Finding and active Subject''))
     else if t \<noteq> PolicyTimeAdvancedV1 \<and> \<not> reported (ad_rows ad) correlation \<and> \<not> bm_contains (ad_findings ad) correlation
     then Err (Conflict (event_name t @ '' names unknown Finding `'' @ correlation @ ''`''))
     else Ok ad))))"

definition admit_event :: "Publisher \<Rightarrow> prepared \<Rightarrow> string \<Rightarrow> NewEvent \<Rightarrow> Admission \<Rightarrow> (StoreError, Admission) res" where
  "admit_event pb prep run event ad =
     (let t = ne_event_type event
      in if t \<in> {FindingReportedV1, DemandRecordedV1, GenerationAdvancedV1} then admit_runtime pb prep event ad
         else if t = FindingResolvedV1 then admit_resolved event ad
         else if t \<in> set grouping_events then admit_grouping pb prep event ad
         else if t \<in> {EvidenceAddedV1, EvidenceReuseAdmittedV1, EvidenceSatisfiedV1, DemandWaivedV1}
         then admit_evidence pb prep event ad
         else admit_authority pb prep run event ad)"

definition i64_max :: nat where "i64_max = 9223372036854775807"

fun admit_all :: "Publisher \<Rightarrow> prepared \<Rightarrow> string \<Rightarrow> nat \<Rightarrow> NewEvent list \<Rightarrow> Admission \<Rightarrow> (StoreError, Admission) res" where
  "admit_all pb prep run sequence [] ad = Ok ad"
| "admit_all pb prep run sequence (event # events) ad =
     (if i64_max < sequence then Err (Conflict ''event sequence overflow'')
      else and_then (admit_event pb prep run event ad) (admit_all pb prep run (sequence + 1) events))"

definition validate_campaign_transition ::
  "Publisher \<Rightarrow> prepared \<Rightarrow> string \<Rightarrow> NewEvent list \<Rightarrow> nat \<Rightarrow> RunEvent list \<Rightarrow> (StoreError, unit) res" where
  "validate_campaign_transition pb prep run events first rows =
     and_then (latest_round pb rows) (\<lambda>active.
     and_then (case active of None \<Rightarrow> Ok False | Some (event_id, _) \<Rightarrow> round_has_terminal_report pb rows event_id) (\<lambda>terminal.
     and_then (load_active_groupings pb rows bm_empty) (\<lambda>groupings.
     and_then (admit_all pb prep run first events \<lparr>ad_rows = rows, ad_active = active, ad_terminal = terminal,
       ad_findings = bm_empty, ad_demands = bm_empty, ad_groupings = groupings\<rparr>) (\<lambda>_. Ok ()))))"

subsection \<open>Appending\<close>

definition row_of :: "(string \<Rightarrow> string) \<Rightarrow> string \<Rightarrow> nat \<Rightarrow> NewEvent \<Rightarrow> RunEvent" where
  "row_of sha run sequence event = \<lparr>re_event_id = derive_event_id sha run sequence, re_run_id = run,
     re_sequence = sequence, re_event_type = ne_event_type event, re_occurred_at = ne_occurred_at event,
     re_node_id = ne_node_id event, re_attempt_id = ne_attempt_id event, re_causation_id = ne_causation_id event,
     re_correlation_id = ne_correlation_id event, re_artifact_refs = ne_artifact_refs event,
     re_payload = ne_payload event\<rparr>"

fun insert_error :: "string \<Rightarrow> nat \<Rightarrow> InsertFailure \<Rightarrow> StoreError" where
  "insert_error run sequence RowTaken = Conflict (''sequence '' @ show_nat sequence @ '' already taken for run '' @ run)"
| "insert_error run sequence (InsertOther e) = SqliteError e"

fun rows_from :: "Publisher \<Rightarrow> string \<Rightarrow> nat \<Rightarrow> NewEvent list \<Rightarrow> (StoreError, RunEvent list) res" where
  "rows_from pb run sequence [] = Ok []"
| "rows_from pb run sequence (event # events) =
     (if i64_max < sequence then Err (Conflict ''event sequence overflow'')
      else let row = row_of (pb_sha pb) run sequence event in
        and_then (map_err (insert_error run sequence) (insert_row pb row)) (\<lambda>_.
        and_then (rows_from pb run (sequence + 1) events) (\<lambda>rows. Ok (row # rows))))"

definition insert_events ::
  "Publisher \<Rightarrow> string \<Rightarrow> NewEvent list \<Rightarrow> nat \<Rightarrow> (StoreError, RunEvent list) res" where
  "insert_events pb run events first =
     and_then (each (\<lambda>event. case find (\<lambda>d. \<not> cas_filed pb d) (ne_artifact_refs event) of
         None \<Rightarrow> Ok () | Some digest \<Rightarrow> Err (DanglingArtifact digest)) events) (\<lambda>_.
     if events = [] then Ok []
     else and_then (map_err id (mark_writer pb)) (\<lambda>_. rows_from pb run first events))"

definition protected_events :: "EventType list" where
  "protected_events = [TaskReviewResultSelectedV1, RunReportV6]"

definition task_events :: "EventType list" where
  "task_events = [TaskTransitionV5, TaskExecutionStartedV1, TaskGateRetriedV1, TaskProviderEventV1]"

definition append_batch_committed ::
  "Publisher \<Rightarrow> string \<Rightarrow> NewEvent list \<Rightarrow> RunEvent list \<Rightarrow> (StoreError, RunEvent list) res" where
  "append_batch_committed pb run events rows =
     (if list_ex (\<lambda>e. ne_event_type e \<in> set protected_events) events
      then Err (Conflict ''Task Review selection requires the trusted Task publication entry point'')
      else if list_ex (\<lambda>e. ne_event_type e \<in> set task_events) events
      then Err (Conflict ''Task events require the trusted Task entry point'')
      else if \<not> list_all (\<lambda>e. ne_event_type e \<in> set writer_events) events then append_other pb run events rows
      else
      and_then (prepare_event_artifacts pb events) (\<lambda>prep.
      if list_ex (\<lambda>e. re_event_type e = TaskTransitionV5) rows
      then Err (Conflict ''Task log cannot accept Campaign or generic append authority'')
      else
      and_then (validate_campaign_transition pb prep run events (next_sequence rows) rows) (\<lambda>_.
      and_then (insert_events pb run events (next_sequence rows)) (\<lambda>appended.
      and_then (map_err SqliteError (commit_rows pb appended)) (\<lambda>_. Ok appended)))))"

text \<open>A batch is added whole or not at all; the result is the log with it.\<close>

definition append_batch ::
  "Publisher \<Rightarrow> string \<Rightarrow> NewEvent list \<Rightarrow> RunEvent list \<Rightarrow> RunEvent list \<times> (StoreError, RunEvent list) res" where
  "append_batch pb run events rows =
     (if events = [] then (rows, Ok [])
      else (case append_batch_committed pb run events rows of
          Ok appended \<Rightarrow> (rows @ appended, Ok appended)
        | Err e \<Rightarrow> (rows, Err e)
        | Panic \<Rightarrow> (rows, Panic)))"

definition append_one ::
  "Publisher \<Rightarrow> string \<Rightarrow> NewEvent \<Rightarrow> RunEvent list \<Rightarrow> RunEvent list \<times> (StoreError, RunEvent) res" where
  "append_one pb run event rows =
     (case append_batch pb run [event] rows of
        (rows1, r) \<Rightarrow> (rows1, and_then r (\<lambda>appended.
          ok_or (Conflict ''single-event append produced no event'') (case appended of [] \<Rightarrow> None | e # _ \<Rightarrow> Some e))))"

subsection \<open>Replaying\<close>

fun replay_rows :: "Publisher \<Rightarrow> string \<Rightarrow> nat \<Rightarrow> RunEvent list \<Rightarrow> (StoreError, unit) res" where
  "replay_rows pb run expected [] = Ok ()"
| "replay_rows pb run expected (e # rows) =
     (if re_sequence e \<noteq> expected
      then Err (Conflict (''event sequence gap in run '' @ run @ '': expected '' @ show_nat expected
        @ '', found '' @ show_nat (re_sequence e)))
      else if re_event_id e \<noteq> derive_event_id (pb_sha pb) run (re_sequence e)
      then Err (Conflict (''event '' @ re_event_id e @ '' has invalid derived id; expected ''
        @ derive_event_id (pb_sha pb) run (re_sequence e)))
      else and_then (map_err (\<lambda>e. Conflict (''invalid replayed event payload: '' @ e))
          (validate_event_payload pb (re_event_type e) (re_payload e))) (\<lambda>_.
        replay_rows pb run (expected + 1) rows))"

definition rebuild :: "Publisher \<Rightarrow> string \<Rightarrow> RunEvent list \<Rightarrow> (StoreError, LedgerProjection) res" where
  "rebuild pb run rows =
     and_then (replay_rows pb run 0 rows) (\<lambda>_. from_events (pb_host pb) run rows)"

subsection \<open>What an append adds\<close>

definition dense_rows :: "string \<Rightarrow> RunEvent list \<Rightarrow> bool" where
  "dense_rows run rows \<longleftrightarrow> (\<forall>i < length rows. re_run_id (rows ! i) = run \<and> re_sequence (rows ! i) = i)"

lemma next_sequence_snoc: "next_sequence (rows @ [e]) = max (next_sequence rows) (re_sequence e + 1)"
  by (simp add: next_sequence_def)

lemma next_sequence_dense: "dense_rows run rows \<Longrightarrow> next_sequence rows = length rows"
proof (induction rows rule: rev_induct)
  case (snoc e rows)
  have "dense_rows run rows" using snoc.prems by (auto simp: dense_rows_def nth_append split: if_splits)
  moreover have "re_sequence e = length rows"
    using snoc.prems unfolding dense_rows_def by (metis length_append_singleton lessI nth_append_length)
  ultimately show ?case using snoc.IH by (simp add: next_sequence_snoc)
qed (simp add: next_sequence_def)

lemma rows_from_Ok:
  "rows_from pb run n events = Ok rows \<Longrightarrow>
   rows = map (\<lambda>(i, e). row_of (pb_sha pb) run i e) (zip [n..<n + length events] events)"
proof (induction events arbitrary: n rows)
  case (Cons e events)
  then obtain rest where rest: "rows_from pb run (n + 1) events = Ok rest" "rows = row_of (pb_sha pb) run n e # rest"
    by (auto simp: and_then_eq_Ok Let_def split: if_splits)
  have "[n..<n + length (e # events)] = n # [n + 1..<n + 1 + length events]"
    using upt_conv_Cons [of n "n + length (e # events)"] by (simp del: upt_Suc)
  then show ?case using Cons.IH [OF rest(1)] rest(2) by simp
qed simp

text \<open>An accepted batch of writer events lands at the end of the log, densely numbered.\<close>

lemma append_committed_Ok:
  assumes "append_batch_committed pb run events rows = Ok appended"
    "\<forall>e \<in> set events. ne_event_type e \<in> set writer_events"
  shows "appended = map (\<lambda>(i, e). row_of (pb_sha pb) run i e)
    (zip [next_sequence rows..<next_sequence rows + length events] events)"
  using assms rows_from_Ok
  by (auto simp: append_batch_committed_def insert_events_def and_then_eq_Ok list_all_iff split: if_splits)

lemma append_one_Ok:
  assumes "append_one pb run event rows = (rows', Ok row)" "ne_event_type event \<in> set writer_events" "dense_rows run rows"
  shows "row = row_of (pb_sha pb) run (length rows) event \<and> rows' = rows @ [row]"
proof -
  obtain appended where ok: "append_batch_committed pb run [event] rows = Ok appended"
    using assms(1) by (cases "append_batch_committed pb run [event] rows")
      (auto simp: append_one_def append_batch_def)
  have "appended = [row_of (pb_sha pb) run (length rows) event]"
    using append_committed_Ok [OF ok] assms(2) next_sequence_dense [OF assms(3)] by simp
  then show ?thesis using assms(1) ok by (auto simp: append_one_def append_batch_def)
qed

lemma append_one_fails:
  assumes "append_one pb run event rows = (rows', r)" "\<not> is_ok r" "ne_event_type event \<in> set writer_events"
  shows "rows' = rows"
proof -
  have "rows' = rows" if "append_batch_committed pb run [event] rows = Ok appended" for appended
    using append_committed_Ok [OF that] assms that by (auto simp: append_one_def append_batch_def)
  then show ?thesis
    using assms by (cases "append_batch_committed pb run [event] rows") (auto simp: append_one_def append_batch_def)
qed

end
