(* ===== verification/Ingest.thy ===== *)
theory Ingest
  imports EventLog
begin

text \<open>
  The Findings Ledger writer (\<^verbatim>\<open>crates/review-store/src/ingest.rs\<close>): the verbs an operator runs on a
  closed Round. Each checks the ledger it holds, files an artifact, appends the event that records
  it, and folds the appended event into its ledger. A verb returns the writer with its result: an
  error after the append leaves the event in the log.
\<close>

subsection \<open>The writer\<close>

record Ingest =
  ig_run_id :: string
  ig_rows :: "RunEvent list"
  ig_event_count :: nat
  ig_ledger :: Ledger
  ig_round_event_id :: "string option"

type_synonym 'a verb = "Ingest \<Rightarrow> Ingest \<times> (StoreError, 'a) res"

text \<open>\<open>?\<close> on a call that may change the writer, and a check that does not.\<close>

definition proceed :: "Ingest \<times> (StoreError, 'a) res \<Rightarrow> ('a \<Rightarrow> 'b verb) \<Rightarrow> Ingest \<times> (StoreError, 'b) res" where
  "proceed outcome next =
     (case outcome of
        (ig, Ok x) \<Rightarrow> next x ig
      | (ig, Err e) \<Rightarrow> (ig, Err e)
      | (ig, Panic) \<Rightarrow> (ig, Panic))"

definition guard :: "(StoreError, 'a) res \<Rightarrow> ('a \<Rightarrow> Ingest \<times> (StoreError, 'b) res) \<Rightarrow> Ingest \<Rightarrow> Ingest \<times> (StoreError, 'b) res" where
  "guard r next ig = (case r of Ok x \<Rightarrow> next x | Err e \<Rightarrow> (ig, Err e) | Panic \<Rightarrow> (ig, Panic))"

definition ingest_new :: "Publisher \<Rightarrow> string \<Rightarrow> RunEvent list \<Rightarrow> (StoreError, Ingest) res" where
  "ingest_new pb run rows =
     and_then (rebuild pb run rows) (\<lambda>projection.
     Ok \<lparr>ig_run_id = run, ig_rows = rows, ig_event_count = lp_event_count projection,
         ig_ledger = lp_ledger projection, ig_round_event_id = None\<rparr>)"

definition from_projection :: "Publisher \<Rightarrow> string \<Rightarrow> RunEvent list \<Rightarrow> LedgerProjection \<Rightarrow> (StoreError, Ingest) res" where
  "from_projection pb run rows projection =
     (if lp_run_id projection \<noteq> run
      then Err (Conflict (''Ledger projection cannot ingest run `'' @ run
        @ ''` because it belongs to a different run''))
      else and_then (fast_forward (pb_host pb) rows projection) (\<lambda>q.
        Ok \<lparr>ig_run_id = run, ig_rows = rows, ig_event_count = lp_event_count q,
            ig_ledger = lp_ledger q, ig_round_event_id = None\<rparr>))"

definition under_round :: "string \<Rightarrow> Ingest \<Rightarrow> Ingest" where
  "under_round round_event ig = ig\<lparr>ig_round_event_id := Some round_event\<rparr>"

definition bind_round :: "Ingest \<Rightarrow> NewEvent \<Rightarrow> (StoreError, NewEvent) res" where
  "bind_round ig event =
     and_then (ok_or (Conflict ''Ledger reduction needs a bound Round epoch'') (ig_round_event_id ig)) (\<lambda>round_event.
     Ok (caused_by round_event event))"

definition validate_watermark :: "Ingest \<Rightarrow> RunEvent \<Rightarrow> (StoreError, unit) res" where
  "validate_watermark ig event =
     (if re_run_id event \<noteq> ig_run_id ig \<or> re_sequence event \<noteq> ig_event_count ig
      then Err (Conflict (''Ledger ingest for `'' @ ig_run_id ig @ ''` expected sequence ''
        @ show_nat (ig_event_count ig) @ '', got '' @ show_nat (re_sequence event) @ '' for `'' @ re_run_id event @ ''`''))
      else Ok ())"

text \<open>Appending one event and folding it into the ledger.\<close>

definition append_and_apply :: "Publisher \<Rightarrow> NewEvent \<Rightarrow> unit verb" where
  "append_and_apply pb event ig =
     (let (rows, appended) = append_one pb (ig_run_id ig) event (ig_rows ig)
      in proceed (ig\<lparr>ig_rows := rows\<rparr>, appended) (\<lambda>row ig.
         guard (validate_watermark ig row) (\<lambda>_.
         guard (apply_event (pb_host pb) row (ig_ledger ig)) (\<lambda>l.
         guard (if ig_event_count ig + 1 \<le> u64_max then Ok (ig_event_count ig + 1) else Panic) (\<lambda>count.
         (ig\<lparr>ig_ledger := l, ig_event_count := count\<rparr>, Ok ())) ig) ig) ig))"

definition json_round :: "nat \<Rightarrow> Value" where
  "json_round r = JObject [(''round'', JNumber (PosInt r))]"

definition advance :: "Publisher \<Rightarrow> nat verb" where
  "advance pb ig =
     guard (if ledger_round (ig_ledger ig) + 1 \<le> u32_max then Ok (ledger_round (ig_ledger ig) + 1) else Panic) (\<lambda>r.
     guard (bind_round ig (new_event GenerationAdvancedV1 (json_round r))) (\<lambda>event.
     proceed (append_and_apply pb event ig) (\<lambda>_ ig. (ig, Ok r))) ig) ig"

subsection \<open>Publishing an artifact\<close>

definition no_active_subject :: StoreError where
  "no_active_subject = Conflict ''Campaign has no active Subject''"

definition publish_operator_artifact :: "Publisher \<Rightarrow> string \<Rightarrow> EventType \<Rightarrow> string \<Rightarrow> string list \<Rightarrow> Value \<Rightarrow> string verb" where
  "publish_operator_artifact pb artifact_type event_type correlation input_artifacts payload ig =
     guard (map_err Conflict (content_id (pb_host pb) payload)) (\<lambda>content.
     guard (ok_or (Conflict ''Campaign has no readable Subject Snapshot'')
       (active_head_snapshot_id (ig_ledger ig))) (\<lambda>snapshot.
     guard (wrap_err Conflict (put_artifact pb artifact_type
         (KernelOperation (ig_run_id ig) None (artifact_type @ '':'' @ content))
         input_artifacts (Some snapshot) payload)) (\<lambda>(record_id, envelope).
     proceed (append_and_apply pb
         (referencing [record_id] (correlating correlation
           (new_event event_type (of_recorded pb \<lparr>rec_artifact_id = record_id\<rparr>)))) ig) (\<lambda>_ ig.
     (ig, Ok (env_artifact_id envelope)))) ig) ig) ig"

subsection \<open>Demands and Evidence\<close>

definition last_opt :: "'a list \<Rightarrow> 'a option" where
  "last_opt xs = (if xs = [] then None else Some (last xs))"

definition add_evidence :: "Publisher \<Rightarrow> string \<Rightarrow> string \<Rightarrow> string \<Rightarrow> string verb" where
  "add_evidence pb demand_id content_artifact actor ig =
     guard (map_err Conflict (cas_verify (pb_host pb) content_artifact)) (\<lambda>_.
     guard (ok_or (Conflict (''cannot add Evidence for unknown Demand `'' @ demand_id @ ''`''))
       (bm_get (demands (ig_ledger ig)) demand_id)) (\<lambda>demand.
     guard (ok_or (Conflict ''Demand has no artifact record'') (last_opt (dr_record_ids demand))) (\<lambda>demand_record.
     guard (ok_or no_active_subject (active_subject_id (ig_ledger ig))) (\<lambda>subject.
     let payload = \<lparr>ev_demand_id = demand_id, ev_subject_id = subject, ev_content_artifact_id = content_artifact,
           ev_actor = actor\<rparr>
     in guard (wrap_err Conflict (validate_evidence payload)) (\<lambda>_.
        publish_operator_artifact pb ''review.kernel/Evidence@1'' EvidenceAddedV1 demand_id
          [demand_record, content_artifact] (of_evidence pb payload) ig) ig) ig) ig) ig) ig"

definition satisfy_demand :: "Publisher \<Rightarrow> string \<Rightarrow> string \<Rightarrow> string \<Rightarrow> string \<Rightarrow> string verb" where
  "satisfy_demand pb demand_id evidence_id policy_revision reason ig =
     guard (ok_or (Conflict (''cannot satisfy unknown Demand `'' @ demand_id @ ''`''))
       (bm_get (demands (ig_ledger ig)) demand_id)) (\<lambda>demand.
     guard (ok_or (Conflict (''Evidence `'' @ evidence_id @ ''` is not linked to Demand `'' @ demand_id @ ''`''))
       (find (\<lambda>e. rev_artifact_id e = evidence_id) (dr_evidence demand))) (\<lambda>evidence.
     guard (ok_or no_active_subject (active_subject_id (ig_ledger ig))) (\<lambda>subject.
     if ev_subject_id (rev_evidence evidence) \<noteq> subject
     then (ig, Err (Conflict ''Evidence is stale for the active Subject''))
     else
     let payload = \<lparr>sa_demand_id = demand_id, sa_evidence_id = evidence_id, sa_subject_id = subject,
           sa_policy_revision = policy_revision, sa_reason = reason\<rparr>
     in guard (wrap_err Conflict (validate_satisfaction payload)) (\<lambda>_.
        publish_operator_artifact pb ''review.kernel/EvidenceSatisfaction@1'' EvidenceSatisfiedV1 demand_id
          [rev_record_id evidence] (of_satisfaction pb payload) ig) ig) ig) ig) ig"

definition admit_evidence_reuse :: "Publisher \<Rightarrow> string \<Rightarrow> string \<Rightarrow> string \<Rightarrow> string \<Rightarrow> string \<Rightarrow> string verb" where
  "admit_evidence_reuse pb demand_id satisfaction_id actor policy_revision reason ig =
     guard (ok_or (Conflict (''cannot admit reuse for unknown Demand `'' @ demand_id @ ''`''))
       (bm_get (demands (ig_ledger ig)) demand_id)) (\<lambda>demand.
     guard (ok_or (Conflict (''Satisfaction `'' @ satisfaction_id @ ''` is not linked to Demand `'' @ demand_id @ ''`''))
       (find (\<lambda>s. rsa_artifact_id s = satisfaction_id) (dr_satisfactions demand))) (\<lambda>satisfaction.
     let payload = \<lparr>re_demand_id = demand_id, re_satisfaction_id = satisfaction_id,
           re_subject_id = sa_subject_id (rsa_satisfaction satisfaction), re_actor = actor,
           re_policy_revision = policy_revision, re_reason = reason\<rparr>
     in guard (wrap_err Conflict (validate_reuse payload)) (\<lambda>_.
        publish_operator_artifact pb ''review.kernel/EvidenceReuseAdmission@1'' EvidenceReuseAdmittedV1 demand_id
          [rsa_record_id satisfaction] (of_reuse pb payload) ig) ig) ig) ig"

definition waive_demand :: "Publisher \<Rightarrow> string \<Rightarrow> string \<Rightarrow> string \<Rightarrow> string \<Rightarrow> string verb" where
  "waive_demand pb demand_id actor policy_revision reason ig =
     guard (ok_or (Conflict (''cannot waive unknown Demand `'' @ demand_id @ ''`''))
       (bm_get (demands (ig_ledger ig)) demand_id)) (\<lambda>demand.
     guard (ok_or (Conflict ''Demand has no artifact record'') (last_opt (dr_record_ids demand))) (\<lambda>demand_record.
     guard (ok_or no_active_subject (active_subject_id (ig_ledger ig))) (\<lambda>subject.
     let payload = \<lparr>wa_demand_id = demand_id, wa_subject_id = subject, wa_actor = actor,
           wa_policy_revision = policy_revision, wa_reason = reason\<rparr>
     in guard (wrap_err Conflict (validate_waiver payload)) (\<lambda>_.
        publish_operator_artifact pb ''review.kernel/DemandWaiver@1'' DemandWaivedV1 demand_id
          [demand_record] (of_waiver pb payload) ig) ig) ig) ig) ig"

subsection \<open>Fixes and Resolutions\<close>

definition attest_change :: "Publisher \<Rightarrow> string \<Rightarrow> ChangedRegionV1 list \<Rightarrow> string \<Rightarrow> string \<Rightarrow> string list \<Rightarrow> string verb" where
  "attest_change pb finding_id changed_regions actor reason evidence_ids ig =
     (let l = ig_ledger ig in
     guard (ok_or (Conflict (''cannot attest unknown Finding `'' @ finding_id @ ''`''))
       (finding_view_id (pb_host pb) l finding_id)) (\<lambda>view.
     guard (ok_or no_active_subject (active_subject_id l)) (\<lambda>subject.
     guard (ok_or (Conflict ''Campaign has no active Subject Snapshot'') (active_head_snapshot_id l)) (\<lambda>head.
     let change_set = active_change_set_id l;
         payload = \<lparr>ca_finding_id = finding_id, ca_expected_finding_view_id = view, ca_subject_id = subject,
           ca_change_set_id = change_set, ca_changed_regions = changed_regions, ca_actor = actor,
           ca_reason = reason, ca_evidence_ids = evidence_ids\<rparr>
     in guard (wrap_err Conflict (validate_attestation payload)) (\<lambda>_.
        publish_operator_artifact pb ''review.kernel/ChangeAttestation@1'' ChangeAttestedV1 finding_id
          ((case change_set of None \<Rightarrow> [] | Some c \<Rightarrow> [c]) @ [head]) (of_attestation pb payload) ig) ig) ig) ig) ig)"

definition verify_fix :: "Publisher \<Rightarrow> string \<Rightarrow> string \<Rightarrow> string \<Rightarrow> string \<Rightarrow> bool \<Rightarrow> string \<Rightarrow> string list
    \<Rightarrow> (string \<times> string option) verb" where
  "verify_fix pb finding_id attestation_id verifier policy_revision is_positive reason evidence_ids ig =
     (let h = pb_host pb; l = ig_ledger ig in
     guard (ok_or (Conflict (''unknown Change Attestation `'' @ attestation_id @ ''`''))
       (bm_get (attestations l) attestation_id)) (\<lambda>attestation.
     if ca_finding_id (rat_attestation attestation) \<noteq> finding_id
     then (ig, Err (Conflict ''Fix Verification Finding disagrees with its Attestation''))
     else
     guard (ok_or (Conflict (''cannot verify unknown Finding `'' @ finding_id @ ''`'')) (finding_view_id h l finding_id)) (\<lambda>view.
     guard (ok_or no_active_subject (active_subject_id l)) (\<lambda>subject.
     let verification = \<lparr>fv_finding_id = finding_id, fv_attestation_id = attestation_id,
           fv_expected_finding_view_id = view, fv_subject_id = subject, fv_verifier = verifier,
           fv_policy_revision = policy_revision, fv_positive = is_positive, fv_reason = reason,
           fv_evidence_ids = evidence_ids\<rparr>
     in guard (wrap_err Conflict (validate_verification verification)) (\<lambda>_.
        proceed (publish_operator_artifact pb ''review.kernel/FixVerification@1'' FixVerifiedV1 finding_id
          [rat_record_id attestation] (of_verification pb verification) ig) (\<lambda>verification_id ig.
        if \<not> is_positive then (ig, Ok (verification_id, None))
        else
        guard (expect (bm_get (verifications (ig_ledger ig)) verification_id)) (\<lambda>recorded.
        guard (expect (finding_view_id h (ig_ledger ig) finding_id)) (\<lambda>view1.
        let res = \<lparr>rs_finding_id = finding_id, rs_expected_finding_view_id = view1, rs_subject_id = subject,
              rs_outcome = ResolvedFixed, rs_actor = verifier, rs_policy_revision = policy_revision,
              rs_reason = reason, rs_evidence_ids = evidence_ids, rs_verification_id = Some verification_id,
              rs_max_accepted_severity = None, rs_tracking_reference = None, rs_expires_at_policy_time = None\<rparr>
        in guard (wrap_err Conflict (validate_resolution res)) (\<lambda>_.
           proceed (publish_operator_artifact pb ''review.kernel/FindingResolution@1'' FindingResolutionRecordedV1 finding_id
             [rvf_record_id recorded] (of_resolution pb res) ig) (\<lambda>resolution_id ig.
           (ig, Ok (verification_id, Some resolution_id)))) ig) ig) ig)) ig) ig) ig) ig)"

definition same_resolution :: "FindingResolutionV1 \<Rightarrow> FindingResolutionV1 \<Rightarrow> bool" where
  "same_resolution a b \<longleftrightarrow>
     rs_subject_id a = rs_subject_id b \<and> rs_outcome a = rs_outcome b \<and> rs_actor a = rs_actor b
     \<and> rs_policy_revision a = rs_policy_revision b \<and> rs_reason a = rs_reason b
     \<and> rs_evidence_ids a = rs_evidence_ids b \<and> rs_max_accepted_severity a = rs_max_accepted_severity b
     \<and> rs_tracking_reference a = rs_tracking_reference b
     \<and> rs_expires_at_policy_time a = rs_expires_at_policy_time b"

text \<open>
  An identical Resolution of the active Subject is answered with the recorded one. The requested
  Resolution is complete but for the view it expects, which the source reads after that answer.
\<close>

definition resolve_nonfixed :: "Publisher \<Rightarrow> string \<Rightarrow> FindingResolutionOutcome \<Rightarrow> string \<Rightarrow> string \<Rightarrow> string
    \<Rightarrow> string list \<Rightarrow> Severity option \<Rightarrow> string option \<Rightarrow> nat option \<Rightarrow> string verb" where
  "resolve_nonfixed pb finding_id outcome actor policy_revision reason evidence_ids severity_ceiling tracking expires ig =
     (let h = pb_host pb; l = ig_ledger ig in
     if outcome = ResolvedFixed
     then (ig, Err (Conflict ''fixed requires Change Attestation and Fix Verification''))
     else
     guard (ok_or no_active_subject (active_subject_id l)) (\<lambda>subject.
     let request = (\<lambda>view. \<lparr>rs_finding_id = finding_id, rs_expected_finding_view_id = view, rs_subject_id = subject,
           rs_outcome = outcome, rs_actor = actor, rs_policy_revision = policy_revision, rs_reason = reason,
           rs_evidence_ids = evidence_ids, rs_verification_id = None, rs_max_accepted_severity = severity_ceiling,
           rs_tracking_reference = tracking, rs_expires_at_policy_time = expires\<rparr>);
         publish = guard (ok_or (Conflict (''cannot resolve unknown Finding `'' @ finding_id @ ''`''))
           (finding_view_id h l finding_id)) (\<lambda>view.
           guard (wrap_err Conflict (validate_resolution (request view))) (\<lambda>_.
           publish_operator_artifact pb ''review.kernel/FindingResolution@1'' FindingResolutionRecordedV1 finding_id
             [] (of_resolution pb (request view)) ig) ig) ig;
         unless_expired =
           (if outcome = WontfixTracked \<and> is_some_and expires (\<lambda>expiry. expiry \<le> policy_time l)
            then (ig, Err (Conflict (''tracked-wontfix expiry must be later than current persisted policy time ''
              @ show_nat (policy_time l))))
            else publish)
     in case resolution l finding_id of
          Some existing \<Rightarrow>
            if same_resolution (rrs_resolution existing) (request []) then (ig, Ok (rrs_artifact_id existing))
            else unless_expired
        | None \<Rightarrow> unless_expired) ig)"

definition challenge_resolution :: "Publisher \<Rightarrow> string \<Rightarrow> ResolutionChallengeKind \<Rightarrow> string \<Rightarrow> string \<Rightarrow> string list
    \<Rightarrow> string verb" where
  "challenge_resolution pb finding_id kind actor reason evidence_ids ig =
     (let l = ig_ledger ig in
     guard (ok_or (Conflict (''Finding `'' @ finding_id @ ''` has no active Resolution'')) (resolution l finding_id)) (\<lambda>recorded.
     guard (ok_or no_active_subject (active_subject_id l)) (\<lambda>subject.
     let payload = \<lparr>ch_finding_id = finding_id, ch_resolution_id = rrs_artifact_id recorded, ch_subject_id = subject,
           ch_kind = kind, ch_actor = actor, ch_reason = reason, ch_evidence_ids = evidence_ids\<rparr>
     in guard (wrap_err Conflict (validate_challenge payload)) (\<lambda>_.
        publish_operator_artifact pb ''review.kernel/ResolutionChallenge@1'' FindingResolutionChallengedV1 finding_id
          [rrs_record_id recorded] (of_challenge pb payload) ig) ig) ig) ig)"

text \<open>The loop over the tracked Resolutions that the new policy time expires.\<close>

fun challenge_expired :: "Publisher \<Rightarrow> string \<Rightarrow> string list \<Rightarrow> string list verb" where
  "challenge_expired pb actor [] ig = (ig, Ok [])"
| "challenge_expired pb actor (finding_id # expired) ig =
     proceed (challenge_resolution pb finding_id Expired actor
         ''tracked wontfix expired at persisted policy time'' [] ig) (\<lambda>challenge ig.
     proceed (challenge_expired pb actor expired ig) (\<lambda>challenges ig. (ig, Ok (challenge # challenges))))"

definition ingest_policy_time :: "Publisher \<Rightarrow> nat \<Rightarrow> string \<Rightarrow> string \<Rightarrow> (string \<times> string list) verb" where
  "ingest_policy_time pb tick actor reason ig =
     (if tick \<le> policy_time (ig_ledger ig)
      then (ig, Err (Conflict ''policy time must advance monotonically''))
      else
      let payload = \<lparr>pt_tick = tick, pt_actor = actor, pt_reason = reason\<rparr>
      in guard (wrap_err Conflict (validate_policy_time payload)) (\<lambda>_.
         proceed (publish_operator_artifact pb ''review.kernel/PolicyTime@1'' PolicyTimeAdvancedV1 ''policy-time''
           [] (of_policy_time pb payload) ig) (\<lambda>time_id ig.
         proceed (challenge_expired pb actor
           (map (\<lambda>r. rs_finding_id (rrs_resolution r)) (expiring_resolutions (ig_ledger ig) tick)) ig) (\<lambda>challenges ig.
         (ig, Ok (time_id, challenges))))) ig)"

subsection \<open>Groupings\<close>

definition grouping_transition :: "Publisher \<Rightarrow> string \<Rightarrow> string \<Rightarrow> FindingGroupingAction \<Rightarrow> unit verb" where
  "grouping_transition pb from_key into action ig =
     (let l = ig_ledger ig in
     guard (case action of Group \<Rightarrow> validate_group l from_key into | Ungroup \<Rightarrow> validate_ungroup l from_key into) (\<lambda>_.
     let grouping = \<lparr>gr_from = from_key, gr_into = into, gr_action = action, gr_round = ledger_round l\<rparr>
     in guard (wrap_err Conflict (validate_grouping grouping)) (\<lambda>_.
        guard (map_err Conflict (content_id (pb_host pb) (of_grouping pb grouping))) (\<lambda>content.
        guard (wrap_err Conflict (put_artifact pb ''review.kernel/FindingGrouping@1''
            (KernelOperation (ig_run_id ig) None (''review.kernel/finding-grouping@1:'' @ content))
            [] None (of_grouping pb grouping))) (\<lambda>(record_id, envelope).
        append_and_apply pb
          (referencing [record_id] (correlating from_key
            (new_event (case action of Group \<Rightarrow> FindingsGroupedV1 | Ungroup \<Rightarrow> FindingsUngroupedV1)
              (of_grouping_event pb \<lparr>ge_from = from_key, ge_into = into, ge_grouping_artifact_id = record_id\<rparr>)))) ig) ig) ig) ig) ig)"

definition group :: "Publisher \<Rightarrow> string \<Rightarrow> string \<Rightarrow> unit verb" where
  "group pb from_key into = grouping_transition pb from_key into Group"

definition ungroup :: "Publisher \<Rightarrow> string \<Rightarrow> string \<Rightarrow> unit verb" where
  "ungroup pb from_key into = grouping_transition pb from_key into Ungroup"

end
