(* ===== verification/IngestSteps.thy ===== *)
theory IngestSteps
  imports Ingest LedgerStatus
begin

text \<open>
  The writer and its log stay in step: reopening the run from its log gives the ledger the writer
  holds. The lemmas show it of one append, then of each verb. Two conditions are left to the caller,
  because the writer does not test them and the ledger does: see \<open>operator_step\<close>.
\<close>

subsection \<open>Resolutions name known Findings\<close>

definition resolved_known :: "Ledger \<Rightarrow> bool" where
  "resolved_known l \<longleftrightarrow> dom (bm_get (resolution_authority l)) \<subseteq> dom (bm_get (findings l))"

lemma record_demand_authority:
  "record_demand h t record_id envelope l = Ok l' \<Longrightarrow> resolution_authority l' = resolution_authority l"
  unfolding record_demand_def and_then_eq_Ok by (auto split: option.splits if_splits)

lemma demand_evidence_authority:
  "apply_demand_evidence h t payload refs l = Ok l' \<Longrightarrow> resolution_authority l' = resolution_authority l"
  by (auto simp: apply_demand_evidence_def and_then_eq_Ok record_evidence_def record_satisfaction_def
      record_reuse_def record_waiver_def dest: record_demand_authority split: if_splits)

lemma grouping_authority:
  "apply_grouping h t payload refs l = Ok l' \<Longrightarrow> resolution_authority l' = resolution_authority l"
  by (auto simp: apply_grouping_def and_then_eq_Ok Let_def split: if_splits FindingGroupingAction.splits)

lemma failure_authority [simp]:
  "resolution_authority (record_authority_failure r a i m l) = resolution_authority l"
  by (simp add: record_authority_failure_def Let_def)

lemma campaign_authority:
  "apply_campaign_opened h payload l = Ok l' \<Longrightarrow> resolution_authority l' = resolution_authority l"
proof -
  assume ok: "apply_campaign_opened h payload l = Ok l'"
  then obtain opened where opened: "as_campaign_opened h payload = Inr opened"
    by (auto simp: apply_campaign_opened_def and_then_eq_Ok)
  let ?policy = "and_then (map_err id (get_json h (co_campaign_manifest_id opened)))
    (\<lambda>v. map_err id (manifest_identity_policy h v))"
  show ?thesis using ok opened by (cases ?policy) (auto simp: apply_campaign_opened_def)
qed

lemma round_scope_authority:
  "round_scope h i l = (l1, scope) \<Longrightarrow> resolution_authority l1 = resolution_authority l"
  by (auto simp: round_scope_def split: sum.splits option.splits res.splits)

lemma round_started_authority:
  "apply_round_started h payload l = Ok l' \<Longrightarrow> resolution_authority l' = resolution_authority l"
proof -
  assume ok: "apply_round_started h payload l = Ok l'"
  then obtain started where started: "as_round_started h payload = Inr started"
    by (auto simp: apply_round_started_def and_then_eq_Ok)
  obtain l1 scope where rs: "round_scope h (rp_subject_id started) l = (l1, scope)"
    by (cases "round_scope h (rp_subject_id started) l")
  show ?thesis
    using ok started rs round_scope_authority [OF rs]
    by (cases scope) (auto simp: apply_round_started_def and_then_eq_Ok Let_def)
qed

lemma generation_authority: "apply_generation payload l = Ok l' \<Longrightarrow> resolution_authority l' = resolution_authority l"
  by (auto simp: apply_generation_def and_then_eq_Ok)

lemma resolved_authority: "apply_resolution payload l = Ok l' \<Longrightarrow> resolution_authority l' = resolution_authority l"
  by (auto simp: apply_resolution_def and_then_eq_Ok)

lemma admit_report_authority:
  assumes "admit_report key source r report_id (l0, report0) = Ok l'"
  shows "resolution_authority l' = resolution_authority l0"
proof -
  obtain l scope selected where rs: "report_scope r (pr_location report0) l0 = (l, scope, selected)"
    by (cases "report_scope r (pr_location report0) l0") auto
  then show ?thesis
    using assms noted_frame(6) [OF report_scope_noted [OF rs]]
    by (auto simp: admit_report_def Let_def and_then_eq_Ok split: option.splits if_splits)
qed

lemma report_authority:
  assumes "apply_report h payload refs l = Ok l'"
  shows "resolution_authority l' = resolution_authority l"
proof -
  obtain r i key source l1 report where steps: "read_report h r i l = Ok (l1, report)"
    "admit_report key source r i (bind_report_snapshot r i (l1, report)) = Ok l'"
  proof -
    obtain key source r where heads: "required_string payload ''FindingReported@1'' ''key'' = Ok key"
      "required_string payload ''FindingReported@1'' ''source'' = Ok source"
      "required_round payload ''FindingReported@1'' = Ok r"
      using assms by (auto simp: apply_report_def and_then_eq_Ok)
    obtain i where "refs = [i]"
      using assms heads by (cases refs rule: remdups_adj.cases) (auto simp: apply_report_def)
    then show thesis using assms heads that by (auto simp: apply_report_def and_then_eq_Ok split: if_splits)
  qed
  obtain l2 report2 where bind: "bind_report_snapshot r i (l1, report) = (l2, report2)"
    by (cases "bind_report_snapshot r i (l1, report)") auto
  show ?thesis
    using admit_report_authority [of key source r i l2 report2 l'] steps bind
      noted_frame(6) [OF read_report_noted [OF steps(1)]] noted_frame(6) [OF bind_report_noted [OF bind]] by simp
qed

lemma authority_kept:
  assumes "apply_resolution_authority h t payload refs l = Ok l'" "t \<noteq> FindingResolutionRecordedV1"
  shows "resolution_authority l' = resolution_authority l"
proof -
  obtain record_id envelope subject where read: "read_recorded h t payload refs = Ok (record_id, envelope)"
    "active_subject_id l = Some subject"
    using assms(1) by (auto simp: apply_resolution_authority_def and_then_eq_Ok)
  have members: "resolution_authority l2 = resolution_authority l"
    if "update_members change keys l = Ok l2" for change keys l2
    using update_members_frame [OF that] by auto
  show ?thesis
    using assms(1) read assms(2) unfolding apply_resolution_authority_def
    by (auto split: if_splits simp: record_attestation_def record_verification_def record_challenge_def
        advance_policy_time_def and_then_eq_Ok members)
qed

lemma decision_known:
  assumes "record_resolution h t record_id envelope subject l = Ok l'" "ledger_ok l" "resolved_known l"
  shows "dom (bm_get (resolution_authority l')) \<subseteq> dom (bm_get (findings l))"
  using assms(1)
proof (cases rule: record_resolution_Ok)
  case (1 res status keys l1)
  have "set keys \<subseteq> dom (bm_get (findings l))"
    using member_keys_known [OF ledger_okD(1) [OF assms(2)] 1(3)] .
  moreover have "dom (bm_get (resolution_authority l')) = dom (bm_get (resolution_authority l)) \<union> set keys"
    using 1(5) update_members_frame [OF 1(4)]
    by (auto simp: bm_get_extend map_of_constant map_add_def split: option.splits if_splits)
  ultimately show ?thesis using assms(3) unfolding resolved_known_def by blast
qed

lemma apply_event_resolved:
  assumes "apply_event h e l = Ok l'" "ledger_ok l" "resolved_known l"
  shows "resolved_known l'"
proof -
  have grown: "dom (bm_get (findings l)) \<subseteq> dom (bm_get (findings l'))"
    using growsD(2) apply_event_advances [OF assms(1)] unfolding advances_def maps_grow_def by blast
  have "dom (bm_get (resolution_authority l')) \<subseteq> dom (bm_get (findings l))"
  proof (cases "re_event_type e = FindingResolutionRecordedV1")
    case True
    then obtain record_id envelope subject where
      "record_resolution h (re_event_type e) record_id envelope subject l = Ok l'"
      using assms(1) by (auto simp: apply_event_def apply_typed_def apply_resolution_authority_def and_then_eq_Ok
          demand_events_def authority_events_def)
    then show ?thesis using decision_known assms(2,3) by blast
  next
    case False
    then have "resolution_authority l' = resolution_authority l"
      using assms(1) unfolding apply_event_def apply_typed_def
      by (auto dest: demand_evidence_authority grouping_authority campaign_authority round_started_authority
          generation_authority resolved_authority report_authority authority_kept split: if_splits)
    then show ?thesis using assms(3) by (simp add: resolved_known_def)
  qed
  then show ?thesis using grown unfolding resolved_known_def by blast
qed

subsection \<open>In step with the log\<close>

definition projection_of :: "Ingest \<Rightarrow> LedgerProjection" where
  "projection_of ig = \<lparr>lp_run_id = ig_run_id ig, lp_event_count = ig_event_count ig, lp_ledger = ig_ledger ig\<rparr>"

definition in_step :: "Publisher \<Rightarrow> Ingest \<Rightarrow> bool" where
  "in_step pb ig \<longleftrightarrow> rebuild pb (ig_run_id ig) (ig_rows ig) = Ok (projection_of ig)"

lemma replay_rows_append:
  "replay_rows pb run n (rows @ later_rows) = and_then (replay_rows pb run n rows) (\<lambda>_. replay_rows pb run (n + length rows) later_rows)"
proof (induction rows arbitrary: n)
  case (Cons e rows)
  then show ?case by (cases "validate_event_payload pb (re_event_type e) (re_payload e)") simp_all
qed simp

lemma rebuild_append:
  "is_ok (rebuild pb run (rows @ later_rows)) \<Longrightarrow> is_ok (rebuild pb run rows)"
  by (auto simp: rebuild_def is_ok_iff and_then_eq_Ok replay_rows_append from_events_append)

lemma from_events_known:
  assumes "from_events h run rows = Ok p"
  shows "ledger_ok (lp_ledger p) \<and> resolved_known (lp_ledger p)"
  using assms
proof (induction rows arbitrary: p rule: rev_induct)
  case Nil
  then have "resolution_authority (lp_ledger p) = bm_empty"
    by (auto simp: from_events_def initial_projection_def fresh_ledger_def)
  then show ?case using from_events_ok [OF Nil] by (simp add: resolved_known_def)
next
  case (snoc e rows)
  then obtain q where q: "from_events h run rows = Ok q" "project_event h e q = Ok p"
    by (auto simp: from_events_append and_then_eq_Ok)
  then show ?case using snoc.IH [OF q(1)] apply_event_resolved from_events_ok [OF snoc.prems]
    by (auto simp: project_event_Ok)
qed

lemma in_stepD:
  assumes "in_step pb ig"
  shows "ledger_ok (ig_ledger ig)" "resolved_known (ig_ledger ig)" "ig_event_count ig = length (ig_rows ig)"
    "dense_rows (ig_run_id ig) (ig_rows ig)"
proof -
  have replayed: "from_events (pb_host pb) (ig_run_id ig) (ig_rows ig) = Ok (projection_of ig)"
    using assms by (auto simp: in_step_def rebuild_def and_then_eq_Ok)
  show "ledger_ok (ig_ledger ig)" "resolved_known (ig_ledger ig)"
    using from_events_known [OF replayed] by (simp_all add: projection_of_def)
  show "ig_event_count ig = length (ig_rows ig)" "dense_rows (ig_run_id ig) (ig_rows ig)"
    using project_events_dense [OF replayed [unfolded from_events_def]]
    by (simp_all add: projection_of_def initial_projection_def dense_rows_def)
qed

lemma opened_in_step: "ingest_new pb run rows = Ok ig \<Longrightarrow> in_step pb ig"
proof -
  assume "ingest_new pb run rows = Ok ig"
  then obtain p where p: "rebuild pb run rows = Ok p" "ig = \<lparr>ig_run_id = run, ig_rows = rows,
      ig_event_count = lp_event_count p, ig_ledger = lp_ledger p, ig_round_event_id = None\<rparr>"
    by (auto simp: ingest_new_def and_then_eq_Ok)
  have "lp_run_id p = run"
    using p(1) project_events_dense by (fastforce simp: rebuild_def from_events_def and_then_eq_Ok initial_projection_def)
  then show ?thesis using p by (simp add: in_step_def projection_of_def)
qed

text \<open>An append that the ledger applies keeps writer and log in step; a refused append changes neither.\<close>

definition continues :: "Ingest \<Rightarrow> Ingest \<Rightarrow> bool" where
  "continues ig ig' \<longleftrightarrow> ig_run_id ig' = ig_run_id ig \<and> prefix (ig_rows ig) (ig_rows ig')"

lemma continues_refl [simp]: "continues ig ig"
  by (simp add: continues_def)

lemma continues_trans: "continues a b \<Longrightarrow> continues b c \<Longrightarrow> continues a c"
  by (auto simp: continues_def)

definition whole_or_nothing :: "Publisher \<Rightarrow> Ingest \<Rightarrow> Ingest \<times> (StoreError, 'a) res \<Rightarrow> bool" where
  "whole_or_nothing pb ig outcome \<longleftrightarrow>
     in_step pb (fst outcome) \<and> continues ig (fst outcome) \<and> (\<not> is_ok (snd outcome) \<longrightarrow> fst outcome = ig)"

lemma append_one_checked:
  assumes "append_one pb run event rows = (rows', Ok row)" "ne_event_type event \<in> set writer_events" "dense_rows run rows"
  shows "validate_event_payload pb (ne_event_type event) (ne_payload event) = Inr ()" "length rows \<le> i64_max"
proof -
  obtain appended where ok: "append_batch_committed pb run [event] rows = Ok appended"
    using assms(1) by (cases "append_batch_committed pb run [event] rows") (auto simp: append_one_def append_batch_def)
  then obtain prep added where parts: "prepare_event_artifacts pb [event] = Ok prep"
    "insert_events pb run [event] (next_sequence rows) = Ok added"
    using assms(2) by (auto simp: append_batch_committed_def and_then_eq_Ok split: if_splits)
  show "validate_event_payload pb (ne_event_type event) (ne_payload event) = Inr ()"
    using parts(1) by (auto simp: prepare_event_artifacts_def and_then_eq_Ok)
  show "length rows \<le> i64_max"
    using parts(2) next_sequence_dense [OF assms(3)] by (auto simp: insert_events_def and_then_eq_Ok split: if_splits)
qed

lemma row_of_fields [simp]:
  "re_sequence (row_of sha run n event) = n" "re_run_id (row_of sha run n event) = run"
  "re_event_id (row_of sha run n event) = derive_event_id sha run n"
  "re_event_type (row_of sha run n event) = ne_event_type event"
  "re_payload (row_of sha run n event) = ne_payload event"
  by (simp_all add: row_of_def)

lemma apply_row:
  "apply_event h (row_of sha run n event) l =
   apply_typed h (ne_event_type event) (ne_payload event) (ne_artifact_refs event) l"
  by (simp add: apply_event_def row_of_def)

lemma rebuild_row:
  assumes "in_step pb ig" "validate_event_payload pb (ne_event_type event) (ne_payload event) = Inr ()"
  shows "rebuild pb (ig_run_id ig) (ig_rows ig @ [row_of (pb_sha pb) (ig_run_id ig) (length (ig_rows ig)) event]) =
    project_event (pb_host pb) (row_of (pb_sha pb) (ig_run_id ig) (length (ig_rows ig)) event) (projection_of ig)"
proof -
  have "replay_rows pb (ig_run_id ig) 0 (ig_rows ig) = Ok ()"
    "from_events (pb_host pb) (ig_run_id ig) (ig_rows ig) = Ok (projection_of ig)"
    using assms(1) by (auto simp: in_step_def rebuild_def and_then_eq_Ok)
  then show ?thesis
    using assms(2) by (simp add: rebuild_def replay_rows_append from_events_append)
      (cases "project_event (pb_host pb) (row_of (pb_sha pb) (ig_run_id ig) (length (ig_rows ig)) event) (projection_of ig)"; simp)
qed

lemma append_applied:
  assumes sync: "in_step pb ig" and t: "ne_event_type event \<in> set writer_events"
    and fits: "is_ok (apply_typed (pb_host pb) (ne_event_type event) (ne_payload event) (ne_artifact_refs event) (ig_ledger ig))"
  shows "whole_or_nothing pb ig (append_and_apply pb event ig)"
proof -
  obtain rows appended where one: "append_one pb (ig_run_id ig) event (ig_rows ig) = (rows, appended)"
    by (cases "append_one pb (ig_run_id ig) event (ig_rows ig)")
  note facts = in_stepD [OF sync]
  show ?thesis
  proof (cases appended)
    case (Ok row)
    note one = one [unfolded Ok]
    have row: "row = row_of (pb_sha pb) (ig_run_id ig) (length (ig_rows ig)) event" "rows = ig_rows ig @ [row]"
      using append_one_Ok [OF one t facts(4)] by auto
    note checked = append_one_checked [OF one t facts(4)]
    have bound: "ig_event_count ig + 1 \<le> u64_max" using checked(2) facts(3) by (simp add: i64_max_def u64_max_def)
    obtain l where l: "apply_event (pb_host pb) row (ig_ledger ig) = Ok l"
      using fits unfolding row(1) apply_row is_ok_iff by blast
    let ?ig = "ig\<lparr>ig_rows := rows, ig_ledger := l, ig_event_count := ig_event_count ig + 1\<rparr>"
    have applied: "append_and_apply pb event ig = (?ig, Ok ())"
      using one l bound row facts(3) by (simp add: append_and_apply_def proceed_def guard_def validate_watermark_def)
    have "project_event (pb_host pb) row (projection_of ig) = Ok (projection_of ?ig)"
      using l bound row(1) facts(3) by (simp add: project_event_def projection_of_def)
    then have "in_step pb ?ig"
      using rebuild_row [OF sync checked(1)] row by (simp add: in_step_def)
    moreover have "continues ig ?ig" using row(2) by (simp add: continues_def)
    ultimately show ?thesis using applied by (simp add: whole_or_nothing_def)
  next
    case (Err e)
    then have "rows = ig_rows ig" using append_one_fails [OF one _ t] by simp
    then show ?thesis using one Err sync by (simp add: append_and_apply_def proceed_def whole_or_nothing_def)
  next
    case Panic
    then have "rows = ig_rows ig" using append_one_fails [OF one _ t] by simp
    then show ?thesis using one Panic sync by (simp add: append_and_apply_def proceed_def whole_or_nothing_def)
  qed
qed

text \<open>An append that the ledger refuses stays in the log, and no longer log can be replayed.\<close>

lemma append_unappliable:
  assumes sync: "in_step pb ig" and t: "ne_event_type event \<in> set writer_events"
    and misfit: "apply_typed (pb_host pb) (ne_event_type event) (ne_payload event) (ne_artifact_refs event) (ig_ledger ig) = Err e"
    and run: "append_and_apply pb event ig = (ig', r)" "ig_rows ig' \<noteq> ig_rows ig"
  shows "r = Err e \<and> \<not> is_ok (rebuild pb (ig_run_id ig) (ig_rows ig' @ later_rows))"
proof -
  obtain rows appended where one: "append_one pb (ig_run_id ig) event (ig_rows ig) = (rows, appended)"
    by (cases "append_one pb (ig_run_id ig) event (ig_rows ig)")
  note facts = in_stepD [OF sync]
  have "is_ok appended"
  proof (rule ccontr)
    assume bad: "\<not> is_ok appended"
    then have "rows = ig_rows ig" using append_one_fails [OF one _ t] by simp
    then show False using bad one run by (cases appended) (auto simp: append_and_apply_def proceed_def)
  qed
  then obtain row where Ok: "appended = Ok row" by (auto simp: is_ok_iff)
  note one = one [unfolded Ok]
  have row: "row = row_of (pb_sha pb) (ig_run_id ig) (length (ig_rows ig)) event" "rows = ig_rows ig @ [row]"
    using append_one_Ok [OF one t facts(4)] by auto
  note checked = append_one_checked [OF one t facts(4)]
  have refused: "apply_event (pb_host pb) row (ig_ledger ig) = Err e"
    unfolding row(1) apply_row by (rule misfit)
  have outcome: "r = Err e" "ig_rows ig' = ig_rows ig @ [row]"
    using run one refused row facts(3)
    by (auto simp: append_and_apply_def proceed_def guard_def validate_watermark_def)
  have "\<not> is_ok (rebuild pb (ig_run_id ig) (ig_rows ig'))"
    using rebuild_row [OF sync checked(1)] refused row(1) facts(3) outcome(2)
    by (simp add: project_event_def projection_of_def)
  then show ?thesis using outcome(1) rebuild_append by blast
qed

subsection \<open>Publishing an artifact\<close>

text \<open>
  What the writer relies on of the content store and of the JSON encodings: a filed artifact is
  read back under its ID, for publication as for any reader, and every document decodes to what was encoded.
\<close>

definition reliable :: "Publisher \<Rightarrow> bool" where
  "reliable pb \<longleftrightarrow>
     (\<forall>e. file_envelope pb e = Inr () \<longrightarrow>
       (\<exists>v. get_json (pb_host pb) (env_artifact_id e) = Inr v \<and> as_envelope (pb_host pb) v = Inr e)) \<and>
     (\<forall>d v. publish_json pb d = Inr v \<longrightarrow> get_json (pb_host pb) d = Inr v) \<and>
     (\<forall>x. as_recorded (pb_host pb) (of_recorded pb x) = Inr x) \<and>
     (\<forall>x. as_evidence (pb_host pb) (of_evidence pb x) = Inr x) \<and>
     (\<forall>x. as_satisfaction (pb_host pb) (of_satisfaction pb x) = Inr x) \<and>
     (\<forall>x. as_reuse (pb_host pb) (of_reuse pb x) = Inr x) \<and>
     (\<forall>x. as_waiver (pb_host pb) (of_waiver pb x) = Inr x) \<and>
     (\<forall>x. as_attestation (pb_host pb) (of_attestation pb x) = Inr x) \<and>
     (\<forall>x. as_verification (pb_host pb) (of_verification pb x) = Inr x) \<and>
     (\<forall>x. as_resolution (pb_host pb) (of_resolution pb x) = Inr x) \<and>
     (\<forall>x. as_challenge (pb_host pb) (of_challenge pb x) = Inr x) \<and>
     (\<forall>x. as_policy_time (pb_host pb) (of_policy_time pb x) = Inr x) \<and>
     (\<forall>x. as_grouping (pb_host pb) (of_grouping pb x) = Inr x) \<and>
     (\<forall>x. as_grouping_event (pb_host pb) (of_grouping_event pb x) = Inr x)"

lemma reliable_read:
  assumes "reliable pb" "file_envelope pb e = Inr ()"
  obtains v where "get_json (pb_host pb) (env_artifact_id e) = Inr v" "as_envelope (pb_host pb) v = Inr e"
  using assms unfolding reliable_def by blast

lemma reliable_decode [simp]:
  assumes "reliable pb"
  shows "as_recorded (pb_host pb) (of_recorded pb x1) = Inr x1"
    "as_evidence (pb_host pb) (of_evidence pb x2) = Inr x2"
    "as_satisfaction (pb_host pb) (of_satisfaction pb x3) = Inr x3"
    "as_reuse (pb_host pb) (of_reuse pb x4) = Inr x4"
    "as_waiver (pb_host pb) (of_waiver pb x5) = Inr x5"
    "as_attestation (pb_host pb) (of_attestation pb x6) = Inr x6"
    "as_verification (pb_host pb) (of_verification pb x7) = Inr x7"
    "as_resolution (pb_host pb) (of_resolution pb x8) = Inr x8"
    "as_challenge (pb_host pb) (of_challenge pb x9) = Inr x9"
    "as_policy_time (pb_host pb) (of_policy_time pb x10) = Inr x10"
    "as_grouping (pb_host pb) (of_grouping pb x11) = Inr x11"
    "as_grouping_event (pb_host pb) (of_grouping_event pb x12) = Inr x12"
  using assms unfolding reliable_def by blast+

lemma put_artifact_Ok:
  assumes "put_artifact pb ty producer inputs snapshot payload = Ok (name, envelope)"
  shows "env_artifact_type envelope = ty" "env_artifact_id envelope = name" "env_payload envelope = payload"
    "env_subject_snapshot_id envelope = snapshot" "is_digest name" "validate_envelope (pb_host pb) envelope = Ok ()"
    "file_envelope pb envelope = Inr ()"
  using assms
  by (auto simp: put_artifact_def Let_def and_then_eq_Ok validate_envelope_def validate_envelope_shape_def
      split: if_splits)

lemma filed_readable:
  assumes "reliable pb" "put_artifact pb ty producer inputs snapshot payload = Ok (name, envelope)"
  shows "read_envelope (pb_host pb) t name = Ok envelope"
proof -
  note put = put_artifact_Ok [OF assms(2)]
  obtain v where "get_json (pb_host pb) name = Inr v" "as_envelope (pb_host pb) v = Inr envelope"
    using reliable_read [OF assms(1) put(7)] put(2) by blast
  then show ?thesis using put(6) by (simp add: read_envelope_def)
qed

lemma filed_recorded:
  assumes "reliable pb" "put_artifact pb ty producer inputs snapshot payload = Ok (name, envelope)"
  shows "read_recorded (pb_host pb) t (of_recorded pb \<lparr>rec_artifact_id = name\<rparr>) [name] = Ok (name, envelope)"
  using filed_readable [OF assms] put_artifact_Ok(5) [OF assms(2)] assms(1)
  by (simp add: read_recorded_def validate_recorded_def)

text \<open>The envelope a verb publishes on the ledger \<open>l\<close>, as the ledger reads it back.\<close>

definition filed_as :: "Publisher \<Rightarrow> string \<Rightarrow> EventType \<Rightarrow> Value \<Rightarrow> Ledger \<Rightarrow> string \<Rightarrow> ArtifactEnvelope \<Rightarrow> bool" where
  "filed_as pb ty t payload l name envelope \<longleftrightarrow>
     read_recorded (pb_host pb) t (of_recorded pb \<lparr>rec_artifact_id = name\<rparr>) [name] = Ok (name, envelope) \<and>
     env_artifact_type envelope = ty \<and> env_artifact_id envelope = name \<and> env_payload envelope = payload \<and>
     env_subject_snapshot_id envelope = active_head_snapshot_id l \<and> active_subject_id l \<noteq> None"

abbreviation recorded_event :: "Publisher \<Rightarrow> EventType \<Rightarrow> string \<Rightarrow> string \<Rightarrow> NewEvent" where
  "recorded_event pb t correlation name \<equiv> referencing [name] (correlating correlation
     (new_event t (of_recorded pb \<lparr>rec_artifact_id = name\<rparr>)))"

lemma publish_cases:
  assumes "reliable pb" "publish_operator_artifact pb ty t correlation inputs payload ig = (ig', r)"
  obtains (unpublished) "ig' = ig" "\<not> is_ok r"
  | (filed) name envelope r0 where "filed_as pb ty t payload (ig_ledger ig) name envelope"
    "append_and_apply pb (recorded_event pb t correlation name) ig = (ig', r0)"
    "r = (case r0 of Ok _ \<Rightarrow> Ok name | Err e \<Rightarrow> Err e | Panic \<Rightarrow> Panic)"
proof (cases "content_id (pb_host pb) payload")
  case (Inl e)
  then show ?thesis using assms(2) unpublished by (auto simp: publish_operator_artifact_def guard_def)
next
  case content: (Inr content)
  show ?thesis
  proof (cases "active_head_snapshot_id (ig_ledger ig)")
    case None
    then show ?thesis using assms(2) unpublished content by (auto simp: publish_operator_artifact_def guard_def)
  next
    case snapshot: (Some snapshot)
    let ?put = "put_artifact pb ty (KernelOperation (ig_run_id ig) None (ty @ '':'' @ content)) inputs (Some snapshot) payload"
    show ?thesis
    proof (cases ?put)
      case (Ok filed)
      obtain name envelope where fe: "filed = (name, envelope)" by (cases filed)
      note put = Ok [unfolded fe]
      obtain ig1 r0 where app: "append_and_apply pb (recorded_event pb t correlation name) ig = (ig1, r0)"
        by (cases "append_and_apply pb (recorded_event pb t correlation name) ig")
      have "filed_as pb ty t payload (ig_ledger ig) name envelope"
        using filed_recorded [OF assms(1) put] put_artifact_Ok [OF put] snapshot
        by (auto simp: filed_as_def active_head_snapshot_id_def active_subject_id_def split: option.splits)
      then show ?thesis
        using filed assms(2) content snapshot put app put_artifact_Ok(2) [OF put]
        by (cases r0) (auto simp: publish_operator_artifact_def guard_def proceed_def)
    qed (use assms(2) unpublished content snapshot in \<open>auto simp: publish_operator_artifact_def guard_def\<close>)
  qed
qed

lemma recorded_event_fields [simp]:
  "ne_event_type (recorded_event pb t correlation name) = t"
  "ne_payload (recorded_event pb t correlation name) = of_recorded pb \<lparr>rec_artifact_id = name\<rparr>"
  "ne_artifact_refs (recorded_event pb t correlation name) = [name]"
  by (simp_all add: event_builders)

lemma publish_whole:
  assumes rel: "reliable pb" and sync: "in_step pb ig" and t: "t \<in> set writer_events"
    and fits: "\<And>name envelope. filed_as pb ty t payload (ig_ledger ig) name envelope \<Longrightarrow>
      is_ok (apply_typed (pb_host pb) t (of_recorded pb \<lparr>rec_artifact_id = name\<rparr>) [name] (ig_ledger ig))"
  shows "whole_or_nothing pb ig (publish_operator_artifact pb ty t correlation inputs payload ig)"
proof -
  obtain ig' r where out: "publish_operator_artifact pb ty t correlation inputs payload ig = (ig', r)"
    by (cases "publish_operator_artifact pb ty t correlation inputs payload ig")
  show ?thesis
    using rel out
  proof (cases rule: publish_cases)
    case unpublished
    then show ?thesis using out sync by (simp add: whole_or_nothing_def)
  next
    case (filed name envelope r0)
    have "whole_or_nothing pb ig (append_and_apply pb (recorded_event pb t correlation name) ig)"
      using append_applied [OF sync, of "recorded_event pb t correlation name"] t fits [OF filed(1)] by simp
    then show ?thesis using out filed(2,3) by (cases r0) (auto simp: whole_or_nothing_def)
  qed
qed

subsection \<open>The verbs\<close>

lemma guard_whole:
  "in_step pb ig \<Longrightarrow> (\<And>x. r = Ok x \<Longrightarrow> whole_or_nothing pb ig (next x)) \<Longrightarrow> whole_or_nothing pb ig (guard r next ig)"
  by (cases r) (simp_all add: guard_def whole_or_nothing_def)

lemma error_whole: "in_step pb ig \<Longrightarrow> whole_or_nothing pb ig (ig, r)"
  by (simp add: whole_or_nothing_def)

lemmas handler_defs = apply_typed_def demand_events_def authority_events_def apply_demand_evidence_def
  apply_resolution_authority_def filed_as_def read_payload_def

lemma writer_types [simp]:
  "t \<in> {EvidenceAddedV1, EvidenceSatisfiedV1, EvidenceReuseAdmittedV1, DemandWaivedV1, ChangeAttestedV1, FixVerifiedV1,
     FindingResolutionRecordedV1, FindingResolutionChallengedV1, PolicyTimeAdvancedV1, FindingsGroupedV1,
     FindingsUngroupedV1} \<Longrightarrow> t \<in> set writer_events"
  by (auto simp: writer_events_def recorded_types_def grouping_events_def)

lemma find_member: "find P xs = Some x \<Longrightarrow> x \<in> set xs \<and> P x"
  by (auto simp: find_Some_iff)

lemma add_evidence_whole:
  assumes "reliable pb" "in_step pb ig"
  shows "whole_or_nothing pb ig (add_evidence pb demand_id content actor ig)"
  unfolding add_evidence_def Let_def
  using assms by (intro guard_whole publish_whole; simp add: handler_defs record_evidence_def)

lemma satisfy_demand_whole:
  assumes "reliable pb" "in_step pb ig"
  shows "whole_or_nothing pb ig (satisfy_demand pb demand_id evidence_id policy_revision reason ig)"
  unfolding satisfy_demand_def Let_def
  using assms
  by (intro guard_whole) (auto intro!: guard_whole publish_whole error_whole
      simp: handler_defs record_satisfaction_def list_ex_iff dest!: find_member)

lemma admit_reuse_whole:
  assumes "reliable pb" "in_step pb ig"
  shows "whole_or_nothing pb ig (admit_evidence_reuse pb demand_id satisfaction_id actor policy_revision reason ig)"
  unfolding admit_evidence_reuse_def Let_def
  using assms
  by (intro guard_whole publish_whole) (auto simp: handler_defs record_reuse_def list_ex_iff dest!: find_member)

lemma waive_demand_whole:
  assumes "reliable pb" "in_step pb ig"
  shows "whole_or_nothing pb ig (waive_demand pb demand_id actor policy_revision reason ig)"
  unfolding waive_demand_def Let_def
  using assms by (intro guard_whole publish_whole; simp add: handler_defs record_waiver_def)

text \<open>A Finding with a view has a root, and its group can be updated.\<close>

lemma view_group_updated:
  assumes "ledger_ok l" "finding_id \<in> dom (bm_get (findings l))"
  obtains keys l' where "group_root l finding_id \<noteq> None" "finding_member_keys l finding_id = Ok keys"
    "update_members change keys l = Ok l'"
proof -
  obtain r where r: "group_root l finding_id = Some r"
    using group_root_total groups_okD(1) [OF ledger_okD(2) [OF assms(1)]] assms(2) by blast
  then obtain keys where keys: "finding_member_keys l finding_id = Ok keys" by (simp add: finding_member_keys_def)
  have "update_members change keys l \<noteq> Panic" by (rule members_no_panic [OF ledger_okD(1) [OF assms(1)] keys])
  moreover have "update_members change keys l \<noteq> Err e" for e
    by (induction change keys l rule: update_members.induct) (simp_all add: and_then_eq_Err expect_def split: option.splits)
  ultimately obtain l' where "update_members change keys l = Ok l'" by (cases "update_members change keys l") auto
  then show ?thesis using that r keys by simp
qed

lemma view_known: "finding_view_id h l k = Some v \<Longrightarrow> k \<in> dom (bm_get (findings l))"
  using group_root_dom by (auto simp: finding_view_id_def finding_view_def split: option.splits)

lemma resolution_known:
  "resolved_known l \<Longrightarrow> resolution l k = Some r \<Longrightarrow> k \<in> dom (bm_get (findings l))"
  by (auto simp: resolved_known_def resolution_def split: option.splits)

lemma attestation_fits:
  assumes rel: "reliable pb" and ok: "ledger_ok l"
    and pub: "filed_as pb ''review.kernel/ChangeAttestation@1'' ChangeAttestedV1 (of_attestation pb a) l name envelope"
    and view: "finding_view_id (pb_host pb) l (ca_finding_id a) = Some (ca_expected_finding_view_id a)"
    and subject: "active_subject_id l = Some (ca_subject_id a)" "active_change_set_id l = ca_change_set_id a"
    and valid: "validate_attestation a = Ok ()"
  shows "is_ok (apply_typed (pb_host pb) ChangeAttestedV1 (of_recorded pb \<lparr>rec_artifact_id = name\<rparr>) [name] l)"
proof -
  obtain keys l' where "finding_member_keys l (ca_finding_id a) = Ok keys"
    "update_members (set_status (ledger_round l) PendingVerification Attested (ca_reason a)) keys l = Ok l'"
    using view_group_updated [OF ok view_known [OF view]] by blast
  then show ?thesis
    using rel pub view subject valid
    by (simp add: handler_defs record_attestation_def validate_expected_finding_view_def)
qed

lemma attest_change_whole:
  assumes "reliable pb" "in_step pb ig"
  shows "whole_or_nothing pb ig (attest_change pb finding_id regions actor reason evidence_ids ig)"
  unfolding attest_change_def Let_def
  using assms attestation_fits [OF assms(1) in_stepD(1) [OF assms(2)]]
  by (intro guard_whole publish_whole) auto

lemma challenge_fits:
  assumes rel: "reliable pb" and ok: "ledger_ok l" "resolved_known l"
    and pub: "filed_as pb ''review.kernel/ResolutionChallenge@1'' FindingResolutionChallengedV1 (of_challenge pb c) l name envelope"
    and recorded: "resolution l (ch_finding_id c) = Some r" "rrs_artifact_id r = ch_resolution_id c"
    and subject: "active_subject_id l = Some (ch_subject_id c)" and valid: "validate_challenge c = Ok ()"
  shows "is_ok (apply_typed (pb_host pb) FindingResolutionChallengedV1 (of_recorded pb \<lparr>rec_artifact_id = name\<rparr>) [name] l)"
proof -
  obtain keys l' where "finding_member_keys l (ch_finding_id c) = Ok keys"
    "update_members (set_status (ledger_round l) Contested Challenged
      (challenge_debug (ch_kind c) @ '': '' @ ch_reason c)) keys l = Ok l'"
    using view_group_updated [OF ok(1) resolution_known [OF ok(2) recorded(1)]] by blast
  then show ?thesis
    using rel pub recorded subject valid by (simp add: handler_defs record_challenge_def)
qed

lemma challenge_whole:
  assumes "reliable pb" "in_step pb ig"
  shows "whole_or_nothing pb ig (challenge_resolution pb finding_id kind actor reason evidence_ids ig)"
  unfolding challenge_resolution_def Let_def
  using assms challenge_fits [OF assms(1) in_stepD(1,2) [OF assms(2)]]
  by (intro guard_whole publish_whole) auto

text \<open>The ceiling of a tracked wontfix covers the severity the Finding has now.\<close>

definition ceiling_covers :: "Ledger \<Rightarrow> string \<Rightarrow> Severity option \<Rightarrow> bool" where
  "ceiling_covers l finding_id severity_ceiling =
     (case finding_view l finding_id of
        None \<Rightarrow> True
      | Some f \<Rightarrow> (case (fi_convergence_severity f, severity_ceiling) of
          (Some s, Some c) \<Rightarrow> rank s \<le> rank c | _ \<Rightarrow> True))"

definition resolution_request :: "string \<Rightarrow> string \<Rightarrow> string \<Rightarrow> FindingResolutionOutcome \<Rightarrow> string \<Rightarrow> string \<Rightarrow> string
    \<Rightarrow> string list \<Rightarrow> string option \<Rightarrow> Severity option \<Rightarrow> string option \<Rightarrow> nat option \<Rightarrow> FindingResolutionV1" where
  "resolution_request finding_id view subject outcome actor policy_revision reason evidence_ids verification
     severity_ceiling tracking expires =
     \<lparr>rs_finding_id = finding_id, rs_expected_finding_view_id = view, rs_subject_id = subject,
      rs_outcome = outcome, rs_actor = actor, rs_policy_revision = policy_revision, rs_reason = reason,
      rs_evidence_ids = evidence_ids, rs_verification_id = verification, rs_max_accepted_severity = severity_ceiling,
      rs_tracking_reference = tracking, rs_expires_at_policy_time = expires\<rparr>"

lemma resolution_fits:
  assumes rel: "reliable pb" and ok: "ledger_ok l"
    and pub: "filed_as pb ''review.kernel/FindingResolution@1'' FindingResolutionRecordedV1 (of_resolution pb res) l name envelope"
    and view: "finding_view_id (pb_host pb) l (rs_finding_id res) = Some (rs_expected_finding_view_id res)"
    and subject: "active_subject_id l = Some (rs_subject_id res)" and valid: "validate_resolution res = Ok ()"
    and status: "is_ok (resolution_status FindingResolutionRecordedV1 res l)"
  shows "is_ok (apply_typed (pb_host pb) FindingResolutionRecordedV1 (of_recorded pb \<lparr>rec_artifact_id = name\<rparr>) [name] l)"
proof -
  obtain status where s: "resolution_status FindingResolutionRecordedV1 res l = Ok status"
    using status by (auto simp: is_ok_iff)
  obtain keys l' where "group_root l (rs_finding_id res) \<noteq> None" "finding_member_keys l (rs_finding_id res) = Ok keys"
    "update_members (set_status (ledger_round l) status (Resolved status) (rs_reason res)) keys l = Ok l'"
    using view_group_updated [OF ok view_known [OF view]] by blast
  then show ?thesis
    using rel pub view subject valid s
    by (simp add: handler_defs record_resolution_def validate_expected_finding_view_def)
qed

lemma resolve_nonfixed_whole:
  assumes "reliable pb" "in_step pb ig"
    and covers: "outcome = WontfixTracked \<Longrightarrow> ceiling_covers (ig_ledger ig) finding_id severity_ceiling"
  shows "whole_or_nothing pb ig (resolve_nonfixed pb finding_id outcome actor policy_revision reason evidence_ids
    severity_ceiling tracking expires ig)"
proof -
  have status: "is_ok (resolution_status FindingResolutionRecordedV1 (resolution_request finding_id view subject outcome
      actor policy_revision reason evidence_ids None severity_ceiling tracking expires) (ig_ledger ig))"
    if "outcome \<noteq> ResolvedFixed" "\<not> (outcome = WontfixTracked \<and> is_some_and expires (\<lambda>expiry. expiry \<le> policy_time (ig_ledger ig)))"
      "validate_resolution (resolution_request finding_id view subject outcome actor policy_revision reason evidence_ids
        None severity_ceiling tracking expires) = Ok ()" for view subject
    using that covers tracked_has_ceiling [OF that(3)]
    by (cases outcome) (auto simp: resolution_status_def resolution_request_def ceiling_covers_def split: option.splits)
  show ?thesis
    unfolding resolve_nonfixed_def Let_def
    using assms(1,2) status resolution_fits [OF assms(1) in_stepD(1) [OF assms(2)]]
    by (auto intro!: guard_whole publish_whole error_whole simp: resolution_request_def split: option.splits)
qed

text \<open>A verb that appends several events may stop between them, but always in step.\<close>

definition stays_in_step :: "Publisher \<Rightarrow> Ingest \<Rightarrow> Ingest \<times> (StoreError, 'a) res \<Rightarrow> bool" where
  "stays_in_step pb ig outcome \<longleftrightarrow> in_step pb (fst outcome) \<and> continues ig (fst outcome)"

lemma whole_stays: "whole_or_nothing pb ig outcome \<Longrightarrow> stays_in_step pb ig outcome"
  by (simp add: whole_or_nothing_def stays_in_step_def)

lemma guard_stays:
  "in_step pb ig \<Longrightarrow> (\<And>x. r = Ok x \<Longrightarrow> stays_in_step pb ig (next x)) \<Longrightarrow> stays_in_step pb ig (guard r next ig)"
  by (cases r) (simp_all add: guard_def stays_in_step_def)

lemma error_stays: "in_step pb ig \<Longrightarrow> stays_in_step pb ig (ig, r)"
  by (simp add: stays_in_step_def)

lemma proceed_stays:
  assumes "stays_in_step pb ig outcome"
    "\<And>x ig'. outcome = (ig', Ok x) \<Longrightarrow> in_step pb ig' \<Longrightarrow> stays_in_step pb ig' (next x ig')"
  shows "stays_in_step pb ig (proceed outcome next)"
proof -
  obtain ig' r where out: "outcome = (ig', r)" by (cases outcome)
  show ?thesis
  proof (cases r)
    case (Ok x)
    then have "stays_in_step pb ig' (next x ig')" using assms out by (simp add: stays_in_step_def)
    then show ?thesis
      using assms(1) out Ok continues_trans by (auto simp: proceed_def stays_in_step_def)
  qed (use assms(1) out in \<open>simp_all add: proceed_def stays_in_step_def\<close>)
qed

lemma challenge_expired_stays:
  "reliable pb \<Longrightarrow> in_step pb ig \<Longrightarrow> stays_in_step pb ig (challenge_expired pb actor expired ig)"
proof (induction expired arbitrary: ig)
  case (Cons finding_id expired)
  show ?case
    unfolding challenge_expired.simps
    by (intro proceed_stays error_stays whole_stays challenge_whole Cons.IH Cons.prems)
qed (simp add: error_stays)

lemma policy_time_stays:
  assumes "reliable pb" "in_step pb ig"
  shows "stays_in_step pb ig (ingest_policy_time pb tick actor reason ig)"
proof (cases "tick \<le> policy_time (ig_ledger ig)")
  case True
  then show ?thesis using assms by (simp add: ingest_policy_time_def error_stays)
next
  case False
  have fits: "is_ok (apply_typed (pb_host pb) PolicyTimeAdvancedV1 (of_recorded pb \<lparr>rec_artifact_id = name\<rparr>) [name] (ig_ledger ig))"
    if "filed_as pb ''review.kernel/PolicyTime@1'' PolicyTimeAdvancedV1
        (of_policy_time pb \<lparr>pt_tick = tick, pt_actor = actor, pt_reason = reason\<rparr>) (ig_ledger ig) name envelope"
      "validate_policy_time \<lparr>pt_tick = tick, pt_actor = actor, pt_reason = reason\<rparr> = Ok ()" for name envelope
    using that False assms by (auto simp: handler_defs advance_policy_time_def)
  show ?thesis
    using False assms unfolding ingest_policy_time_def Let_def if_not_P [OF False]
    by (intro guard_stays proceed_stays error_stays whole_stays [OF publish_whole] challenge_expired_stays) (auto intro: fits)
qed

subsection \<open>Verifying a fix\<close>

text \<open>The Attestation a verification names is of the active Subject.\<close>

definition attestation_current :: "Ledger \<Rightarrow> string \<Rightarrow> bool" where
  "attestation_current l attestation_id =
     (case bm_get (attestations l) attestation_id of
        None \<Rightarrow> True
      | Some a \<Rightarrow> active_subject_id l = Some (ca_subject_id (rat_attestation a)))"

lemma verification_applied:
  assumes rel: "reliable pb"
    and pub: "filed_as pb ''review.kernel/FixVerification@1'' FixVerifiedV1 (of_verification pb v) l name envelope"
    and view: "finding_view_id (pb_host pb) l (fv_finding_id v) = Some (fv_expected_finding_view_id v)"
    and subject: "active_subject_id l = Some (fv_subject_id v)" and valid: "validate_verification v = Ok ()"
    and attested: "bm_get (attestations l) (fv_attestation_id v) = Some a"
      "ca_finding_id (rat_attestation a) = fv_finding_id v" "ca_subject_id (rat_attestation a) = fv_subject_id v"
  shows "apply_typed (pb_host pb) FixVerifiedV1 (of_recorded pb \<lparr>rec_artifact_id = name\<rparr>) [name] l =
    Ok (l\<lparr>verifications := bm_insert name \<lparr>rvf_record_id = name, rvf_artifact_id = name, rvf_verification = v\<rparr>
      (verifications l)\<rparr>)"
  using assms by (simp add: handler_defs record_verification_def validate_expected_finding_view_def)

lemma append_applied_ledger:
  assumes "append_and_apply pb event ig = (ig', Ok u)" "ne_event_type event \<in> set writer_events"
    "dense_rows (ig_run_id ig) (ig_rows ig)"
  shows "apply_typed (pb_host pb) (ne_event_type event) (ne_payload event) (ne_artifact_refs event) (ig_ledger ig) =
    Ok (ig_ledger ig')"
proof -
  obtain rows appended where one: "append_one pb (ig_run_id ig) event (ig_rows ig) = (rows, appended)"
    by (cases "append_one pb (ig_run_id ig) event (ig_rows ig)")
  obtain row where ok: "appended = Ok row"
    using assms(1) one by (cases appended) (auto simp: append_and_apply_def proceed_def)
  have row: "row = row_of (pb_sha pb) (ig_run_id ig) (length (ig_rows ig)) event"
    using append_one_Ok [OF one [unfolded ok] assms(2,3)] by simp
  have "apply_event (pb_host pb) row (ig_ledger ig) = Ok (ig_ledger ig')"
    using assms(1) one ok
    by (auto simp: append_and_apply_def proceed_def guard_def split: res.splits if_splits)
  then show ?thesis unfolding row apply_row .
qed

lemma publish_Ok:
  assumes "reliable pb" "in_step pb ig" "t \<in> set writer_events"
    "publish_operator_artifact pb ty t correlation inputs payload ig = (ig', Ok name)"
  obtains envelope where "filed_as pb ty t payload (ig_ledger ig) name envelope"
    "apply_typed (pb_host pb) t (of_recorded pb \<lparr>rec_artifact_id = name\<rparr>) [name] (ig_ledger ig) = Ok (ig_ledger ig')"
  using assms(1,4)
proof (cases rule: publish_cases)
  case (filed name' envelope r0)
  then have "name' = name" "is_ok r0" by (auto split: res.splits)
  then show ?thesis
    using that filed(1,2) append_applied_ledger [of pb "recorded_event pb t correlation name" ig ig'] assms(3)
      in_stepD(4) [OF assms(2)] by (cases r0) auto
qed simp

text \<open>The Resolution that follows a positive verification.\<close>

lemma fixed_resolution_whole:
  assumes rel: "reliable pb" and sync: "in_step pb ig"
    and verified: "bm_get (verifications (ig_ledger ig)) verification_id = Some recorded"
      "fv_positive (rvf_verification recorded)" "fv_finding_id (rvf_verification recorded) = finding_id"
      "fv_subject_id (rvf_verification recorded) = subject" "active_subject_id (ig_ledger ig) = Some subject"
    and view: "finding_view_id (pb_host pb) (ig_ledger ig) finding_id = Some view"
    and res: "res = resolution_request finding_id view subject ResolvedFixed actor policy_revision reason evidence_ids
      (Some verification_id) None None None" "validate_resolution res = Ok ()"
  shows "whole_or_nothing pb ig (publish_operator_artifact pb ''review.kernel/FindingResolution@1''
    FindingResolutionRecordedV1 correlation inputs (of_resolution pb res) ig)"
proof (rule publish_whole [OF rel sync])
  fix name envelope
  assume pub: "filed_as pb ''review.kernel/FindingResolution@1'' FindingResolutionRecordedV1 (of_resolution pb res)
    (ig_ledger ig) name envelope"
  have "is_ok (resolution_status FindingResolutionRecordedV1 res (ig_ledger ig))"
    using verified res by (simp add: resolution_status_def resolution_request_def)
  then show "is_ok (apply_typed (pb_host pb) FindingResolutionRecordedV1 (of_recorded pb \<lparr>rec_artifact_id = name\<rparr>) [name]
    (ig_ledger ig))"
    using resolution_fits [OF rel in_stepD(1) [OF sync] pub] view verified(5) res by (simp add: resolution_request_def)
qed simp

lemma view_id_frame:
  "finding_view_id h (l\<lparr>verifications := m\<rparr>) k = finding_view_id h l k"
proof -
  have r: "group_root (l\<lparr>verifications := m\<rparr>) j = group_root l j" for j
    by (cases "bm_get (findings l) j") (simp_all add: group_root_def)
  have g: "group_members (l\<lparr>verifications := m\<rparr>) j = group_members l j" for j
    by (simp add: group_members_def r cong: if_cong)
  have "finding_view_for_root (l\<lparr>verifications := m\<rparr>) j = finding_view_for_root l j" for j
    unfolding finding_view_for_root_def g by simp
  then have "finding_view (l\<lparr>verifications := m\<rparr>) k = finding_view l k"
    by (simp add: finding_view_def r cong: option.case_cong)
  then show ?thesis by (simp add: finding_view_id_def)
qed

lemma resolve_verified_stays:
  assumes rel: "reliable pb" and sync: "in_step pb ig" and subject: "active_subject_id (ig_ledger ig) = Some subject"
    and verified: "bm_get (verifications (ig_ledger ig)) name = Some recorded"
      "fv_positive (rvf_verification recorded) = is_positive" "fv_finding_id (rvf_verification recorded) = finding_id"
      "fv_subject_id (rvf_verification recorded) = subject"
  shows "stays_in_step pb ig
    (if \<not> is_positive then (ig, Ok (name, None))
     else guard (expect (bm_get (verifications (ig_ledger ig)) name)) (\<lambda>recorded.
       guard (expect (finding_view_id (pb_host pb) (ig_ledger ig) finding_id)) (\<lambda>view.
       let res = resolution_request finding_id view subject ResolvedFixed verifier policy_revision reason evidence_ids
             (Some name) None None None
       in guard (wrap_err Conflict (validate_resolution res)) (\<lambda>_.
          proceed (publish_operator_artifact pb ''review.kernel/FindingResolution@1'' FindingResolutionRecordedV1 finding_id
            [rvf_record_id recorded] (of_resolution pb res) ig) (\<lambda>resolution_id ig.
          (ig, Ok (name, Some resolution_id)))) ig) ig) ig)"
proof (cases is_positive)
  case True
  note publish = whole_stays [OF fixed_resolution_whole [OF rel sync verified(1) _ verified(3,4) subject _ refl]]
  show ?thesis
    using True verified(2) unfolding Let_def
    by (auto intro!: guard_stays [OF sync] proceed_stays publish error_stays simp: expect_def split: option.splits)
qed (use sync in \<open>simp add: error_stays\<close>)

lemma verify_fix_stays:
  assumes rel: "reliable pb" and sync: "in_step pb ig" and current: "attestation_current (ig_ledger ig) attestation_id"
  shows "stays_in_step pb ig (verify_fix pb finding_id attestation_id verifier policy_revision is_positive reason evidence_ids ig)"
proof -
  let ?l = "ig_ledger ig" and ?h = "pb_host pb"
  define make where "make = (\<lambda>view subject. \<lparr>fv_finding_id = finding_id, fv_attestation_id = attestation_id,
    fv_expected_finding_view_id = view, fv_subject_id = subject, fv_verifier = verifier,
    fv_policy_revision = policy_revision, fv_positive = is_positive, fv_reason = reason, fv_evidence_ids = evidence_ids\<rparr>)"
  have make_eq: "\<lparr>fv_finding_id = finding_id, fv_attestation_id = attestation_id, fv_expected_finding_view_id = view,
      fv_subject_id = subject, fv_verifier = verifier, fv_policy_revision = policy_revision, fv_positive = is_positive,
      fv_reason = reason, fv_evidence_ids = evidence_ids\<rparr> = make view subject" for view subject
    by (simp add: make_def)
  have fields: "fv_finding_id (make view subject) = finding_id" "fv_attestation_id (make view subject) = attestation_id"
    "fv_expected_finding_view_id (make view subject) = view" "fv_subject_id (make view subject) = subject"
    "fv_positive (make view subject) = is_positive" for view subject
    by (simp_all add: make_def)
  have applied: "apply_typed ?h FixVerifiedV1 (of_recorded pb \<lparr>rec_artifact_id = name\<rparr>) [name] ?l =
      Ok (?l\<lparr>verifications := bm_insert name \<lparr>rvf_record_id = name, rvf_artifact_id = name,
        rvf_verification = make view subject\<rparr> (verifications ?l)\<rparr>)"
    if "bm_get (attestations ?l) attestation_id = Some a" "ca_finding_id (rat_attestation a) = finding_id"
      "finding_view_id ?h ?l finding_id = Some view" "active_subject_id ?l = Some subject"
      "validate_verification (make view subject) = Ok ()"
      "filed_as pb ''review.kernel/FixVerification@1'' FixVerifiedV1 (of_verification pb (make view subject)) ?l name envelope"
    for a view subject name envelope
    by (rule verification_applied [OF rel that(6), of a])
      (use that(1-5) current in \<open>simp_all add: fields attestation_current_def\<close>)
  show ?thesis
    unfolding verify_fix_def Let_def make_eq
  proof (intro guard_stays [OF sync], goal_cases)
    case (1 a)
    then have a: "bm_get (attestations ?l) attestation_id = Some a" by simp
    show ?case
    proof (cases "ca_finding_id (rat_attestation a) = finding_id")
      case True
      note finding = True
      show ?thesis
        unfolding if_not_P [OF not_not [THEN iffD2, OF True]]
      proof (intro guard_stays [OF sync] proceed_stays whole_stays [OF publish_whole [OF rel sync]], goal_cases)
        case (2 view subject u name envelope)
        then show ?case using applied [OF a finding] by simp
      next
        case (3 view subject u name ig1)
        obtain envelope where env: "filed_as pb ''review.kernel/FixVerification@1'' FixVerifiedV1
            (of_verification pb (make view subject)) ?l name envelope"
          "apply_typed ?h FixVerifiedV1 (of_recorded pb \<lparr>rec_artifact_id = name\<rparr>) [name] ?l = Ok (ig_ledger ig1)"
          by (rule publish_Ok [OF rel sync _ 3(4)]) simp_all
        have subject: "active_subject_id ?l = Some subject" using 3(2) by simp
        have "ig_ledger ig1 = ?l\<lparr>verifications := bm_insert name \<lparr>rvf_record_id = name, rvf_artifact_id = name,
            rvf_verification = make view subject\<rparr> (verifications ?l)\<rparr>"
          using applied [OF a finding _ subject _ env(1)] 3(1,3) env(2) by simp
        then have "active_subject_id (ig_ledger ig1) = Some subject"
          "bm_get (verifications (ig_ledger ig1)) name =
            Some \<lparr>rvf_record_id = name, rvf_artifact_id = name, rvf_verification = make view subject\<rparr>"
          using subject by (simp_all add: active_subject_id_def)
        from resolve_verified_stays [OF rel 3(5) this] show ?case
          unfolding resolution_request_def Let_def by (simp add: fields)
      qed simp
    qed (simp add: error_stays sync)
  qed
qed

subsection \<open>Groupings\<close>

lemma grouping_fits:
  assumes rel: "reliable pb"
    and put: "put_artifact pb ''review.kernel/FindingGrouping@1'' producer inputs None (of_grouping pb g) = Ok (name, envelope)"
    and valid: "validate_grouping g = Ok ()"
      "(case gr_action g of Group \<Rightarrow> validate_group l (gr_from g) (gr_into g)
        | Ungroup \<Rightarrow> validate_ungroup l (gr_from g) (gr_into g)) = Ok ()"
    and t: "t = (case gr_action g of Group \<Rightarrow> FindingsGroupedV1 | Ungroup \<Rightarrow> FindingsUngroupedV1)"
  shows "is_ok (apply_typed (pb_host pb) t (of_grouping_event pb \<lparr>ge_from = gr_from g, ge_into = gr_into g,
    ge_grouping_artifact_id = name\<rparr>) [name] l)"
proof -
  have "validate_grouping_event \<lparr>ge_from = gr_from g, ge_into = gr_into g, ge_grouping_artifact_id = name\<rparr> = Ok ()"
    using valid(1) put_artifact_Ok(5) [OF put] by (auto simp: validate_grouping_def validate_grouping_event_def split: if_splits)
  then show ?thesis
    using filed_readable [OF rel put, of t] put_artifact_Ok [OF put] valid t rel
    by (cases "gr_action g") (simp_all add: apply_typed_def apply_grouping_def read_payload_def Let_def)
qed

lemma grouping_whole:
  assumes "reliable pb" "in_step pb ig"
  shows "whole_or_nothing pb ig (grouping_transition pb from_key into action ig)"
  unfolding grouping_transition_def Let_def
proof (intro guard_whole [OF assms(2)], goal_cases)
  case (1 u1 u2 content filed)
  obtain name envelope where filed: "filed = (name, envelope)" by (cases filed)
  let ?g = "\<lparr>gr_from = from_key, gr_into = into, gr_action = action, gr_round = ledger_round (ig_ledger ig)\<rparr>"
  let ?t = "case action of Group \<Rightarrow> FindingsGroupedV1 | Ungroup \<Rightarrow> FindingsUngroupedV1"
  have "is_ok (apply_typed (pb_host pb) ?t (of_grouping_event pb \<lparr>ge_from = from_key, ge_into = into,
      ge_grouping_artifact_id = name\<rparr>) [name] (ig_ledger ig))"
    using grouping_fits [OF assms(1), of _ _ ?g name envelope "ig_ledger ig" ?t] 1 filed by (cases action) auto
  moreover have "?t \<in> set writer_events" by (cases action) simp_all
  ultimately show ?case
    unfolding filed prod.case by (intro append_applied [OF assms(2)]) (simp_all add: event_builders)
qed

subsection \<open>Runs of an operator\<close>

text \<open>
  One verb of an operator, whatever its outcome. A tracked wontfix needs a ceiling that covers the
  Finding, and a verification an Attestation of the active Subject: nothing else is asked of the caller.
\<close>

inductive operator_step :: "Publisher \<Rightarrow> Ingest \<Rightarrow> Ingest \<Rightarrow> bool" for pb where
  adds_evidence: "operator_step pb ig (fst (add_evidence pb demand_id content actor ig))"
| satisfies: "operator_step pb ig (fst (satisfy_demand pb demand_id evidence_id policy_revision reason ig))"
| reuses: "operator_step pb ig (fst (admit_evidence_reuse pb demand_id satisfaction_id actor policy_revision reason ig))"
| waives: "operator_step pb ig (fst (waive_demand pb demand_id actor policy_revision reason ig))"
| attests: "operator_step pb ig (fst (attest_change pb finding_id regions actor reason evidence_ids ig))"
| verifies: "attestation_current (ig_ledger ig) attestation_id \<Longrightarrow>
    operator_step pb ig (fst (verify_fix pb finding_id attestation_id verifier policy_revision is_positive reason evidence_ids ig))"
| resolves: "(outcome = WontfixTracked \<Longrightarrow> ceiling_covers (ig_ledger ig) finding_id severity_ceiling) \<Longrightarrow>
    operator_step pb ig (fst (resolve_nonfixed pb finding_id outcome actor policy_revision reason evidence_ids
      severity_ceiling tracking expires ig))"
| challenges: "operator_step pb ig (fst (challenge_resolution pb finding_id kind actor reason evidence_ids ig))"
| tells_time: "operator_step pb ig (fst (ingest_policy_time pb tick actor reason ig))"
| groups: "operator_step pb ig (fst (group pb from_key into ig))"
| ungroups: "operator_step pb ig (fst (ungroup pb from_key into ig))"

lemma operator_step_stays:
  assumes "operator_step pb ig ig'" "reliable pb" "in_step pb ig"
  shows "in_step pb ig' \<and> continues ig ig'"
  using assms
proof cases
  case (tells_time tick actor reason)
  then show ?thesis using policy_time_stays [OF assms(2,3)] by (simp add: stays_in_step_def)
next
  case (verifies attestation_id finding_id verifier policy_revision is_positive reason evidence_ids)
  then show ?thesis using verify_fix_stays [OF assms(2,3)] by (simp add: stays_in_step_def)
next
  case (resolves outcome finding_id severity_ceiling actor policy_revision reason evidence_ids tracking expires)
  then show ?thesis using resolve_nonfixed_whole [OF assms(2,3)] by (simp add: whole_or_nothing_def)
qed (use add_evidence_whole satisfy_demand_whole admit_reuse_whole waive_demand_whole attest_change_whole
    challenge_whole grouping_whole assms(2,3) in \<open>simp_all add: whole_or_nothing_def group_def ungroup_def\<close>)

definition desk_ready :: "Publisher \<Rightarrow> Ingest \<Rightarrow> bool" where
  "desk_ready pb ig \<longleftrightarrow> reliable pb \<and> (\<exists>run rows. ingest_new pb run rows = Ok ig)"

interpretation desk: invariant "desk_ready pb" "operator_step pb" "\<lambda>ig. reliable pb \<and> in_step pb ig" for pb
  by unfold_locales (auto simp: desk_ready_def opened_in_step dest: operator_step_stays)

lemma operator_steps_continue:
  "(operator_step pb)\<^sup>*\<^sup>* ig ig' \<Longrightarrow> reliable pb \<Longrightarrow> in_step pb ig \<Longrightarrow> continues ig ig'"
proof (induction rule: rtranclp_induct)
  case (step ig1 ig2)
  then show ?case
    using desk.steps_inv [of pb ig ig1] operator_step_stays [of pb ig1 ig2] continues_trans by blast
qed simp

text \<open>What the ledger refuses of the two verbs whose conditions the writer does not test.\<close>

lemma unread_ceiling_refused:
  assumes rel: "reliable pb"
    and pub: "filed_as pb ''review.kernel/FindingResolution@1'' FindingResolutionRecordedV1 (of_resolution pb res) l name envelope"
    and view: "finding_view_id (pb_host pb) l (rs_finding_id res) = Some (rs_expected_finding_view_id res)"
    and subject: "active_subject_id l = Some (rs_subject_id res)" and valid: "validate_resolution res = Ok ()"
    and tracked: "rs_outcome res = WontfixTracked" "\<not> ceiling_covers l (rs_finding_id res) (rs_max_accepted_severity res)"
  shows "apply_typed (pb_host pb) FindingResolutionRecordedV1 (of_recorded pb \<lparr>rec_artifact_id = name\<rparr>) [name] l =
    Err (malformed ''FindingResolutionRecorded@1'' ''tracked-wontfix severity ceiling is below the current Finding severity'')"
proof -
  have "group_root l (rs_finding_id res) \<noteq> None"
    using view by (auto simp: finding_view_id_def finding_view_def split: option.splits)
  moreover have "resolution_status FindingResolutionRecordedV1 res l =
      Err (malformed ''FindingResolutionRecorded@1'' ''tracked-wontfix severity ceiling is below the current Finding severity'')"
    using tracked tracked_has_ceiling [OF valid]
    by (auto simp: resolution_status_def ceiling_covers_def split: option.splits)
  ultimately show ?thesis
    using rel pub view subject valid
    by (auto simp: handler_defs record_resolution_def validate_expected_finding_view_def)
qed

lemma stale_attestation_refused:
  assumes rel: "reliable pb"
    and pub: "filed_as pb ''review.kernel/FixVerification@1'' FixVerifiedV1 (of_verification pb v) l name envelope"
    and view: "finding_view_id (pb_host pb) l (fv_finding_id v) = Some (fv_expected_finding_view_id v)"
    and subject: "active_subject_id l = Some (fv_subject_id v)" and valid: "validate_verification v = Ok ()"
    and stale: "bm_get (attestations l) (fv_attestation_id v) \<noteq> None" "\<not> attestation_current l (fv_attestation_id v)"
  shows "apply_typed (pb_host pb) FixVerifiedV1 (of_recorded pb \<lparr>rec_artifact_id = name\<rparr>) [name] l =
    Err (malformed ''FixVerified@1'' ''verification does not cover its Attestation and active Subject'')"
  using assms
  by (auto simp: handler_defs record_verification_def validate_expected_finding_view_def attestation_current_def)

lemma publish_refused:
  assumes rel: "reliable pb" and sync: "in_step pb ig" and t: "t \<in> set writer_events"
    and run: "publish_operator_artifact pb ty t correlation inputs payload ig = (ig', r)" "ig_rows ig' \<noteq> ig_rows ig"
    and refused: "\<And>name envelope. filed_as pb ty t payload (ig_ledger ig) name envelope \<Longrightarrow>
      apply_typed (pb_host pb) t (of_recorded pb \<lparr>rec_artifact_id = name\<rparr>) [name] (ig_ledger ig) = Err e"
  shows "r = Err e \<and> \<not> is_ok (rebuild pb (ig_run_id ig) (ig_rows ig' @ later_rows))"
  using rel run(1)
proof (cases rule: publish_cases)
  case (filed name envelope r0)
  have "r0 = Err e \<and> \<not> is_ok (rebuild pb (ig_run_id ig) (ig_rows ig' @ later_rows))"
    by (rule append_unappliable [OF sync _ _ filed(2) run(2)]) (use t refused [OF filed(1)] in simp_all)
  then show ?thesis using filed(3) by simp
qed (use run(2) in simp)

lemma guard_moved:
  assumes "guard r next ig = (ig', out)" "ig_rows ig' \<noteq> ig_rows ig"
  obtains x where "r = Ok x" "next x = (ig', out)"
  using assms by (cases r) (auto simp: guard_def)

subsection \<open>What the store admits\<close>

text \<open>The documents a batch is admitted on are the stored ones.\<close>

definition json_stored :: "Publisher \<Rightarrow> prepared \<Rightarrow> bool" where
  "json_stored pb prep \<longleftrightarrow> (\<forall>d v. bm_get (snd prep) d = Some v \<longrightarrow> publish_json pb d = Inr v)"

lemma json_stored_insert:
  "json_stored pb (verified, json) \<Longrightarrow> publish_json pb digest = Inr v \<Longrightarrow>
   json_stored pb (bs_insert digest verified, bm_insert digest v json)"
  by (simp add: json_stored_def)

lemma json_stored_verified: "json_stored pb (verified, json) \<Longrightarrow> json_stored pb (bs_insert digest verified, json)"
  by (simp add: json_stored_def)

lemma prepare_refs_json:
  "prepare_refs pb kinds refs prep = Ok prep' \<Longrightarrow> json_stored pb prep \<Longrightarrow> json_stored pb prep'"
proof (induction refs arbitrary: prep)
  case (Cons digest refs)
  obtain verified json where prep: "prep = (verified, json)" by (cases prep)
  show ?case
  proof (cases "bm_contains verified digest")
    case True
    then show ?thesis using Cons prep by simp
  next
    case False
    show ?thesis
    proof (cases "bm_get kinds digest")
      case None
      then have "prepare_refs pb kinds refs (bs_insert digest verified, json) = Ok prep'"
        using Cons.prems(1) prep False by (auto simp: and_then_eq_Ok)
      then show ?thesis using Cons.IH Cons.prems(2) prep json_stored_verified by blast
    next
      case (Some t)
      then obtain v where "publish_json pb digest = Inr v"
        "prepare_refs pb kinds refs (bs_insert digest verified, bm_insert digest v json) = Ok prep'"
        using Cons.prems(1) prep False by (auto simp: and_then_eq_Ok)
      then show ?thesis using Cons.IH Cons.prems(2) prep json_stored_insert by blast
    qed
  qed
qed simp

lemma admitted_evidence:
  assumes "append_one pb run event rows = (rows', Ok row)"
    and t: "ne_event_type event \<in> {EvidenceAddedV1, EvidenceReuseAdmittedV1, EvidenceSatisfiedV1, DemandWaivedV1}"
  obtains prep active_id active demand_id where "prepare_event_artifacts pb [event] = Ok prep"
    "latest_round pb rows = Ok (Some (active_id, active))" "evidence_binding pb prep event = Ok (demand_id, rp_subject_id active)"
proof -
  obtain appended where ok: "append_batch_committed pb run [event] rows = Ok appended"
    using assms(1) by (cases "append_batch_committed pb run [event] rows") (auto simp: append_one_def append_batch_def)
  have writer: "ne_event_type event \<in> set writer_events" using t by auto
  obtain prep where prep: "prepare_event_artifacts pb [event] = Ok prep"
    "validate_campaign_transition pb prep run [event] (next_sequence rows) rows = Ok ()"
    using ok writer by (auto simp: append_batch_committed_def and_then_eq_Ok split: if_splits)
  then obtain active terminal groupings ad where round: "latest_round pb rows = Ok active"
    "admit_event pb prep run event \<lparr>ad_rows = rows, ad_active = active, ad_terminal = terminal,
       ad_findings = bm_empty, ad_demands = bm_empty, ad_groupings = groupings\<rparr> = Ok ad"
    by (auto simp: validate_campaign_transition_def and_then_eq_Ok split: if_splits)
  have "admit_evidence pb prep event \<lparr>ad_rows = rows, ad_active = active, ad_terminal = terminal,
       ad_findings = bm_empty, ad_demands = bm_empty, ad_groupings = groupings\<rparr> = Ok ad"
    using round(2) t by (auto simp: admit_event_def grouping_events_def)
  then show ?thesis
    using that prep(1) round(1) by (auto simp: admit_evidence_def active_round_def and_then_eq_Ok Let_def split: if_splits)
qed

lemma prepared_reuse:
  assumes rel: "reliable pb"
    and filed: "filed_as pb ''review.kernel/EvidenceReuseAdmission@1'' EvidenceReuseAdmittedV1 (of_reuse pb x) l name envelope"
    and prep: "prepare_event_artifacts pb [recorded_event pb EvidenceReuseAdmittedV1 correlation name] = Ok prep"
    and bound: "evidence_binding pb prep (recorded_event pb EvidenceReuseAdmittedV1 correlation name) = Ok (demand_id, subject)"
  shows "subject = re_subject_id x"
proof -
  obtain kinds where "prepare_refs pb kinds (concat (map ne_artifact_refs [recorded_event pb EvidenceReuseAdmittedV1 correlation name]))
      (bm_empty, bm_empty) = Ok prep"
    using prep unfolding prepare_event_artifacts_def and_then_eq_Ok by blast
  from prepare_refs_json [OF this] have stored: "json_stored pb prep" by (simp add: json_stored_def)
  obtain v where v: "bm_get (snd prep) name = Some v"
    "and_then (validated_envelope_payload pb v ''review.kernel/EvidenceReuseAdmission@1'' (as_reuse (pb_host pb)))
      (\<lambda>(_, x). Ok (re_demand_id x, re_subject_id x)) = Ok (demand_id, subject)"
    using bound rel by (auto simp: evidence_binding_def validate_recorded_event_artifact_def and_then_eq_Ok Let_def split: if_splits)
  have "get_json (pb_host pb) name = Inr v" using rel stored v(1) unfolding reliable_def json_stored_def by blast
  then have "as_envelope (pb_host pb) v = Inr envelope" "env_payload envelope = of_reuse pb x"
    using filed rel by (auto simp: filed_as_def read_recorded_def read_envelope_def and_then_eq_Ok split: if_splits)
  then show ?thesis using v(2) rel by (auto simp: validated_envelope_payload_def and_then_eq_Ok split: if_splits)
qed

end
