(* ===== verification/IngestSample.thy ===== *)
theory IngestSample
  imports IngestSteps LedgerProperties
begin

text \<open>
  A concrete store for the writer: JSON encodings with their decoders, a content store that accepts
  a few artifacts, and two logs of a Campaign with one closed Round and with two.
\<close>

subsection \<open>Encodings\<close>

definition packed :: "Value list \<Rightarrow> Value" where
  "packed vs = JObject [(''fields'', JArray vs)]"

definition unpack :: "Value \<Rightarrow> nat \<Rightarrow> Value" where
  "unpack v i = (case value_get v ''fields'' of Some (JArray vs) \<Rightarrow> vs ! i | _ \<Rightarrow> JNull)"

lemma unpack_packed [simp]: "unpack (packed vs) i = vs ! i"
  by (simp add: unpack_def packed_def value_get_def)

fun str_of :: "Value \<Rightarrow> string" where
  "str_of (JString s) = s" | "str_of _ = []"

fun nat_of :: "Value \<Rightarrow> nat" where
  "nat_of (JNumber (PosInt n)) = n" | "nat_of _ = 0"

fun list_of :: "(Value \<Rightarrow> 'a) \<Rightarrow> Value \<Rightarrow> 'a list" where
  "list_of f (JArray vs) = map f vs" | "list_of f _ = []"

fun opt_of :: "(Value \<Rightarrow> 'a) \<Rightarrow> Value \<Rightarrow> 'a option" where
  "opt_of f (JArray [v]) = Some (f v)" | "opt_of f _ = None"

definition of_nat_json :: "nat \<Rightarrow> Value" where
  "of_nat_json n = JNumber (PosInt n)"

definition of_opt :: "('a \<Rightarrow> Value) \<Rightarrow> 'a option \<Rightarrow> Value" where
  "of_opt f x = JArray (case x of None \<Rightarrow> [] | Some y \<Rightarrow> [f y])"

definition of_strs :: "string list \<Rightarrow> Value" where
  "of_strs xs = JArray (map JString xs)"

lemma decoders [simp]:
  "nat_of (of_nat_json n) = n" "list_of str_of (of_strs xs) = xs"
  "opt_of str_of (of_opt JString s) = s" "opt_of nat_of (of_opt of_nat_json m) = m"
  by (simp_all add: of_nat_json_def of_strs_def of_opt_def comp_def split: option.splits)

definition severity_code :: "Severity \<Rightarrow> Value" where
  "severity_code s = of_nat_json (rank s)"

definition severity_of :: "Value \<Rightarrow> Severity" where
  "severity_of v = (if nat_of v = 1 then Minor else if nat_of v = 2 then Major else Blocker)"

definition outcome_code :: "FindingResolutionOutcome \<Rightarrow> Value" where
  "outcome_code x = of_nat_json (case x of ResolvedFixed \<Rightarrow> 0 | ResolvedRejected \<Rightarrow> 1 | WontfixTracked \<Rightarrow> 2)"

definition outcome_of :: "Value \<Rightarrow> FindingResolutionOutcome" where
  "outcome_of v = [ResolvedFixed, ResolvedRejected, WontfixTracked] ! nat_of v"

definition kind_code :: "ResolutionChallengeKind \<Rightarrow> Value" where
  "kind_code x = of_nat_json (case x of NewEvidence \<Rightarrow> 0 | HigherSeverity \<Rightarrow> 1 | OutsideScope \<Rightarrow> 2 | Expired \<Rightarrow> 3)"

definition kind_of :: "Value \<Rightarrow> ResolutionChallengeKind" where
  "kind_of v = [NewEvidence, HigherSeverity, OutsideScope, Expired] ! nat_of v"

definition region_code :: "ChangedRegionV1 \<Rightarrow> Value" where
  "region_code r = packed [JString (cr_path r), of_opt of_nat_json (cr_start_line r), of_opt of_nat_json (cr_end_line r)]"

definition region_of :: "Value \<Rightarrow> ChangedRegionV1" where
  "region_of v = \<lparr>cr_path = str_of (unpack v 0), cr_start_line = opt_of nat_of (unpack v 1),
     cr_end_line = opt_of nat_of (unpack v 2)\<rparr>"

lemma enum_decoders [simp]:
  "opt_of severity_of (of_opt severity_code x) = x" "outcome_of (outcome_code y) = y" "kind_of (kind_code k) = k"
  "region_of (region_code r) = r" "list_of region_of (JArray (map region_code rs)) = rs"
proof -
  have "severity_of (severity_code s) = s" for s
    by (cases s) (simp_all add: severity_of_def severity_code_def)
  then show "opt_of severity_of (of_opt severity_code x) = x" by (simp add: of_opt_def split: option.splits)
  show "outcome_of (outcome_code y) = y" by (cases y) (simp_all add: outcome_of_def outcome_code_def)
  show "kind_of (kind_code k) = k" by (cases k) (simp_all add: kind_of_def kind_code_def eval_nat_numeral)
  show region: "region_of (region_code r) = r" for r by (simp add: region_of_def region_code_def)
  show "list_of region_of (JArray (map region_code rs)) = rs" by (simp add: comp_def region map_idI)
qed

subsection \<open>The store\<close>

definition resolution_code :: "FindingResolutionV1 \<Rightarrow> Value" where
  "resolution_code x = packed [JString (rs_finding_id x), JString (rs_expected_finding_view_id x), JString (rs_subject_id x),
     outcome_code (rs_outcome x), JString (rs_actor x), JString (rs_policy_revision x), JString (rs_reason x),
     of_strs (rs_evidence_ids x), of_opt JString (rs_verification_id x), of_opt severity_code (rs_max_accepted_severity x),
     of_opt JString (rs_tracking_reference x), of_opt of_nat_json (rs_expires_at_policy_time x)]"

definition resolution_of :: "Value \<Rightarrow> FindingResolutionV1" where
  "resolution_of v = \<lparr>rs_finding_id = str_of (unpack v 0), rs_expected_finding_view_id = str_of (unpack v 1),
     rs_subject_id = str_of (unpack v 2), rs_outcome = outcome_of (unpack v 3), rs_actor = str_of (unpack v 4),
     rs_policy_revision = str_of (unpack v 5), rs_reason = str_of (unpack v 6),
     rs_evidence_ids = list_of str_of (unpack v 7), rs_verification_id = opt_of str_of (unpack v 8),
     rs_max_accepted_severity = opt_of severity_of (unpack v 9), rs_tracking_reference = opt_of str_of (unpack v 10),
     rs_expires_at_policy_time = opt_of nat_of (unpack v 11)\<rparr>"

definition verification_code :: "FixVerificationV1 \<Rightarrow> Value" where
  "verification_code x = packed [JString (fv_finding_id x), JString (fv_attestation_id x),
     JString (fv_expected_finding_view_id x), JString (fv_subject_id x), JString (fv_verifier x),
     JString (fv_policy_revision x), JBool (fv_positive x), JString (fv_reason x), of_strs (fv_evidence_ids x)]"

definition verification_of :: "Value \<Rightarrow> FixVerificationV1" where
  "verification_of v = \<lparr>fv_finding_id = str_of (unpack v 0), fv_attestation_id = str_of (unpack v 1),
     fv_expected_finding_view_id = str_of (unpack v 2), fv_subject_id = str_of (unpack v 3),
     fv_verifier = str_of (unpack v 4), fv_policy_revision = str_of (unpack v 5),
     fv_positive = (unpack v 6 = JBool True), fv_reason = str_of (unpack v 7),
     fv_evidence_ids = list_of str_of (unpack v 8)\<rparr>"

definition attestation_code :: "ChangeAttestationV1 \<Rightarrow> Value" where
  "attestation_code x = packed [JString (ca_finding_id x), JString (ca_expected_finding_view_id x),
     JString (ca_subject_id x), of_opt JString (ca_change_set_id x), JArray (map region_code (ca_changed_regions x)),
     JString (ca_actor x), JString (ca_reason x), of_strs (ca_evidence_ids x)]"

definition attestation_of :: "Value \<Rightarrow> ChangeAttestationV1" where
  "attestation_of v = \<lparr>ca_finding_id = str_of (unpack v 0), ca_expected_finding_view_id = str_of (unpack v 1),
     ca_subject_id = str_of (unpack v 2), ca_change_set_id = opt_of str_of (unpack v 3),
     ca_changed_regions = list_of region_of (unpack v 4), ca_actor = str_of (unpack v 5),
     ca_reason = str_of (unpack v 6), ca_evidence_ids = list_of str_of (unpack v 7)\<rparr>"

definition challenge_code :: "ResolutionChallengeV1 \<Rightarrow> Value" where
  "challenge_code x = packed [JString (ch_finding_id x), JString (ch_resolution_id x), JString (ch_subject_id x),
     kind_code (ch_kind x), JString (ch_actor x), JString (ch_reason x), of_strs (ch_evidence_ids x)]"

definition challenge_of :: "Value \<Rightarrow> ResolutionChallengeV1" where
  "challenge_of v = \<lparr>ch_finding_id = str_of (unpack v 0), ch_resolution_id = str_of (unpack v 1),
     ch_subject_id = str_of (unpack v 2), ch_kind = kind_of (unpack v 3), ch_actor = str_of (unpack v 4),
     ch_reason = str_of (unpack v 5), ch_evidence_ids = list_of str_of (unpack v 6)\<rparr>"

lemma document_decoders [simp]:
  "resolution_of (resolution_code a) = a" "verification_of (verification_code b) = b"
  "attestation_of (attestation_code c) = c" "challenge_of (challenge_code d) = d"
  by (simp_all add: resolution_of_def resolution_code_def verification_of_def verification_code_def
      attestation_of_def attestation_code_def challenge_of_def challenge_code_def comp_def)

text \<open>The artifacts the content store takes: two Resolutions, an Attestation and a verification.\<close>

definition desk_letter :: "ArtifactEnvelope \<Rightarrow> char" where
  "desk_letter e = (case map_of
     [(''review.kernel/FindingReport@1'', CHR ''1''), (''review.kernel/ChangeAttestation@1'', CHR ''4''),
      (''review.kernel/FixVerification@1'', CHR ''5''),
      (''review.kernel/FindingResolution@1'',
        if rs_outcome (resolution_of (env_payload e)) = WontfixTracked then CHR ''8'' else CHR ''7'')]
     (env_artifact_type e) of None \<Rightarrow> CHR ''9'' | Some c \<Rightarrow> c)"

definition desk_envelope :: "string \<Rightarrow> char \<Rightarrow> string list \<Rightarrow> Value \<Rightarrow> ArtifactEnvelope" where
  "desk_envelope ty c inputs payload = \<lparr>env_artifact_type = ty, env_artifact_id = sample_digest c,
     env_content_id = sample_digest CHR ''c'',
     env_producer = KernelOperation ''run'' None (ty @ '':'' @ sample_digest CHR ''c''), env_input_artifacts = inputs,
     env_subject_snapshot_id = Some (sample_digest CHR ''e''), env_payload = payload\<rparr>"

definition desk_resolution :: "FindingResolutionOutcome \<Rightarrow> Severity option \<Rightarrow> string option \<Rightarrow> nat option \<Rightarrow> FindingResolutionV1" where
  "desk_resolution outcome severity_ceiling tracking expires =
     resolution_request ''f1'' (sample_digest CHR ''c'') (sample_digest CHR ''d'') outcome ''op'' ''p'' ''accepted'' []
       None severity_ceiling tracking expires"

definition desk_attestation :: ChangeAttestationV1 where
  "desk_attestation = \<lparr>ca_finding_id = ''f1'', ca_expected_finding_view_id = sample_digest CHR ''c'',
     ca_subject_id = sample_digest CHR ''d'', ca_change_set_id = None,
     ca_changed_regions = [\<lparr>cr_path = ''src/a.rs'', cr_start_line = None, cr_end_line = None\<rparr>],
     ca_actor = ''dev'', ca_reason = ''locked'', ca_evidence_ids = []\<rparr>"

definition desk_verification :: FixVerificationV1 where
  "desk_verification = \<lparr>fv_finding_id = ''f1'', fv_attestation_id = sample_digest CHR ''4'',
     fv_expected_finding_view_id = sample_digest CHR ''c'', fv_subject_id = sample_digest CHR ''f'',
     fv_verifier = ''checker'', fv_policy_revision = ''p'', fv_positive = False, fv_reason = ''fails'',
     fv_evidence_ids = []\<rparr>"

definition desk_filed :: "ArtifactEnvelope list" where
  "desk_filed =
     [desk_envelope ''review.kernel/FindingResolution@1'' CHR ''7'' []
        (resolution_code (desk_resolution ResolvedRejected None None None)),
      desk_envelope ''review.kernel/FindingResolution@1'' CHR ''8'' []
        (resolution_code (desk_resolution WontfixTracked (Some Minor) (Some ''T-1'') (Some 9))),
      desk_envelope ''review.kernel/ChangeAttestation@1'' CHR ''4'' [sample_digest CHR ''e''] (attestation_code desk_attestation),
      desk_envelope ''review.kernel/FixVerification@1'' CHR ''5'' [sample_digest CHR ''4''] (verification_code desk_verification)]"

definition desk_read :: "Value \<Rightarrow> ArtifactEnvelope" where
  "desk_read v = (case find (\<lambda>e. env_artifact_id e = sample_digest (sample_letter v)) desk_filed of
     None \<Rightarrow> sample_envelope (sample_letter v) | Some e \<Rightarrow> e)"

definition desk_as_round :: "Value \<Rightarrow> string + RoundStartedPayloadV1" where
  "desk_as_round v = Inr
     \<lparr>rp_round = (if sample_letter v = CHR ''2'' then 2 else 1), rp_epoch = 1, rp_campaign_manifest_id = sample_digest CHR ''b'',
      rp_subject_id = sample_digest (if sample_letter v = CHR ''2'' then CHR ''f'' else CHR ''d''),
      rp_prior_finding_set_id = sample_digest CHR ''b'', rp_prior_demand_set_id = sample_digest CHR ''b''\<rparr>"

definition desk_artifact_id :: "ArtifactEnvelope \<Rightarrow> string + string" where
  "desk_artifact_id e = Inr (sample_digest (desk_letter e))"

definition desk_as_envelope :: "Value \<Rightarrow> string + ArtifactEnvelope" where
  "desk_as_envelope v = Inr (desk_read v)"

definition desk_as_recorded :: "Value \<Rightarrow> string + RecordedArtifactPayloadV1" where
  "desk_as_recorded v = Inr \<lparr>rec_artifact_id = str_of (unpack v 0)\<rparr>"

definition desk_of_recorded :: "RecordedArtifactPayloadV1 \<Rightarrow> Value" where
  "desk_of_recorded x = packed [JString (rec_artifact_id x)]"

definition desk_as_evidence :: "Value \<Rightarrow> string + EvidenceV1" where
  "desk_as_evidence v = Inr \<lparr>ev_demand_id = str_of (unpack v 0), ev_subject_id = str_of (unpack v 1),
     ev_content_artifact_id = str_of (unpack v 2), ev_actor = str_of (unpack v 3)\<rparr>"

definition desk_of_evidence :: "EvidenceV1 \<Rightarrow> Value" where
  "desk_of_evidence x = packed [JString (ev_demand_id x), JString (ev_subject_id x), JString (ev_content_artifact_id x),
     JString (ev_actor x)]"

definition desk_as_satisfaction :: "Value \<Rightarrow> string + EvidenceSatisfactionV1" where
  "desk_as_satisfaction v = Inr \<lparr>sa_demand_id = str_of (unpack v 0), sa_evidence_id = str_of (unpack v 1),
     sa_subject_id = str_of (unpack v 2), sa_policy_revision = str_of (unpack v 3),
     sa_reason = str_of (unpack v 4)\<rparr>"

definition desk_of_satisfaction :: "EvidenceSatisfactionV1 \<Rightarrow> Value" where
  "desk_of_satisfaction x = packed [JString (sa_demand_id x), JString (sa_evidence_id x), JString (sa_subject_id x),
     JString (sa_policy_revision x), JString (sa_reason x)]"

definition desk_as_reuse :: "Value \<Rightarrow> string + EvidenceReuseAdmissionV1" where
  "desk_as_reuse v = Inr \<lparr>re_demand_id = str_of (unpack v 0), re_satisfaction_id = str_of (unpack v 1),
     re_subject_id = str_of (unpack v 2), re_actor = str_of (unpack v 3),
     re_policy_revision = str_of (unpack v 4), re_reason = str_of (unpack v 5)\<rparr>"

definition desk_of_reuse :: "EvidenceReuseAdmissionV1 \<Rightarrow> Value" where
  "desk_of_reuse x = packed [JString (re_demand_id x), JString (re_satisfaction_id x), JString (re_subject_id x),
     JString (re_actor x), JString (re_policy_revision x), JString (re_reason x)]"

definition desk_as_waiver :: "Value \<Rightarrow> string + DemandWaiverV1" where
  "desk_as_waiver v = Inr \<lparr>wa_demand_id = str_of (unpack v 0), wa_subject_id = str_of (unpack v 1),
     wa_actor = str_of (unpack v 2), wa_policy_revision = str_of (unpack v 3),
     wa_reason = str_of (unpack v 4)\<rparr>"

definition desk_of_waiver :: "DemandWaiverV1 \<Rightarrow> Value" where
  "desk_of_waiver x = packed [JString (wa_demand_id x), JString (wa_subject_id x), JString (wa_actor x),
     JString (wa_policy_revision x), JString (wa_reason x)]"

definition desk_as_grouping_event :: "Value \<Rightarrow> string + FindingGroupingEventPayloadV1" where
  "desk_as_grouping_event v = Inr \<lparr>ge_from = str_of (unpack v 0), ge_into = str_of (unpack v 1),
     ge_grouping_artifact_id = str_of (unpack v 2)\<rparr>"

definition desk_of_grouping_event :: "FindingGroupingEventPayloadV1 \<Rightarrow> Value" where
  "desk_of_grouping_event x = packed [JString (ge_from x), JString (ge_into x), JString (ge_grouping_artifact_id x)]"

definition desk_as_attestation :: "Value \<Rightarrow> string + ChangeAttestationV1" where
  "desk_as_attestation v = Inr (attestation_of v)"

definition desk_as_verification :: "Value \<Rightarrow> string + FixVerificationV1" where
  "desk_as_verification v = Inr (verification_of v)"

definition desk_as_resolution :: "Value \<Rightarrow> string + FindingResolutionV1" where
  "desk_as_resolution v = Inr (resolution_of v)"

definition desk_as_challenge :: "Value \<Rightarrow> string + ResolutionChallengeV1" where
  "desk_as_challenge v = Inr (challenge_of v)"

definition desk_as_policy_time :: "Value \<Rightarrow> string + PolicyTimeV1" where
  "desk_as_policy_time v = Inr \<lparr>pt_tick = nat_of (unpack v 0), pt_actor = str_of (unpack v 1), pt_reason = str_of (unpack v 2)\<rparr>"

definition desk_of_policy_time :: "PolicyTimeV1 \<Rightarrow> Value" where
  "desk_of_policy_time x = packed [of_nat_json (pt_tick x), JString (pt_actor x), JString (pt_reason x)]"

definition desk_as_grouping :: "Value \<Rightarrow> string + FindingGroupingV1" where
  "desk_as_grouping v = Inr \<lparr>gr_from = str_of (unpack v 0), gr_into = str_of (unpack v 1),
     gr_action = (if nat_of (unpack v 2) = 0 then Group else Ungroup), gr_round = nat_of (unpack v 3)\<rparr>"

definition desk_of_grouping :: "FindingGroupingV1 \<Rightarrow> Value" where
  "desk_of_grouping x = packed [JString (gr_from x), JString (gr_into x),
     of_nat_json (case gr_action x of Group \<Rightarrow> 0 | Ungroup \<Rightarrow> 1), of_nat_json (gr_round x)]"

definition desk_host :: Host where
  "desk_host = sample_host\<lparr>artifact_id := desk_artifact_id, as_envelope := desk_as_envelope,
     as_recorded := desk_as_recorded, as_evidence := desk_as_evidence, as_satisfaction := desk_as_satisfaction,
     as_reuse := desk_as_reuse, as_waiver := desk_as_waiver, as_attestation := desk_as_attestation,
     as_verification := desk_as_verification, as_resolution := desk_as_resolution, as_challenge := desk_as_challenge,
     as_policy_time := desk_as_policy_time, as_grouping := desk_as_grouping,
     as_grouping_event := desk_as_grouping_event, as_round_started := desk_as_round\<rparr>"

lemmas desk_codec_defs = desk_as_recorded_def desk_of_recorded_def desk_as_evidence_def desk_of_evidence_def
  desk_as_satisfaction_def desk_of_satisfaction_def desk_as_reuse_def desk_of_reuse_def desk_as_waiver_def
  desk_of_waiver_def desk_as_grouping_event_def desk_of_grouping_event_def desk_as_attestation_def
  desk_as_verification_def desk_as_resolution_def desk_as_challenge_def desk_as_policy_time_def
  desk_of_policy_time_def desk_as_grouping_def desk_of_grouping_def

definition desk_sha :: "string \<Rightarrow> string" where
  "desk_sha s = [last s]"

definition desk_publish_json :: "string \<Rightarrow> CasFailure + Value" where
  "desk_publish_json d = Inr (sample_document (last d))"

fun accept :: "'a \<Rightarrow> 'e + unit" where
  "accept x = Inr ()"

definition desk_payloads :: "EventType \<Rightarrow> Value \<Rightarrow> string + unit" where
  "desk_payloads t v = Inr ()"

definition desk_has :: "string \<Rightarrow> bool" where
  "desk_has d = True"

definition desk_file :: "ArtifactEnvelope \<Rightarrow> string + unit" where
  "desk_file e = (if e \<in> set desk_filed then Inr () else Inl ''full'')"

definition desk_closes :: "Value \<Rightarrow> string + bool" where
  "desk_closes v = Inr True"

definition desk_other :: "string \<Rightarrow> NewEvent list \<Rightarrow> RunEvent list \<Rightarrow> (StoreError, RunEvent list) res" where
  "desk_other run events rows = Err (Conflict [])"

definition desk_store :: Publisher where
  "desk_store = \<lparr>pb_host = desk_host, pb_sha = desk_sha, admit_json = accept, validate_event_payload = desk_payloads,
     publish_json = desk_publish_json, publish_bytes = accept, cas_flush = Inr (), cas_filed = desk_has,
     file_envelope = desk_file, mark_writer = Inr (), insert_row = accept, commit_rows = accept, subject_of_json = refuse, report_closes = desk_closes,
     append_other = desk_other, of_recorded = desk_of_recorded, of_evidence = desk_of_evidence,
     of_satisfaction = desk_of_satisfaction, of_reuse = desk_of_reuse, of_waiver = desk_of_waiver,
     of_attestation = attestation_code, of_verification = verification_code, of_resolution = resolution_code,
     of_challenge = challenge_code, of_policy_time = desk_of_policy_time, of_grouping = desk_of_grouping,
     of_grouping_event = desk_of_grouping_event\<rparr>"

lemma sample_digest_iff [simp]: "sample_digest c = sample_digest d \<longleftrightarrow> c = d" "last (sample_digest c) = c"
  by (auto simp: sample_digest_def)

lemma sample_letter_document [simp]: "sample_letter (sample_document c) = c"
  by (simp add: sample_letter_def sample_document_def value_get_def)

lemma desk_envelope_id [simp]: "env_artifact_id (desk_envelope ty c inputs payload) = sample_digest c"
  by (simp add: desk_envelope_def)

lemma desk_read_filed:
  assumes "e \<in> set desk_filed"
  shows "desk_read (sample_document (last (env_artifact_id e))) = e"
proof -
  obtain a b c d where filed: "desk_filed = [a, b, c, d]"
    and ids: "env_artifact_id a = sample_digest CHR ''7''" "env_artifact_id b = sample_digest CHR ''8''"
    "env_artifact_id c = sample_digest CHR ''4''" "env_artifact_id d = sample_digest CHR ''5''"
    unfolding desk_filed_def using desk_envelope_id by blast
  from assms have "e = a \<or> e = b \<or> e = c \<or> e = d" unfolding filed by simp
  then show ?thesis unfolding desk_read_def filed by (elim disjE) (simp_all add: ids)
qed

lemma desk_host_reads:
  "get_json desk_host i = Inr (sample_document (last i))" "as_envelope desk_host v = Inr (desk_read v)"
  by (simp_all add: desk_host_def sample_host_def sample_get_json_def desk_as_envelope_def)

lemma desk_store_fields:
  "pb_host desk_store = desk_host" "file_envelope desk_store e = (if e \<in> set desk_filed then Inr () else Inl ''full'')"
  by (simp_all add: desk_store_def desk_file_def)

lemma desk_store_reliable: "reliable desk_store"
  unfolding reliable_def desk_store_fields
proof (intro conjI allI impI, goal_cases)
  case (1 e)
  then have "e \<in> set desk_filed" by (simp split: if_splits)
  then show ?case using desk_read_filed desk_host_reads by simp
next
  case (2 d v)
  then show ?case using desk_host_reads(1) by (simp add: desk_store_def desk_publish_json_def)
next
  case (13 x)
  show ?case by (cases "gr_action x") (simp_all add: desk_store_def desk_host_def desk_codec_defs)
qed (simp_all add: desk_store_def desk_host_def desk_codec_defs)

subsection \<open>The logs\<close>

definition desk_row :: "nat \<Rightarrow> EventType \<Rightarrow> string option \<Rightarrow> string option \<Rightarrow> string list \<Rightarrow> Value \<Rightarrow> RunEvent" where
  "desk_row n t causation correlation refs payload =
     row_of desk_sha ''run'' n ((new_event t payload)\<lparr>ne_causation_id := causation, ne_correlation_id := correlation,
       ne_artifact_refs := refs\<rparr>)"

definition desk_log :: "RunEvent list" where
  "desk_log =
     [desk_row 0 CampaignOpenedV1 None None [] JNull, desk_row 1 RoundStartedV1 None None [] JNull,
      desk_row 2 FindingReportedV1 (Some (derive_event_id desk_sha ''run'' 1)) (Some ''f1'') [sample_digest CHR ''1'']
        (re_payload (sample_reported 2 ''f1'' CHR ''1'')),
      desk_row 3 RunReportV6 (Some (derive_event_id desk_sha ''run'' 1)) None [] JNull]"

definition second_round_log :: "RunEvent list" where
  "second_round_log = desk_log @
     [desk_row 4 ChangeAttestedV1 None (Some ''f1'') [sample_digest CHR ''4''] (desk_of_recorded \<lparr>rec_artifact_id = sample_digest CHR ''4''\<rparr>),
      desk_row 5 RoundStartedV1 None None [] (sample_document CHR ''2''),
      desk_row 6 RunReportV6 (Some (derive_event_id desk_sha ''run'' 5)) None [] JNull]"

definition desk :: "RunEvent list \<Rightarrow> Ingest" where
  "desk rows = the_ok (ingest_new desk_store ''run'' rows)"

text \<open>What the witnesses need of the two projections, read off in one evaluation each.\<close>

fun ledger_facts :: "(StoreError, LedgerProjection) res \<Rightarrow> (string option \<times> string option \<times> string option \<times> bool \<times> nat \<times> bool) option" where
  "ledger_facts (Ok p) = Some (active_subject_id (lp_ledger p), active_head_snapshot_id (lp_ledger p),
     finding_view_id desk_host (lp_ledger p) ''f1'', Option.is_none (resolution (lp_ledger p) ''f1''), policy_time (lp_ledger p),
     ceiling_covers (lp_ledger p) ''f1'' (Some Minor))"
| "ledger_facts _ = None"

fun attestation_facts :: "(StoreError, LedgerProjection) res
    \<Rightarrow> (string option \<times> string option \<times> string option \<times> (string \<times> string) option \<times> bool) option" where
  "attestation_facts (Ok p) = Some (active_subject_id (lp_ledger p), active_head_snapshot_id (lp_ledger p),
     finding_view_id desk_host (lp_ledger p) ''f1'',
     map_option (\<lambda>a. (ca_finding_id (rat_attestation a), rat_record_id a)) (bm_get (attestations (lp_ledger p)) (sample_digest CHR ''4'')),
     attestation_current (lp_ledger p) (sample_digest CHR ''4''))"
| "attestation_facts _ = None"

lemma desk_first: "ledger_facts (from_events desk_host ''run'' desk_log) =
  Some (Some (sample_digest CHR ''d''), Some (sample_digest CHR ''e''), Some (sample_digest CHR ''c''), True, 0, False)"
  by code_simp

lemma desk_second: "attestation_facts (from_events desk_host ''run'' second_round_log) =
  Some (Some (sample_digest CHR ''f''), Some (sample_digest CHR ''e''), Some (sample_digest CHR ''c''),
    Some (''f1'', sample_digest CHR ''4''), False)"
  by code_simp

lemma desk_replayed: "is_ok (replay_rows desk_store ''run'' 0 second_round_log)"
  by code_simp

lemma facts_ok: "ledger_facts r = Some f \<Longrightarrow> is_ok r" "attestation_facts r = Some g \<Longrightarrow> is_ok r"
  by (cases r; simp)+

lemma desk_opened:
  "ingest_new desk_store ''run'' desk_log = Ok (desk desk_log)"
  "ingest_new desk_store ''run'' second_round_log = Ok (desk second_round_log)"
proof -
  have opened: "ingest_new desk_store ''run'' rows = Ok (desk rows)"
    if "is_ok (replay_rows desk_store ''run'' 0 rows)" "is_ok (from_events desk_host ''run'' rows)" for rows
  proof -
    from that obtain p where "rebuild desk_store ''run'' rows = Ok p"
      by (auto simp: rebuild_def is_ok_iff desk_store_fields(1))
    then show ?thesis unfolding desk_def by (intro is_ok_the_ok) (simp add: ingest_new_def)
  qed
  have "is_ok (replay_rows desk_store ''run'' 0 desk_log)"
    using desk_replayed unfolding second_round_log_def replay_rows_append is_ok_iff and_then_eq_Ok by blast
  from opened [OF this facts_ok(1) [OF desk_first]] show "ingest_new desk_store ''run'' desk_log = Ok (desk desk_log)" .
  from opened [OF desk_replayed facts_ok(2) [OF desk_second]]
  show "ingest_new desk_store ''run'' second_round_log = Ok (desk second_round_log)" .
qed

lemma desk_fields:
  "ig_run_id (desk desk_log) = ''run'' \<and> ig_rows (desk desk_log) = desk_log"
  "ig_run_id (desk second_round_log) = ''run'' \<and> ig_rows (desk second_round_log) = second_round_log"
proof -
  have "ig_run_id ig = run \<and> ig_rows ig = rows" if "ingest_new pb run rows = Ok ig" for pb run rows ig
    using that by (auto simp: ingest_new_def and_then_eq_Ok)
  from this [OF desk_opened(1)] this [OF desk_opened(2)]
  show "ig_run_id (desk desk_log) = ''run'' \<and> ig_rows (desk desk_log) = desk_log"
    "ig_run_id (desk second_round_log) = ''run'' \<and> ig_rows (desk second_round_log) = second_round_log" .
qed

text \<open>The log after a verb, from its parts: what is filed and what the store appends.\<close>

lemma append_rows: "ig_rows (fst (append_and_apply pb event ig)) = fst (append_one pb (ig_run_id ig) event (ig_rows ig))"
  by (auto simp: append_and_apply_def proceed_def guard_def split: prod.splits res.splits)

lemma publish_rows:
  assumes "content_id (pb_host pb) payload = Inr content" "active_head_snapshot_id (ig_ledger ig) = Some snapshot"
    "put_artifact pb ty (KernelOperation (ig_run_id ig) None (ty @ '':'' @ content)) inputs (Some snapshot) payload =
      Ok (name, envelope)"
  shows "ig_rows (fst (publish_operator_artifact pb ty t correlation inputs payload ig)) =
    fst (append_one pb (ig_run_id ig) (recorded_event pb t correlation name) (ig_rows ig))"
proof -
  obtain ig1 r1 where app: "append_and_apply pb (recorded_event pb t correlation name) ig = (ig1, r1)"
    by (cases "append_and_apply pb (recorded_event pb t correlation name) ig")
  show ?thesis
    using assms app append_rows [of pb "recorded_event pb t correlation name" ig]
    by (cases r1) (simp_all add: publish_operator_artifact_def guard_def proceed_def)
qed

subsection \<open>Three verbs on the logs\<close>

definition desk_ledger :: "RunEvent list \<Rightarrow> Ledger" where
  "desk_ledger rows = lp_ledger (the_ok (from_events desk_host ''run'' rows))"

lemma desk_ledger_eq:
  "ig_ledger (desk desk_log) = desk_ledger desk_log" "ig_ledger (desk second_round_log) = desk_ledger second_round_log"
proof -
  have "ig_ledger ig = desk_ledger rows" if ok: "ingest_new desk_store ''run'' rows = Ok ig" for rows ig
  proof -
    from ok obtain p where "from_events desk_host ''run'' rows = Ok p" "ig_ledger ig = lp_ledger p"
      unfolding ingest_new_def rebuild_def and_then_eq_Ok desk_store_fields(1) by fastforce
    then show ?thesis by (simp add: desk_ledger_def)
  qed
  from this [OF desk_opened(1)] this [OF desk_opened(2)]
  show "ig_ledger (desk desk_log) = desk_ledger desk_log" "ig_ledger (desk second_round_log) = desk_ledger second_round_log" .
qed

lemma facts_of_ledger:
  "ledger_facts (from_events desk_host ''run'' rows) = Some (subject, head, view, unresolved, time, covers) \<Longrightarrow>
   active_subject_id (desk_ledger rows) = subject \<and> active_head_snapshot_id (desk_ledger rows) = head \<and>
   finding_view_id desk_host (desk_ledger rows) ''f1'' = view \<and>
   Option.is_none (resolution (desk_ledger rows) ''f1'') = unresolved \<and> policy_time (desk_ledger rows) = time \<and>
   ceiling_covers (desk_ledger rows) ''f1'' (Some Minor) = covers"
  by (cases "from_events desk_host ''run'' rows") (simp_all add: desk_ledger_def)

lemma facts_of_attestation:
  "attestation_facts (from_events desk_host ''run'' rows) = Some (subject, head, view, recorded, current) \<Longrightarrow>
   active_subject_id (desk_ledger rows) = subject \<and> active_head_snapshot_id (desk_ledger rows) = head \<and>
   finding_view_id desk_host (desk_ledger rows) ''f1'' = view \<and>
   map_option (\<lambda>a. (ca_finding_id (rat_attestation a), rat_record_id a))
     (bm_get (attestations (desk_ledger rows)) (sample_digest CHR ''4'')) = recorded \<and>
   attestation_current (desk_ledger rows) (sample_digest CHR ''4'') = current"
  by (cases "from_events desk_host ''run'' rows") (simp_all add: desk_ledger_def)

lemmas desk_facts = facts_of_ledger [OF desk_first] facts_of_attestation [OF desk_second]

lemma desk_documents:
  "validate_resolution (desk_resolution ResolvedRejected None None None) = Ok ()"
  "validate_resolution (desk_resolution WontfixTracked (Some Minor) (Some ''T-1'') (Some 9)) = Ok ()"
  "validate_verification desk_verification = Ok ()"
  by code_simp+

lemma desk_puts:
  "put_artifact desk_store ''review.kernel/FindingResolution@1''
     (KernelOperation ''run'' None (''review.kernel/FindingResolution@1'' @ '':'' @ sample_digest CHR ''c''))
     [] (Some (sample_digest CHR ''e'')) (resolution_code (desk_resolution ResolvedRejected None None None)) =
   Ok (sample_digest CHR ''7'', desk_filed ! 0)"
  "put_artifact desk_store ''review.kernel/FindingResolution@1''
     (KernelOperation ''run'' None (''review.kernel/FindingResolution@1'' @ '':'' @ sample_digest CHR ''c''))
     [] (Some (sample_digest CHR ''e''))
     (resolution_code (desk_resolution WontfixTracked (Some Minor) (Some ''T-1'') (Some 9))) =
   Ok (sample_digest CHR ''8'', desk_filed ! 1)"
  "put_artifact desk_store ''review.kernel/FixVerification@1''
     (KernelOperation ''run'' None (''review.kernel/FixVerification@1'' @ '':'' @ sample_digest CHR ''c''))
     [sample_digest CHR ''4''] (Some (sample_digest CHR ''e'')) (verification_code desk_verification) =
   Ok (sample_digest CHR ''5'', desk_filed ! 3)"
  by code_simp+

lemma desk_append_rejected:
  "length (fst (append_one desk_store ''run''
     (recorded_event desk_store FindingResolutionRecordedV1 ''f1'' (sample_digest CHR ''7'')) desk_log)) = 5"
  by code_simp

lemma desk_append_accepted:
  "length (fst (append_one desk_store ''run''
     (recorded_event desk_store FindingResolutionRecordedV1 ''f1'' (sample_digest CHR ''8'')) desk_log)) = 5"
  by code_simp

lemma desk_append_verified:
  "length (fst (append_one desk_store ''run''
     (recorded_event desk_store FixVerifiedV1 ''f1'' (sample_digest CHR ''5'')) second_round_log)) = 8"
  by code_simp

lemma desk_store_calls:
  "content_id (pb_host desk_store) v = Inr (sample_digest CHR ''c'')" "of_resolution desk_store = resolution_code"
  "of_verification desk_store = verification_code"
  by (simp_all add: desk_store_def desk_host_def sample_host_def sample_content_id_def)

lemma desk_resolves:
  assumes "outcome \<noteq> ResolvedFixed" "\<not> is_some_and expires (\<lambda>e. e \<le> 0)"
    "validate_resolution (desk_resolution outcome severity_ceiling tracking expires) = Ok ()"
  shows "resolve_nonfixed desk_store ''f1'' outcome ''op'' ''p'' ''accepted'' [] severity_ceiling tracking expires (desk desk_log) =
    publish_operator_artifact desk_store ''review.kernel/FindingResolution@1'' FindingResolutionRecordedV1 ''f1'' []
      (resolution_code (desk_resolution outcome severity_ceiling tracking expires)) (desk desk_log)"
proof -
  have state: "active_subject_id (desk_ledger desk_log) = Some (sample_digest CHR ''d'')"
    "finding_view_id desk_host (desk_ledger desk_log) ''f1'' = Some (sample_digest CHR ''c'')"
    "resolution (desk_ledger desk_log) ''f1'' = None" "policy_time (desk_ledger desk_log) = 0"
    using desk_facts(1) by (simp_all only: Option.is_none_def simp_thms)
  show ?thesis
    using assms unfolding desk_resolution_def resolution_request_def
    by (simp add: resolve_nonfixed_def guard_def desk_store_fields(1) desk_store_calls desk_ledger_eq(1) state)
qed

lemma desk_verifies:
  "verify_fix desk_store ''f1'' (sample_digest CHR ''4'') ''checker'' ''p'' False ''fails'' [] (desk second_round_log) =
    proceed (publish_operator_artifact desk_store ''review.kernel/FixVerification@1'' FixVerifiedV1 ''f1''
      [sample_digest CHR ''4''] (verification_code desk_verification) (desk second_round_log))
      (\<lambda>verification_id ig. (ig, Ok (verification_id, None)))"
proof -
  obtain a where a: "bm_get (attestations (desk_ledger second_round_log)) (sample_digest CHR ''4'') = Some a"
    "ca_finding_id (rat_attestation a) = ''f1''" "rat_record_id a = sample_digest CHR ''4''"
    using desk_facts(2) by (auto simp only: map_option_eq_Some prod.inject)
  have state: "active_subject_id (desk_ledger second_round_log) = Some (sample_digest CHR ''f'')"
    "finding_view_id desk_host (desk_ledger second_round_log) ''f1'' = Some (sample_digest CHR ''c'')"
    using desk_facts(2) by (simp_all only: simp_thms)
  show ?thesis
    using a state desk_documents(3)
    by (simp add: verify_fix_def guard_def desk_store_fields(1) desk_store_calls desk_ledger_eq(2) desk_verification_def)
qed

lemma desk_published:
  assumes "put_artifact desk_store ty (KernelOperation ''run'' None (ty @ '':'' @ sample_digest CHR ''c'')) inputs
    (Some (sample_digest CHR ''e'')) payload = Ok (name, envelope)"
    "active_head_snapshot_id (ig_ledger ig) = Some (sample_digest CHR ''e'')" "ig_run_id ig = ''run''"
  shows "ig_rows (fst (publish_operator_artifact desk_store ty t correlation inputs payload ig)) =
    fst (append_one desk_store ''run'' (recorded_event desk_store t correlation name) (ig_rows ig))"
  using publish_rows [OF desk_store_calls(1) assms(2), of ty inputs payload name envelope t correlation] assms(1,3) by simp

lemma desk_snapshots:
  "active_head_snapshot_id (ig_ledger (desk desk_log)) = Some (sample_digest CHR ''e'')"
  "active_head_snapshot_id (ig_ledger (desk second_round_log)) = Some (sample_digest CHR ''e'')"
  using desk_facts by (simp_all only: desk_ledger_eq)

lemma desk_rejected_rows:
  "length (ig_rows (fst (resolve_nonfixed desk_store ''f1'' ResolvedRejected ''op'' ''p'' ''accepted'' [] None None None
     (desk desk_log)))) = 5"
  using desk_published [OF desk_puts(1) desk_snapshots(1)] desk_fields(1) desk_append_rejected
    desk_resolves [OF _ _ desk_documents(1)] by simp

lemma desk_accepted_rows:
  "length (ig_rows (fst (resolve_nonfixed desk_store ''f1'' WontfixTracked ''op'' ''p'' ''accepted'' [] (Some Minor)
     (Some ''T-1'') (Some 9) (desk desk_log)))) = 5"
  using desk_published [OF desk_puts(2) desk_snapshots(1)] desk_fields(1) desk_append_accepted
    desk_resolves [OF _ _ desk_documents(2)] by simp

lemma desk_verified_rows:
  "length (ig_rows (fst (verify_fix desk_store ''f1'' (sample_digest CHR ''4'') ''checker'' ''p'' False ''fails'' []
     (desk second_round_log)))) = 8"
proof -
  have proceed_rows: "ig_rows (fst (proceed outcome (\<lambda>i ig. (ig, Ok (i, None))))) = ig_rows (fst outcome)"
    for outcome :: "Ingest \<times> (StoreError, string) res"
    by (auto simp: proceed_def split: prod.splits res.splits)
  show ?thesis
    using desk_published [OF desk_puts(3) desk_snapshots(2)] desk_fields(2) desk_append_verified
    unfolding desk_verifies proceed_rows by simp
qed

subsection \<open>A satisfaction of another Subject\<close>

definition old_satisfaction :: RecordedSatisfaction where
  "old_satisfaction = \<lparr>rsa_record_id = sample_digest CHR ''2'', rsa_artifact_id = sample_digest CHR ''3'',
     rsa_satisfaction = \<lparr>sa_demand_id = ''load'', sa_evidence_id = sample_digest CHR ''1'',
       sa_subject_id = sample_digest CHR ''f'', sa_policy_revision = ''p'', sa_reason = ''measured''\<rparr>\<rparr>"

definition old_demand :: DemandRecord where
  "old_demand = \<lparr>dr_demand = \<lparr>dm_demand_id = ''load'', dm_claim = ''fast'', dm_why = ''hot path'',
       dm_suggested_method = ''bench'', dm_source = ''perf'', dm_requirement = Required, dm_round = 1,
       dm_subject_id = sample_digest CHR ''f''\<rparr>,
     dr_record_ids = [sample_digest CHR ''2''], dr_artifact_ids = [sample_digest CHR ''2''], dr_evidence = [],
     dr_satisfactions = [old_satisfaction], dr_reuse_admissions = [], dr_waivers = []\<rparr>"

definition stale_desk :: Ingest where
  "stale_desk = (desk desk_log)\<lparr>ig_ledger := (desk_ledger desk_log)\<lparr>demands := bm_insert ''load'' old_demand bm_empty\<rparr>\<rparr>"

definition first_round :: RoundStartedPayloadV1 where
  "first_round = \<lparr>rp_round = 1, rp_epoch = 1, rp_campaign_manifest_id = sample_digest CHR ''b'',
     rp_subject_id = sample_digest CHR ''d'', rp_prior_finding_set_id = sample_digest CHR ''b'',
     rp_prior_demand_set_id = sample_digest CHR ''b''\<rparr>"

lemma stale_round:
  "latest_round desk_store (ig_rows stale_desk) = Ok (Some (derive_event_id desk_sha ''run'' 1, first_round))"
proof -
  have "ig_rows stale_desk = desk_log" using desk_fields(1) by (simp add: stale_desk_def)
  moreover have "sample_letter JNull = CHR ''0''" by (simp add: sample_letter_def value_get_def)
  ultimately show ?thesis
    by (simp add: latest_round_def desk_log_def desk_row_def row_of_def new_event_def desk_store_def desk_host_def
        desk_as_round_def first_round_def)
qed

lemma stale_demand:
  "bm_get (demands (ig_ledger stale_desk)) ''load'' = Some old_demand"
  "find (\<lambda>s. rsa_artifact_id s = sample_digest CHR ''3'') (dr_satisfactions old_demand) = Some old_satisfaction"
  "sa_subject_id (rsa_satisfaction old_satisfaction) \<noteq> rp_subject_id first_round"
  by (simp_all add: stale_desk_def old_demand_def old_satisfaction_def first_round_def)

end
