(* ===== verification/IngestProperties.thy ===== *)
theory IngestProperties
  imports IngestSample
begin

text \<open>
  What the Findings Ledger writer promises over whole runs of operator verbs, the two verbs that can
  leave a log nobody can open, and the reuse of evidence the store never admits. They are applied to the store and the logs of \<open>IngestSample\<close>.
\<close>

text \<open>
  C6: Whatever verbs an operator runs and however each ends, the log only grows and can be opened
  again: rebuilding the run from it gives exactly the ledger and the event count the writer holds.
  The content store gives back what was filed and documents decode to what was encoded; a tracked
  wontfix carries a ceiling that covers the Finding, and a verification an Attestation of the active Subject.
\<close>

theorem operator_log_replays:
  assumes "reliable pb" "ingest_new pb run rows = Ok ig" "(operator_step pb)\<^sup>*\<^sup>* ig ig'"
  shows "prefix rows (ig_rows ig') \<and> rebuild pb run (ig_rows ig') =
    Ok \<lparr>lp_run_id = run, lp_event_count = length (ig_rows ig'), lp_ledger = ig_ledger ig'\<rparr>"
proof -
  have start: "in_step pb ig" "ig_run_id ig = run" "ig_rows ig = rows"
    using assms(2) opened_in_step by (auto simp: ingest_new_def and_then_eq_Ok)
  have last_sync: "in_step pb ig'" using desk.steps_inv [OF _ assms(3)] assms(1) start(1) by blast
  have "continues ig ig'" by (rule operator_steps_continue [OF assms(3,1) start(1)])
  then show ?thesis
    using last_sync in_stepD(3) [OF last_sync] start by (simp add: in_step_def projection_of_def continues_def)
qed

definition rejecting :: "Ingest \<times> (StoreError, string) res" where
  "rejecting = resolve_nonfixed desk_store ''f1'' ResolvedRejected ''op'' ''p'' ''accepted'' [] None None None (desk desk_log)"

theorem operator_log_replays_witness:
  "length (ig_rows (fst rejecting)) = 5 \<and> prefix desk_log (ig_rows (fst rejecting)) \<and>
   rebuild desk_store ''run'' (ig_rows (fst rejecting)) =
     Ok \<lparr>lp_run_id = ''run'', lp_event_count = length (ig_rows (fst rejecting)), lp_ledger = ig_ledger (fst rejecting)\<rparr>"
proof -
  have "(operator_step desk_store)\<^sup>*\<^sup>* (desk desk_log) (fst rejecting)"
    unfolding rejecting_def by (rule r_into_rtranclp, rule operator_step.resolves) simp
  from operator_log_replays [OF desk_store_reliable desk_opened(1) this] show ?thesis
    using desk_rejected_rows [folded rejecting_def] by blast
qed

text \<open>
  C25: A tracked wontfix whose severity ceiling is below the Finding's current severity, once it
  reaches the log, fails and leaves the run unreadable: no log that starts with what was written can be replayed.
\<close>

theorem low_ceiling_poisons_log:
  assumes rel: "reliable pb" and sync: "in_step pb ig" and low: "\<not> ceiling_covers (ig_ledger ig) finding_id severity_ceiling"
    and run: "resolve_nonfixed pb finding_id WontfixTracked actor policy_revision reason evidence_ids
      severity_ceiling tracking expires ig = (ig', r)" "ig_rows ig' \<noteq> ig_rows ig"
  shows "\<not> is_ok r \<and> \<not> is_ok (rebuild pb (ig_run_id ig) (ig_rows ig' @ later_rows))"
proof -
  let ?res = "\<lambda>view subject. resolution_request finding_id view subject WontfixTracked actor policy_revision reason
    evidence_ids None severity_ceiling tracking expires"
  obtain subject view where path: "active_subject_id (ig_ledger ig) = Some subject"
    "finding_view_id (pb_host pb) (ig_ledger ig) finding_id = Some view"
    "validate_resolution (?res view subject) = Ok ()"
    "publish_operator_artifact pb ''review.kernel/FindingResolution@1'' FindingResolutionRecordedV1 finding_id
      [] (of_resolution pb (?res view subject)) ig = (ig', r)"
    using run unfolding resolve_nonfixed_def Let_def resolution_request_def [symmetric]
    by (auto elim!: guard_moved split: option.splits if_splits)
  have "apply_typed (pb_host pb) FindingResolutionRecordedV1 (of_recorded pb \<lparr>rec_artifact_id = name\<rparr>) [name] (ig_ledger ig) =
      Err (malformed ''FindingResolutionRecorded@1'' ''tracked-wontfix severity ceiling is below the current Finding severity'')"
    if "filed_as pb ''review.kernel/FindingResolution@1'' FindingResolutionRecordedV1 (of_resolution pb (?res view subject))
      (ig_ledger ig) name envelope" for name envelope
    by (rule unread_ceiling_refused [OF rel that]) (use path low in \<open>simp_all add: resolution_request_def\<close>)
  from publish_refused [OF rel sync _ path(4) run(2) this, where later_rows = later_rows] show ?thesis by simp
qed

definition accepting :: "Ingest \<times> (StoreError, string) res" where
  "accepting = resolve_nonfixed desk_store ''f1'' WontfixTracked ''op'' ''p'' ''accepted'' [] (Some Minor) (Some ''T-1'')
     (Some 9) (desk desk_log)"

theorem low_ceiling_poisons_log_witness:
  "length desk_log = 4 \<and> length (ig_rows (fst accepting)) = 5 \<and> \<not> is_ok (snd accepting) \<and>
   \<not> is_ok (rebuild desk_store ''run'' (ig_rows (fst accepting)))"
proof -
  have before: "length desk_log = 4" by (simp add: desk_log_def)
  have low: "\<not> ceiling_covers (ig_ledger (desk desk_log)) ''f1'' (Some Minor)"
    using desk_facts(1) unfolding desk_ledger_eq by blast
  have moved: "ig_rows (fst accepting) \<noteq> ig_rows (desk desk_log)"
    using before desk_accepted_rows [folded accepting_def] desk_fields(1) by auto
  have "resolve_nonfixed desk_store ''f1'' WontfixTracked ''op'' ''p'' ''accepted'' [] (Some Minor) (Some ''T-1'')
      (Some 9) (desk desk_log) = (fst accepting, snd accepting)"
    by (simp add: accepting_def)
  from low_ceiling_poisons_log [OF desk_store_reliable opened_in_step [OF desk_opened(1)] low this moved, of "[]"]
  show ?thesis using before desk_accepted_rows [folded accepting_def] desk_fields(1) by simp
qed

text \<open>
  C26: Verifying a fix on an Attestation of an earlier Subject, once it reaches the log, fails and
  leaves the run unreadable: no log that starts with what was written can be replayed.
\<close>

theorem stale_attestation_poisons_log:
  assumes rel: "reliable pb" and sync: "in_step pb ig" and stale: "\<not> attestation_current (ig_ledger ig) attestation_id"
    and run: "verify_fix pb finding_id attestation_id verifier policy_revision is_positive reason evidence_ids ig = (ig', r)"
      "ig_rows ig' \<noteq> ig_rows ig"
  shows "\<not> is_ok r \<and> \<not> is_ok (rebuild pb (ig_run_id ig) (ig_rows ig' @ later_rows))"
proof -
  define make where "make = (\<lambda>view subject. \<lparr>fv_finding_id = finding_id, fv_attestation_id = attestation_id,
    fv_expected_finding_view_id = view, fv_subject_id = subject, fv_verifier = verifier,
    fv_policy_revision = policy_revision, fv_positive = is_positive, fv_reason = reason, fv_evidence_ids = evidence_ids\<rparr>)"
  obtain a subject view rest where path: "bm_get (attestations (ig_ledger ig)) attestation_id = Some a"
    "active_subject_id (ig_ledger ig) = Some subject"
    "finding_view_id (pb_host pb) (ig_ledger ig) finding_id = Some view" "validate_verification (make view subject) = Ok ()"
    "proceed (publish_operator_artifact pb ''review.kernel/FixVerification@1'' FixVerifiedV1 finding_id
      [rat_record_id a] (of_verification pb (make view subject)) ig) rest = (ig', r)"
    using run unfolding verify_fix_def Let_def
    by (auto simp: make_def elim!: guard_moved split: if_splits)
  let ?publish = "publish_operator_artifact pb ''review.kernel/FixVerification@1'' FixVerifiedV1 finding_id
      [rat_record_id a] (of_verification pb (make view subject)) ig"
  obtain ig1 r1 where pub: "?publish = (ig1, r1)" by (cases ?publish)
  have refused: "apply_typed (pb_host pb) FixVerifiedV1 (of_recorded pb \<lparr>rec_artifact_id = name\<rparr>) [name] (ig_ledger ig) =
      Err (malformed ''FixVerified@1'' ''verification does not cover its Attestation and active Subject'')"
    if "filed_as pb ''review.kernel/FixVerification@1'' FixVerifiedV1 (of_verification pb (make view subject))
      (ig_ledger ig) name envelope" for name envelope
    by (rule stale_attestation_refused [OF rel that]) (use path stale in \<open>simp_all add: make_def\<close>)
  have failed: "\<not> is_ok r1"
  proof
    assume "is_ok r1"
    then obtain name where "?publish = (ig1, Ok name)" using pub by (auto simp: is_ok_iff)
    from publish_Ok [OF rel sync _ this] obtain envelope where
      "filed_as pb ''review.kernel/FixVerification@1'' FixVerifiedV1 (of_verification pb (make view subject)) (ig_ledger ig) name envelope"
      "apply_typed (pb_host pb) FixVerifiedV1 (of_recorded pb \<lparr>rec_artifact_id = name\<rparr>) [name] (ig_ledger ig) = Ok (ig_ledger ig1)"
      by auto
    then show False using refused by simp
  qed
  have "ig' = ig1 \<and> \<not> is_ok r" using failed path(5) unfolding pub by (cases r1) (auto simp: proceed_def)
  then show ?thesis using publish_refused [OF rel sync _ pub _ refused, where later_rows = later_rows] run(2) by simp
qed

definition verifying :: "Ingest \<times> (StoreError, string \<times> string option) res" where
  "verifying = verify_fix desk_store ''f1'' (sample_digest CHR ''4'') ''checker'' ''p'' False ''fails'' [] (desk second_round_log)"

theorem stale_attestation_poisons_log_witness:
  "length second_round_log = 7 \<and> length (ig_rows (fst verifying)) = 8 \<and> \<not> is_ok (snd verifying) \<and>
   \<not> is_ok (rebuild desk_store ''run'' (ig_rows (fst verifying)))"
proof -
  have before: "length second_round_log = 7" by (simp add: second_round_log_def desk_log_def)
  have stale: "\<not> attestation_current (ig_ledger (desk second_round_log)) (sample_digest CHR ''4'')"
    using desk_facts(2) unfolding desk_ledger_eq by blast
  have moved: "ig_rows (fst verifying) \<noteq> ig_rows (desk second_round_log)"
    using before desk_verified_rows [folded verifying_def] desk_fields(2) by auto
  have "verify_fix desk_store ''f1'' (sample_digest CHR ''4'') ''checker'' ''p'' False ''fails'' [] (desk second_round_log) =
      (fst verifying, snd verifying)"
    by (simp add: verifying_def)
  from stale_attestation_poisons_log [OF desk_store_reliable opened_in_step [OF desk_opened(2)] stale this moved, of "[]"]
  show ?thesis using before desk_verified_rows [folded verifying_def] desk_fields(2) by simp
qed

text \<open>
  C27: An admitted reuse is meant to take a stale Demand back to satisfied, but a satisfaction
  recorded for another Subject than that of the latest Round can never be admitted again: the verb
  fails and changes nothing, because it names the Subject of the satisfaction where the store asks for the active one.
\<close>

theorem reuse_across_subjects_refused:
  assumes rel: "reliable pb" and demand: "bm_get (demands (ig_ledger ig)) demand_id = Some demand"
    and found: "find (\<lambda>s. rsa_artifact_id s = satisfaction_id) (dr_satisfactions demand) = Some satisfaction"
    and round: "latest_round pb (ig_rows ig) = Ok (Some (round_event, active))"
    and other: "sa_subject_id (rsa_satisfaction satisfaction) \<noteq> rp_subject_id active"
    and run: "admit_evidence_reuse pb demand_id satisfaction_id actor policy_revision reason ig = (ig', r)"
  shows "ig' = ig \<and> \<not> is_ok r"
proof -
  define x where "x = \<lparr>re_demand_id = demand_id, re_satisfaction_id = satisfaction_id,
    re_subject_id = sa_subject_id (rsa_satisfaction satisfaction), re_actor = actor,
    re_policy_revision = policy_revision, re_reason = reason\<rparr>"
  have subject: "re_subject_id x \<noteq> rp_subject_id active" using other by (simp add: x_def)
  have outcome: "(ig', r) = guard (wrap_err Conflict (validate_reuse x)) (\<lambda>_.
      publish_operator_artifact pb ''review.kernel/EvidenceReuseAdmission@1'' EvidenceReuseAdmittedV1 demand_id
        [rsa_record_id satisfaction] (of_reuse pb x) ig) ig"
    unfolding run [symmetric] using demand found by (simp add: admit_evidence_reuse_def guard_def x_def Let_def)
  show ?thesis
  proof (cases "validate_reuse x")
    case (Ok u)
    then have publish: "publish_operator_artifact pb ''review.kernel/EvidenceReuseAdmission@1'' EvidenceReuseAdmittedV1 demand_id
        [rsa_record_id satisfaction] (of_reuse pb x) ig = (ig', r)"
      using outcome by (simp add: guard_def)
    from rel publish show ?thesis
    proof (cases rule: publish_cases)
      case (filed name envelope r0)
      let ?event = "recorded_event pb EvidenceReuseAdmittedV1 demand_id name"
      obtain rows appended where one: "append_one pb (ig_run_id ig) ?event (ig_rows ig) = (rows, appended)"
        by (cases "append_one pb (ig_run_id ig) ?event (ig_rows ig)")
      have "\<not> is_ok appended"
      proof
        assume "is_ok appended"
        then obtain row where "append_one pb (ig_run_id ig) ?event (ig_rows ig) = (rows, Ok row)"
          using one by (auto simp: is_ok_iff)
        then obtain prep bound_id where "prepare_event_artifacts pb [?event] = Ok prep"
          "evidence_binding pb prep ?event = Ok (bound_id, rp_subject_id active)"
          by (rule admitted_evidence) (use round in auto)
        from prepared_reuse [OF rel filed(1) this] subject show False by simp
      qed
      moreover from this have "rows = ig_rows ig" using append_one_fails [OF one] by simp
      ultimately show ?thesis
        using filed(2,3) one by (cases appended) (auto simp: append_and_apply_def proceed_def)
    qed simp
  qed (use outcome in \<open>simp_all add: guard_def\<close>)
qed

theorem reuse_across_subjects_refused_witness:
  "\<not> is_ok (snd (admit_evidence_reuse desk_store ''load'' (sample_digest CHR ''3'') ''op'' ''p'' ''still valid'' stale_desk)) \<and>
   ig_rows (fst (admit_evidence_reuse desk_store ''load'' (sample_digest CHR ''3'') ''op'' ''p'' ''still valid'' stale_desk)) = desk_log"
proof -
  obtain ig' r where out: "admit_evidence_reuse desk_store ''load'' (sample_digest CHR ''3'') ''op'' ''p'' ''still valid'' stale_desk = (ig', r)"
    by (cases "admit_evidence_reuse desk_store ''load'' (sample_digest CHR ''3'') ''op'' ''p'' ''still valid'' stale_desk")
  have "ig' = stale_desk \<and> \<not> is_ok r"
    by (rule reuse_across_subjects_refused [OF desk_store_reliable stale_demand(1,2) stale_round stale_demand(3) out])
  moreover have "ig_rows stale_desk = desk_log" using desk_fields(1) by (simp add: stale_desk_def)
  ultimately show ?thesis using out by simp
qed

end
